(* ===== verification/Prelude.thy ===== *)
theory Prelude
  imports Complex_Main
begin

text \<open>
  Shared vocabulary of the development: the errors the Python code can raise, the result type
  \<open>py_error + 'a\<close> with its sequencing combinators, the collections of rewrite rules the component
  theories add to, and general facts on lists and sums of reals.

  Python and tensor floats are modelled by \<^typ>\<open>real\<close>: every formula of the source is kept, and
  evaluated without rounding. NaN and infinities are not values of the model.
\<close>

section \<open>Errors and results\<close>

datatype py_error =
    KeyError | IndexError | ValueError | ZeroDivisionError | RuntimeError | AssertionError | OSError
  | TypeError | OverflowError | AttributeError | ImportError

type_synonym 'a res = "py_error + 'a"

fun res_bind :: "'a res \<Rightarrow> ('a \<Rightarrow> 'b res) \<Rightarrow> 'b res" where
  "res_bind (Inl e) f = Inl e"
| "res_bind (Inr x) f = f x"

text \<open>A Python loop that appends one fallible result per element and stops at the first error.\<close>

fun res_map :: "('a \<Rightarrow> 'b res) \<Rightarrow> 'a list \<Rightarrow> 'b list res" where
  "res_map f [] = Inr []"
| "res_map f (x # xs) =
     (case f x of
        Inl e \<Rightarrow> Inl e
      | Inr y \<Rightarrow> (case res_map f xs of Inl e \<Rightarrow> Inl e | Inr ys \<Rightarrow> Inr (y # ys)))"

definition is_ok :: "'a res \<Rightarrow> bool" where
  "is_ok r = (case r of Inl _ \<Rightarrow> False | Inr _ \<Rightarrow> True)"

lemma is_ok_simps [simp]: "is_ok (Inr x)" "\<not> is_ok (Inl e)"
  by (simp_all add: is_ok_def)

lemma is_ok_iff: "is_ok r \<longleftrightarrow> (\<exists>x. r = Inr x)"
  by (cases r) auto

lemma res_bind_Inr_iff: "res_bind r f = Inr y \<longleftrightarrow> (\<exists>x. r = Inr x \<and> f x = Inr y)"
  by (cases r) auto

lemma res_bind_assoc: "res_bind (res_bind r f) g = res_bind r (\<lambda>x. res_bind (f x) g)"
  by (cases r) auto

lemma res_map_Inr_iff:
  "res_map f xs = Inr ys \<longleftrightarrow> list_all2 (\<lambda>x y. f x = Inr y) xs ys"
proof (induction xs arbitrary: ys)
  case Nil
  then show ?case by auto
next
  case (Cons x xs)
  show ?case
  proof (cases "f x")
    case (Inr y)
    then show ?thesis
      by (cases "res_map f xs"; cases ys) (auto simp flip: Cons.IH)
  qed (cases ys; simp)
qed

lemma res_map_total: "(\<And>x. x \<in> set xs \<Longrightarrow> f x = Inr (g x)) \<Longrightarrow> res_map f xs = Inr (map g xs)"
  by (induction xs) auto

lemma res_map_length: "res_map f xs = Inr ys \<Longrightarrow> length ys = length xs"
  by (simp add: res_map_Inr_iff list_all2_lengthD)

section \<open>Best values that start at infinity\<close>

text \<open>
  \<open>best = float('inf')\<close>: the running minimum of the training loop and of the searches. The order
  puts every number below infinity.
\<close>

datatype ext = Fin real | Infty

instantiation ext :: linorder
begin

fun less_eq_ext :: "ext \<Rightarrow> ext \<Rightarrow> bool" where
  "Fin x \<le> Fin y \<longleftrightarrow> x \<le> y"
| "Fin x \<le> Infty \<longleftrightarrow> True"
| "Infty \<le> Fin y \<longleftrightarrow> False"
| "Infty \<le> Infty \<longleftrightarrow> True"

definition less_ext :: "ext \<Rightarrow> ext \<Rightarrow> bool" where
  "(a :: ext) < b \<longleftrightarrow> a \<le> b \<and> \<not> b \<le> a"

instance
proof
  fix x y z :: ext
  show "x < y \<longleftrightarrow> x \<le> y \<and> \<not> y \<le> x" by (rule less_ext_def)
  show "x \<le> x" by (cases x) auto
  show "x \<le> y \<Longrightarrow> y \<le> z \<Longrightarrow> x \<le> z" by (cases x; cases y; cases z) auto
  show "x \<le> y \<Longrightarrow> y \<le> x \<Longrightarrow> x = y" by (cases x; cases y) auto
  show "x \<le> y \<or> y \<le> x" by (cases x; cases y) auto
qed

end

lemma ext_less_simps [simp]:
  "Fin x < Fin y \<longleftrightarrow> x < y" "Fin x < Infty" "\<not> Infty < Fin y" "\<not> Infty < Infty"
  by (auto simp: less_ext_def)

fun ext_minus :: "ext \<Rightarrow> real \<Rightarrow> ext" where
  "ext_minus (Fin x) d = Fin (x - d)"
| "ext_minus Infty d = Infty"

section \<open>Collections of rules\<close>

named_theorems arr_simps "lengths and elements of array operations"
named_theorems dist_intros "laws of discrete price distributions"

section \<open>Lists and sums of reals\<close>

lemma sum_list_nonneg_real: "(\<And>x. x \<in> set xs \<Longrightarrow> 0 \<le> (x::real)) \<Longrightarrow> 0 \<le> sum_list xs"
  by (induction xs) auto

lemma sum_list_pos_real:
  "xs \<noteq> [] \<Longrightarrow> (\<And>x. x \<in> set xs \<Longrightarrow> 0 < (x::real)) \<Longrightarrow> 0 < sum_list xs"
proof (induction xs)
  case (Cons a xs)
  then show ?case
    by (cases xs) (auto intro: add_pos_pos)
qed simp

lemma sum_list_take_mono:
  assumes "\<And>x. x \<in> set xs \<Longrightarrow> 0 \<le> (x::real)" and "i \<le> j"
  shows "sum_list (take i xs) \<le> sum_list (take j xs)"
proof -
  have "take j xs = take i xs @ drop i (take j xs)"
    using assms(2) by (metis append_take_drop_id min.absorb1 take_take)
  then have "sum_list (take j xs) = sum_list (take i xs) + sum_list (drop i (take j xs))"
    by (metis sum_list_append)
  moreover have "0 \<le> sum_list (drop i (take j xs))"
    by (rule sum_list_nonneg_real) (meson assms(1) in_set_dropD in_set_takeD)
  ultimately show ?thesis by linarith
qed

lemma sum_list_take_le:
  assumes "\<And>x. x \<in> set xs \<Longrightarrow> 0 \<le> (x::real)"
  shows "sum_list (take i xs) \<le> sum_list xs"
  using sum_list_take_mono [OF assms, of xs i "max i (length xs)"] by simp

lemma sum_list_divide: "sum_list (map (\<lambda>x. x / c) xs) = sum_list xs / (c::real)"
  by (induction xs) (auto simp: add_divide_distrib)

lemma sum_list_map_nth: "sum_list xs = (\<Sum>i<length xs. xs ! i)"
  by (simp add: sum_list_sum_nth atLeast0LessThan)

lemma sum_list_map2_nth:
  "length xs = length ys \<Longrightarrow>
   sum_list (map2 f xs ys) = (\<Sum>i<length xs. (f (xs ! i) (ys ! i) :: real))"
  by (simp add: sum_list_map_nth)

lemma sum_list_map2_mono:
  assumes "\<And>x y. (x, y) \<in> set (zip xs ys) \<Longrightarrow> (f x y :: real) \<le> g x y"
  shows "sum_list (map2 f xs ys) \<le> sum_list (map2 g xs ys)"
  using assms by (intro sum_list_mono) auto

lemma sum_list_replicate_real [simp]: "sum_list (replicate n (c :: real)) = real n * c"
  by (induction n) (auto simp: algebra_simps)

section \<open>Chunked row processing\<close>

text \<open>
  \<open>for i in range(0, n, batch): j = min(i + batch, n); out.append(f(rows[i:j]))\<close> followed by a
  concatenation: the driver loop shared by the evaluation scripts. A step of zero is Python's
  \<open>ValueError\<close> (range() arg 3 must not be zero).
\<close>

function chunk_spans_from :: "nat \<Rightarrow> nat \<Rightarrow> nat \<Rightarrow> (nat \<times> nat) list" where
  "chunk_spans_from i n batch =
     (if batch = 0 \<or> n \<le> i then []
      else (i, min (i + batch) n) # chunk_spans_from (i + batch) n batch)"
  by pat_completeness auto
termination
  by (relation "measure (\<lambda>(i, n, batch). n - i)") auto

declare chunk_spans_from.simps [simp del]

lemma chunk_spans_bounds: "(i, j) \<in> set (chunk_spans_from a n k) \<Longrightarrow> i < j \<and> j \<le> i + k \<and> j \<le> n"
proof (induction a n k rule: chunk_spans_from.induct)
  case (1 a n k)
  then show ?case by (subst (asm) (2) chunk_spans_from.simps) (auto split: if_splits)
qed

definition slice :: "nat \<Rightarrow> nat \<Rightarrow> 'a list \<Rightarrow> 'a list" where
  "slice i j xs = drop i (take j xs)"

lemma zip_slice: "zip (slice i j xs) (slice i j ys) = slice i j (zip xs ys)"
  by (simp add: slice_def take_zip drop_zip)

definition chunked :: "('a list \<Rightarrow> 'b list) \<Rightarrow> nat \<Rightarrow> 'a list \<Rightarrow> 'b list res" where
  "chunked f batch xs =
     (if batch = 0 then Inl ValueError
      else Inr (concat (map (\<lambda>(i, j). f (slice i j xs)) (chunk_spans_from 0 (length xs) batch))))"

text \<open>
  A row-wise operation treats the rows of its argument one by one, so that it distributes over
  concatenation. For every such operation the chunk loop computes the same as one call on all rows.
\<close>

locale rowwise =
  fixes f :: "'a list \<Rightarrow> 'b list"
  assumes f_Nil: "f [] = []"
    and f_append: "f (xs @ ys) = f xs @ f ys"
begin

lemma chunks_from:
  assumes "0 < batch"
  shows "concat (map (\<lambda>(i, j). f (slice i j xs)) (chunk_spans_from i (length xs) batch)) = f (drop i xs)"
proof (induction "length xs - i" arbitrary: i rule: less_induct)
  case less
  show ?case
  proof (cases "length xs \<le> i")
    case True
    then show ?thesis by (subst chunk_spans_from.simps) (simp add: f_Nil)
  next
    case False
    with assms have dec: "length xs - (i + batch) < length xs - i" by arith
    have "concat (map (\<lambda>(i, j). f (slice i j xs)) (chunk_spans_from i (length xs) batch))
      = f (slice i (min (i + batch) (length xs)) xs) @ f (drop (i + batch) xs)"
      using False assms less.hyps [OF dec] by (subst chunk_spans_from.simps) simp
    also have "slice i (min (i + batch) (length xs)) xs = take batch (drop i xs)"
      using False by (auto simp: slice_def min_def drop_take)
    also have "f (take batch (drop i xs)) @ f (drop (i + batch) xs) = f (drop i xs)"
      by (metis add.commute append_take_drop_id drop_drop f_append)
    finally show ?thesis .
  qed
qed

lemma chunked_eq: "0 < batch \<Longrightarrow> chunked f batch xs = Inr (f xs)"
  using chunks_from [of batch xs 0] by (simp add: chunked_def)

end

end
