(* ===== verification/Encoder.thy ===== *)
theory Encoder
  imports PyStrings "HOL-Library.AList"
begin

text \<open>
  The vocabulary builder and the encoders of \<open>features.py\<close>: \<open>Counter\<close> with \<open>most_common\<close>,
  \<open>fit_encoder\<close>, \<open>apply_encoder_series\<close>, \<open>encode_user_tags_to_arr\<close> and the \<open><UNK>\<close> to \<open><PAD>\<close> rename
  of the tag vocabulary, and \<open>build_vocab_sizes\<close> of \<open>model.py\<close>. A Python dict is the list of its
  items in insertion order; an assignment is \<^const>\<open>AList.update\<close>, which overwrites a present key
  in place and appends a new one. Indices fit their integer columns, no width is modelled.
\<close>

section \<open>Counting and fitting\<close>

text \<open>A categorical value is a string (advertiser, domain, tag) or an integer (every other column).\<close>

datatype key = KStr string | KInt int

type_synonym counter = "(key \<times> nat) list"
type_synonym vocab = "(key \<times> nat) list"

definition UNK :: key where "UNK = KStr ''<UNK>''"
definition PAD :: key where "PAD = KStr ''<PAD>''"

text \<open>\<open>counter[k] += 1\<close>, and \<open>counter.update(keys)\<close> as its iteration.\<close>

definition count_one :: "counter \<Rightarrow> key \<Rightarrow> counter" where
  "count_one cs k = AList.map_default k 1 Suc cs"

definition count_update :: "counter \<Rightarrow> key list \<Rightarrow> counter" where
  "count_update cs ks = foldl count_one cs ks"

text \<open>\<open>most_common()\<close>: descending counts, ties in insertion order.\<close>

definition most_common :: "counter \<Rightarrow> counter" where
  "most_common cs = sort_key (\<lambda>(k, c). - int c) cs"

fun fit_loop :: "int \<Rightarrow> counter \<Rightarrow> vocab \<Rightarrow> nat \<Rightarrow> vocab" where
  "fit_loop min_count [] vocab idx = vocab"
| "fit_loop min_count ((v, c) # rest) vocab idx =
     (if int c < min_count then fit_loop min_count rest vocab idx
      else if v \<in> fst ` set vocab then fit_loop min_count rest vocab idx
      else fit_loop min_count rest (AList.update v idx vocab) (idx + 1))"

definition fit_encoder :: "counter \<Rightarrow> int \<Rightarrow> vocab" where
  "fit_encoder counter min_count = fit_loop min_count (most_common counter) [(UNK, 0)] 1"

section \<open>Encoding\<close>

definition vocab_get :: "vocab \<Rightarrow> key \<Rightarrow> nat" where
  "vocab_get vocab v = (case map_of vocab v of None \<Rightarrow> 0 | Some i \<Rightarrow> i)"

definition apply_encoder_series :: "key list \<Rightarrow> vocab \<Rightarrow> nat list" where
  "apply_encoder_series vals vocab = map (vocab_get vocab) vals"

text \<open>\<open>not s or s == 'null' or s == 'NaN'\<close>: a row without tags.\<close>

definition no_tags :: "string \<Rightarrow> bool" where
  "no_tags s \<longleftrightarrow> s = [] \<or> s = ''null'' \<or> s = ''NaN''"

fun tag_loop :: "vocab \<Rightarrow> nat \<Rightarrow> string list \<Rightarrow> nat \<Rightarrow> nat list \<Rightarrow> nat list" where
  "tag_loop vocab max_len [] j arr = arr"
| "tag_loop vocab max_len (p # ps) j arr =
     (if max_len \<le> j then arr
      else if p = [] then tag_loop vocab max_len ps j arr
      else let tid = vocab_get vocab (KStr p)
           in if tid = 0 then tag_loop vocab max_len ps j arr
              else tag_loop vocab max_len ps (j + 1) (arr[j := tid]))"

definition encode_tags_row :: "vocab \<Rightarrow> nat \<Rightarrow> string \<Rightarrow> nat list" where
  "encode_tags_row vocab max_len s =
     (if no_tags s then replicate max_len 0
      else tag_loop vocab max_len (split_on CHR '','' s) 0 (replicate max_len 0))"

definition encode_user_tags_to_arr :: "string list \<Rightarrow> vocab \<Rightarrow> nat \<Rightarrow> nat list list" where
  "encode_user_tags_to_arr tags_series vocab max_len = map (encode_tags_row vocab max_len) tags_series"

text \<open>The copy of the tag vocabulary that stores \<open><UNK>\<close> under the name \<open><PAD>\<close>.\<close>

fun rename_loop :: "vocab \<Rightarrow> vocab \<Rightarrow> vocab" where
  "rename_loop [] new = new"
| "rename_loop ((k, v) # rest) new =
     rename_loop rest (if k = UNK then AList.update PAD v new else AList.update k v new)"

definition rename_pad :: "vocab \<Rightarrow> vocab" where
  "rename_pad tag_vocab = rename_loop tag_vocab []"

text \<open>\<open>build_vocab_sizes\<close>: a missing encoder is a \<open>KeyError\<close>.\<close>

fun build_vocab_sizes :: "'f list \<Rightarrow> ('f \<Rightarrow> vocab option) \<Rightarrow> ('f \<times> nat) list \<Rightarrow> ('f \<times> nat) list res" where
  "build_vocab_sizes [] encoders vs = Inr vs"
| "build_vocab_sizes (feat # feats) encoders vs =
     (case encoders feat of
        None \<Rightarrow> Inl KeyError
      | Some voc \<Rightarrow> build_vocab_sizes feats encoders (AList.update feat (length voc + 1) vs))"

section \<open>The counter holds the multiplicities\<close>

lemma count_one_get: "map_of (count_one cs k) k' =
  (if k' = k then Some (case map_of cs k of None \<Rightarrow> 1 | Some c \<Rightarrow> Suc c) else map_of cs k')"
  by (induction cs) (auto simp: count_one_def)

lemma count_one_keys: "fst ` set (count_one cs k) = insert k (fst ` set cs)"
  by (induction cs) (auto simp: count_one_def)

lemma count_one_distinct: "distinct (map fst cs) \<Longrightarrow> distinct (map fst (count_one cs k))"
proof (induction cs)
  case (Cons p cs)
  then show ?case
    using count_one_keys [of cs k] by (cases p) (auto simp: count_one_def image_iff)
qed (simp add: count_one_def)

lemma count_update_distinct: "distinct (map fst cs) \<Longrightarrow> distinct (map fst (count_update cs ks))"
  by (induction ks arbitrary: cs) (auto simp: count_update_def intro: count_one_distinct)

lemma count_update_get:
  "map_of (count_update cs ks) k =
     (case map_of cs k of None \<Rightarrow> (if k \<in> set ks then Some (count_list ks k) else None)
      | Some c \<Rightarrow> Some (c + count_list ks k))"
proof (induction ks arbitrary: cs)
  case (Cons x ks)
  have "map_of (count_update cs (x # ks)) k = map_of (count_update (count_one cs x) ks) k"
    by (simp add: count_update_def)
  also have "\<dots> = (case map_of cs k of None \<Rightarrow> (if k \<in> set (x # ks) then Some (count_list (x # ks) k) else None)
      | Some c \<Rightarrow> Some (c + count_list (x # ks) k))"
    unfolding Cons.IH by (auto simp: count_one_get count_notin split: option.splits)
  finally show ?case .
qed (auto simp: count_update_def split: option.splits)

lemma count_update_append: "count_update cs (xs @ ys) = count_update (count_update cs xs) ys"
  by (simp add: count_update_def)

lemma most_common_set [simp]: "set (most_common cs) = set cs"
  by (simp add: most_common_def)

lemma most_common_distinct: "distinct (map fst cs) \<Longrightarrow> distinct (map fst (most_common cs))"
  by (metis distinct_map distinct_sort most_common_def most_common_set)

lemma most_common_sorted: "sorted (map (\<lambda>(k, c). - int c) (most_common cs))"
  by (simp add: most_common_def)

section \<open>The fitted vocabulary\<close>

text \<open>The keys the loop keeps, in the order it numbers them.\<close>

definition kept_keys :: "int \<Rightarrow> counter \<Rightarrow> key list" where
  "kept_keys min_count cs = filter (\<lambda>k. k \<noteq> UNK) (map fst (filter (\<lambda>(k, c). min_count \<le> int c) cs))"

lemma zip_Cons_upt:
  "zip (x # xs) [i..<i + length (x # xs)] = (x, i) # zip xs [i + 1..<i + 1 + length xs]"
proof -
  have "[i..<i + Suc (length xs)] = i # [i + 1..<i + 1 + length xs]"
    by (subst upt_conv_Cons) simp_all
  then show ?thesis by (simp del: upt_Suc)
qed

lemma fit_loop_eq:
  assumes "distinct (map fst cs)" and "\<And>k. k \<in> fst ` set cs \<Longrightarrow> k \<in> fst ` set voc \<longleftrightarrow> k = UNK"
  shows "fit_loop mc cs voc i = voc @ zip (kept_keys mc cs) [i..<i + length (kept_keys mc cs)]"
  using assms
proof (induction cs arbitrary: voc i)
  case Nil
  then show ?case by (simp add: kept_keys_def)
next
  case (Cons p cs)
  obtain v c where p: "p = (v, c)" by (cases p)
  show ?case
  proof (cases "int c < mc \<or> v = UNK")
    case True
    then have "kept_keys mc (p # cs) = kept_keys mc cs" by (auto simp: kept_keys_def p)
    moreover have "fit_loop mc (p # cs) voc i = fit_loop mc cs voc i"
      using True Cons.prems(2) [of v] by (auto simp: p)
    ultimately show ?thesis using Cons.IH [of voc i] Cons.prems by simp
  next
    case False
    then have nin: "v \<notin> fst ` set voc" using Cons.prems(2) [of v] by (simp add: p)
    then have upd: "AList.update v i voc = voc @ [(v, i)]"
      by (induction voc) auto
    have "fit_loop mc (p # cs) voc i = fit_loop mc cs (voc @ [(v, i)]) (i + 1)"
      using False nin by (simp add: p upd image_iff)
    also have "\<dots> = (voc @ [(v, i)]) @ zip (kept_keys mc cs) [i + 1..<i + 1 + length (kept_keys mc cs)]"
      using Cons.prems by (intro Cons.IH) (auto simp: p)
    also have "\<dots> = voc @ zip (v # kept_keys mc cs) [i..<i + length (v # kept_keys mc cs)]"
      by (simp only: zip_Cons_upt append.assoc append_Cons append_Nil)
    also have "v # kept_keys mc cs = kept_keys mc (p # cs)"
      using False by (simp add: kept_keys_def p)
    finally show ?thesis .
  qed
qed

lemma fit_encoder_eq:
  assumes "distinct (map fst cs)"
  shows "fit_encoder cs mc =
    zip (UNK # kept_keys mc (most_common cs)) [0..<Suc (length (kept_keys mc (most_common cs)))]"
  using fit_loop_eq [OF most_common_distinct [OF assms], of "[(UNK, 0)]" mc 1]
    zip_Cons_upt [of UNK "kept_keys mc (most_common cs)" 0]
  by (simp add: fit_encoder_def del: upt_Suc)

lemma kept_keys_distinct: "distinct (map fst cs) \<Longrightarrow> distinct (UNK # kept_keys mc cs)"
  by (auto simp: kept_keys_def distinct_map_filter intro!: distinct_filter)

lemma kept_keys_set: "k \<in> set (kept_keys mc cs) \<longleftrightarrow> k \<noteq> UNK \<and> (\<exists>c. (k, c) \<in> set cs \<and> mc \<le> int c)"
  by (force simp: kept_keys_def)

lemma fit_encoder_keys:
  "distinct (map fst cs) \<Longrightarrow> map fst (fit_encoder cs mc) = UNK # kept_keys mc (most_common cs)"
  by (simp add: fit_encoder_eq)

lemma fit_encoder_values:
  "distinct (map fst cs) \<Longrightarrow> map snd (fit_encoder cs mc) = [0..<length (fit_encoder cs mc)]"
  by (simp add: fit_encoder_eq del: upt_Suc)


lemma fit_encoder_map_of:
  assumes "distinct (map fst cs)"
  shows "map_of (fit_encoder cs mc) k = Some i \<longleftrightarrow>
    i < length (UNK # kept_keys mc (most_common cs)) \<and> (UNK # kept_keys mc (most_common cs)) ! i = k"
proof -
  define ks where "ks = UNK # kept_keys mc (most_common cs)"
  have d: "distinct ks"
    unfolding ks_def using most_common_distinct [OF assms] by (rule kept_keys_distinct)
  have e: "fit_encoder cs mc = zip ks [0..<length ks]"
    by (simp add: fit_encoder_eq [OF assms] ks_def del: upt_Suc)
  have "map_of (fit_encoder cs mc) k = Some i \<longleftrightarrow> (k, i) \<in> set (zip ks [0..<length ks])"
    unfolding e using d by (intro map_of_eq_Some_iff) simp
  then show ?thesis by (auto simp: set_zip ks_def [symmetric])
qed

lemma fit_code_nth:
  assumes "distinct (map fst cs)" and "i < length (kept_keys mc (most_common cs))"
  shows "vocab_get (fit_encoder cs mc) (kept_keys mc (most_common cs) ! i) = Suc i"
  using fit_encoder_map_of [OF assms(1), of mc "kept_keys mc (most_common cs) ! i" "Suc i"] assms(2)
  by (simp add: vocab_get_def)

lemma fit_code_less:
  assumes "distinct (map fst cs)"
  shows "vocab_get (fit_encoder cs mc) k < length (fit_encoder cs mc)"
  using fit_encoder_map_of [OF assms, of mc k] fit_encoder_eq [OF assms, of mc]
  by (auto simp: vocab_get_def simp del: upt_Suc split: option.splits)

lemma fit_code_nonzero:
  assumes "distinct (map fst cs)"
  shows "vocab_get (fit_encoder cs mc) k \<noteq> 0 \<longleftrightarrow> k \<in> set (kept_keys mc (most_common cs))"
proof
  assume nz: "vocab_get (fit_encoder cs mc) k \<noteq> 0"
  then obtain i where "map_of (fit_encoder cs mc) k = Some i" "i \<noteq> 0"
    by (auto simp: vocab_get_def split: option.splits)
  then show "k \<in> set (kept_keys mc (most_common cs))"
    using fit_encoder_map_of [OF assms] by (cases i) auto
next
  assume "k \<in> set (kept_keys mc (most_common cs))"
  then show "vocab_get (fit_encoder cs mc) k \<noteq> 0"
    using fit_code_nth [OF assms] by (auto simp: in_set_conv_nth)
qed

lemma fit_code_inj:
  assumes "distinct (map fst cs)"
    and "vocab_get (fit_encoder cs mc) k = vocab_get (fit_encoder cs mc) k'"
    and "vocab_get (fit_encoder cs mc) k \<noteq> 0"
  shows "k = k'"
proof -
  have "k \<in> set (kept_keys mc (most_common cs))" "k' \<in> set (kept_keys mc (most_common cs))"
    using assms fit_code_nonzero [OF assms(1), of mc k] fit_code_nonzero [OF assms(1), of mc k'] by simp_all
  then show ?thesis
    using assms(2) fit_code_nth [OF assms(1)] by (auto simp: in_set_conv_nth)
qed

lemma kept_keys_counts:
  assumes "distinct (map fst cs)" and "i < j" and "j < length (kept_keys mc cs)"
    and "sorted (map (\<lambda>(k, c). - int c) cs)"
    and "map_of cs (kept_keys mc cs ! i) = Some a" and "map_of cs (kept_keys mc cs ! j) = Some b"
  shows "b \<le> a"
proof -
  let ?g = "filter (\<lambda>(k, c). mc \<le> int c \<and> k \<noteq> UNK) cs"
  have kk: "kept_keys mc cs = map fst ?g"
    by (simp add: kept_keys_def filter_map comp_def split_def)
  have m: "map_of cs (fst (?g ! l)) = Some (snd (?g ! l))" if "l < length ?g" for l
    using that nth_mem [OF that] assms(1) by (intro map_of_is_SomeI) auto
  have "sorted (map (\<lambda>(k, c). - int c) ?g)"
    using assms(4) by (rule sorted_filter)
  then have "- int (snd (?g ! i)) \<le> - int (snd (?g ! j))"
    using assms(2,3) sorted_nth_mono [of "map (\<lambda>(k, c). - int c) ?g" i j]
    by (simp add: kk split_def)
  then show ?thesis
    using m [of i] m [of j] assms(2,3,5,6) by (simp add: kk)
qed

lemma most_common_map_of: "distinct (map fst cs) \<Longrightarrow> map_of (most_common cs) = map_of cs"
  by (intro map_of_inject_set [THEN iffD2] most_common_distinct) (auto dest: most_common_distinct)

section \<open>What the users of an encoder rely on\<close>

text \<open>
  A code book numbers keys below its size and gives two keys the same number only for the reserved 0.
  The dataset and the embedding tables rely on nothing else.
\<close>

locale code_book =
  fixes code :: "key \<Rightarrow> nat" and sz :: nat
  assumes code_less: "code k < sz"
    and code_inj: "code k = code k' \<Longrightarrow> code k \<noteq> 0 \<Longrightarrow> k = k'"
begin

lemma sz_pos: "0 < sz"
  using code_less [of UNK] by simp

lemma codes_less: "i \<in> set (map code ks) \<Longrightarrow> i < sz"
  using code_less by auto

text \<open>A duplicate-free row of keys gives duplicate-free nonzero codes.\<close>

lemma codes_distinct: "distinct ks \<Longrightarrow> distinct (filter (\<lambda>i. i \<noteq> 0) (map code ks))"
proof (induction ks)
  case (Cons k ks)
  then show ?case using code_inj [of k] by (auto simp: image_iff)
qed simp

end

lemma counted_distinct [simp]: "distinct (map fst (count_update [] xs))"
  by (simp add: count_update_distinct)

interpretation fitted: code_book
  "vocab_get (fit_encoder (count_update [] xs) mc)" "length (fit_encoder (count_update [] xs) mc)" for xs mc
  by unfold_locales (simp add: fit_code_less, erule fit_code_inj [OF counted_distinct])

section \<open>The tag vocabulary\<close>

lemma update_fresh: "k \<notin> fst ` set m \<Longrightarrow> AList.update k v m = m @ [(k, v)]"
  by (induction m) auto

lemma rename_loop_map_of:
  assumes "distinct (map fst rest)" and "UNK \<notin> fst ` set rest"
  shows "map_of (rename_loop rest new) k = (case map_of rest k of None \<Rightarrow> map_of new k | Some v \<Rightarrow> Some v)"
  using assms
proof (induction rest arbitrary: new)
  case (Cons p rest)
  obtain k' v where p: "p = (k', v)" by (cases p)
  show ?case
    using Cons.prems Cons.IH [of "AList.update k' v new"]
    by (auto simp: p update_conv' map_of_eq_None_iff image_iff split: option.splits)
qed simp

lemma rename_loop_fresh:
  assumes "distinct (map fst rest)" and "UNK \<notin> fst ` set rest"
    and "fst ` set rest \<inter> fst ` set new = {}"
  shows "rename_loop rest new = new @ rest"
  using assms
proof (induction rest arbitrary: new)
  case (Cons p rest)
  obtain k v where p: "p = (k, v)" by (cases p)
  have "rename_loop (p # rest) new = rename_loop rest (new @ [(k, v)])"
    using Cons.prems by (auto simp: p update_fresh)
  also have "\<dots> = (new @ [(k, v)]) @ rest"
    using Cons.prems by (intro Cons.IH) (auto simp: p)
  finally show ?case by (simp add: p)
qed simp

lemma UNK_PAD [simp]: "UNK \<noteq> PAD" "PAD \<noteq> UNK"
  by (simp_all add: UNK_def PAD_def)

lemma fit_encoder_Cons:
  assumes "distinct (map fst cs)"
  obtains rest where "fit_encoder cs mc = (UNK, 0) # rest" "distinct (map fst rest)" "UNK \<notin> fst ` set rest"
    "fst ` set rest = set (kept_keys mc (most_common cs))"
proof
  define ks where "ks = kept_keys mc (most_common cs)"
  show eq: "fit_encoder cs mc = (UNK, 0) # zip ks [1..<1 + length ks]"
    using zip_Cons_upt [of UNK ks 0] by (simp add: fit_encoder_eq [OF assms] ks_def del: upt_Suc)
  have keys: "map fst (zip ks [1..<1 + length ks]) = ks" by (simp del: upt_Suc)
  have d: "distinct (UNK # ks)"
    unfolding ks_def using most_common_distinct [OF assms] by (rule kept_keys_distinct)
  show "distinct (map fst (zip ks [1..<1 + length ks]))" using d keys by simp
  show s: "fst ` set (zip ks [1..<1 + length ks]) = set (kept_keys mc (most_common cs))"
    using keys by (metis ks_def set_map)
  show "UNK \<notin> fst ` set (zip ks [1..<1 + length ks])" using d s by (simp add: ks_def)
qed

text \<open>Lookups see the rename only through \<open><UNK>\<close>, which had index 0 and is now absent.\<close>

lemma rename_pad_get:
  assumes "distinct (map fst cs)"
  shows "vocab_get (rename_pad (fit_encoder cs mc)) k = vocab_get (fit_encoder cs mc) k"
proof -
  obtain rest where r: "fit_encoder cs mc = (UNK, 0) # rest" "distinct (map fst rest)" "UNK \<notin> fst ` set rest"
    using fit_encoder_Cons [OF assms] by metis
  have "map_of (rename_pad (fit_encoder cs mc)) k = (case map_of rest k of None \<Rightarrow> map_of [(PAD, 0)] k | Some v \<Rightarrow> Some v)"
    by (simp add: rename_pad_def r(1) rename_loop_map_of [OF r(2,3)])
  then show ?thesis
    using r(3) by (auto simp: vocab_get_def r(1) map_of_eq_None_iff split: option.splits)
       (auto simp: map_of_eq_None_iff [symmetric])
qed

lemma rename_pad_fresh:
  assumes "distinct (map fst cs)" and "PAD \<notin> set (kept_keys mc (most_common cs))"
  shows "rename_pad (fit_encoder cs mc) = (PAD, 0) # tl (fit_encoder cs mc)"
proof -
  obtain rest where r: "fit_encoder cs mc = (UNK, 0) # rest" "distinct (map fst rest)" "UNK \<notin> fst ` set rest"
    "fst ` set rest = set (kept_keys mc (most_common cs))"
    using fit_encoder_Cons [OF assms(1)] by metis
  then show ?thesis
    using rename_loop_fresh [OF r(2,3), of "[(PAD, 0)]"] assms(2) by (simp add: rename_pad_def)
qed

interpretation tagbook: code_book
  "vocab_get (rename_pad (fit_encoder (count_update [] xs) mc))" "length (fit_encoder (count_update [] xs) mc)"
  for xs mc
  using fitted.code_less fitted.code_inj
  by unfold_locales (simp_all add: rename_pad_get)

text \<open>The codes a tag string contributes, in order.\<close>

definition tag_codes :: "vocab \<Rightarrow> string \<Rightarrow> nat list" where
  "tag_codes vocab s =
     (if no_tags s then []
      else filter (\<lambda>i. i \<noteq> 0) (map (\<lambda>p. vocab_get vocab (KStr p)) (filter (\<lambda>p. p \<noteq> []) (split_on CHR '','' s))))"

lemma tag_loop_eq:
  assumes "j \<le> ml" and "length pre = j"
  shows "tag_loop voc ml ps j (pre @ replicate (ml - j) 0) =
    (let cs = take (ml - j) (filter (\<lambda>i. i \<noteq> 0) (map (\<lambda>p. vocab_get voc (KStr p)) (filter (\<lambda>p. p \<noteq> []) ps)))
     in pre @ cs @ replicate (ml - j - length cs) 0)"
  using assms
proof (induction ps arbitrary: j pre)
  case (Cons p ps)
  show ?case
  proof (cases "ml \<le> j \<or> p = [] \<or> vocab_get voc (KStr p) = 0")
    case True
    then show ?thesis using Cons.IH [OF Cons.prems] by (auto simp: Let_def)
  next
    case False
    define v where "v = vocab_get voc (KStr p)"
    have sp: "replicate (ml - j) 0 = 0 # replicate (ml - Suc j) (0 :: nat)"
      using False by (metis Suc_diff_Suc not_le replicate_Suc)
    have "tag_loop voc ml (p # ps) j (pre @ replicate (ml - j) 0)
      = tag_loop voc ml ps (Suc j) ((pre @ [v]) @ replicate (ml - Suc j) 0)"
      using False Cons.prems by (simp add: v_def sp list_update_append)
    also have "\<dots> = (let cs = take (ml - Suc j) (filter (\<lambda>i. i \<noteq> 0) (map (\<lambda>p. vocab_get voc (KStr p)) (filter (\<lambda>p. p \<noteq> []) ps)))
     in (pre @ [v]) @ cs @ replicate (ml - Suc j - length cs) 0)"
      using False Cons.prems by (intro Cons.IH) auto
    also have "\<dots> = (let cs = take (ml - j) (filter (\<lambda>i. i \<noteq> 0) (map (\<lambda>p. vocab_get voc (KStr p)) (filter (\<lambda>p. p \<noteq> []) (p # ps))))
     in pre @ cs @ replicate (ml - j - length cs) 0)"
      using False by (simp add: Let_def v_def Suc_diff_Suc take_Cons')
    finally show ?thesis .
  qed
qed simp

lemma encode_tags_row_eq:
  "encode_tags_row voc ml s =
     (let cs = take ml (tag_codes voc s) in cs @ replicate (ml - length cs) 0)"
  using tag_loop_eq [of 0 ml "[]" voc "split_on CHR '','' s"]
  by (simp add: encode_tags_row_def tag_codes_def)

lemma length_encode_tags_row [simp, arr_simps]: "length (encode_tags_row voc ml s) = ml"
  by (simp add: encode_tags_row_eq Let_def)

section \<open>Properties\<close>

definition tag_tokens :: "string \<Rightarrow> string list" where
  "tag_tokens s = (if no_tags s then [] else filter (\<lambda>p. p \<noteq> []) (split_on CHR '','' s))"

definition kept :: "int \<Rightarrow> key list \<Rightarrow> key \<Rightarrow> bool" where
  "kept mc xs k \<longleftrightarrow> k \<noteq> UNK \<and> k \<in> set xs \<and> mc \<le> int (count_list xs k)"

lemma count_update_Nil_get: "map_of (count_update [] xs) k = (if k \<in> set xs then Some (count_list xs k) else None)"
  by (simp add: count_update_get)

lemma kept_iff: "k \<in> set (kept_keys mc (most_common (count_update [] xs))) \<longleftrightarrow> kept mc xs k"
proof -
  have "(k, c) \<in> set (count_update [] xs) \<longleftrightarrow> k \<in> set xs \<and> c = count_list xs k" for c
    using map_of_eq_Some_iff [OF counted_distinct, of xs k c]
    by (auto simp: count_update_Nil_get split: if_splits)
  then show ?thesis by (auto simp: kept_keys_set kept_def)
qed

lemma code_nonzero_iff: "vocab_get (fit_encoder (count_update [] xs) mc) k \<noteq> 0 \<longleftrightarrow> kept mc xs k"
  by (simp only: fit_code_nonzero [OF counted_distinct] kept_iff)

lemma decode_code:
  "map fst (fit_encoder (count_update [] xs) mc) ! vocab_get (fit_encoder (count_update [] xs) mc) k =
     (if kept mc xs k then k else UNK)"
proof (cases "kept mc xs k")
  case True
  then obtain i where i: "i < length (kept_keys mc (most_common (count_update [] xs)))"
    "kept_keys mc (most_common (count_update [] xs)) ! i = k"
    by (auto simp: kept_iff [symmetric] in_set_conv_nth)
  then have "vocab_get (fit_encoder (count_update [] xs) mc) k = Suc i"
    using fit_code_nth [OF counted_distinct i(1)] by simp
  then show ?thesis using True i by (simp add: fit_encoder_keys)
next
  case False
  then have "vocab_get (fit_encoder (count_update [] xs) mc) k = 0"
    using code_nonzero_iff [of xs mc k] by simp
  then show ?thesis using False by (simp add: fit_encoder_keys)
qed

text \<open>
  The vocabulary \<open>fit_encoder\<close> builds from the counted values \<open>xs\<close> has the indices 0, 1, 2, ... in
  the order of its entries, no key twice, and as its keys exactly \<open><UNK>\<close> and the values that occur at
  least \<open>min_count\<close> times.
\<close>

theorem vocab_indices:
  "let voc = fit_encoder (count_update [] xs) mc in
     map snd voc = [0..<length voc] \<and> distinct (map fst voc) \<and> hd voc = (UNK, 0) \<and>
     fst ` set voc = insert UNK {k. k \<in> set xs \<and> mc \<le> int (count_list xs k)}"
proof -
  let ?voc = "fit_encoder (count_update [] xs) mc"
  let ?ks = "kept_keys mc (most_common (count_update [] xs))"
  have k: "map fst ?voc = UNK # ?ks" by (simp add: fit_encoder_keys)
  then have "fst ` set ?voc = insert UNK (set ?ks)" by (metis list.set(2) set_map)
  moreover have "set ?ks = {k. kept mc xs k}" by (auto simp: kept_iff)
  moreover have "distinct (UNK # ?ks)"
    by (intro kept_keys_distinct most_common_distinct counted_distinct)
  moreover have "hd ?voc = (UNK, 0)" by (rule fit_encoder_Cons [OF counted_distinct, of xs mc]) simp
  ultimately show ?thesis
    unfolding Let_def by (auto simp: k kept_def fit_encoder_values)
qed

text \<open>
  More frequent values get smaller indices: a counted value that meets the threshold has a nonzero
  index, and every value that is strictly rarer has a larger index or is encoded as unknown.
\<close>

theorem frequent_first:
  assumes "k \<in> set xs" and "k \<noteq> UNK" and "mc \<le> int (count_list xs k)"
    and "count_list xs k' < count_list xs k"
  shows "let code = vocab_get (fit_encoder (count_update [] xs) mc)
         in 0 < code k \<and> (code k' = 0 \<or> code k < code k')"
proof -
  let ?ks = "kept_keys mc (most_common (count_update [] xs))"
  let ?code = "vocab_get (fit_encoder (count_update [] xs) mc)"
  have d: "distinct (map fst (most_common (count_update [] xs)))"
    by (intro most_common_distinct counted_distinct)
  have kk: "kept mc xs k" using assms by (simp add: kept_def)
  then obtain i where i: "i < length ?ks" "?ks ! i = k"
    by (auto simp: kept_iff [symmetric] in_set_conv_nth)
  have "?code k < ?code k'" if k': "kept mc xs k'"
  proof -
    obtain j where j: "j < length ?ks" "?ks ! j = k'"
      using k' by (auto simp: kept_iff [symmetric] in_set_conv_nth)
    have "\<not> j < i"
      using kept_keys_counts [OF d _ i(1) most_common_sorted, of j] i j k' kk assms(4)
      by (auto simp: most_common_map_of count_update_Nil_get kept_def)
    moreover have "j \<noteq> i" using i j assms(4) by auto
    ultimately show ?thesis
      using fit_code_nth [OF counted_distinct i(1)] fit_code_nth [OF counted_distinct j(1)] i j by simp
  qed
  then show ?thesis
    using kk code_nonzero_iff [of xs mc k] code_nonzero_iff [of xs mc k'] by (auto simp: Let_def)
qed

theorem frequent_first_witness:
  "let code = vocab_get (fit_encoder (count_update [] [KInt 7, KInt 4, KInt 4]) 1)
   in 0 < code (KInt 4) \<and> (code (KInt 7) = 0 \<or> code (KInt 4) < code (KInt 7))"
  by (rule frequent_first) (simp_all add: UNK_def)

text \<open>
  C36: Encoding and reading the vocabulary back replaces exactly the rare and unknown values by
  \<open><UNK>\<close>, and every code is an index of the vocabulary.
\<close>

theorem encoder_roundtrip:
  "let voc = fit_encoder (count_update [] xs) mc; codes = apply_encoder_series vals voc in
     map (\<lambda>i. map fst voc ! i) codes = map (\<lambda>v. if kept mc xs v then v else UNK) vals \<and>
     list_all (\<lambda>i. i < length voc) codes"
  by (simp add: Let_def apply_encoder_series_def decode_code list_all_iff fitted.code_less del: nth_map)

text \<open>
  A row of \<open>encode_user_tags_to_arr\<close> has \<open>max_len\<close> entries: the codes of the first \<open>max_len\<close> known
  tags of the string, in order and never 0, then zeros. Its nonzero entries read back as those tags, and
  when no training tag is spelled \<open><PAD>\<close> every entry is a row of an embedding table with one row per
  entry of the tag vocabulary.
\<close>

theorem tags_row_roundtrip:
  assumes "PAD \<notin> set xs"
  shows "let voc = rename_pad (fit_encoder (count_update [] xs) mc);
             row = encode_tags_row voc ml s; codes = filter (\<lambda>i. i \<noteq> 0) row in
           length row = ml \<and> row = codes @ replicate (ml - length codes) 0 \<and>
           map (\<lambda>i. map fst voc ! i) codes = take ml (filter (kept mc xs) (map KStr (tag_tokens s))) \<and>
           list_all (\<lambda>i. i < length voc) row"
proof -
  let ?fit = "fit_encoder (count_update [] xs) mc"
  let ?voc = "rename_pad ?fit"
  define ts where "ts = map KStr (tag_tokens s)"
  have nk: "PAD \<notin> set (kept_keys mc (most_common (count_update [] xs)))"
    using assms by (simp add: kept_iff kept_def)
  have v: "?voc = (PAD, 0) # tl ?fit" by (rule rename_pad_fresh [OF counted_distinct nk])
  have len: "length ?voc = length ?fit"
    using v fitted.sz_pos [of xs mc] by simp
  have tc: "tag_codes ?voc s = map (vocab_get ?fit) (filter (kept mc xs) ts)"
    by (simp add: tag_codes_def tag_tokens_def ts_def filter_map comp_def rename_pad_get code_nonzero_iff [simplified])
  have row: "encode_tags_row ?voc ml s = take ml (tag_codes ?voc s) @ replicate (ml - length (take ml (tag_codes ?voc s))) 0"
    by (simp only: encode_tags_row_eq Let_def)
  have nz: "filter (\<lambda>i. i \<noteq> 0) (encode_tags_row ?voc ml s) = take ml (tag_codes ?voc s)"
    unfolding row by (auto simp: tc code_nonzero_iff [simplified] intro!: filter_True dest!: in_set_takeD)
  have dec: "map fst ?voc ! vocab_get ?fit k = k" if "kept mc xs k" for k
  proof -
    obtain n where n: "vocab_get ?fit k = Suc n"
      using code_nonzero_iff [THEN iffD2, OF \<open>kept mc xs k\<close>] not0_implies_Suc by blast
    have "map fst ?fit = fst (hd ?fit) # map fst (tl ?fit)"
      using fitted.sz_pos [of xs mc] by (cases ?fit) simp_all
    then have "map fst ?voc ! Suc n = map fst ?fit ! Suc n"
      by (metis v list.simps(9) nth_Cons_Suc)
    then show ?thesis using decode_code [of xs mc k] that n by simp
  qed
  have "map (\<lambda>i. map fst ?voc ! i) (take ml (tag_codes ?voc s)) = take ml (filter (kept mc xs) ts)"
    by (auto simp: tc take_map dec intro!: map_idI dest!: in_set_takeD)
  moreover have "list_all (\<lambda>i. i < length ?voc) (encode_tags_row ?voc ml s)"
    using fitted.code_less [of xs mc] fitted.sz_pos [of xs mc]
    by (auto simp: row len tc list_all_iff dest!: in_set_takeD)
  ultimately show ?thesis
    unfolding Let_def nz ts_def [symmetric] by (intro conjI row) simp_all
qed

theorem tags_row_roundtrip_witness:
  "let voc = rename_pad (fit_encoder (count_update [] [KStr ''10'', KStr ''11'', KStr ''10'']) 2);
       row = encode_tags_row voc 3 ''11,,10''; codes = filter (\<lambda>i. i \<noteq> 0) row in
     length row = 3 \<and> row = codes @ replicate (3 - length codes) 0 \<and>
     map (\<lambda>i. map fst voc ! i) codes =
       take 3 (filter (kept 2 [KStr ''10'', KStr ''11'', KStr ''10'']) (map KStr (tag_tokens ''11,,10''))) \<and>
     list_all (\<lambda>i. i < length voc) row"
  by (rule tags_row_roundtrip) (simp add: PAD_def)

end
