(* ===== verification/Calendar.thy ===== *)
theory Calendar
  imports PyStrings
begin

text \<open>
  The part of Python's \<open>datetime\<close> the code uses: the proleptic Gregorian calendar, the validity check
  of \<open>datetime.datetime(y, m, d)\<close> and \<open>weekday()\<close> (Monday is 0), and the weekday function of the
  retrainer built on it (\<open>retrainer/retrain.py\<close>, \<open>weekday_monday0\<close>).
\<close>

definition is_leap :: "int \<Rightarrow> bool" where
  "is_leap y \<longleftrightarrow> y mod 4 = 0 \<and> (y mod 100 \<noteq> 0 \<or> y mod 400 = 0)"

definition days_in_month :: "int \<Rightarrow> int \<Rightarrow> int" where
  "days_in_month y m =
     (if m = 2 then (if is_leap y then 29 else 28)
      else if m = 4 \<or> m = 6 \<or> m = 9 \<or> m = 11 then 30 else 31)"

definition days_before_year :: "int \<Rightarrow> int" where
  "days_before_year y = (let z = y - 1 in z * 365 + z div 4 - z div 100 + z div 400)"

definition days_before_month :: "int \<Rightarrow> int \<Rightarrow> int" where
  "days_before_month y m = (\<Sum>k\<leftarrow>[1..m - 1]. days_in_month y k)"

definition to_ordinal :: "int \<Rightarrow> int \<Rightarrow> int \<Rightarrow> int" where
  "to_ordinal y m d = days_before_year y + days_before_month y m + d"

definition valid_date :: "int \<Rightarrow> int \<Rightarrow> int \<Rightarrow> bool" where
  "valid_date y m d \<longleftrightarrow> 1 \<le> y \<and> y \<le> 9999 \<and> 1 \<le> m \<and> m \<le> 12 \<and> 1 \<le> d \<and> d \<le> days_in_month y m"

definition date_weekday :: "int \<Rightarrow> int \<Rightarrow> int \<Rightarrow> int res" where
  "date_weekday y m d =
     (if valid_date y m d then Inr ((to_ordinal y m d + 6) mod 7) else Inl ValueError)"

text \<open>
  \<open>weekday_monday0\<close>: arithmetic on the \<open>YYYYMMDDHHmmss\<close> number, 0 for an invalid date. The constructor
  of \<open>datetime\<close> takes C integers: a year outside 32 bits is an \<open>OverflowError\<close>, which the handler of
  \<open>ValueError\<close> does not catch.
\<close>

definition datetime_weekday :: "int \<Rightarrow> int \<Rightarrow> int \<Rightarrow> int res" where
  "datetime_weekday y m d =
     (if list_all (\<lambda>x. - (2 ^ 31) \<le> x \<and> x < 2 ^ 31) [y, m, d] then date_weekday y m d else Inl OverflowError)"

definition weekday_monday0 :: "int \<Rightarrow> int res" where
  "weekday_monday0 ts =
     (let date = ts div 1000000; y = date div 10000; mo = (date div 100) mod 100; d = date mod 100
      in case datetime_weekday y mo d of
           Inl e \<Rightarrow> (if e = ValueError then Inr 0 else Inl e)
         | Inr w \<Rightarrow> Inr w)"

section \<open>Successive days\<close>

definition next_day :: "int \<times> int \<times> int \<Rightarrow> int \<times> int \<times> int" where
  "next_day ymd = (case ymd of (y, m, d) \<Rightarrow>
     if d < days_in_month y m then (y, m, d + 1)
     else if m < 12 then (y, m + 1, 1) else (y + 1, 1, 1))"

lemma div_step:
  assumes "0 < (k :: int)"
  shows "y div k = (y - 1) div k + (if y mod k = 0 then 1 else 0)"
proof -
  define q r where "q = (y - 1) div k" and "r = (y - 1) mod k"
  have y: "y = k * q + (r + 1)" and r: "0 \<le> r" "r < k"
    using assms by (auto simp: q_def r_def algebra_simps)
  show ?thesis
  proof (cases "r + 1 = k")
    case True
    then have "y = k * (q + 1)" using y by (simp add: algebra_simps)
    then have "y div k = q + 1" "y mod k = 0" using assms by simp_all
    then show ?thesis unfolding q_def by (simp only: simp_thms if_True)
  next
    case False
    then have "y div k = q" "y mod k = r + 1"
      using y r by (auto intro: int_div_pos_eq int_mod_pos_eq)
    then show ?thesis using r by (simp add: q_def [symmetric])
  qed
qed

lemma leap_count:
  assumes "R \<longrightarrow> Q" and "Q \<longrightarrow> P"
  shows "y * 365 + (A + (if P then 1 else 0)) - (B + (if Q then 1 else 0)) + (C + (if R then 1 else 0))
    = (y - 1) * 365 + A - B + C + (if P \<and> (\<not> Q \<or> R) then 366 else (365 :: int))"
  using assms by (cases P; cases Q; cases R) auto

lemma days_before_year_Suc: "days_before_year (y + 1) = days_before_year y + (if is_leap y then 366 else 365)"
proof -
  have d: "y mod 400 = 0 \<longrightarrow> y mod 100 = 0" "y mod 100 = 0 \<longrightarrow> y mod 4 = 0"
    using dvd_trans [of 100 400 y] dvd_trans [of 4 100 y] by (auto simp: mod_eq_0_iff_dvd)
  have a: "y div 4 = (y - 1) div 4 + (if y mod 4 = 0 then 1 else 0)"
    and b: "y div 100 = (y - 1) div 100 + (if y mod 100 = 0 then 1 else 0)"
    and c: "y div 400 = (y - 1) div 400 + (if y mod 400 = 0 then 1 else 0)"
    by (rule div_step, simp)+
  have "days_before_year (y + 1) = y * 365 + y div 4 - y div 100 + y div 400"
    by (simp add: days_before_year_def Let_def)
  also have "\<dots> = y * 365 + ((y - 1) div 4 + (if y mod 4 = 0 then 1 else 0))
      - ((y - 1) div 100 + (if y mod 100 = 0 then 1 else 0))
      + ((y - 1) div 400 + (if y mod 400 = 0 then 1 else 0))"
    by (simp only: a b c)
  also have "\<dots> = days_before_year y + (if is_leap y then 366 else 365)"
    unfolding leap_count [OF d] days_before_year_def is_leap_def Let_def by (rule refl)
  finally show ?thesis .
qed

lemma days_before_month_Suc:
  assumes "1 \<le> m"
  shows "days_before_month y (m + 1) = days_before_month y m + days_in_month y m"
proof -
  have "[1..m + 1 - 1] = [1..m - 1] @ [m]" using assms upto_rec2 [of 1 m] by simp
  then show ?thesis by (simp add: days_before_month_def)
qed

lemma days_before_month_13: "days_before_month y 13 = (if is_leap y then 366 else 365)"
  by (simp add: days_before_month_def upto_rec1 days_in_month_def)

lemma to_ordinal_next_day:
  assumes "valid_date y m d"
  shows "(case next_day (y, m, d) of (y', m', d') \<Rightarrow> to_ordinal y' m' d') = to_ordinal y m d + 1"
proof -
  have one: "days_before_month y' 1 = 0" for y' by (simp add: days_before_month_def)
  have m: "1 \<le> m" "m \<le> 12" "d \<le> days_in_month y m" using assms by (auto simp: valid_date_def)
  show ?thesis
  proof (cases "d < days_in_month y m")
    case False
    then have d: "d = days_in_month y m" using m by simp
    show ?thesis
    proof (cases "m < 12")
      case False
      then have "m = 12" using m by simp
      then show ?thesis
        using d days_before_month_Suc [of 12 y] days_before_month_13 [of y] days_before_year_Suc [of y]
        by (simp add: next_day_def to_ordinal_def one)
    qed (use d m days_before_month_Suc [of m y] in \<open>simp add: next_day_def to_ordinal_def\<close>)
  qed (simp add: next_day_def to_ordinal_def)
qed

lemma date_weekday_range: "date_weekday y m d = Inr w \<Longrightarrow> 0 \<le> w \<and> w \<le> 6"
  by (auto simp: date_weekday_def split: if_splits)

definition ts_of :: "int \<Rightarrow> int \<Rightarrow> int \<Rightarrow> int \<Rightarrow> int" where
  "ts_of y m d hms = ((y * 100 + m) * 100 + d) * 1000000 + hms"

lemma radix_div_mod:
  assumes "0 \<le> (l :: int)" and "l < k"
  shows "(h * k + l) div k = h" and "(h * k + l) mod k = l"
  using assms by (auto intro: div_pos_pos_trivial mod_pos_pos_trivial)

lemma ts_of_parts:
  assumes "0 \<le> hms" "hms < 1000000" "0 \<le> d" "d < 100" "0 \<le> m" "m < 100"
  shows "ts_of y m d hms div 1000000 = (y * 100 + m) * 100 + d"
    and "((y * 100 + m) * 100 + d) div 10000 = y"
    and "((y * 100 + m) * 100 + d) div 100 mod 100 = m"
    and "((y * 100 + m) * 100 + d) mod 100 = d"
proof -
  have md: "0 \<le> m * 100 + d" "m * 100 + d < 10000" using assms by auto
  have eq: "(y * 100 + m) * 100 + d = y * 10000 + (m * 100 + d)" by simp
  show "ts_of y m d hms div 1000000 = (y * 100 + m) * 100 + d"
    unfolding ts_of_def by (rule radix_div_mod(1) [OF assms(1,2)])
  show "((y * 100 + m) * 100 + d) div 10000 = y"
    unfolding eq by (rule radix_div_mod(1) [OF md])
  show "((y * 100 + m) * 100 + d) div 100 mod 100 = m"
    unfolding radix_div_mod(1) [OF assms(3,4)] by (rule radix_div_mod(2) [OF assms(5,6)])
  show "((y * 100 + m) * 100 + d) mod 100 = d"
    by (rule radix_div_mod(2) [OF assms(3,4)])
qed

lemma datetime_weekday_range: "datetime_weekday y m d = Inr w \<Longrightarrow> 0 \<le> w \<and> w \<le> 6"
  unfolding datetime_weekday_def using date_weekday_range [of y m d w] by (simp split: if_splits)

lemma weekday_monday0_range:
  assumes "weekday_monday0 ts = Inr w"
  shows "0 \<le> w \<and> w \<le> 6"
proof (cases "datetime_weekday (ts div 1000000 div 10000) (ts div 1000000 div 100 mod 100) (ts div 1000000 mod 100)")
  case (Inl e)
  then have "w = 0" using assms unfolding weekday_monday0_def Let_def Inl sum.case by (simp split: if_splits)
  then show ?thesis by simp
next
  case (Inr v)
  then have "w = v" using assms unfolding weekday_monday0_def Let_def Inr sum.case by simp
  then show ?thesis using datetime_weekday_range [OF Inr] by simp
qed

lemma days_in_month_le: "days_in_month y m \<le> 31"
  by (simp add: days_in_month_def)

lemma weekday_monday0_ts:
  assumes "valid_date y m d" and "0 \<le> hms" "hms < 1000000"
  shows "weekday_monday0 (ts_of y m d hms) = Inr ((to_ordinal y m d + 6) mod 7)"
proof -
  have b: "0 \<le> d" "d < 100" "0 \<le> m" "m < 100"
    using assms(1) days_in_month_le [of y m] by (auto simp: valid_date_def)
  note p = ts_of_parts [OF assms(2,3) b, of y]
  have "list_all (\<lambda>x. - (2 ^ 31) \<le> x \<and> x < 2 ^ 31) [y, m, d]"
    using assms(1) b by (simp add: valid_date_def)
  then show ?thesis
    using assms(1) unfolding weekday_monday0_def datetime_weekday_def Let_def p date_weekday_def
    by (simp only: if_True sum.case)
qed

end
