(* ===== verification/Arrays.thy ===== *)
theory Arrays
  imports Prelude
begin

text \<open>
  The array primitives of NumPy and PyTorch that the code applies to one row of a tensor, with
  their documented meaning: cumulative sums, first index of a maximum, clipping, evenly spaced
  grids, exponentials normalised to a distribution, and means. A row is a list of reals, a
  two-dimensional tensor the list of its rows.
\<close>

section \<open>Cumulative sums\<close>

fun cumsum_from :: "real \<Rightarrow> real list \<Rightarrow> real list" where
  "cumsum_from a [] = []"
| "cumsum_from a (x # xs) = (a + x) # cumsum_from (a + x) xs"

definition cumsum :: "real list \<Rightarrow> real list" where
  "cumsum xs = cumsum_from 0 xs"

lemma length_cumsum_from [simp]: "length (cumsum_from a xs) = length xs"
  by (induction xs arbitrary: a) auto

lemma length_cumsum [simp, arr_simps]: "length (cumsum xs) = length xs"
  by (simp add: cumsum_def)

lemma nth_cumsum_from:
  "i < length xs \<Longrightarrow> cumsum_from a xs ! i = a + sum_list (take (Suc i) xs)"
proof (induction xs arbitrary: a i)
  case (Cons x xs)
  then show ?case by (cases i) (auto simp: Cons.IH)
qed simp

lemma nth_cumsum [arr_simps]: "i < length xs \<Longrightarrow> cumsum xs ! i = sum_list (take (Suc i) xs)"
  by (simp add: cumsum_def nth_cumsum_from)

lemma cumsum_nonneg:
  assumes "\<And>x. x \<in> set xs \<Longrightarrow> 0 \<le> x" and "i < length xs"
  shows "0 \<le> cumsum xs ! i"
  using assms by (auto simp: nth_cumsum intro!: sum_list_nonneg_real dest: in_set_takeD)

lemma cumsum_mono:
  assumes "\<And>x. x \<in> set xs \<Longrightarrow> 0 \<le> x" and "i \<le> j" and "j < length xs"
  shows "cumsum xs ! i \<le> cumsum xs ! j"
  using assms sum_list_take_mono [of xs "Suc i" "Suc j"] by (simp add: nth_cumsum)

lemma cumsum_le_total:
  assumes "\<And>x. x \<in> set xs \<Longrightarrow> 0 \<le> x" and "i < length xs"
  shows "cumsum xs ! i \<le> sum_list xs"
  using assms sum_list_take_le [of xs "Suc i"] by (simp add: nth_cumsum)

section \<open>First index of the maximum\<close>

text \<open>\<open>argmax\<close> and \<open>max(dim=1)\<close>: the first index where the maximum occurs.\<close>

fun argmax_from :: "nat \<Rightarrow> nat \<Rightarrow> real \<Rightarrow> real list \<Rightarrow> nat" where
  "argmax_from i bi bv [] = bi"
| "argmax_from i bi bv (x # xs) =
     (if bv < x then argmax_from (Suc i) i x xs else argmax_from (Suc i) bi bv xs)"

fun argmax :: "real list \<Rightarrow> nat" where
  "argmax [] = 0"
| "argmax (x # xs) = argmax_from 1 0 x xs"

text \<open>What a client may assume of the selected index.\<close>

locale first_max =
  fixes pick :: "real list \<Rightarrow> nat"
  assumes pick_less: "xs \<noteq> [] \<Longrightarrow> pick xs < length xs"
    and pick_max: "i < length xs \<Longrightarrow> xs ! i \<le> xs ! pick xs"
    and pick_first: "i < pick xs \<Longrightarrow> xs \<noteq> [] \<Longrightarrow> xs ! i < xs ! pick xs"
begin

lemma pick_eqI:
  assumes "i < length xs"
    and "\<And>j. j < length xs \<Longrightarrow> xs ! j \<le> xs ! i"
    and "\<And>j. j < i \<Longrightarrow> xs ! j < xs ! i"
  shows "pick xs = i"
proof -
  have ne: "xs \<noteq> []" using assms(1) by auto
  have "\<not> i < pick xs"
    using assms(2) [OF pick_less [OF ne]] pick_first [of i xs] ne by auto
  moreover have "\<not> pick xs < i"
    using assms(3) [of "pick xs"] pick_max [OF assms(1)] by auto
  ultimately show ?thesis by simp
qed

lemma pick_value_unique:
  assumes "i < length xs" and "\<And>j. j < length xs \<Longrightarrow> xs ! j \<le> xs ! i"
  shows "xs ! pick xs = xs ! i"
proof -
  have ne: "xs \<noteq> []" using assms(1) by auto
  show ?thesis
    using assms(2) [OF pick_less [OF ne]] pick_max [OF assms(1)] by (rule antisym)
qed

lemma pick_nonneg: "i < length xs \<Longrightarrow> 0 \<le> xs ! i \<Longrightarrow> 0 \<le> xs ! pick xs"
  using pick_max [of i xs] by linarith

end

lemma argmax_from_spec:
  assumes "ys \<noteq> []" and "bi < length ys" and "\<forall>i<length ys. ys ! i \<le> ys ! bi"
    and "\<forall>i<bi. ys ! i < ys ! bi"
  shows "argmax_from (length ys) bi (ys ! bi) xs < length (ys @ xs)
     \<and> (\<forall>i<length (ys @ xs). (ys @ xs) ! i \<le> (ys @ xs) ! argmax_from (length ys) bi (ys ! bi) xs)
     \<and> (\<forall>i<argmax_from (length ys) bi (ys ! bi) xs.
          (ys @ xs) ! i < (ys @ xs) ! argmax_from (length ys) bi (ys ! bi) xs)"
  using assms
proof (induction xs arbitrary: ys bi)
  case Nil
  then show ?case by simp
next
  case (Cons x xs)
  show ?case
  proof (cases "ys ! bi < x")
    case True
    have "\<forall>i<length (ys @ [x]). (ys @ [x]) ! i \<le> (ys @ [x]) ! length ys"
      using Cons.prems(3) True by (auto simp: nth_append less_Suc_eq_le order.order_iff_strict)
    moreover have "\<forall>i<length ys. (ys @ [x]) ! i < (ys @ [x]) ! length ys"
      using Cons.prems(3) True by (auto simp: nth_append order.strict_trans1)
    ultimately show ?thesis
      using Cons.IH [of "ys @ [x]" "length ys"] True by simp
  next
    case False
    have "\<forall>i<length (ys @ [x]). (ys @ [x]) ! i \<le> (ys @ [x]) ! bi"
      using Cons.prems(2,3) False by (auto simp: nth_append less_Suc_eq)
    moreover have "\<forall>i<bi. (ys @ [x]) ! i < (ys @ [x]) ! bi"
      using Cons.prems(2,4) by (auto simp: nth_append)
    ultimately show ?thesis
      using Cons.IH [of "ys @ [x]" bi] Cons.prems(2) False by (simp add: nth_append)
  qed
qed

lemma argmax_spec:
  assumes "xs \<noteq> []"
  shows "argmax xs < length xs" and "i < length xs \<Longrightarrow> xs ! i \<le> xs ! argmax xs"
    and "i < argmax xs \<Longrightarrow> xs ! i < xs ! argmax xs"
  using assms argmax_from_spec [of "[hd xs]" 0 "tl xs"] by (cases xs; simp)+

interpretation am: first_max argmax
proof unfold_locales
  show "i < length xs \<Longrightarrow> xs ! i \<le> xs ! argmax xs" for i xs
    by (rule argmax_spec) auto
qed (auto intro: argmax_spec)

section \<open>Elementwise and grid operations\<close>

text \<open>\<open>clamp(min=lo, max=hi)\<close> and \<open>np.clip\<close>: the lower bound first, then the upper one.\<close>

definition clamp :: "'a::linorder \<Rightarrow> 'a \<Rightarrow> 'a \<Rightarrow> 'a" where
  "clamp lo hi x = min (max x lo) hi"

lemma clamp_le [simp]: "clamp lo hi x \<le> hi"
  by (simp add: clamp_def)

lemma clamp_ge: "lo \<le> hi \<Longrightarrow> lo \<le> clamp lo hi x"
  by (simp add: clamp_def)

lemma clamp_id: "lo \<le> x \<Longrightarrow> x \<le> hi \<Longrightarrow> clamp lo hi x = x"
  by (simp add: clamp_def)

lemma clamp_mono: "x \<le> y \<Longrightarrow> clamp lo hi x \<le> clamp lo hi y"
  by (auto simp: clamp_def min_def max_def)

definition arange :: "nat \<Rightarrow> real list" where
  "arange n = map real [0..<n]"

lemma length_arange [simp, arr_simps]: "length (arange n) = n"
  by (simp add: arange_def)

lemma nth_arange [simp, arr_simps]: "i < n \<Longrightarrow> arange n ! i = real i"
  by (simp add: arange_def)

text \<open>\<open>linspace(a, b, n)\<close>: \<open>n\<close> evenly spaced points, both ends included; one point is \<open>a\<close>.\<close>

definition linspace :: "real \<Rightarrow> real \<Rightarrow> nat \<Rightarrow> real list" where
  "linspace a b n = map (\<lambda>i. a + real i * ((b - a) / real (n - 1))) [0..<n]"

lemma length_linspace [simp, arr_simps]: "length (linspace a b n) = n"
  by (simp add: linspace_def)

lemma nth_linspace [arr_simps]:
  "i < n \<Longrightarrow> linspace a b n ! i = a + real i * ((b - a) / real (n - 1))"
  by (simp add: linspace_def)

lemma linspace_bounds:
  assumes "a \<le> b" and "x \<in> set (linspace a b n)"
  shows "a \<le> x \<and> x \<le> b"
proof -
  obtain i where i: "i < n" and x: "x = a + real i * ((b - a) / real (n - 1))"
    using assms(2) by (auto simp: linspace_def)
  have ge: "0 \<le> real i * ((b - a) / real (n - 1))"
    using assms(1) by (simp add: zero_le_mult_iff)
  show ?thesis
  proof (cases "n = 1")
    case True
    with x assms(1) show ?thesis by simp
  next
    case False
    with i have "real i / real (n - 1) \<le> 1" by (simp add: divide_le_eq)
    then have "(real i / real (n - 1)) * (b - a) \<le> 1 * (b - a)"
      using assms(1) by (intro mult_right_mono) auto
    with ge x show ?thesis by simp
  qed
qed

definition mean :: "real list \<Rightarrow> real" where
  "mean xs = sum_list xs / real (length xs)"

lemma mean_nonneg: "(\<And>x. x \<in> set xs \<Longrightarrow> 0 \<le> x) \<Longrightarrow> 0 \<le> mean xs"
  by (simp add: mean_def sum_list_nonneg_real)

lemma mean_times_length: "mean xs * real (length xs) = sum_list xs"
  by (cases xs) (simp_all add: mean_def)

section \<open>Softmax\<close>

definition softmax :: "real list \<Rightarrow> real list" where
  "softmax xs = map (\<lambda>x. exp x / sum_list (map exp xs)) xs"

definition logsumexp :: "real list \<Rightarrow> real" where
  "logsumexp xs = ln (sum_list (map exp xs))"

definition log_softmax :: "real list \<Rightarrow> real list" where
  "log_softmax xs = map (\<lambda>x. x - logsumexp xs) xs"

lemma sum_exp_pos: "xs \<noteq> [] \<Longrightarrow> 0 < sum_list (map exp (xs :: real list))"
  by (rule sum_list_pos_real) auto

lemma length_softmax [simp, arr_simps]: "length (softmax xs) = length xs"
  by (simp add: softmax_def)

lemma length_log_softmax [simp, arr_simps]: "length (log_softmax xs) = length xs"
  by (simp add: log_softmax_def)

lemma nth_softmax [arr_simps]:
  "i < length xs \<Longrightarrow> softmax xs ! i = exp (xs ! i) / sum_list (map exp xs)"
  by (simp add: softmax_def)

lemma softmax_pos: "p \<in> set (softmax xs) \<Longrightarrow> 0 < p"
  using sum_exp_pos [of xs] by (cases "xs = []") (auto simp: softmax_def)

lemma sum_softmax: "xs \<noteq> [] \<Longrightarrow> sum_list (softmax xs) = 1"
  using sum_exp_pos [of xs]
  by (simp add: softmax_def sum_list_divide [of "sum_list (map exp xs)" "map exp xs", simplified comp_def map_map])

lemma exp_logsumexp: "xs \<noteq> [] \<Longrightarrow> exp (logsumexp xs) = sum_list (map exp xs)"
  by (simp add: logsumexp_def sum_exp_pos)

lemma exp_log_softmax: "map exp (log_softmax xs) = softmax xs"
proof (cases "xs = []")
  case False
  then show ?thesis
    by (simp add: log_softmax_def softmax_def exp_diff exp_logsumexp)
qed (simp add: log_softmax_def softmax_def)

lemma log_softmax_nonpos: "l \<in> set (log_softmax xs) \<Longrightarrow> l \<le> 0"
proof -
  assume l: "l \<in> set (log_softmax xs)"
  then have ne: "xs \<noteq> []" and "exp l \<in> set (softmax xs)"
    by (auto simp: log_softmax_def simp flip: exp_log_softmax)
  then have "exp l \<le> sum_list (softmax xs)"
    by (meson less_imp_le member_le_sum_list softmax_pos)
  with ne show "l \<le> 0" by (simp add: sum_softmax)
qed

section \<open>Discrete price distributions\<close>

text \<open>
  The contract between the models that predict a distribution over price bins and everything that
  consumes one (bid optimizers, calibration metrics): on acceptable inputs \<open>ok\<close>, the row of
  probabilities is nonnegative and sums to one.
\<close>

locale price_dist =
  fixes probs :: "'a \<Rightarrow> real list"
    and ok :: "'a \<Rightarrow> bool"
  assumes probs_nonneg: "ok m \<Longrightarrow> p \<in> set (probs m) \<Longrightarrow> 0 \<le> p"
    and probs_sum: "ok m \<Longrightarrow> sum_list (probs m) = 1"
begin

lemma probs_nonempty: "ok m \<Longrightarrow> probs m \<noteq> []"
  using probs_sum by fastforce

lemma cdf_mono: "ok m \<Longrightarrow> i \<le> j \<Longrightarrow> j < length (probs m) \<Longrightarrow> cumsum (probs m) ! i \<le> cumsum (probs m) ! j"
  by (rule cumsum_mono) (auto intro: probs_nonneg)

lemma cdf_bounds:
  assumes "ok m" and "i < length (probs m)"
  shows "0 \<le> cumsum (probs m) ! i \<and> cumsum (probs m) ! i \<le> 1"
  using assms cumsum_nonneg [of "probs m" i] cumsum_le_total [of "probs m" i]
  by (auto simp: probs_sum intro: probs_nonneg)

lemma cdf_last: "ok m \<Longrightarrow> cumsum (probs m) ! (length (probs m) - 1) = 1"
  using probs_nonempty [of m] probs_sum [of m] by (simp add: nth_cumsum)

lemma prob_le_1: "ok m \<Longrightarrow> p \<in> set (probs m) \<Longrightarrow> p \<le> 1"
  using probs_sum [of m] probs_nonneg [of m] by (metis member_le_sum_list)

end

interpretation softmax_dist: price_dist softmax "\<lambda>xs. xs \<noteq> []"
  by unfold_locales (auto intro: sum_softmax less_imp_le dest: softmax_pos)

end
