(* ===== verification/Features.thy ===== *)
theory Features
  imports Encoder Calendar Arrays
begin

text \<open>
  The preprocessing pipeline \<open>features.py\<close>: parsing of the impression log, the per-row features, and
  the three passes of \<open>main\<close> (write the intermediate frames; fit encoders and statistics on the
  training prefix; encode, standardise and split). pandas' \<open>to_numeric\<close> and \<open>to_datetime\<close>, and the
  reading of a compressed file, are parameters; a data frame is the list of its rows. The cleanup of
  the intermediate files at the end of \<open>main\<close> and its progress output are not modelled.
\<close>

section \<open>Parsing the log\<close>

definition COLNAMES :: "string list" where
  "COLNAMES =
     [''bid_id'', ''timestamp'', ''log_type'', ''user_id'', ''user_agent'', ''ip'',
      ''region'', ''city'', ''ad_exchange'', ''domain'', ''url_hash'', ''anonymous_url'',
      ''slot_id'', ''slot_width'', ''slot_height'', ''slot_visibility'', ''slot_format'',
      ''slot_floor_price'', ''creative_id'', ''bidding_price'', ''payprice'',
      ''key_page_url'', ''advertiser_id'', ''user_tags'']"

definition TEST_EXTRA :: "string list" where
  "TEST_EXTRA = [''click'', ''conversion'']"

text \<open>The columns \<open>KEEP_RAW\<close>, and the two extra columns of the test log.\<close>

record raw_row =
  rw_timestamp :: string
  rw_region :: string
  rw_city :: string
  rw_ad_exchange :: string
  rw_domain :: string
  rw_slot_width :: string
  rw_slot_height :: string
  rw_slot_visibility :: string
  rw_slot_format :: string
  rw_slot_floor_price :: string
  rw_bidding_price :: string
  rw_payprice :: string
  rw_advertiser_id :: string
  rw_user_tags :: string
  rw_extra :: "(string \<times> string) option"

definition cell :: "string list \<Rightarrow> string list \<Rightarrow> string \<Rightarrow> string" where
  "cell cols parts name = (case map_of (zip cols parts) name of None \<Rightarrow> [] | Some s \<Rightarrow> s)"

definition log_cols :: "bool \<Rightarrow> string list" where
  "log_cols is_test = COLNAMES @ (if is_test then TEST_EXTRA else [])"

definition keep_cols :: "bool \<Rightarrow> string list \<Rightarrow> raw_row" where
  "keep_cols is_test parts = (let c = cell (log_cols is_test) parts in
     \<lparr>rw_timestamp = c ''timestamp'', rw_region = c ''region'', rw_city = c ''city'',
      rw_ad_exchange = c ''ad_exchange'', rw_domain = c ''domain'', rw_slot_width = c ''slot_width'',
      rw_slot_height = c ''slot_height'', rw_slot_visibility = c ''slot_visibility'',
      rw_slot_format = c ''slot_format'', rw_slot_floor_price = c ''slot_floor_price'',
      rw_bidding_price = c ''bidding_price'', rw_payprice = c ''payprice'',
      rw_advertiser_id = c ''advertiser_id'', rw_user_tags = c ''user_tags'',
      rw_extra = (if is_test then Some (c ''click'', c ''conversion'') else None)\<rparr>)"

definition line_parts :: "string \<Rightarrow> string list" where
  "line_parts line = split_on (CHR 0x09) (rstrip (CHR 0x0A) line)"

fun parse_loop :: "bool \<Rightarrow> nat \<Rightarrow> string list \<Rightarrow> string list list \<Rightarrow> raw_row list list \<Rightarrow> string list list \<times> raw_row list list" where
  "parse_loop is_test chunk [] rows sub_dfs = (rows, sub_dfs)"
| "parse_loop is_test chunk (line # lines) rows sub_dfs =
     (let parts = line_parts line in
      if length parts \<noteq> length (log_cols is_test) then parse_loop is_test chunk lines rows sub_dfs
      else let rows = rows @ [parts] in
        if chunk \<le> length rows
        then parse_loop is_test chunk lines [] (sub_dfs @ [map (keep_cols is_test) rows])
        else parse_loop is_test chunk lines rows sub_dfs)"

text \<open>\<open>pd.concat\<close> of no frames is a \<open>ValueError\<close>.\<close>

definition pd_concat :: "'a list list \<Rightarrow> 'a list res" where
  "pd_concat dfs = (if dfs = [] then Inl ValueError else Inr (concat dfs))"

definition parse_chunked :: "string list \<Rightarrow> bool \<Rightarrow> nat \<Rightarrow> raw_row list res" where
  "parse_chunked lines is_test chunk =
     (let (rows, sub_dfs) = parse_loop is_test chunk lines [] []
      in pd_concat (if rows \<noteq> [] then sub_dfs @ [map (keep_cols is_test) rows] else sub_dfs))"

section \<open>Features of a row\<close>

record feat_row =
  fr_region :: int
  fr_city :: int
  fr_ad_exchange :: int
  fr_slot_width :: int
  fr_slot_height :: int
  fr_slot_visibility :: int
  fr_slot_format :: int
  fr_domain :: string
  fr_advertiser_id :: string
  fr_bidding_price :: real
  fr_payprice :: real
  fr_log_payprice :: real
  fr_hour_sin :: real
  fr_hour_cos :: real
  fr_weekday_sin :: real
  fr_weekday_cos :: real
  fr_is_weekend :: real
  fr_slot_area :: real
  fr_has_floor_price :: real
  fr_log_floor_price :: real
  fr_tag_count :: real
  fr_user_tags :: string
  fr_extra :: "(int \<times> int) option"

text \<open>
  \<open>astype('int32')\<close> of a float and \<open>int\<close> truncate toward zero; \<open>to_numeric(errors='coerce')\<close> gives
  NaN (\<^const>\<open>None\<close>) for a string that is no number, and \<open>fillna(0)\<close> makes it 0.
  Values outside the range of a 32-bit integer, whose cast is not specified, are not modelled.
\<close>

definition trunc_int :: "real \<Rightarrow> int" where
  "trunc_int x = (if 0 \<le> x then \<lfloor>x\<rfloor> else \<lceil>x\<rceil>)"

definition num0 :: "(string \<Rightarrow> real option) \<Rightarrow> string \<Rightarrow> real" where
  "num0 to_numeric s = (case to_numeric s of None \<Rightarrow> 0 | Some x \<Rightarrow> x)"

definition int0 :: "(string \<Rightarrow> real option) \<Rightarrow> string \<Rightarrow> int" where
  "int0 to_numeric s = trunc_int (num0 to_numeric s)"

definition format_str :: "string \<Rightarrow> string" where
  "format_str s = (if s \<in> {''Na'', ''na'', ''NA'', []} then ''0'' else s)"

definition count_tags :: "string \<Rightarrow> nat" where
  "count_tags s = (if no_tags s then 0 else length (filter (\<lambda>p. p \<noteq> []) (split_on CHR '','' s)))"

definition b2r :: "bool \<Rightarrow> real" where
  "b2r b = (if b then 1 else 0)"

text \<open>
  The parameter \<open>weekday\<close> is \<open>to_datetime(s, format='%Y%m%d', errors='coerce').dt.weekday\<close>, with
  \<^const>\<open>None\<close> for NaT. A timestamp whose hour field is no integer raises \<open>ValueError\<close>.
\<close>

definition basic_features_row ::
  "(string \<Rightarrow> real option) \<Rightarrow> (string \<Rightarrow> int option) \<Rightarrow> raw_row \<Rightarrow> feat_row res" where
  "basic_features_row to_numeric weekday r =
     res_bind (py_int (slice 8 10 (rw_timestamp r))) (\<lambda>hour.
       let n = num0 to_numeric; i = int0 to_numeric;
           h = real_of_int hour;
           wd = (case weekday (slice 0 8 (rw_timestamp r)) of None \<Rightarrow> 0 | Some d \<Rightarrow> d);
           w = real_of_int wd;
           floor_price = n (rw_slot_floor_price r)
       in Inr
         \<lparr>fr_region = i (rw_region r), fr_city = i (rw_city r), fr_ad_exchange = i (rw_ad_exchange r),
          fr_slot_width = i (rw_slot_width r), fr_slot_height = i (rw_slot_height r),
          fr_slot_visibility = i (rw_slot_visibility r),
          fr_slot_format = i (format_str (rw_slot_format r)),
          fr_domain = rw_domain r, fr_advertiser_id = rw_advertiser_id r,
          fr_bidding_price = n (rw_bidding_price r),
          fr_payprice = n (rw_payprice r), fr_log_payprice = ln (max 1 (n (rw_payprice r))),
          fr_hour_sin = sin (2 * pi * h / 24), fr_hour_cos = cos (2 * pi * h / 24),
          fr_weekday_sin = sin (2 * pi * w / 7), fr_weekday_cos = cos (2 * pi * w / 7),
          fr_is_weekend = b2r (5 \<le> wd),
          fr_slot_area = real_of_int (i (rw_slot_width r)) * real_of_int (i (rw_slot_height r)),
          fr_has_floor_price = b2r (0 < floor_price),
          fr_log_floor_price = ln (1 + max 0 floor_price),
          fr_tag_count = real (count_tags (rw_user_tags r)),
          fr_user_tags = rw_user_tags r,
          fr_extra = map_option (\<lambda>(c, v). (i c, i v)) (rw_extra r)\<rparr>)"

definition basic_features_inplace ::
  "(string \<Rightarrow> real option) \<Rightarrow> (string \<Rightarrow> int option) \<Rightarrow> raw_row list \<Rightarrow> feat_row list res" where
  "basic_features_inplace to_numeric weekday df = res_map (basic_features_row to_numeric weekday) df"

section \<open>Pass A: the intermediate frames\<close>

text \<open>
  The frames written so far, by path. \<open>read\<close> is the reading of one log (its lines, or an
  \<open>OSError\<close>), \<open>inter_path\<close> the name of its intermediate frame.
\<close>

type_synonym frame_store = "string \<Rightarrow> feat_row list option"

definition load_log ::
  "(string \<Rightarrow> string list res) \<Rightarrow> (string \<Rightarrow> real option) \<Rightarrow> (string \<Rightarrow> int option) \<Rightarrow> bool \<Rightarrow> string \<Rightarrow> feat_row list res" where
  "load_log read to_numeric weekday is_test fp =
     res_bind (read fp) (\<lambda>lines. res_bind (parse_chunked lines is_test 200000)
       (basic_features_inplace to_numeric weekday))"

fun pass_a ::
  "(string \<Rightarrow> feat_row list res) \<Rightarrow> (string \<Rightarrow> string) \<Rightarrow> string list \<Rightarrow> frame_store \<Rightarrow> string list \<Rightarrow> nat list
     \<Rightarrow> (frame_store \<times> string list \<times> nat list) res" where
  "pass_a load inter_path [] store inter_paths counts = Inr (store, inter_paths, counts)"
| "pass_a load inter_path (fp # fps) store inter_paths counts =
     res_bind (load fp) (\<lambda>df.
       pass_a load inter_path fps (store(inter_path fp \<mapsto> df)) (inter_paths @ [inter_path fp]) (counts @ [length df]))"

definition read_frame :: "frame_store \<Rightarrow> string \<Rightarrow> feat_row list res" where
  "read_frame store path = (case store path of None \<Rightarrow> Inl OSError | Some df \<Rightarrow> Inr df)"

section \<open>Pass B: encoders and statistics of the training prefix\<close>

text \<open>The configured categorical columns; \<open>advertiser_id\<close> and \<open>domain\<close> are strings.\<close>

datatype cat_feat =
    Region | City | Domain | AdExchange | SlotWidth | SlotHeight | SlotVisibility | SlotFormat | AdvertiserId

fun cat_val :: "cat_feat \<Rightarrow> feat_row \<Rightarrow> key" where
  "cat_val Region r = KInt (fr_region r)"
| "cat_val City r = KInt (fr_city r)"
| "cat_val Domain r = KStr (fr_domain r)"
| "cat_val AdExchange r = KInt (fr_ad_exchange r)"
| "cat_val SlotWidth r = KInt (fr_slot_width r)"
| "cat_val SlotHeight r = KInt (fr_slot_height r)"
| "cat_val SlotVisibility r = KInt (fr_slot_visibility r)"
| "cat_val SlotFormat r = KInt (fr_slot_format r)"
| "cat_val AdvertiserId r = KStr (fr_advertiser_id r)"

record stats =
  st_cat :: "cat_feat \<Rightarrow> counter"
  st_tag :: counter
  sum_log :: real
  sum_log_sq :: real
  sum_lf :: real
  sum_lf_sq :: real
  sum_sa :: real
  sum_sa_sq :: real
  sum_tc :: real
  sum_tc_sq :: real

definition stats0 :: stats where
  "stats0 = \<lparr>st_cat = (\<lambda>_. []), st_tag = [], sum_log = 0, sum_log_sq = 0, sum_lf = 0, sum_lf_sq = 0,
     sum_sa = 0, sum_sa_sq = 0, sum_tc = 0, sum_tc_sq = 0\<rparr>"

definition update_cats :: "cat_feat list \<Rightarrow> feat_row list \<Rightarrow> (cat_feat \<Rightarrow> counter) \<Rightarrow> cat_feat \<Rightarrow> counter" where
  "update_cats cats sub cc = foldl (\<lambda>cc feat. cc(feat := count_update (cc feat) (map (cat_val feat) sub))) cc cats"

definition update_tags :: "feat_row list \<Rightarrow> counter \<Rightarrow> counter" where
  "update_tags sub tc = foldl (\<lambda>tc r. count_update tc (map KStr (tag_tokens (fr_user_tags r)))) tc sub"

definition update_stats :: "cat_feat list \<Rightarrow> feat_row list \<Rightarrow> stats \<Rightarrow> stats" where
  "update_stats cats sub st =
     (let v = map fr_log_payprice sub; v2 = map fr_log_floor_price sub;
          v3 = map fr_slot_area sub; v4 = map fr_tag_count sub; sq = map (\<lambda>x. x * x)
      in \<lparr>st_cat = update_cats cats sub (st_cat st), st_tag = update_tags sub (st_tag st),
          sum_log = sum_log st + sum_list v, sum_log_sq = sum_log_sq st + sum_list (sq v),
          sum_lf = sum_lf st + sum_list v2, sum_lf_sq = sum_lf_sq st + sum_list (sq v2),
          sum_sa = sum_sa st + sum_list v3, sum_sa_sq = sum_sa_sq st + sum_list (sq v3),
          sum_tc = sum_tc st + sum_list v4, sum_tc_sq = sum_tc_sq st + sum_list (sq v4)\<rparr>)"

fun pass_b :: "cat_feat list \<Rightarrow> int \<Rightarrow> frame_store \<Rightarrow> string list \<Rightarrow> int \<Rightarrow> stats \<Rightarrow> stats res" where
  "pass_b cats cut_n store [] rows_seen st = Inr st"
| "pass_b cats cut_n store (path # paths) rows_seen st =
     res_bind (read_frame store path) (\<lambda>df.
       if cut_n \<le> rows_seen then Inr st
       else let e = min (rows_seen + int (length df)) cut_n;
                st' = (if rows_seen < e then update_stats cats (take (nat (e - rows_seen)) df) st else st)
            in pass_b cats cut_n store paths (rows_seen + int (length df)) st')"

record artifacts =
  art_cats :: "cat_feat list"
  art_encoders :: "cat_feat \<Rightarrow> vocab option"
  art_tag_vocab :: vocab
  mean_lf :: real
  mean_sa :: real
  mean_tc :: real
  std_lf :: real
  std_sa :: real
  std_tc :: real
  train_mean_log :: real
  train_std_log :: real

definition var_floor :: "real \<Rightarrow> real \<Rightarrow> real \<Rightarrow> real" where
  "var_floor s_sq n m = max (1/1000000000) (s_sq / n - m ^ 2)"

definition fit_artifacts :: "cat_feat list \<Rightarrow> (cat_feat \<Rightarrow> int option) \<Rightarrow> int \<Rightarrow> stats \<Rightarrow> artifacts res" where
  "fit_artifacts cats clip_min cut_n st =
     (if cut_n = 0 then Inl ZeroDivisionError
      else let n = real_of_int cut_n;
               m_log = sum_log st / n;
               m_lf = sum_lf st / n; m_sa = sum_sa st / n; m_tc = sum_tc st / n;
               min_count = (\<lambda>feat. case clip_min feat of None \<Rightarrow> 0 | Some c \<Rightarrow> c)
           in Inr \<lparr>art_cats = cats,
                art_encoders = (\<lambda>feat. if feat \<in> set cats then Some (fit_encoder (st_cat st feat) (min_count feat)) else None),
                art_tag_vocab = rename_pad (fit_encoder (st_tag st) 200),
                mean_lf = m_lf, mean_sa = m_sa, mean_tc = m_tc,
                std_lf = sqrt (var_floor (sum_lf_sq st) n m_lf),
                std_sa = sqrt (var_floor (sum_sa_sq st) n m_sa),
                std_tc = sqrt (var_floor (sum_tc_sq st) n m_tc),
                train_mean_log = m_log,
                train_std_log = sqrt (max 0 (sum_log_sq st / n - m_log ^ 2))\<rparr>)"

section \<open>Pass C: encoding, standardising, splitting\<close>

record out_row =
  o_cat :: "nat list"
  o_has_floor_price :: real
  o_log_floor_price :: real
  o_slot_area :: real
  o_tag_count :: real
  o_hour_sin :: real
  o_hour_cos :: real
  o_weekday_sin :: real
  o_weekday_cos :: real
  o_is_weekend :: real
  o_tag_indices :: "nat list"
  o_payprice :: real
  o_log_payprice :: real
  o_bidding_price :: real
  o_advertiser_id :: string
  o_extra :: "(int \<times> int) option"

text \<open>
  One output row: the index columns in the order of \<open>cat_features\<close>, the standardised columns, the
  others copied. The test frame alone keeps \<open>click\<close> and \<open>conversion\<close>.
\<close>

definition art_voc :: "artifacts \<Rightarrow> cat_feat \<Rightarrow> vocab" where
  "art_voc art feat = (case art_encoders art feat of None \<Rightarrow> [] | Some voc \<Rightarrow> voc)"

definition encode_row :: "artifacts \<Rightarrow> feat_row \<Rightarrow> out_row" where
  "encode_row art r =
     \<lparr>o_cat = map (\<lambda>feat. vocab_get (art_voc art feat) (cat_val feat r)) (art_cats art),
      o_has_floor_price = fr_has_floor_price r,
      o_log_floor_price = (fr_log_floor_price r - mean_lf art) / std_lf art,
      o_slot_area = (fr_slot_area r - mean_sa art) / std_sa art,
      o_tag_count = (fr_tag_count r - mean_tc art) / std_tc art,
      o_hour_sin = fr_hour_sin r, o_hour_cos = fr_hour_cos r,
      o_weekday_sin = fr_weekday_sin r, o_weekday_cos = fr_weekday_cos r,
      o_is_weekend = fr_is_weekend r,
      o_tag_indices = encode_tags_row (art_tag_vocab art) 10 (fr_user_tags r),
      o_payprice = fr_payprice r, o_log_payprice = fr_log_payprice r,
      o_bidding_price = fr_bidding_price r, o_advertiser_id = fr_advertiser_id r,
      o_extra = fr_extra r\<rparr>"

fun pass_c :: "artifacts \<Rightarrow> int \<Rightarrow> frame_store \<Rightarrow> string list \<Rightarrow> int \<Rightarrow> out_row list list \<Rightarrow> out_row list list
    \<Rightarrow> (out_row list list \<times> out_row list list) res" where
  "pass_c art cut_n store [] rows_seen train_chunks val_chunks = Inr (train_chunks, val_chunks)"
| "pass_c art cut_n store (path # paths) rows_seen train_chunks val_chunks =
     res_bind (read_frame store path) (\<lambda>df0.
       let df = map (encode_row art) df0; n = int (length df) in
       if cut_n \<le> rows_seen then
         pass_c art cut_n store paths (rows_seen + n) train_chunks (val_chunks @ [df])
       else if rows_seen + n \<le> cut_n then
         pass_c art cut_n store paths (rows_seen + n) (train_chunks @ [df]) val_chunks
       else let split = nat (cut_n - rows_seen) in
         pass_c art cut_n store paths (rows_seen + n) (train_chunks @ [take split df]) (val_chunks @ [drop split df]))"

fun pass_test :: "artifacts \<Rightarrow> frame_store \<Rightarrow> string list \<Rightarrow> out_row list list \<Rightarrow> out_row list list res" where
  "pass_test art store [] test_chunks = Inr test_chunks"
| "pass_test art store (path # paths) test_chunks =
     res_bind (read_frame store path) (\<lambda>df. pass_test art store paths (test_chunks @ [map (encode_row art) df]))"

record features_out =
  out_train :: "out_row list"
  out_val :: "out_row list"
  out_test :: "out_row list"
  out_artifacts :: artifacts

definition main_features ::
  "(bool \<Rightarrow> string \<Rightarrow> feat_row list res) \<Rightarrow> (string \<Rightarrow> string) \<Rightarrow> (string \<Rightarrow> string) \<Rightarrow> string list \<Rightarrow> string list
     \<Rightarrow> real \<Rightarrow> cat_feat list \<Rightarrow> (cat_feat \<Rightarrow> int option) \<Rightarrow> features_out res" where
  "main_features load inter_path test_path train_files test_files train_frac cats clip_min =
     res_bind (pass_a (load False) inter_path train_files Map.empty [] []) (\<lambda>(store0, inter_paths, counts).
     res_bind (pass_a (load True) test_path test_files store0 [] []) (\<lambda>(store, test_paths, _).
       let cut_n = trunc_int (real (sum_list counts) * train_frac) in
     res_bind (pass_b cats cut_n store inter_paths 0 stats0) (\<lambda>st.
     res_bind (fit_artifacts cats clip_min cut_n st) (\<lambda>art.
     res_bind (pass_c art cut_n store inter_paths 0 [] []) (\<lambda>(train_chunks, val_chunks).
     res_bind (pd_concat train_chunks) (\<lambda>train_df.
     res_bind (pd_concat val_chunks) (\<lambda>val_df.
     res_bind (pass_test art store test_paths []) (\<lambda>test_chunks.
     res_bind (pd_concat test_chunks) (\<lambda>test_df.
       Inr \<lparr>out_train = train_df, out_val = val_df, out_test = test_df, out_artifacts = art\<rparr>)))))))))"

section \<open>Parsing does not depend on the chunk size\<close>

definition good_rows :: "bool \<Rightarrow> string list \<Rightarrow> raw_row list" where
  "good_rows is_test lines =
     map (keep_cols is_test) (filter (\<lambda>ps. length ps = length (log_cols is_test)) (map line_parts lines))"

lemma parse_loop_eq:
  assumes "parse_loop is_test chunk lines rows sub_dfs = (rows', sub')"
  shows "concat sub' @ map (keep_cols is_test) rows' = concat sub_dfs @ map (keep_cols is_test) rows @ good_rows is_test lines"
  using assms
proof (induction lines arbitrary: rows sub_dfs)
  case (Cons l ls)
  then show ?case
    by (auto simp: good_rows_def Let_def split: if_splits)
qed (auto simp: good_rows_def)

lemma parse_loop_nonempty:
  "parse_loop is_test chunk lines rows sub_dfs = (rows', sub') \<Longrightarrow> (\<And>d. d \<in> set sub_dfs \<Longrightarrow> d \<noteq> []) \<Longrightarrow>
   d \<in> set sub' \<Longrightarrow> d \<noteq> []"
proof (induction lines arbitrary: rows sub_dfs)
  case (Cons l ls)
  show ?case
  proof (cases "length (line_parts l) = length (log_cols is_test) \<and> chunk \<le> length (rows @ [line_parts l])")
    case True
    then show ?thesis
      using Cons.prems by (intro Cons.IH [of "[]" "sub_dfs @ [map (keep_cols is_test) (rows @ [line_parts l])]"])
        (auto simp: Let_def)
  next
    case False
    then show ?thesis
      using Cons.prems Cons.IH [of rows sub_dfs] Cons.IH [of "rows @ [line_parts l]" sub_dfs]
      by (auto simp: Let_def split: if_splits)
  qed
qed auto

lemma parse_chunked_eq:
  "parse_chunked lines is_test chunk =
     (if good_rows is_test lines = [] then Inl ValueError else Inr (good_rows is_test lines))"
proof -
  obtain rows sub where loop: "parse_loop is_test chunk lines [] [] = (rows, sub)" by fastforce
  define dfs where "dfs = (if rows \<noteq> [] then sub @ [map (keep_cols is_test) rows] else sub)"
  have all: "concat dfs = good_rows is_test lines"
    using parse_loop_eq [OF loop] by (auto simp: dfs_def split: if_splits)
  have "d \<noteq> []" if "d \<in> set dfs" for d
    using that parse_loop_nonempty [OF loop, of d] by (auto simp: dfs_def split: if_splits)
  then have "dfs = [] \<longleftrightarrow> concat dfs = []"
    by (cases dfs) auto
  then show ?thesis
    by (simp add: parse_chunked_def loop dfs_def [symmetric] pd_concat_def all)
qed

text \<open>
  What \<open>parse_chunked\<close> returns does not depend on the chunk size: the kept columns of every line
  with the right number of fields, in file order, and a \<open>ValueError\<close> exactly when no line has it.
\<close>

theorem parse_chunk_size_irrelevant:
  "parse_chunked lines is_test chunk = parse_chunked lines is_test chunk' \<and>
   (is_ok (parse_chunked lines is_test chunk) \<longleftrightarrow>
     (\<exists>line \<in> set lines. length (line_parts line) = 24 + (if is_test then 2 else 0)))"
proof -
  have n: "length (log_cols is_test) = 24 + (if is_test then 2 else 0)"
    by (simp add: log_cols_def COLNAMES_def TEST_EXTRA_def)
  show ?thesis
    unfolding parse_chunked_eq good_rows_def n by (auto simp: filter_empty_conv)
qed

section \<open>The rows of the frames\<close>

text \<open>
  \<open>basic_features_inplace\<close> on a row fails exactly when the hour field of the timestamp is no
  integer; otherwise the cyclic encodings lie on the unit circle, the flags are 0 or 1, \<open>log_payprice\<close>
  is the logarithm of the price raised to at least 1, the logarithmic floor price is nonnegative and
  zero exactly without a floor, and \<open>tag_count\<close> counts the nonempty tags.
\<close>

theorem basic_row_sound:
  "case basic_features_row to_numeric weekday r of
     Inl e \<Rightarrow> py_int (slice 8 10 (rw_timestamp r)) = Inl e
   | Inr f \<Rightarrow> is_ok (py_int (slice 8 10 (rw_timestamp r))) \<and>
       fr_hour_sin f ^ 2 + fr_hour_cos f ^ 2 = 1 \<and> fr_weekday_sin f ^ 2 + fr_weekday_cos f ^ 2 = 1 \<and>
       fr_is_weekend f \<in> {0, 1} \<and> fr_has_floor_price f \<in> {0, 1} \<and>
       exp (fr_log_payprice f) = max 1 (fr_payprice f) \<and> 0 \<le> fr_log_payprice f \<and>
       0 \<le> fr_log_floor_price f \<and> (fr_log_floor_price f = 0 \<longleftrightarrow> fr_has_floor_price f = 0) \<and>
       fr_tag_count f = real (length (tag_tokens (fr_user_tags f)))"
proof (cases "py_int (slice 8 10 (rw_timestamp r))")
  case (Inr hour)
  have "ln (1 + max 0 x) = 0 \<longleftrightarrow> x \<le> 0" for x :: real
    by (auto simp: max_def add_pos_pos ln_eq_zero_iff)
  then show ?thesis
    by (simp add: Inr basic_features_row_def Let_def b2r_def count_tags_def tag_tokens_def)
qed (simp add: basic_features_row_def)

section \<open>The passes over the frames\<close>

lemma pass_a_eq:
  assumes "list_all2 (\<lambda>fp df. load fp = Inr df) fps dfs"
  shows "pass_a load ip fps store ps cs =
    Inr (store(map ip fps [\<mapsto>] dfs), ps @ map ip fps, cs @ map length dfs)"
  using assms
proof (induction fps dfs arbitrary: store ps cs rule: list_all2_induct)
  case (Cons fp fps df dfs)
  then show ?case by (simp add: fun_upd_def)
qed simp

lemma read_frames_upds:
  assumes "distinct paths" and "length paths = length dfs"
  shows "res_map (read_frame (store(paths [\<mapsto>] dfs))) paths = Inr dfs"
proof -
  have "(store(paths [\<mapsto>] dfs)) (paths ! i) = Some (dfs ! i)" if "i < length paths" for i
  proof -
    have "map_of (rev (zip paths dfs)) (paths ! i) = Some (dfs ! i)"
      using that assms by (intro map_of_is_SomeI) (auto simp: set_zip rev_map [symmetric])
    then show ?thesis using assms by (simp add: map_upds_def zip_rev)
  qed
  then show ?thesis
    using assms by (simp add: res_map_Inr_iff list_all2_conv_all_nth read_frame_def)
qed

lemma update_cats_eq:
  "distinct cats \<Longrightarrow> update_cats cats sub cc =
     (\<lambda>f. if f \<in> set cats then count_update (cc f) (map (cat_val f) sub) else cc f)"
proof (induction cats arbitrary: cc)
  case (Cons c cats)
  have "update_cats (c # cats) sub cc = update_cats cats sub (cc(c := count_update (cc c) (map (cat_val c) sub)))"
    by (simp add: update_cats_def)
  then show ?case using Cons by (auto simp: fun_eq_iff)
qed (simp add: update_cats_def)

lemma update_tags_eq:
  "update_tags sub tc = count_update tc (concat (map (\<lambda>r. map KStr (tag_tokens (fr_user_tags r))) sub))"
  by (induction sub arbitrary: tc) (simp_all add: update_tags_def count_update_append count_update_def)

lemma update_stats_Nil: "distinct cats \<Longrightarrow> update_stats cats [] st = st"
  by (simp add: update_stats_def update_cats_eq update_tags_eq count_update_def fun_eq_iff)

lemma update_stats_append:
  "distinct cats \<Longrightarrow> update_stats cats (xs @ ys) st = update_stats cats ys (update_stats cats xs st)"
  by (simp add: update_stats_def update_cats_eq update_tags_eq count_update_append fun_eq_iff)

lemma pass_b_eq:
  assumes "distinct cats" and "list_all2 (\<lambda>p df. read_frame store p = Inr df) paths dfs"
  shows "pass_b cats cut_n store paths rs st = Inr (update_stats cats (take (nat (cut_n - rs)) (concat dfs)) st)"
  using assms(2)
proof (induction paths dfs arbitrary: rs st rule: list_all2_induct)
  case Nil
  then show ?case by (simp add: update_stats_Nil [OF assms(1)])
next
  case (Cons p ps df dfs)
  show ?case
  proof (cases "cut_n \<le> rs")
    case True
    then show ?thesis using Cons.hyps by (simp add: update_stats_Nil [OF assms(1)])
  next
    case False
    have "nat (min (rs + int (length df)) cut_n - rs) = min (length df) (nat (cut_n - rs))"
      using False by linarith
    then have t: "take (nat (min (rs + int (length df)) cut_n - rs)) df = take (nat (cut_n - rs)) df"
      by (simp add: min_def)
    have skip: "df = []" if "\<not> rs < min (rs + int (length df)) cut_n"
      using that False by auto
    have "pass_b cats cut_n store (p # ps) rs st =
      pass_b cats cut_n store ps (rs + int (length df)) (update_stats cats (take (nat (cut_n - rs)) df) st)"
      using False Cons.hyps skip by (auto simp: Let_def t update_stats_Nil [OF assms(1)])
    also have "\<dots> = Inr (update_stats cats (take (nat (cut_n - rs)) (concat (df # dfs))) st)"
    proof -
      have "nat (cut_n - (rs + int (length df))) = nat (cut_n - rs) - length df" by linarith
      then show ?thesis
        by (simp add: Cons.IH update_stats_append [OF assms(1), symmetric])
    qed
    finally show ?thesis .
  qed
qed

lemma pass_c_eq:
  assumes "list_all2 (\<lambda>p df. read_frame store p = Inr df) paths dfs" and "\<forall>df \<in> set dfs. df \<noteq> []"
  shows "\<exists>tcs vcs. pass_c art cut_n store paths rs tc vc = Inr (tc @ tcs, vc @ vcs) \<and>
    concat tcs = map (encode_row art) (take (nat (cut_n - rs)) (concat dfs)) \<and>
    concat vcs = map (encode_row art) (drop (nat (cut_n - rs)) (concat dfs)) \<and>
    (\<forall>d \<in> set tcs \<union> set vcs. d \<noteq> [])"
  using assms
proof (induction paths dfs arbitrary: rs tc vc rule: list_all2_induct)
  case (Cons p ps df dfs)
  let ?e = "map (encode_row art)"
  let ?k = "nat (cut_n - rs)"
  have k: "nat (cut_n - (rs + int (length df))) = ?k - length df" by linarith
  note IH = Cons.IH [of "rs + int (length df)", unfolded k]
  have dfs: "\<forall>df \<in> set dfs. df \<noteq> []" and df: "df \<noteq> []" using Cons.prems by auto
  show ?case
  proof (cases "cut_n \<le> rs")
    case True
    obtain tcs vcs where r: "pass_c art cut_n store ps (rs + int (length df)) tc (vc @ [?e df]) =
        Inr (tc @ tcs, (vc @ [?e df]) @ vcs)" "concat tcs = ?e (take (?k - length df) (concat dfs))"
      "concat vcs = ?e (drop (?k - length df) (concat dfs))" "\<forall>d \<in> set tcs \<union> set vcs. d \<noteq> []"
      using IH [of tc "vc @ [?e df]"] dfs by blast
    show ?thesis
      using True Cons.hyps(1) r df by (intro exI [of _ tcs] exI [of _ "?e df # vcs"]) (auto simp: Let_def)
  next
    case late: False
    show ?thesis
    proof (cases "rs + int (length df) \<le> cut_n")
      case True
      then have kl: "length df \<le> ?k" by linarith
      obtain tcs vcs where r: "pass_c art cut_n store ps (rs + int (length df)) (tc @ [?e df]) vc =
          Inr ((tc @ [?e df]) @ tcs, vc @ vcs)" "concat tcs = ?e (take (?k - length df) (concat dfs))"
        "concat vcs = ?e (drop (?k - length df) (concat dfs))" "\<forall>d \<in> set tcs \<union> set vcs. d \<noteq> []"
        using IH [of "tc @ [?e df]" vc] dfs by blast
      show ?thesis
        using True late Cons.hyps(1) r df kl
        by (intro exI [of _ "?e df # tcs"] exI [of _ vcs]) (auto simp: Let_def)
    next
      case False
      then have kl: "?k < length df" "0 < ?k" using late by linarith+
      let ?tc = "tc @ [take ?k (?e df)]" and ?vc = "vc @ [drop ?k (?e df)]"
      obtain tcs vcs where r: "pass_c art cut_n store ps (rs + int (length df)) ?tc ?vc = Inr (?tc @ tcs, ?vc @ vcs)"
        "concat tcs = ?e (take (?k - length df) (concat dfs))"
        "concat vcs = ?e (drop (?k - length df) (concat dfs))" "\<forall>d \<in> set tcs \<union> set vcs. d \<noteq> []"
        using IH [of ?tc ?vc] dfs by blast
      show ?thesis
        using False late Cons.hyps(1) r df kl
        by (intro exI [of _ "take ?k (?e df) # tcs"] exI [of _ "drop ?k (?e df) # vcs"])
          (auto simp: Let_def take_map drop_map)
    qed
  qed
qed simp

lemma pass_test_eq:
  assumes "list_all2 (\<lambda>p df. read_frame store p = Inr df) paths dfs"
  shows "pass_test art store paths tc = Inr (tc @ map (map (encode_row art)) dfs)"
  using assms by (induction paths dfs arbitrary: tc rule: list_all2_induct) simp_all

lemma pd_concat_nonempty:
  "(\<forall>d \<in> set ds. d \<noteq> []) \<Longrightarrow> pd_concat ds = (if concat ds = [] then Inl ValueError else Inr (concat ds))"
  by (cases ds) (auto simp: pd_concat_def)

section \<open>The pipeline\<close>

text \<open>The statistics and encoders that one pass over the rows \<open>xs\<close> gives.\<close>

definition art_of :: "cat_feat list \<Rightarrow> (cat_feat \<Rightarrow> int option) \<Rightarrow> feat_row list \<Rightarrow> artifacts res" where
  "art_of cats clip_min xs = fit_artifacts cats clip_min (int (length xs)) (update_stats cats xs stats0)"

lemma art_of_ok: "xs \<noteq> [] \<Longrightarrow> \<exists>art. art_of cats clip_min xs = Inr art"
  by (simp add: art_of_def fit_artifacts_def Let_def)

lemma read_frames_rel:
  "distinct paths \<Longrightarrow> length paths = length dfs \<Longrightarrow>
   list_all2 (\<lambda>p df. read_frame (store(paths [\<mapsto>] dfs)) p = Inr df) paths dfs"
  using read_frames_upds by (simp add: res_map_Inr_iff)

lemma read_frames_rel_later:
  assumes "distinct (paths @ paths')" and "length paths = length dfs" and "length paths' = length dfs'"
  shows "list_all2 (\<lambda>p df. read_frame (store(paths [\<mapsto>] dfs, paths' [\<mapsto>] dfs')) p = Inr df) paths dfs"
proof -
  have "read_frame (store(paths [\<mapsto>] dfs, paths' [\<mapsto>] dfs')) p = read_frame (store(paths [\<mapsto>] dfs)) p"
    if "p \<in> set paths" for p
  proof -
    have "p \<notin> set paths'" using that assms(1) by auto
    then show ?thesis by (simp add: read_frame_def)
  qed
  then show ?thesis
    using read_frames_rel [of paths dfs store] assms(1,2)
    by (auto simp: list_all2_conv_all_nth)
qed

definition logs_load :: "(bool \<Rightarrow> string \<Rightarrow> feat_row list res) \<Rightarrow> bool \<Rightarrow> string list \<Rightarrow> feat_row list list \<Rightarrow> bool" where
  "logs_load load is_test files dfs \<longleftrightarrow>
     list_all2 (\<lambda>fp df. load is_test fp = Inr df) files dfs \<and> (\<forall>df \<in> set dfs. df \<noteq> [])"

lemma main_features_run:
  assumes train: "logs_load load False train_files dfs" and test: "logs_load load True test_files tdfs"
    and paths: "distinct (map inter_path train_files @ map test_path test_files)" and cats: "distinct cats"
    and c: "cut_n = trunc_int (real (length (concat dfs)) * train_frac)"
  shows "main_features load inter_path test_path train_files test_files train_frac cats clip_min =
    res_bind (fit_artifacts cats clip_min cut_n (update_stats cats (take (nat cut_n) (concat dfs)) stats0)) (\<lambda>art.
      if nat cut_n = 0 \<or> concat dfs = [] \<or> length (concat dfs) \<le> nat cut_n \<or> tdfs = [] then Inl ValueError
      else Inr \<lparr>out_train = map (encode_row art) (take (nat cut_n) (concat dfs)),
                out_val = map (encode_row art) (drop (nat cut_n) (concat dfs)),
                out_test = map (encode_row art) (concat tdfs), out_artifacts = art\<rparr>)"
proof -
  let ?ps = "map inter_path train_files" and ?ts = "map test_path test_files"
  have l: "length ?ps = length dfs" "length ?ts = length tdfs"
    using train test by (auto simp: logs_load_def dest: list_all2_lengthD)
  have a: "pass_a (load False) inter_path train_files Map.empty [] [] = Inr ([?ps [\<mapsto>] dfs], ?ps, map length dfs)"
    using train pass_a_eq [of "load False" train_files dfs inter_path Map.empty "[]" "[]"] by (simp add: logs_load_def)
  let ?st = "Map.empty(?ps [\<mapsto>] dfs, ?ts [\<mapsto>] tdfs)"
  have a': "pass_a (load True) test_path test_files [?ps [\<mapsto>] dfs] [] [] = Inr (?st, ?ts, map length tdfs)"
    using test pass_a_eq [of "load True" test_files tdfs test_path "[?ps [\<mapsto>] dfs]" "[]" "[]"] by (simp add: logs_load_def)
  have r: "list_all2 (\<lambda>p df. read_frame ?st p = Inr df) ?ps dfs"
    using paths l by (intro read_frames_rel_later) simp_all
  have rt: "list_all2 (\<lambda>p df. read_frame ?st p = Inr df) ?ts tdfs"
    using paths l by (intro read_frames_rel) simp_all
  have n: "trunc_int (real (sum_list (map length dfs)) * train_frac) = cut_n"
    by (simp add: c length_concat)
  have b: "pass_b cats cut_n ?st ?ps 0 stats0 = Inr (update_stats cats (take (nat cut_n) (concat dfs)) stats0)"
    using pass_b_eq [OF cats r, of cut_n 0 stats0] by simp
  show ?thesis
  proof (cases "fit_artifacts cats clip_min cut_n (update_stats cats (take (nat cut_n) (concat dfs)) stats0)")
    case (Inl e)
    then show ?thesis
      unfolding main_features_def by (simp only: a a' b n res_bind.simps Let_def prod.case)
  next
    case (Inr art)
    obtain tcs vcs where cc: "pass_c art cut_n ?st ?ps 0 [] [] = Inr (tcs, vcs)"
      "concat tcs = map (encode_row art) (take (nat cut_n) (concat dfs))"
      "concat vcs = map (encode_row art) (drop (nat cut_n) (concat dfs))" "\<forall>d \<in> set tcs \<union> set vcs. d \<noteq> []"
      using pass_c_eq [OF r, of art cut_n 0 "[]" "[]"] train by (auto simp: logs_load_def)
    have t: "pass_test art ?st ?ts [] = Inr (map (map (encode_row art)) tdfs)"
      using pass_test_eq [OF rt, of art "[]"] by simp
    show ?thesis
      unfolding main_features_def
      by (simp only: a a' b n Inr cc(1) t res_bind.simps Let_def prod.case)
        (use cc(2-4) in \<open>auto simp: pd_concat_nonempty, auto simp: pd_concat_def map_concat\<close>)
  qed
qed

section \<open>Properties of the pipeline\<close>

text \<open>
  C3: With at least one training and one validation row, \<open>main\<close> splits the concatenated training logs
  at \<open>int(total * train_frac)\<close>: the first rows are the training frame, the others the validation frame,
  in log order, and the encoders and statistics all three frames are encoded with are those of the
  training rows alone. Validation and test rows cannot influence them.
\<close>

theorem features_split:
  assumes "logs_load load False train_files dfs" and "logs_load load True test_files tdfs"
    and "distinct (map inter_path train_files @ map test_path test_files)" and "distinct cats"
    and "cut_n = trunc_int (real (length (concat dfs)) * train_frac)"
    and "0 < cut_n" and "cut_n < int (length (concat dfs))" and "test_files \<noteq> []"
  shows "\<exists>art. art_of cats clip_min (take (nat cut_n) (concat dfs)) = Inr art \<and>
    main_features load inter_path test_path train_files test_files train_frac cats clip_min =
      Inr \<lparr>out_train = map (encode_row art) (take (nat cut_n) (concat dfs)),
           out_val = map (encode_row art) (drop (nat cut_n) (concat dfs)),
           out_test = map (encode_row art) (concat tdfs), out_artifacts = art\<rparr>"
proof -
  have n: "int (length (take (nat cut_n) (concat dfs))) = cut_n" using assms(6,7) by simp
  then have "0 < length (take (nat cut_n) (concat dfs))" using assms(6) by linarith
  then have "take (nat cut_n) (concat dfs) \<noteq> []" by (rule length_greater_0_conv [THEN iffD1])
  then obtain art where art: "art_of cats clip_min (take (nat cut_n) (concat dfs)) = Inr art"
    using art_of_ok by blast
  then have f: "fit_artifacts cats clip_min cut_n (update_stats cats (take (nat cut_n) (concat dfs)) stats0) = Inr art"
    using n by (simp add: art_of_def)
  have t: "tdfs \<noteq> []" using assms(2,8) by (auto simp: logs_load_def)
  have c: "\<not> (nat cut_n = 0 \<or> concat dfs = [] \<or> length (concat dfs) \<le> nat cut_n \<or> tdfs = [])"
    using assms(6,7) t by (cases "concat dfs") (auto simp del: length_concat concat_eq_Nil_conv)
  show ?thesis
    unfolding main_features_run [OF assms(1-5)] f res_bind.simps if_not_P [OF c] using art by blast
qed

definition demo_row :: "int \<Rightarrow> string \<Rightarrow> real \<Rightarrow> feat_row" where
  "demo_row city site pay =
     \<lparr>fr_region = 1, fr_city = city, fr_ad_exchange = 2, fr_slot_width = 300, fr_slot_height = 250,
      fr_slot_visibility = 0, fr_slot_format = 1, fr_domain = site, fr_advertiser_id = ''1458'',
      fr_bidding_price = 300, fr_payprice = pay, fr_log_payprice = ln (max 1 pay),
      fr_hour_sin = 0, fr_hour_cos = 1, fr_weekday_sin = 0, fr_weekday_cos = 1, fr_is_weekend = 0,
      fr_slot_area = 75000, fr_has_floor_price = 0, fr_log_floor_price = 0, fr_tag_count = 2,
      fr_user_tags = ''10006,10110'', fr_extra = None\<rparr>"

definition demo_load :: "bool \<Rightarrow> string \<Rightarrow> feat_row list res" where
  "demo_load is_test fp =
     (if is_test then Inr [demo_row 3 ''c'' 50]
      else if fp = ''d1'' then Inr [demo_row 1 ''a'' 20, demo_row 2 ''a'' 70]
      else Inr [demo_row 1 ''b'' 90, demo_row 2 ''b'' 30])"

lemma demo_logs:
  "logs_load demo_load False [''d1'', ''d2''] [[demo_row 1 ''a'' 20, demo_row 2 ''a'' 70], [demo_row 1 ''b'' 90, demo_row 2 ''b'' 30]]"
  "logs_load demo_load True [''t''] [[demo_row 3 ''c'' 50]]"
  by (simp_all add: logs_load_def demo_load_def)

theorem features_split_witness:
  "\<exists>art. art_of [City, Domain] (\<lambda>_. None) [demo_row 1 ''a'' 20, demo_row 2 ''a'' 70, demo_row 1 ''b'' 90] = Inr art \<and>
    main_features demo_load (\<lambda>f. ''i_'' @ f) (\<lambda>f. ''test_'' @ f) [''d1'', ''d2''] [''t''] (3/4) [City, Domain] (\<lambda>_. None) =
      Inr \<lparr>out_train = map (encode_row art) [demo_row 1 ''a'' 20, demo_row 2 ''a'' 70, demo_row 1 ''b'' 90],
           out_val = map (encode_row art) [demo_row 2 ''b'' 30],
           out_test = map (encode_row art) [demo_row 3 ''c'' 50], out_artifacts = art\<rparr>"
  using features_split [OF demo_logs, of "\<lambda>f. ''i_'' @ f" "\<lambda>f. ''test_'' @ f" "[City, Domain]" 3 "3/4" "\<lambda>_. None"]
  by (simp add: trunc_int_def eval_nat_numeral)

text \<open>
  The two ways the split fails: a training fraction that leaves no training row is a division by
  zero, one that leaves no validation row an empty concatenation.
\<close>

theorem features_split_errors:
  assumes "logs_load load False train_files dfs" and "logs_load load True test_files tdfs"
    and "distinct (map inter_path train_files @ map test_path test_files)" and "distinct cats"
  shows "(0 \<le> train_frac \<and> real (length (concat dfs)) * train_frac < 1 \<longrightarrow>
      main_features load inter_path test_path train_files test_files train_frac cats clip_min = Inl ZeroDivisionError) \<and>
    (1 \<le> train_frac \<and> dfs \<noteq> [] \<longrightarrow>
      main_features load inter_path test_path train_files test_files train_frac cats clip_min = Inl ValueError)"
proof -
  let ?x = "real (length (concat dfs)) * train_frac"
  note run = main_features_run [OF assms refl, of train_frac clip_min]
  show ?thesis
  proof (intro conjI impI)
    assume a: "0 \<le> train_frac \<and> ?x < 1"
    then have "trunc_int ?x = 0" by (simp add: trunc_int_def floor_eq_iff)
    then show "main_features load inter_path test_path train_files test_files train_frac cats clip_min = Inl ZeroDivisionError"
      using run by (simp add: fit_artifacts_def)
  next
    assume a: "1 \<le> train_frac \<and> dfs \<noteq> []"
    then have "1 \<le> length (concat dfs)"
      using assms(1) by (cases dfs) (auto simp: logs_load_def Suc_le_eq)
    then have "real (length (concat dfs)) \<le> ?x" "0 \<le> ?x" "1 \<le> real (length (concat dfs))"
      using a mult_left_mono [of 1 train_frac "real (length (concat dfs))"] by simp_all
    then have "int (length (concat dfs)) \<le> trunc_int ?x" "1 \<le> trunc_int ?x"
      by (auto simp: trunc_int_def le_floor_iff simp del: length_concat)
    then have "length (concat dfs) \<le> nat (trunc_int ?x)" "trunc_int ?x \<noteq> 0" by simp_all
    then show "main_features load inter_path test_path train_files test_files train_frac cats clip_min = Inl ValueError"
      using run by (simp add: fit_artifacts_def Let_def del: length_concat)
  qed
qed

theorem features_split_errors_witness:
  "main_features demo_load (\<lambda>f. ''i_'' @ f) (\<lambda>f. ''test_'' @ f) [''d1'', ''d2''] [''t''] (1/5) [City] (\<lambda>_. None) = Inl ZeroDivisionError \<and>
   main_features demo_load (\<lambda>f. ''i_'' @ f) (\<lambda>f. ''test_'' @ f) [''d1'', ''d2''] [''t''] 1 [City] (\<lambda>_. None) = Inl ValueError"
  using features_split_errors [OF demo_logs, of "\<lambda>f. ''i_'' @ f" "\<lambda>f. ''test_'' @ f" "[City]" "1/5" "\<lambda>_. None"]
    features_split_errors [OF demo_logs, of "\<lambda>f. ''i_'' @ f" "\<lambda>f. ''test_'' @ f" "[City]" "1" "\<lambda>_. None"]
  by simp

section \<open>Standardisation and codes\<close>

definition pop_var :: "real list \<Rightarrow> real" where
  "pop_var xs = mean (map (\<lambda>x. (x - mean xs) ^ 2) xs)"

lemma sum_sq_dev:
  "sum_list (map (\<lambda>x. (x - m) ^ 2) xs) =
     sum_list (map (\<lambda>x. x * x) xs) - 2 * m * sum_list xs + real (length xs) * m ^ 2"
  by (induction xs) (auto simp: algebra_simps power2_eq_square)

lemma pop_var_eq:
  assumes "xs \<noteq> []"
  shows "pop_var xs = sum_list (map (\<lambda>x. x * x) xs) / real (length xs) - mean xs ^ 2"
proof -
  have n: "real (length xs) \<noteq> 0" using assms by simp
  have s: "sum_list xs = mean xs * real (length xs)" by (simp add: mean_times_length)
  show ?thesis
    using n unfolding pop_var_def mean_def [of "map _ xs"] sum_sq_dev
    by (subst s) (simp add: field_simps power2_eq_square)
qed

lemma pop_var_nonneg: "0 \<le> pop_var xs"
  by (auto simp: pop_var_def intro!: mean_nonneg)

lemma mean_standardised:
  assumes "xs \<noteq> []" and "0 < s"
  shows "mean (map (\<lambda>x. (x - mean xs) / s) xs) = 0"
    and "mean (map (\<lambda>x. ((x - mean xs) / s) ^ 2) xs) = pop_var xs / s ^ 2"
proof -
  have "sum_list (map (\<lambda>x. x - mean xs) xs) = sum_list xs - real (length xs) * mean xs"
    by (simp add: sum_list_subtractf sum_list_triv)
  then have "sum_list (map (\<lambda>x. x - mean xs) xs) = 0"
    using mean_times_length [of xs] by (simp add: mult.commute)
  then show "mean (map (\<lambda>x. (x - mean xs) / s) xs) = 0"
    using sum_list_divide [of s "map (\<lambda>x. x - mean xs) xs"] by (simp add: mean_def comp_def)
  show "mean (map (\<lambda>x. ((x - mean xs) / s) ^ 2) xs) = pop_var xs / s ^ 2"
    using sum_list_divide [of "s ^ 2" "map (\<lambda>x. (x - mean xs) ^ 2) xs"]
    by (simp add: mean_def pop_var_def comp_def power_divide)
qed

definition scaled :: "(feat_row \<Rightarrow> real) \<Rightarrow> feat_row list \<Rightarrow> real" where
  "scaled col xs = sqrt (max (1/1000000000) (pop_var (map col xs)))"

lemma scaled_pos: "0 < scaled col xs"
  by (simp add: scaled_def less_max_iff_disj)

lemma art_of_stats:
  assumes "xs \<noteq> []" and "art_of cats clip_min xs = Inr art"
  shows "mean_lf art = mean (map fr_log_floor_price xs)" "std_lf art = scaled fr_log_floor_price xs"
    "mean_sa art = mean (map fr_slot_area xs)" "std_sa art = scaled fr_slot_area xs"
    "mean_tc art = mean (map fr_tag_count xs)" "std_tc art = scaled fr_tag_count xs"
    "train_mean_log art = mean (map fr_log_payprice xs)"
    "train_std_log art = sqrt (pop_var (map fr_log_payprice xs))"
proof -
  have n: "int (length xs) \<noteq> 0" using assms(1) by simp
  have v: "pop_var (map c xs) = sum_list (map ((\<lambda>x. x * x) \<circ> c) xs) / real (length xs) - mean (map c xs) ^ 2" for c
    using pop_var_eq [of "map c xs"] assms(1) by simp
  have m: "mean (map c xs) = sum_list (map c xs) / real (length xs)" for c
    by (simp add: mean_def)
  note d = assms(2) [unfolded art_of_def fit_artifacts_def if_not_P [OF n] Let_def, simplified, symmetric]
  show "mean_lf art = mean (map fr_log_floor_price xs)" "mean_sa art = mean (map fr_slot_area xs)"
    "mean_tc art = mean (map fr_tag_count xs)" "train_mean_log art = mean (map fr_log_payprice xs)"
    by (simp_all add: d m update_stats_def stats0_def)
  show "std_lf art = scaled fr_log_floor_price xs" "std_sa art = scaled fr_slot_area xs"
    "std_tc art = scaled fr_tag_count xs"
    by (simp_all add: d scaled_def v var_floor_def m update_stats_def stats0_def)
  show "train_std_log art = sqrt (pop_var (map fr_log_payprice xs))"
    using pop_var_nonneg [of "map fr_log_payprice xs"]
    by (simp add: d v m update_stats_def stats0_def)
qed

lemma encode_row_cols:
  assumes "xs \<noteq> []" and "art_of cats clip_min xs = Inr art"
  shows "map o_log_floor_price (map (encode_row art) xs) =
      map (\<lambda>x. (x - mean (map fr_log_floor_price xs)) / scaled fr_log_floor_price xs) (map fr_log_floor_price xs)"
    "map o_slot_area (map (encode_row art) xs) =
      map (\<lambda>x. (x - mean (map fr_slot_area xs)) / scaled fr_slot_area xs) (map fr_slot_area xs)"
    "map o_tag_count (map (encode_row art) xs) =
      map (\<lambda>x. (x - mean (map fr_tag_count xs)) / scaled fr_tag_count xs) (map fr_tag_count xs)"
  by (simp_all add: encode_row_def art_of_stats [OF assms])

text \<open>Mean 0, and mean square 1 unless the column is nearly constant.\<close>

definition standard_col :: "real list \<Rightarrow> real list \<Rightarrow> bool" where
  "standard_col raw ys \<longleftrightarrow> mean ys = 0 \<and> mean (map (\<lambda>y. y ^ 2) ys) \<le> 1 \<and>
     (1/1000000000 \<le> pop_var raw \<longrightarrow> mean (map (\<lambda>y. y ^ 2) ys) = 1)"

lemma standard_colI:
  assumes "xs \<noteq> []"
  shows "standard_col (map col xs) (map (\<lambda>x. (x - mean (map col xs)) / scaled col xs) (map col xs))"
proof -
  have s2: "scaled col xs ^ 2 = max (1/1000000000) (pop_var (map col xs))"
    by (simp add: scaled_def le_max_iff_disj)
  have m: "mean (map (\<lambda>y. y ^ 2) (map (\<lambda>x. (x - mean (map col xs)) / scaled col xs) (map col xs)))
      = pop_var (map col xs) / scaled col xs ^ 2"
    using mean_standardised(2) [OF _ scaled_pos, of "map col xs" col xs] assms by (simp add: comp_def)
  show ?thesis
    unfolding standard_col_def m s2
    using mean_standardised(1) [OF _ scaled_pos, of "map col xs" col xs] assms
    by (auto simp: max_def divide_le_eq)
qed

text \<open>
  C15: On the training frame each standardised column has mean 0 and mean square at most 1, and
  exactly 1 unless its variance is below the floor of 1e-9; the stored statistics of \<open>log_payprice\<close> are
  its mean and population standard deviation over the training rows.
\<close>

theorem features_standardised:
  assumes "xs \<noteq> []" and "art_of cats clip_min xs = Inr art"
  shows "let train = map (encode_row art) xs in
     standard_col (map fr_log_floor_price xs) (map o_log_floor_price train) \<and>
     standard_col (map fr_slot_area xs) (map o_slot_area train) \<and>
     standard_col (map fr_tag_count xs) (map o_tag_count train) \<and>
     train_mean_log art = mean (map o_log_payprice train) \<and>
     train_std_log art ^ 2 = pop_var (map o_log_payprice train)"
proof -
  have l: "map o_log_payprice (map (encode_row art) xs) = map fr_log_payprice xs"
    by (simp add: encode_row_def)
  show ?thesis
    unfolding Let_def encode_row_cols [OF assms] l
    using standard_colI [OF assms(1)] art_of_stats [OF assms] pop_var_nonneg by simp
qed

theorem features_standardised_witness:
  "\<exists>art. art_of [City] (\<lambda>_. None) [demo_row 1 ''a'' 20, demo_row 2 ''a'' 70] = Inr art \<and>
    (let xs = [demo_row 1 ''a'' 20, demo_row 2 ''a'' 70]; train = map (encode_row art) xs in
     standard_col (map fr_log_floor_price xs) (map o_log_floor_price train) \<and>
     standard_col (map fr_slot_area xs) (map o_slot_area train) \<and>
     standard_col (map fr_tag_count xs) (map o_tag_count train) \<and>
     train_mean_log art = mean (map o_log_payprice train) \<and>
     train_std_log art ^ 2 = pop_var (map o_log_payprice train))"
proof -
  obtain art where "art_of [City] (\<lambda>_. None) [demo_row 1 ''a'' 20, demo_row 2 ''a'' 70] = Inr art"
    using art_of_ok [of "[demo_row 1 ''a'' 20, demo_row 2 ''a'' 70]" "[City]" "\<lambda>_. None"] by auto
  then show ?thesis
    using features_standardised [of "[demo_row 1 ''a'' 20, demo_row 2 ''a'' 70]" "[City]" "\<lambda>_. None" art]
    by (auto simp: Let_def)
qed

definition row_tags :: "feat_row list \<Rightarrow> key list" where
  "row_tags xs = concat (map (\<lambda>r. map KStr (tag_tokens (fr_user_tags r))) xs)"

definition min_count_of :: "(cat_feat \<Rightarrow> int option) \<Rightarrow> cat_feat \<Rightarrow> int" where
  "min_count_of clip_min feat = (case clip_min feat of None \<Rightarrow> 0 | Some c \<Rightarrow> c)"

lemma art_of_vocs:
  assumes "distinct cats" and "xs \<noteq> []" and "art_of cats clip_min xs = Inr art"
  shows "art_cats art = cats"
    and "feat \<in> set cats \<Longrightarrow>
      art_voc art feat = fit_encoder (count_update [] (map (cat_val feat) xs)) (min_count_of clip_min feat)"
    and "art_tag_vocab art = rename_pad (fit_encoder (count_update [] (row_tags xs)) 200)"
proof -
  have n: "int (length xs) \<noteq> 0" using assms(2) by simp
  note d = assms(3) [unfolded art_of_def fit_artifacts_def if_not_P [OF n] Let_def, simplified, symmetric]
  show "art_cats art = cats"
    "feat \<in> set cats \<Longrightarrow>
      art_voc art feat = fit_encoder (count_update [] (map (cat_val feat) xs)) (min_count_of clip_min feat)"
    "art_tag_vocab art = rename_pad (fit_encoder (count_update [] (row_tags xs)) 200)"
    using assms(1)
    by (simp_all add: d art_voc_def min_count_of_def update_stats_def stats0_def update_cats_eq
        update_tags_eq row_tags_def)
qed

text \<open>What the dataset and the embedding tables need of an encoded row.\<close>

definition row_codes_ok :: "artifacts \<Rightarrow> out_row \<Rightarrow> bool" where
  "row_codes_ok art out \<longleftrightarrow>
     list_all2 (\<lambda>feat c. c < length (art_voc art feat)) (art_cats art) (o_cat out) \<and>
     length (o_tag_indices out) = 10 \<and> list_all (\<lambda>i. i < length (art_tag_vocab art)) (o_tag_indices out)"

text \<open>
  C12: Every encoded row, of whatever frame, has one code per categorical feature, each below the size
  of that feature's encoder and decoding to the value itself exactly when the value is frequent enough
  in the training rows (to \<open><UNK>\<close> otherwise), and ten tag codes below the size of the tag vocabulary.
\<close>

theorem features_codes:
  assumes "distinct cats" and "xs \<noteq> []" and "art_of cats clip_min xs = Inr art" and "PAD \<notin> set (row_tags xs)"
  shows "row_codes_ok art (encode_row art r) \<and>
    map2 (\<lambda>feat c. map fst (art_voc art feat) ! c) cats (o_cat (encode_row art r)) =
      map (\<lambda>feat. if kept (min_count_of clip_min feat) (map (cat_val feat) xs) (cat_val feat r)
                  then cat_val feat r else UNK) cats"
proof -
  note v = art_of_vocs [OF assms(1-3)]
  have cats: "o_cat (encode_row art r) =
      map (\<lambda>feat. vocab_get (fit_encoder (count_update [] (map (cat_val feat) xs)) (min_count_of clip_min feat)) (cat_val feat r)) cats"
    by (simp add: encode_row_def v)
  have voc: "map2 f cats (map g cats) = map (\<lambda>c. f c (g c)) cats" for f :: "cat_feat \<Rightarrow> nat \<Rightarrow> key" and g
    by (simp add: map_zip_map2 zip_same_conv_map comp_def)
  have tags: "length (encode_tags_row (art_tag_vocab art) 10 s) = 10 \<and>
      list_all (\<lambda>i. i < length (art_tag_vocab art)) (encode_tags_row (art_tag_vocab art) 10 s)" for s
  proof -
    have len: "length (art_tag_vocab art) = length (fit_encoder (count_update [] (row_tags xs)) 200)"
      using rename_pad_fresh [OF counted_distinct, of 200 "row_tags xs"] assms(4)
        fitted.sz_pos [of "row_tags xs" 200]
      by (simp add: v kept_iff kept_def)
    have "i < length (art_tag_vocab art)" if "i \<in> set (encode_tags_row (art_tag_vocab art) 10 s)" for i
      using that fitted.code_less [of "row_tags xs" 200] fitted.sz_pos [of "row_tags xs" 200]
      unfolding encode_tags_row_eq len
      by (auto simp: Let_def tag_codes_def v rename_pad_get dest!: in_set_takeD split: if_splits)
    then show ?thesis by (simp add: list_all_iff)
  qed
  have "list_all2 (\<lambda>feat c. c < length (art_voc art feat)) cats (o_cat (encode_row art r))"
    unfolding cats by (simp add: list_all2_conv_all_nth v fitted.code_less)
  moreover have "map2 (\<lambda>feat c. map fst (art_voc art feat) ! c) cats (o_cat (encode_row art r)) =
      map (\<lambda>feat. if kept (min_count_of clip_min feat) (map (cat_val feat) xs) (cat_val feat r)
                  then cat_val feat r else UNK) cats"
    unfolding cats voc by (simp add: v decode_code del: nth_map)
  ultimately show ?thesis
    using tags by (simp add: row_codes_ok_def v encode_row_def)
qed

theorem features_codes_witness:
  "\<exists>art. art_of [City, Domain] (\<lambda>_. Some 2) [demo_row 1 ''a'' 20, demo_row 2 ''a'' 70] = Inr art \<and>
    row_codes_ok art (encode_row art (demo_row 1 ''b'' 5)) \<and>
    map2 (\<lambda>feat c. map fst (art_voc art feat) ! c) [City, Domain] (o_cat (encode_row art (demo_row 1 ''b'' 5))) =
      map (\<lambda>feat. if kept (min_count_of (\<lambda>_. Some 2) feat) (map (cat_val feat) [demo_row 1 ''a'' 20, demo_row 2 ''a'' 70]) (cat_val feat (demo_row 1 ''b'' 5))
                  then cat_val feat (demo_row 1 ''b'' 5) else UNK) [City, Domain]"
proof -
  let ?xs = "[demo_row 1 ''a'' 20, demo_row 2 ''a'' 70]"
  obtain art where "art_of [City, Domain] (\<lambda>_. Some 2) ?xs = Inr art"
    using art_of_ok [of ?xs "[City, Domain]" "\<lambda>_. Some 2"] by auto
  moreover have "PAD \<notin> set (row_tags ?xs)"
    by (simp add: row_tags_def tag_tokens_def no_tags_def demo_row_def PAD_def)
  ultimately show ?thesis
    using features_codes [of "[City, Domain]" ?xs "\<lambda>_. Some 2" art "demo_row 1 ''b'' 5"] by auto
qed

end
