(* ===== verification/Dataset.thy ===== *)
theory Dataset
  imports Features "HOL-Library.Multiset"
begin

text \<open>
  \<open>dataset.py\<close> and \<open>experiments/dataset_aug.py\<close>: packing of a processed frame into tensors and the
  batch iteration. \<open>iter_batches\<close> is a generator; the model is the list of everything it yields, and
  \<^const>\<open>None\<close> when it never stops yielding. The permutation of \<open>torch.randperm\<close> is a parameter.
\<close>

section \<open>Packing a frame\<close>

record bid_dataset =
  ds_cat :: "nat list list"
  ds_cont :: "real list list"
  ds_tags :: "nat list list"
  ds_log_pp :: "real list"
  ds_pp :: "real list"
  ds_bid :: "real list"
  ds_adv :: "string list"
  ds_extras :: "(int \<times> int) option list"
  ds_n :: nat

text \<open>\<open>cont_cols\<close>, then \<open>bin_cols\<close>, then \<open>cyc_cols\<close>.\<close>

definition pack_cont :: "out_row \<Rightarrow> real list" where
  "pack_cont r =
     [o_log_floor_price r, o_slot_area r, o_tag_count r] @ [o_has_floor_price r, o_is_weekend r] @
     [o_hour_sin r, o_hour_cos r, o_weekday_sin r, o_weekday_cos r]"

text \<open>The inner loop over \<open>j\<close> that copies at most ten tags of a row into a row of zeros.\<close>

fun copy_tags :: "nat \<Rightarrow> nat list \<Rightarrow> nat list \<Rightarrow> nat list" where
  "copy_tags j [] arr = arr"
| "copy_tags j (t # row) arr = (if j < 10 then copy_tags (Suc j) row (arr[j := t]) else arr)"

definition pad_tags :: "nat list \<Rightarrow> nat list" where
  "pad_tags row = copy_tags 0 row (replicate 10 0)"

text \<open>Stack the rows at once when they all have length ten, copy row by row otherwise.\<close>

definition pack_tags :: "nat list list \<Rightarrow> nat list list" where
  "pack_tags tags = (if tags \<noteq> [] \<and> list_all (\<lambda>row. length row = 10) tags then tags else map pad_tags tags)"

definition BidDataset :: "out_row list \<Rightarrow> bid_dataset" where
  "BidDataset df =
     \<lparr>ds_cat = map o_cat df, ds_cont = map pack_cont df, ds_tags = pack_tags (map o_tag_indices df),
      ds_log_pp = map o_log_payprice df, ds_pp = map o_payprice df, ds_bid = map o_bidding_price df,
      ds_adv = map o_advertiser_id df, ds_extras = map o_extra df, ds_n = length df\<rparr>"

text \<open>
  The augmented dataset appends the standardised bidding price and its logarithm (statistics given, or
  of this frame with a standard deviation of at most 1e-6 replaced by 1). Its tag packing lacks the
  row-by-row branch for rows of one common length other than ten, which leaves zeros.
\<close>

definition std_or_1 :: "real list \<Rightarrow> real" where
  "std_or_1 xs = (let s = sqrt (pop_var xs) in if 1/1000000 < s then s else 1)"

type_synonym bid_stats = "real \<times> real \<times> real \<times> real"

definition bid_price_stats :: "real list \<Rightarrow> bid_stats" where
  "bid_price_stats bp = (let lp = map (\<lambda>b. ln (max 1 b)) bp in (mean bp, std_or_1 bp, mean lp, std_or_1 lp))"

definition pack_tags_aug :: "nat list list \<Rightarrow> nat list list" where
  "pack_tags_aug tags =
     (if list_all (\<lambda>row. length row = length (hd tags)) tags
      then (if list_all (\<lambda>row. length row = 10) tags then tags else map (\<lambda>_. replicate 10 0) tags)
      else map pad_tags tags)"

definition BidDatasetAug :: "bid_stats option \<Rightarrow> out_row list \<Rightarrow> bid_dataset \<times> bid_stats" where
  "BidDatasetAug given df =
     (let bp = map o_bidding_price df;
          (m, s, lm, ls) = (case given of None \<Rightarrow> bid_price_stats bp | Some st \<Rightarrow> st)
      in ((BidDataset df)
           \<lparr>ds_cont := map (\<lambda>r. pack_cont r @ [(o_bidding_price r - m) / s, (ln (max 1 (o_bidding_price r)) - lm) / ls]) df,
            ds_tags := pack_tags_aug (map o_tag_indices df)\<rparr>, (m, s, lm, ls)))"

section \<open>Iterating over batches\<close>

record batch =
  b_cat :: "nat list list"
  b_cont :: "real list list"
  b_tags :: "nat list list"
  b_log_pp :: "real list"
  b_pp :: "real list"
  b_bid :: "real list"

definition gather :: "'a list \<Rightarrow> nat list \<Rightarrow> 'a list" where
  "gather xs idx = map (\<lambda>i. xs ! i) idx"

definition make_batch :: "bid_dataset \<Rightarrow> nat list \<Rightarrow> batch" where
  "make_batch ds idx =
     \<lparr>b_cat = gather (ds_cat ds) idx, b_cont = gather (ds_cont ds) idx, b_tags = gather (ds_tags ds) idx,
      b_log_pp = gather (ds_log_pp ds) idx, b_pp = gather (ds_pp ds) idx, b_bid = gather (ds_bid ds) idx\<rparr>"

partial_function (option) batch_loop ::
  "nat \<Rightarrow> nat \<Rightarrow> bool \<Rightarrow> nat list \<Rightarrow> nat \<Rightarrow> nat list list \<Rightarrow> nat list list option" where
  "batch_loop n batch_size drop_last perm cur idxs =
     (if \<not> cur < n then Some idxs
      else if n < cur + batch_size \<and> drop_last then Some idxs
      else let e = (if n < cur + batch_size then n else cur + batch_size)
           in batch_loop n batch_size drop_last perm e (idxs @ [slice cur e perm]))"

definition iter_batches :: "bid_dataset \<Rightarrow> nat \<Rightarrow> nat list option \<Rightarrow> bool \<Rightarrow> batch list option" where
  "iter_batches ds batch_size shuffle drop_last =
     map_option (map (make_batch ds))
       (batch_loop (ds_n ds) batch_size drop_last (case shuffle of None \<Rightarrow> [0..<ds_n ds] | Some p \<Rightarrow> p) 0 [])"

definition num_batches :: "bid_dataset \<Rightarrow> nat \<Rightarrow> bool \<Rightarrow> nat res" where
  "num_batches ds batch_size drop_last =
     (if batch_size = 0 then Inl ZeroDivisionError
      else Inr (if drop_last then ds_n ds div batch_size else (ds_n ds + batch_size - 1) div batch_size))"

section \<open>The batch loop\<close>

text \<open>The slices of the permutation the loop yields.\<close>

definition batch_count :: "nat \<Rightarrow> nat \<Rightarrow> bool \<Rightarrow> nat" where
  "batch_count m b drop_last = (if drop_last then m div b else (m + b - 1) div b)"

definition batch_slices :: "nat \<Rightarrow> bool \<Rightarrow> nat list \<Rightarrow> nat list list" where
  "batch_slices b drop_last p = map (\<lambda>k. take b (drop (k * b) p)) [0..<batch_count (length p) b drop_last]"

lemma batch_count_step:
  assumes "0 < b" and "b \<le> m"
  shows "batch_count m b d = Suc (batch_count (m - b) b d)"
proof -
  obtain k where m: "m = b + k" using assms(2) le_Suc_ex by blast
  have "(k + b + b - 1) div b = Suc ((k + b - 1) div b)"
    using assms(1) by (metis Nat.add_diff_assoc2 One_nat_def Suc_leI add.commute div_add_self2 less_not_refl2 plus_1_eq_Suc trans_le_add2)
  then show ?thesis using assms by (simp add: batch_count_def m add.commute add.left_commute)
qed

lemma batch_count_last: "0 < m \<Longrightarrow> m < b \<Longrightarrow> batch_count m b d = (if d then 0 else 1)"
  by (auto simp: batch_count_def intro!: div_nat_eqI)

lemma batch_slices_step:
  assumes "0 < b" and "b \<le> length p"
  shows "batch_slices b d p = take b p # batch_slices b d (drop b p)"
proof -
  have "batch_slices b d p = map (\<lambda>k. take b (drop (k * b) p)) (0 # map Suc [0..<batch_count (length p - b) b d])"
    unfolding batch_slices_def batch_count_step [OF assms]
    by (simp add: map_Suc_upt upt_conv_Cons del: upt_Suc)
  then show ?thesis by (simp add: batch_slices_def comp_def add.commute)
qed

lemma batch_loop_eq:
  assumes "0 < b" and "length perm = n" and "cur \<le> n"
  shows "batch_loop n b d perm cur idxs = Some (idxs @ batch_slices b d (drop cur perm))"
  using assms(3)
proof (induction "n - cur" arbitrary: cur idxs rule: less_induct)
  case less
  consider "cur = n" | "cur < n" "n < cur + b" | "cur < n" "cur + b \<le> n" using less.prems by linarith
  then show ?case
  proof cases
    case 1
    then show ?thesis
      using assms(1,2) by (subst batch_loop.simps) (simp add: batch_slices_def batch_count_def)
  next
    case 2
    then have s: "batch_slices b d (drop cur perm) = (if d then [] else [drop cur perm])"
      using assms(1,2) batch_count_last [of "n - cur" b d] by (auto simp: batch_slices_def)
    show ?thesis
    proof (cases d)
      case True
      then show ?thesis using 2 s by (subst batch_loop.simps) simp
    next
      case False
      then have "batch_loop n b d perm cur idxs = batch_loop n b d perm n (idxs @ [slice cur n perm])"
        using 2 by (subst batch_loop.simps) simp
      also have "\<dots> = Some (idxs @ [slice cur n perm])"
        by (subst batch_loop.simps) simp
      finally show ?thesis using s False assms(2) by (simp add: slice_def)
    qed
  next
    case 3
    then have "batch_loop n b d perm cur idxs = batch_loop n b d perm (cur + b) (idxs @ [slice cur (cur + b) perm])"
      by (subst batch_loop.simps) (simp add: Let_def)
    also have "\<dots> = Some ((idxs @ [slice cur (cur + b) perm]) @ batch_slices b d (drop (cur + b) perm))"
      using 3 assms(1) by (intro less.hyps) auto
    also have "slice cur (cur + b) perm = take b (drop cur perm)"
      by (simp add: slice_def drop_take)
    finally show ?thesis
      using batch_slices_step [of b "drop cur perm" d] 3 assms by (simp add: add.commute)
  qed
qed

lemma batch_loop_diverges:
  assumes "cur < n" shows "batch_loop n 0 d perm cur idxs = None"
proof -
  have "b = 0 \<longrightarrow> \<not> cur < n" if "batch_loop n b d perm cur idxs = Some r" for b cur idxs r
  proof (rule batch_loop.raw_induct [where P = "\<lambda>n b d perm cur idxs r. b = 0 \<longrightarrow> \<not> cur < n", OF _ that])
    fix loop :: "nat \<Rightarrow> nat \<Rightarrow> bool \<Rightarrow> nat list \<Rightarrow> nat \<Rightarrow> nat list list \<Rightarrow> nat list list option"
      and n b d perm cur idxs r
    assume IH: "\<And>n b d perm cur idxs r. loop n b d perm cur idxs = Some r \<Longrightarrow> b = 0 \<longrightarrow> \<not> cur < n"
      and step: "(if \<not> cur < n then Some idxs else if n < cur + b \<and> d then Some idxs
        else let e = if n < cur + b then n else cur + b in loop n b d perm e (idxs @ [slice cur e perm])) = Some r"
    show "b = 0 \<longrightarrow> \<not> cur < n"
      using IH [of n b d perm "if n < cur + b then n else cur + b" _ r] step
      by (auto simp: Let_def split: if_splits)
  qed
  then show ?thesis using assms by (cases "batch_loop n 0 d perm cur idxs") auto
qed

lemma concat_takes: "concat (map (\<lambda>k. take b (drop (k * b) p)) [0..<m]) = take (m * b) p"
  by (induction m) (simp_all add: take_add [symmetric] add.commute)

lemma concat_batch_slices:
  assumes "0 < b"
  shows "concat (batch_slices b d p) = take (if d then length p div b * b else length p) p"
proof (cases d)
  case False
  have "length p \<le> (length p + b - 1) div b * b"
    using assms dividend_less_div_times [of b "length p + b - 1"] by linarith
  then show ?thesis using False by (simp add: batch_slices_def batch_count_def concat_takes)
qed (simp add: batch_slices_def batch_count_def concat_takes)

lemma length_batch_slices: "length (batch_slices b d p) = batch_count (length p) b d"
  by (simp add: batch_slices_def)

lemma batch_slice_length:
  assumes "0 < b" and "s \<in> set (batch_slices b d p)"
  shows "0 < length s \<and> length s \<le> b \<and> (d \<longrightarrow> length s = b)"
proof -
  obtain k where k: "k < batch_count (length p) b d" and s: "s = take b (drop (k * b) p)"
    using assms(2) by (auto simp: batch_slices_def)
  have full: "(k + 1) * b \<le> length p" if d
  proof -
    have "(k + 1) * b \<le> length p div b * b" using k that by (intro mult_right_mono) (simp_all add: batch_count_def)
    then show ?thesis using div_times_less_eq_dividend [of "length p" b] by linarith
  qed
  have part: "k * b < length p" if "\<not> d"
  proof -
    have "(k + 1) * b \<le> (length p + b - 1) div b * b"
      using k that by (intro mult_right_mono) (simp_all add: batch_count_def)
    also have "\<dots> \<le> length p + b - 1" by (rule div_times_less_eq_dividend)
    finally show ?thesis using assms(1) by (simp add: algebra_simps)
  qed
  show ?thesis using full part assms(1) by (cases d) (auto simp: s algebra_simps)
qed

definition batch_rows :: "batch \<Rightarrow> (nat list \<times> real list \<times> nat list \<times> real \<times> real \<times> real) list" where
  "batch_rows b = zip (b_cat b) (zip (b_cont b) (zip (b_tags b) (zip (b_log_pp b) (zip (b_pp b) (b_bid b)))))"

definition ds_rows :: "bid_dataset \<Rightarrow> (nat list \<times> real list \<times> nat list \<times> real \<times> real \<times> real) list" where
  "ds_rows ds = zip (ds_cat ds) (zip (ds_cont ds) (zip (ds_tags ds) (zip (ds_log_pp ds) (zip (ds_pp ds) (ds_bid ds)))))"

lemma length_pack_tags [simp]: "length (pack_tags tags) = length tags"
  by (simp add: pack_tags_def)

lemma ds_row_nth:
  assumes "i < length df"
  shows "ds_rows (BidDataset df) ! i =
    (let ds = BidDataset df in (ds_cat ds ! i, ds_cont ds ! i, ds_tags ds ! i, ds_log_pp ds ! i, ds_pp ds ! i, ds_bid ds ! i))"
  using assms by (simp add: ds_rows_def BidDataset_def Let_def)

lemma batch_rows_make:
  assumes "set idx \<subseteq> {..<length df}"
  shows "batch_rows (make_batch (BidDataset df) idx) = map (\<lambda>i. ds_rows (BidDataset df) ! i) idx"
  using assms
  by (induction idx) (auto simp: batch_rows_def make_batch_def gather_def ds_row_nth Let_def)

lemma length_ds_rows [simp]: "length (ds_rows (BidDataset df)) = length df"
  by (simp add: ds_rows_def BidDataset_def)

lemma iter_batches_eq:
  assumes "0 < batch_size" and "length perm = length df"
  shows "iter_batches (BidDataset df) batch_size (Some perm) drop_last =
    Some (map (make_batch (BidDataset df)) (batch_slices batch_size drop_last perm))"
proof -
  have "ds_n (BidDataset df) = length df" by (simp add: BidDataset_def)
  then show ?thesis
    using batch_loop_eq [OF assms, of 0 drop_last "[]"] by (simp add: iter_batches_def)
qed

lemma iter_batches_unshuffled: "iter_batches ds b None d = iter_batches ds b (Some [0..<ds_n ds]) d"
  by (simp add: iter_batches_def)

lemma batches_rows:
  assumes "0 < batch_size" and "mset perm = mset [0..<length df]"
  shows "concat (map batch_rows (map (make_batch (BidDataset df)) (batch_slices batch_size d perm))) =
    map (\<lambda>i. ds_rows (BidDataset df) ! i)
      (take (if d then length df div batch_size * batch_size else length df) perm)"
proof -
  have len: "length perm = length df" using assms(2) by (metis length_upt minus_nat.diff_0 size_mset)
  have "set perm \<subseteq> {..<length df}" using assms(2) by (metis atLeast_upt lessThan_atLeast0 order_refl set_mset_mset)
  moreover have "set (concat (batch_slices batch_size d perm)) \<subseteq> set perm"
    unfolding concat_batch_slices [OF assms(1)] by (rule set_take_subset)
  ultimately have sub: "set s \<subseteq> {..<length df}" if "s \<in> set (batch_slices batch_size d perm)" for s
    using that by auto
  have "map batch_rows (map (make_batch (BidDataset df)) (batch_slices batch_size d perm)) =
      map (map (\<lambda>i. ds_rows (BidDataset df) ! i)) (batch_slices batch_size d perm)"
    using sub by (simp add: batch_rows_make)
  then show ?thesis
    by (simp only: map_concat [symmetric] concat_batch_slices [OF assms(1)] len)
qed

text \<open>
  Whatever list stands for the permutation, the loop with a positive batch size returns, after the number
  of batches \<open>num_batches\<close> announces.
\<close>

lemma batch_loop_count:
  assumes "0 < b"
  shows "cur \<le> n \<Longrightarrow> \<exists>r. batch_loop n b d perm cur idxs = Some r \<and> length r = length idxs + batch_count (n - cur) b d"
proof (induction "n - cur" arbitrary: cur idxs rule: less_induct)
  case less
  consider "cur = n" | "cur < n" "n < cur + b" | "cur < n" "cur + b \<le> n" using less.prems by linarith
  then show ?case
  proof cases
    case 1
    then show ?thesis using assms by (subst batch_loop.simps) (simp add: batch_count_def)
  next
    case 2
    then have c: "batch_count (n - cur) b d = (if d then 0 else 1)" by (simp add: batch_count_last)
    have "batch_loop n b d perm n (idxs @ [slice cur n perm]) = Some (idxs @ [slice cur n perm])" for d
      by (subst batch_loop.simps) simp
    then show ?thesis using 2 c by (subst batch_loop.simps) auto
  next
    case 3
    have "n - (cur + b) < n - cur" using 3 assms by linarith
    then obtain r where "batch_loop n b d perm (cur + b) (idxs @ [slice cur (cur + b) perm]) = Some r"
      "length r = Suc (length idxs) + batch_count (n - (cur + b)) b d"
      using less.hyps [of "cur + b" "idxs @ [slice cur (cur + b) perm]"] 3 by auto
    moreover have "batch_count (n - cur) b d = Suc (batch_count (n - (cur + b)) b d)"
      using 3 assms batch_count_step [of b "n - cur" d] by (simp add: diff_diff_left)
    ultimately show ?thesis using 3 by (subst batch_loop.simps) (simp add: Let_def)
  qed
qed

section \<open>Properties\<close>

text \<open>
  C34: With a positive batch size and a permutation of the indices, \<open>iter_batches\<close> without
  \<open>drop_last\<close> yields each row of the dataset exactly once with all its columns aligned, in
  \<open>num_batches\<close> nonempty batches of at most \<open>batch_size\<close> rows.
\<close>

theorem batches_cover:
  assumes "0 < batch_size" and "mset perm = mset [0..<length df]"
  shows "\<exists>bs. iter_batches (BidDataset df) batch_size (Some perm) False = Some bs \<and>
    num_batches (BidDataset df) batch_size False = Inr (length bs) \<and>
    mset (concat (map batch_rows bs)) = mset (ds_rows (BidDataset df)) \<and>
    (\<forall>b \<in> set bs. 0 < length (b_cat b) \<and> length (b_cat b) \<le> batch_size)"
proof -
  have len: "length perm = length df" using assms(2) by (metis length_upt minus_nat.diff_0 size_mset)
  let ?bs = "map (make_batch (BidDataset df)) (batch_slices batch_size False perm)"
  have "mset (map (\<lambda>i. ds_rows (BidDataset df) ! i) perm) = mset (map (\<lambda>i. ds_rows (BidDataset df) ! i) [0..<length df])"
    using assms(2) by (metis mset_map)
  also have "map (\<lambda>i. ds_rows (BidDataset df) ! i) [0..<length df] = ds_rows (BidDataset df)"
    by (metis length_ds_rows map_nth)
  finally have "mset (concat (map batch_rows ?bs)) = mset (ds_rows (BidDataset df))"
    unfolding batches_rows [OF assms] using len by simp
  moreover have "num_batches (BidDataset df) batch_size False = Inr (length ?bs)"
    using assms(1) len by (simp add: num_batches_def length_batch_slices batch_count_def BidDataset_def)
  moreover have "\<forall>b \<in> set ?bs. 0 < length (b_cat b) \<and> length (b_cat b) \<le> batch_size"
    using batch_slice_length [OF assms(1)] by (fastforce simp: make_batch_def gather_def)
  ultimately show ?thesis using iter_batches_eq [OF assms(1) len] by blast
qed

definition demo_out :: "nat \<Rightarrow> nat list \<Rightarrow> real \<Rightarrow> out_row" where
  "demo_out c tags pay =
     \<lparr>o_cat = [c], o_has_floor_price = 0, o_log_floor_price = 0, o_slot_area = 1, o_tag_count = 0,
      o_hour_sin = 0, o_hour_cos = 1, o_weekday_sin = 0, o_weekday_cos = 1, o_is_weekend = 0,
      o_tag_indices = tags, o_payprice = pay, o_log_payprice = ln (max 1 pay), o_bidding_price = 300,
      o_advertiser_id = ''1458'', o_extra = None\<rparr>"

theorem batches_cover_witness:
  "\<exists>bs. iter_batches (BidDataset [demo_out 1 [] 5, demo_out 2 [] 9, demo_out 3 [] 7]) 2 (Some [2, 0, 1]) False = Some bs \<and>
    num_batches (BidDataset [demo_out 1 [] 5, demo_out 2 [] 9, demo_out 3 [] 7]) 2 False = Inr (length bs) \<and>
    mset (concat (map batch_rows bs)) = mset (ds_rows (BidDataset [demo_out 1 [] 5, demo_out 2 [] 9, demo_out 3 [] 7])) \<and>
    (\<forall>b \<in> set bs. 0 < length (b_cat b) \<and> length (b_cat b) \<le> 2)"
  by (rule batches_cover) (simp_all add: upt_conv_Cons)

text \<open>
  With \<open>drop_last\<close> the batches are exactly full, there are \<open>num_batches\<close> of them and they hold
  the rows at the first \<open>n // batch_size * batch_size\<close> positions of the permutation, in that order.
\<close>

theorem batches_drop_last:
  assumes "0 < batch_size" and "mset perm = mset [0..<length df]"
  shows "\<exists>bs. iter_batches (BidDataset df) batch_size (Some perm) True = Some bs \<and>
    num_batches (BidDataset df) batch_size True = Inr (length bs) \<and>
    concat (map batch_rows bs) =
      map (\<lambda>i. ds_rows (BidDataset df) ! i) (take (length df div batch_size * batch_size) perm) \<and>
    (\<forall>b \<in> set bs. length (b_cat b) = batch_size)"
proof -
  have len: "length perm = length df" using assms(2) by (metis length_upt minus_nat.diff_0 size_mset)
  let ?bs = "map (make_batch (BidDataset df)) (batch_slices batch_size True perm)"
  have "num_batches (BidDataset df) batch_size True = Inr (length ?bs)"
    using assms(1) len by (simp add: num_batches_def length_batch_slices batch_count_def BidDataset_def)
  moreover have "\<forall>b \<in> set ?bs. length (b_cat b) = batch_size"
    using batch_slice_length [OF assms(1), of _ True perm] by (fastforce simp: make_batch_def gather_def)
  ultimately show ?thesis
    using iter_batches_eq [OF assms(1) len, of True] batches_rows [OF assms, of True] by auto
qed

theorem batches_drop_last_witness:
  "\<exists>bs. iter_batches (BidDataset [demo_out 1 [] 5, demo_out 2 [] 9, demo_out 3 [] 7]) 2 (Some [2, 0, 1]) True = Some bs \<and>
    num_batches (BidDataset [demo_out 1 [] 5, demo_out 2 [] 9, demo_out 3 [] 7]) 2 True = Inr (length bs) \<and>
    concat (map batch_rows bs) =
      map (\<lambda>i. ds_rows (BidDataset [demo_out 1 [] 5, demo_out 2 [] 9, demo_out 3 [] 7]) ! i)
        (take (length [demo_out 1 [] 5, demo_out 2 [] 9, demo_out 3 [] 7] div 2 * 2) [2, 0, 1]) \<and>
    (\<forall>b \<in> set bs. length (b_cat b) = 2)"
  by (rule batches_drop_last) (simp_all add: upt_conv_Cons)

text \<open>
  C35: Whatever it shuffles by and whether or not it drops the last batch, the batch iterator of a dataset
  stops for every positive batch size, after exactly \<open>num_batches\<close> batches; with a batch size of 0 it
  stops only on an empty dataset and yields empty batches for ever on every other, where \<open>num_batches\<close>
  raises \<open>ZeroDivisionError\<close>.
\<close>

theorem batches_terminate:
  "(iter_batches (BidDataset df) batch_size shuffle drop_last = None \<longleftrightarrow> batch_size = 0 \<and> df \<noteq> []) \<and>
   num_batches (BidDataset df) batch_size drop_last =
     (if batch_size = 0 then Inl ZeroDivisionError
      else Inr (length (the (iter_batches (BidDataset df) batch_size shuffle drop_last))))"
proof -
  have n: "ds_n (BidDataset df) = length df" by (simp add: BidDataset_def)
  let ?perm = "case shuffle of None \<Rightarrow> [0..<length df] | Some p \<Rightarrow> p"
  show ?thesis
  proof (cases "batch_size = 0")
    case True
    have "batch_loop (length df) 0 drop_last ?perm 0 [] = None \<longleftrightarrow> df \<noteq> []"
      by (cases "df = []") (simp_all add: batch_loop.simps [of 0] batch_loop_diverges)
    then show ?thesis using True unfolding iter_batches_def n num_batches_def by simp
  next
    case False
    then obtain r where "batch_loop (length df) batch_size drop_last ?perm 0 [] = Some r"
      "length r = batch_count (length df) batch_size drop_last"
      using batch_loop_count [of batch_size 0 "length df" drop_last ?perm "[]"] by auto
    then show ?thesis using False unfolding iter_batches_def n num_batches_def batch_count_def by simp
  qed
qed

section \<open>Packing\<close>

lemma copy_tags_eq:
  assumes "length arr = 10" and "j \<le> 10"
  shows "copy_tags j row arr = take j arr @ take (10 - j) row @ drop (j + length row) arr"
  using assms
proof (induction row arbitrary: j arr)
  case (Cons t row)
  show ?case
  proof (cases "j < 10")
    case True
    then have "copy_tags j (t # row) arr = take (Suc j) (arr[j := t]) @ take (10 - Suc j) row @ drop (Suc j + length row) (arr[j := t])"
      using Cons.prems by (simp add: Cons.IH)
    moreover have "take (Suc j) (arr[j := t]) = take j arr @ [t]"
      using True Cons.prems by (simp add: take_Suc_conv_app_nth)
    moreover have "10 - j = Suc (10 - Suc j)" using True by simp
    ultimately show ?thesis by simp
  qed (use Cons.prems in simp)
qed simp

lemma pad_tags_eq: "pad_tags row = take 10 row @ replicate (10 - length row) 0"
  by (simp add: pad_tags_def copy_tags_eq)

lemma pack_tags_eq: "pack_tags tags = map pad_tags tags"
  by (auto simp: pack_tags_def list_all_iff pad_tags_eq intro!: map_idI [symmetric])

text \<open>
  Both tag-packing branches of \<open>BidDataset\<close> give each row its first ten tags padded with zeros,
  and a frame written by \<open>features.py\<close> is packed unchanged, next to nine continuous columns per row.
\<close>

theorem dataset_packing:
  "ds_tags (BidDataset df) = map (\<lambda>r. take 10 (o_tag_indices r) @ replicate (10 - length (o_tag_indices r)) 0) df \<and>
   list_all (\<lambda>row. length row = 9) (ds_cont (BidDataset df)) \<and>
   ds_tags (BidDataset (map (encode_row art) rows)) = map (\<lambda>r. encode_tags_row (art_tag_vocab art) 10 (fr_user_tags r)) rows"
  by (simp add: BidDataset_def pack_tags_eq pad_tags_eq list_all_iff pack_cont_def encode_row_def)

text \<open>
  On rows with ten tags each, \<open>BidDatasetAug\<close> agrees with \<open>BidDataset\<close> on every tensor but the
  continuous one, to which it appends two columns per row; fitted on the frame itself the first of them
  has mean 0. On rows of one common length other than ten it differs: it loses all tags.
\<close>

theorem dataset_aug_extends:
  assumes "df \<noteq> []"
  shows "(list_all (\<lambda>r. length (o_tag_indices r) = 10) df \<longrightarrow>
      (fst (BidDatasetAug st df))\<lparr>ds_cont := ds_cont (BidDataset df)\<rparr> = BidDataset df) \<and>
    map (take 9) (ds_cont (fst (BidDatasetAug st df))) = ds_cont (BidDataset df) \<and>
    mean (map (\<lambda>c. c ! 9) (ds_cont (fst (BidDatasetAug None df)))) = 0 \<and>
    (list_all (\<lambda>r. length (o_tag_indices r) = k) df \<and> k \<noteq> 10 \<longrightarrow>
      ds_tags (fst (BidDatasetAug st df)) = map (\<lambda>_. replicate 10 0) df)"
proof -
  obtain m s lm ls where st: "(case st of None \<Rightarrow> bid_price_stats (map o_bidding_price df) | Some x \<Rightarrow> x) = (m, s, lm, ls)"
    by (metis prod_cases4)
  have hd_len: "length (o_tag_indices (hd df)) = l" if "list_all (\<lambda>r. length (o_tag_indices r) = l) df" for l
    using that assms by (cases df) auto
  have pos: "0 < std_or_1 xs" for xs
    using less_trans [of 0 "1/1000000" "sqrt (pop_var xs)"] by (simp add: std_or_1_def Let_def del: real_sqrt_gt_0_iff)
  have "mean (map (\<lambda>c. c ! 9) (ds_cont (fst (BidDatasetAug None df)))) = 0"
    using mean_standardised(1) [OF _ pos, of "map o_bidding_price df" "map o_bidding_price df"] assms
    by (simp add: BidDatasetAug_def bid_price_stats_def Let_def pack_cont_def comp_def)
  moreover have "(fst (BidDatasetAug st df))\<lparr>ds_cont := ds_cont (BidDataset df)\<rparr> = BidDataset df"
    if "list_all (\<lambda>r. length (o_tag_indices r) = 10) df"
    using that hd_len [OF that] assms
    by (auto simp: BidDatasetAug_def st Let_def BidDataset_def pack_tags_aug_def pack_tags_def list_all_iff hd_map)
  moreover have "ds_tags (fst (BidDatasetAug st df)) = map (\<lambda>_. replicate 10 0) df"
    if "list_all (\<lambda>r. length (o_tag_indices r) = k) df" "k \<noteq> 10"
    using that hd_len [OF that(1)] assms
    by (auto simp: BidDatasetAug_def st Let_def pack_tags_aug_def list_all_iff hd_map intro!: bexI [of _ "hd df"])
  moreover have "map (take 9) (ds_cont (fst (BidDatasetAug st df))) = ds_cont (BidDataset df)"
    by (simp add: BidDatasetAug_def st Let_def BidDataset_def pack_cont_def)
  ultimately show ?thesis by blast
qed

theorem dataset_aug_extends_witness:
  "ds_tags (fst (BidDatasetAug None [demo_out 1 [7, 8] 5])) = [replicate 10 0] \<and>
   ds_tags (BidDataset [demo_out 1 [7, 8] 5]) = [[7, 8] @ replicate 8 0]"
  using dataset_aug_extends [of "[demo_out 1 [7, 8] 5]" None 2]
  by (simp add: demo_out_def BidDataset_def pack_tags_eq pad_tags_eq)

end
