(* ===== verification/Loss.thy ===== *)
theory Loss
  imports Arrays
begin

text \<open>
  \<open>rtb-bid-model/src/loss.py\<close>: likelihood, distribution function and density of the Gaussian
  mixture over log prices, and the classification losses of the discrete-bins model.

  One row of the mixture head is the record \<open>mdn_row\<close>. The error function of the tensor library is
  a parameter \<open>erf\<close>; what the code relies on is \<open>erf_like\<close>: it is monotone with values in
  \<open>[-1, 1]\<close>. The Gaussian noise of the target jitter is an argument too.
\<close>

section \<open>Gaussian mixtures\<close>

record mdn_row =
  pi_logits :: "real list"
  mu :: "real list"
  sigma :: "real list"

definition mdn_wf :: "mdn_row \<Rightarrow> bool" where
  "mdn_wf r \<longleftrightarrow> pi_logits r \<noteq> [] \<and> length (mu r) = length (pi_logits r)
     \<and> length (sigma r) = length (pi_logits r) \<and> (\<forall>s \<in> set (sigma r). 0 < s)"

definition erf_like :: "(real \<Rightarrow> real) \<Rightarrow> bool" where
  "erf_like erf \<longleftrightarrow> mono erf \<and> (\<forall>x. - 1 \<le> erf x \<and> erf x \<le> 1)"

definition LOG_2PI :: real where
  "LOG_2PI = ln (2 * pi)"

text \<open>\<open>log_comp = -0.5 * (z * z + LOG_2PI) - torch.log(sigma)\<close> with \<open>z = (t - mu) / sigma\<close>.\<close>

definition log_comp :: "real \<Rightarrow> real \<Rightarrow> real \<Rightarrow> real" where
  "log_comp t m s = (let z = (t - m) / s in - (1 / 2) * (z * z + LOG_2PI) - ln s)"

definition mdn_log_prob_row :: "mdn_row \<Rightarrow> real \<Rightarrow> real" where
  "mdn_log_prob_row r t =
     logsumexp (map2 (+) (log_softmax (pi_logits r)) (map2 (log_comp t) (mu r) (sigma r)))"

definition mdn_log_prob :: "mdn_row list \<Rightarrow> real list \<Rightarrow> real list" where
  "mdn_log_prob rs target = map2 mdn_log_prob_row rs target"

definition row_entropy :: "real list \<Rightarrow> real" where
  "row_entropy log_pi = - sum_list (map (\<lambda>l. exp l * l) log_pi)"

definition mdn_nll :: "mdn_row list \<Rightarrow> real list \<Rightarrow> real \<Rightarrow> real \<Rightarrow> real list \<Rightarrow> real" where
  "mdn_nll rs target ent_bonus target_jitter noise =
     (let t = (if target_jitter > 0 then map2 (\<lambda>x e. x + e * target_jitter) target noise else target);
          nll = - mean (map2 mdn_log_prob_row rs t)
      in if ent_bonus > 0
         then nll - ent_bonus * mean (map (\<lambda>r. row_entropy (log_softmax (pi_logits r))) rs)
         else nll)"

definition comp_cdf :: "(real \<Rightarrow> real) \<Rightarrow> real \<Rightarrow> real \<Rightarrow> real \<Rightarrow> real" where
  "comp_cdf erf x m s = 1 / 2 * (1 + erf ((x - m) / (s * sqrt 2)))"

definition mdn_cdf_row :: "(real \<Rightarrow> real) \<Rightarrow> mdn_row \<Rightarrow> real \<Rightarrow> real" where
  "mdn_cdf_row erf r x =
     sum_list (map2 (*) (softmax (pi_logits r)) (map2 (comp_cdf erf x) (mu r) (sigma r)))"

text \<open>The two shapes of the argument: one point per row, or a list of points per row.\<close>

definition mdn_cdf :: "(real \<Rightarrow> real) \<Rightarrow> mdn_row list \<Rightarrow> real list + real list list \<Rightarrow> real list + real list list" where
  "mdn_cdf erf rs x =
     (case x of
        Inl xs \<Rightarrow> Inl (map2 (mdn_cdf_row erf) rs xs)
      | Inr xss \<Rightarrow> Inr (map2 (\<lambda>r xs. map (mdn_cdf_row erf r) xs) rs xss))"

definition comp_pdf :: "real \<Rightarrow> real \<Rightarrow> real \<Rightarrow> real" where
  "comp_pdf x m s = (let xz = (x - m) / s in exp (- (1 / 2) * xz * xz) / (s * sqrt (2 * pi)))"

definition mdn_pdf_row :: "mdn_row \<Rightarrow> real \<Rightarrow> real" where
  "mdn_pdf_row r x =
     sum_list (map2 (*) (softmax (pi_logits r)) (map2 (comp_pdf x) (mu r) (sigma r)))"

definition mdn_pdf :: "mdn_row list \<Rightarrow> real list + real list list \<Rightarrow> real list + real list list" where
  "mdn_pdf rs x =
     (case x of
        Inl xs \<Rightarrow> Inl (map2 mdn_pdf_row rs xs)
      | Inr xss \<Rightarrow> Inr (map2 (\<lambda>r xs. map (mdn_pdf_row r) xs) rs xss))"

subsection \<open>The log likelihood is the logarithm of the density\<close>

lemma exp_half_LOG_2PI: "exp (LOG_2PI / 2) = sqrt (2 * pi)"
proof -
  have "LOG_2PI / 2 = ln (sqrt (2 * pi))"
    by (simp add: LOG_2PI_def ln_sqrt)
  then have "exp (LOG_2PI / 2) = exp (ln (sqrt (2 * pi)))" by (rule arg_cong)
  also have "\<dots> = sqrt (2 * pi)" by (rule exp_ln) simp
  finally show ?thesis .
qed

lemma exp_log_comp:
  assumes "0 < s"
  shows "exp (log_comp t m s) = comp_pdf t m s"
proof -
  let ?z = "(t - m) / s"
  have "log_comp t m s = - (1 / 2) * ?z * ?z - LOG_2PI / 2 - ln s"
    by (simp only: log_comp_def Let_def) (simp add: distrib_left)
  then have "exp (log_comp t m s) = exp (- (1 / 2) * ?z * ?z) / sqrt (2 * pi) / s"
    using assms by (simp only: exp_diff exp_half_LOG_2PI exp_ln)
  then show ?thesis by (simp add: comp_pdf_def Let_def field_simps)
qed

lemma sum_exp_map2_add:
  "map exp (map2 (+) (xs :: real list) ys) = map2 (*) (map exp xs) (map exp ys)"
  by (rule nth_equalityI) (auto simp: exp_add)

lemma map_exp_log_comp:
  assumes "\<forall>s \<in> set ss. 0 < s"
  shows "map exp (map2 (log_comp t) ms ss) = map2 (comp_pdf t) ms ss"
  using assms by (auto simp: exp_log_comp dest: set_zip_rightD)

lemma exp_mdn_log_prob_row:
  assumes "mdn_wf r"
  shows "exp (mdn_log_prob_row r t) = mdn_pdf_row r t"
proof -
  let ?l = "map2 (+) (log_softmax (pi_logits r)) (map2 (log_comp t) (mu r) (sigma r))"
  have "?l \<noteq> []"
    using assms by (auto simp: mdn_wf_def log_softmax_def zip_eq_Nil_iff)
  then have "exp (logsumexp ?l) = sum_list (map exp ?l)"
    by (rule exp_logsumexp)
  also have "map exp ?l = map2 (*) (softmax (pi_logits r)) (map2 (comp_pdf t) (mu r) (sigma r))"
    using assms unfolding sum_exp_map2_add exp_log_softmax mdn_wf_def
    by (metis map_exp_log_comp)
  finally show ?thesis by (simp add: mdn_log_prob_row_def mdn_pdf_row_def)
qed

subsection \<open>The distribution function\<close>

lemma comp_cdf_bounds:
  assumes "erf_like erf"
  shows "0 \<le> comp_cdf erf x m s" and "comp_cdf erf x m s \<le> 1"
proof -
  have "- 1 \<le> erf ((x - m) / (s * sqrt 2))" and "erf ((x - m) / (s * sqrt 2)) \<le> 1"
    using assms by (auto simp: erf_like_def)
  then show "0 \<le> comp_cdf erf x m s" and "comp_cdf erf x m s \<le> 1"
    by (simp_all add: comp_cdf_def)
qed

lemma comp_cdf_mono:
  assumes "erf_like erf" and "0 < s" and "x \<le> y"
  shows "comp_cdf erf x m s \<le> comp_cdf erf y m s"
proof -
  have "(x - m) / (s * sqrt 2) \<le> (y - m) / (s * sqrt 2)"
    using assms by (intro divide_right_mono) auto
  with assms(1) show ?thesis by (auto simp: comp_cdf_def erf_like_def dest: monoD)
qed

lemma softmax_weighted_bounds:
  assumes "\<And>y. y \<in> set ys \<Longrightarrow> 0 \<le> y \<and> y \<le> 1"
  shows "0 \<le> sum_list (map2 (*) (softmax xs) ys)" and "sum_list (map2 (*) (softmax xs) ys) \<le> 1"
proof -
  have y: "0 \<le> y \<and> y \<le> 1" if "(p, y) \<in> set (zip (softmax xs) ys)" for p y
    using that assms by (auto dest: set_zip_rightD)
  have p: "0 \<le> p" if "(p, y) \<in> set (zip (softmax xs) ys)" for p y
    using that by (meson less_imp_le set_zip_leftD softmax_pos)
  show "0 \<le> sum_list (map2 (*) (softmax xs) ys)"
    using y p by (intro sum_list_nonneg_real) auto
  have "sum_list (map2 (*) (softmax xs) ys) \<le> sum_list (map2 (\<lambda>p y. p) (softmax xs) ys)"
    using y p by (intro sum_list_map2_mono) (auto intro: mult_left_le)
  also have "map2 (\<lambda>p y. p) (softmax xs) ys = take (length ys) (softmax xs)"
    by (simp add: map_fst_zip_take min_def case_prod_unfold)
  also have "sum_list \<dots> \<le> sum_list (softmax xs)"
    by (rule sum_list_take_le) (auto intro: less_imp_le softmax_pos)
  also have "\<dots> \<le> 1"
    by (cases "xs = []", simp add: softmax_def, simp add: sum_softmax)
  finally show "sum_list (map2 (*) (softmax xs) ys) \<le> 1" .
qed

lemma mdn_cdf_row_bounds:
  assumes "erf_like erf"
  shows "0 \<le> mdn_cdf_row erf r x" and "mdn_cdf_row erf r x \<le> 1"
  unfolding mdn_cdf_row_def
  using assms by (auto intro!: softmax_weighted_bounds simp: comp_cdf_bounds)

lemma mdn_cdf_row_mono:
  assumes "erf_like erf" and "mdn_wf r" and "x \<le> y"
  shows "mdn_cdf_row erf r x \<le> mdn_cdf_row erf r y"
proof -
  have "softmax (pi_logits r) ! k * comp_cdf erf x (mu r ! k) (sigma r ! k)
      \<le> softmax (pi_logits r) ! k * comp_cdf erf y (mu r ! k) (sigma r ! k)"
    if "k < length (pi_logits r)" for k
  proof (rule mult_left_mono)
    show "comp_cdf erf x (mu r ! k) (sigma r ! k) \<le> comp_cdf erf y (mu r ! k) (sigma r ! k)"
      using assms that by (intro comp_cdf_mono) (auto simp: mdn_wf_def)
    show "0 \<le> softmax (pi_logits r) ! k"
      using that softmax_pos [of "softmax (pi_logits r) ! k" "pi_logits r"] by simp
  qed
  then show ?thesis
    using assms(2) by (auto simp: mdn_cdf_row_def mdn_wf_def sum_list_map2_nth intro!: sum_mono)
qed

section \<open>Losses of the discrete-bins model\<close>

text \<open>
  \<open>F.cross_entropy(logits, target_bin)\<close>: the mean of the negative log-softmax at the target class;
  a target outside the classes is an error.
\<close>

definition discrete_bins_nll :: "real list list \<Rightarrow> nat list \<Rightarrow> real res" where
  "discrete_bins_nll logits target_bin =
     (if length logits \<noteq> length target_bin then Inl ValueError
      else if list_all2 (\<lambda>row t. t < length row) logits target_bin
      then Inr (mean (map2 (\<lambda>row t. - (log_softmax row ! t)) logits target_bin))
      else Inl IndexError)"

text \<open>The Gaussian weights around the true bin, before and after normalisation.\<close>

definition raw_weights :: "nat \<Rightarrow> nat \<Rightarrow> real \<Rightarrow> real list" where
  "raw_weights num_bins t sg =
     map (\<lambda>c. exp (- (1 / 2) * ((c - real t) / sg)\<^sup>2)) (arange num_bins)"

definition smooth_weights :: "nat \<Rightarrow> nat \<Rightarrow> real \<Rightarrow> real list" where
  "smooth_weights num_bins t sg =
     (let w = raw_weights num_bins t sg in map (\<lambda>x. x / sum_list w) w)"

definition discrete_bins_smoothed_nll :: "nat \<Rightarrow> real list list \<Rightarrow> nat list \<Rightarrow> real \<Rightarrow> real" where
  "discrete_bins_smoothed_nll num_bins logits target_bin sg =
     mean (map2 (\<lambda>row t. - sum_list (map2 (*) (smooth_weights num_bins t sg) (log_softmax row)))
             logits target_bin)"

lemma length_smooth_weights [simp, arr_simps]: "length (smooth_weights n t sg) = n"
  by (simp add: smooth_weights_def raw_weights_def Let_def)

lemma raw_weights_pos: "w \<in> set (raw_weights n t sg) \<Longrightarrow> 0 < w"
  by (auto simp: raw_weights_def)

lemma sum_raw_weights_pos: "0 < n \<Longrightarrow> 0 < sum_list (raw_weights n t sg)"
  by (rule sum_list_pos_real) (auto simp: raw_weights_def arange_def intro: raw_weights_pos)

lemma smooth_weights_pos: "0 < n \<Longrightarrow> w \<in> set (smooth_weights n t sg) \<Longrightarrow> 0 < w"
  using sum_raw_weights_pos [of n t sg]
  by (auto simp: smooth_weights_def Let_def intro: divide_pos_pos raw_weights_pos)

lemma sum_smooth_weights: "0 < n \<Longrightarrow> sum_list (smooth_weights n t sg) = 1"
  using sum_raw_weights_pos [of n t sg] by (simp add: smooth_weights_def Let_def sum_list_divide)

interpretation smooth_dist: price_dist "\<lambda>(n, t, sg). smooth_weights n t sg" "\<lambda>(n, t, sg). 0 < n"
  by unfold_locales (auto intro: sum_smooth_weights less_imp_le dest: smooth_weights_pos)

text \<open>
  Gibbs' inequality for a positive distribution \<open>w\<close> and the softmax of a row of logits: the cross
  entropy is at least the entropy of \<open>w\<close>.
\<close>

lemma gibbs_softmax:
  assumes len: "length w = length row" and pos: "\<And>x. x \<in> set w \<Longrightarrow> 0 < x"
    and one: "sum_list w = 1"
  shows "- sum_list (map2 (*) w (map ln w)) \<le> - sum_list (map2 (*) w (log_softmax row))"
proof -
  let ?n = "length row" and ?p = "softmax row" and ?l = "log_softmax row"
  have ne: "row \<noteq> []" using len one by auto
  have bound: "w ! i * ?l ! i - w ! i * ln (w ! i) \<le> ?p ! i - w ! i" if i: "i < ?n" for i
  proof -
    have w: "0 < w ! i" using i len pos by simp
    have p: "0 < ?p ! i" using i softmax_pos [of "?p ! i" row] by simp
    have "?l ! i = ln (?p ! i)"
      using i by (metis exp_log_softmax length_log_softmax ln_exp nth_map)
    then have "w ! i * ?l ! i - w ! i * ln (w ! i) = w ! i * ln (?p ! i / w ! i)"
      using w p by (simp add: ln_div right_diff_distrib)
    also have "\<dots> \<le> w ! i * (?p ! i / w ! i - 1)"
      using w p by (intro mult_left_mono ln_le_minus_one) auto
    also have "\<dots> = ?p ! i - w ! i" using w by (simp add: field_simps)
    finally show ?thesis .
  qed
  have "(\<Sum>i<?n. w ! i * ?l ! i) - (\<Sum>i<?n. w ! i * ln (w ! i)) \<le> (\<Sum>i<?n. ?p ! i) - (\<Sum>i<?n. w ! i)"
    using bound unfolding sum_subtractf [symmetric] by (intro sum_mono) auto
  also have "\<dots> = 0"
    using ne len one sum_softmax [of row] by (simp add: sum_list_map_nth)
  finally show ?thesis
    using len by (simp add: sum_list_map2_nth)
qed

section \<open>Properties\<close>

text \<open>
  for well-formed mixtures the exponential of mdn_log_prob is the density mdn_pdf of the same
  mixture at the same point, and the training loss without entropy bonus and jitter is the mean
  negative log density.
\<close>

theorem mdn_nll_is_density:
  assumes "\<forall>r \<in> set rs. mdn_wf r"
  shows "Inl (map exp (mdn_log_prob rs t)) = mdn_pdf rs (Inl t)
    \<and> mdn_nll rs t 0 0 noise = - mean (map ln (map2 mdn_pdf_row rs t))"
proof -
  have dens: "map exp (mdn_log_prob rs t) = map2 mdn_pdf_row rs t"
    using assms by (auto simp: mdn_log_prob_def exp_mdn_log_prob_row dest: set_zip_leftD)
  have logs: "map2 mdn_log_prob_row rs t = map ln (map2 mdn_pdf_row rs t)"
    using assms by (auto simp flip: exp_mdn_log_prob_row dest: set_zip_leftD)
  have "mdn_nll rs t 0 0 noise = - mean (map2 mdn_log_prob_row rs t)"
    by (simp add: mdn_nll_def Let_def)
  then show ?thesis by (simp only: logs dens mdn_pdf_def) simp
qed

theorem mdn_nll_is_density_witness:
  "mdn_nll [\<lparr>pi_logits = [0, 1], mu = [0, 3], sigma = [1, 1 / 2]\<rparr>] [2] 0 0 []
    = - ln (mdn_pdf_row \<lparr>pi_logits = [0, 1], mu = [0, 3], sigma = [1, 1 / 2]\<rparr> 2)"
  using mdn_nll_is_density [of "[\<lparr>pi_logits = [0, 1], mu = [0, 3], sigma = [1, 1 / 2]\<rparr>]" "[2]" "[]"]
  by (simp add: mdn_wf_def mean_def)

text \<open>
  mdn_cdf, evaluated at several points per row, has values between 0 and 1 and is monotone along
  each row's points, for every error function that is monotone with values between -1 and 1.
\<close>

theorem mdn_cdf_monotone:
  assumes "erf_like erf" and "\<forall>r \<in> set rs. mdn_wf r" and "length xss = length rs"
    and "mdn_cdf erf rs (Inr xss) = Inr yss"
  shows "length yss = length rs
    \<and> (\<forall>i<length rs. length (yss ! i) = length (xss ! i)
        \<and> (\<forall>j<length (xss ! i). 0 \<le> yss ! i ! j \<and> yss ! i ! j \<le> 1
            \<and> (\<forall>k<length (xss ! i). xss ! i ! j \<le> xss ! i ! k \<longrightarrow> yss ! i ! j \<le> yss ! i ! k)))"
proof -
  have y: "yss = map2 (\<lambda>r xs. map (mdn_cdf_row erf r) xs) rs xss"
    using assms(4) by (simp add: mdn_cdf_def)
  then show ?thesis
    using assms(1-3) by (auto simp: mdn_cdf_row_bounds mdn_cdf_row_mono)
qed

theorem mdn_cdf_monotone_witness:
  "\<exists>a b. mdn_cdf (\<lambda>x. max (- 1) (min 1 x)) [\<lparr>pi_logits = [0], mu = [0], sigma = [1]\<rparr>] (Inr [[0, 1]])
      = Inr [[a, b]] \<and> 0 \<le> a \<and> a \<le> b \<and> b \<le> 1"
proof -
  let ?erf = "\<lambda>x :: real. max (- 1) (min 1 x)" and ?r = "\<lparr>pi_logits = [0], mu = [0], sigma = [1]\<rparr>"
  have e: "erf_like ?erf" by (auto simp: erf_like_def intro!: monoI)
  have v: "mdn_cdf ?erf [?r] (Inr [[0, 1]]) = Inr [[mdn_cdf_row ?erf ?r 0, mdn_cdf_row ?erf ?r 1]]"
    by (simp add: mdn_cdf_def)
  let ?a = "mdn_cdf_row ?erf ?r 0" and ?b = "mdn_cdf_row ?erf ?r 1"
  have "\<forall>j<2. 0 \<le> [?a, ?b] ! j \<and> [?a, ?b] ! j \<le> 1
      \<and> (\<forall>k<2. [0, 1 :: real] ! j \<le> [0, 1] ! k \<longrightarrow> [?a, ?b] ! j \<le> [?a, ?b] ! k)"
    using mdn_cdf_monotone [OF e _ _ v] by (simp add: mdn_wf_def numeral_2_eq_2)
  from this [rule_format, of 0] this [rule_format, of 1] have "0 \<le> ?a \<and> ?a \<le> ?b \<and> ?b \<le> 1"
    by (auto simp: numeral_2_eq_2 dest: spec [of _ 1])
  with v show ?thesis by blast
qed

text \<open>
  the bins losses. The cross entropy of a batch is a value exactly when every target is a class of
  its row, and then it is nonnegative; the smoothed loss is at least the mean entropy of the smoothing
  weights, so it is minimal where the predicted distribution equals them.
\<close>

theorem bins_losses_bounded:
  assumes "0 < n" and "\<forall>row \<in> set logits. length row = n" and "length target = length logits"
  shows "(case discrete_bins_nll logits target of
            Inl e \<Rightarrow> e = IndexError \<and> (\<exists>t \<in> set target. n \<le> t)
          | Inr l \<Rightarrow> (\<forall>t \<in> set target. t < n) \<and> 0 \<le> l)
    \<and> mean (map (\<lambda>t. let w = smooth_weights n t sg in - sum_list (map2 (*) w (map ln w))) target)
        \<le> discrete_bins_smoothed_nll n logits target sg"
proof
  have iff: "list_all2 (\<lambda>row t. t < length row) logits target \<longleftrightarrow> (\<forall>t \<in> set target. t < n)"
    using assms(2,3) by (auto simp: list_all2_conv_all_nth in_set_conv_nth all_set_conv_all_nth)
  have nonneg: "0 \<le> mean (map2 (\<lambda>row t. - (log_softmax row ! t)) logits target)"
    if "\<forall>t \<in> set target. t < n"
  proof (rule mean_nonneg)
    fix x assume "x \<in> set (map2 (\<lambda>row t. - (log_softmax row ! t)) logits target)"
    then obtain row t where x: "x = - (log_softmax row ! t)" and rt: "(row, t) \<in> set (zip logits target)"
      by auto
    then have "t < length row" using that assms(2) by (metis set_zip_leftD set_zip_rightD)
    then show "0 \<le> x" using x log_softmax_nonpos [of "log_softmax row ! t" row] by simp
  qed
  show "case discrete_bins_nll logits target of
            Inl e \<Rightarrow> e = IndexError \<and> (\<exists>t \<in> set target. n \<le> t)
          | Inr l \<Rightarrow> (\<forall>t \<in> set target. t < n) \<and> 0 \<le> l"
    using iff nonneg assms(3) by (auto simp: discrete_bins_nll_def not_less)
  let ?ent = "\<lambda>t. let w = smooth_weights n t sg in - sum_list (map2 (*) w (map ln w))"
  let ?row = "\<lambda>row t. - sum_list (map2 (*) (smooth_weights n t sg) (log_softmax row))"
  have "?ent t \<le> ?row row t" if "(row, t) \<in> set (zip logits target)" for row t
    unfolding Let_def
    by (rule gibbs_softmax)
      (use that assms(1,2) in \<open>auto simp: sum_smooth_weights intro: smooth_weights_pos dest: set_zip_leftD\<close>)
  then have "sum_list (map2 (\<lambda>row t. ?ent t) logits target) \<le> sum_list (map2 ?row logits target)"
    by (rule sum_list_map2_mono)
  moreover have "map2 (\<lambda>row t. ?ent t) logits target = map ?ent target"
    using assms(3) by (intro nth_equalityI) auto
  ultimately show "mean (map ?ent target) \<le> discrete_bins_smoothed_nll n logits target sg"
    using assms(3) by (simp add: mean_def discrete_bins_smoothed_nll_def divide_right_mono)
qed

theorem bins_losses_bounded_witness:
  "(case discrete_bins_nll [[0, 1], [2, 0]] [1, 0] of Inl e \<Rightarrow> False | Inr l \<Rightarrow> 0 \<le> l)
    \<and> discrete_bins_nll [[0, 1], [2, 0]] [1, 2] = Inl IndexError"
  using bins_losses_bounded [of 2 "[[0, 1], [2, 0]]" "[1, 0]" 1]
    bins_losses_bounded [of 2 "[[0, 1], [2, 0]]" "[1, 2]" 1]
  by (auto split: sum.splits simp: discrete_bins_nll_def)

end
