(* ===== verification/Model.thy ===== *)
theory Model
  imports Dataset Loss
begin

text \<open>
  The networks of \<open>model.py\<close> and \<open>experiments/model_multi.py\<close>, and the export wrappers of
  \<open>export_onnx.py\<close>, on one row of the batch. The layers of the tensor library the networks are made of
  (embedding lookup, linear, layer norm, GELU, softplus) are written out from their documented
  formulas; random initialisation is a parameter. The model is the network in evaluation mode, where
  dropout is the identity.
\<close>

section \<open>Layers\<close>

definition matrix :: "nat \<Rightarrow> nat \<Rightarrow> real list list \<Rightarrow> bool" where
  "matrix r c m \<longleftrightarrow> length m = r \<and> list_all (\<lambda>row. length row = c) m"

text \<open>\<open>nn.Embedding\<close>: an index outside the table is an \<open>IndexError\<close>.\<close>

definition emb_lookup :: "real list list \<Rightarrow> nat \<Rightarrow> real list res" where
  "emb_lookup table i = (if i < length table then Inr (table ! i) else Inl IndexError)"

record linear =
  lin_w :: "real list list"
  lin_b :: "real list"

definition dot :: "real list \<Rightarrow> real list \<Rightarrow> real" where
  "dot xs ys = sum_list (map2 (*) xs ys)"

text \<open>A width that does not fit is a \<open>RuntimeError\<close>.\<close>

definition linear_fwd :: "linear \<Rightarrow> real list \<Rightarrow> real list res" where
  "linear_fwd l x =
     (if list_all (\<lambda>w. length w = length x) (lin_w l)
      then Inr (map2 (\<lambda>w b. dot w x + b) (lin_w l) (lin_b l)) else Inl RuntimeError)"

definition layer_norm :: "real list \<Rightarrow> real list \<Rightarrow> real list \<Rightarrow> real list" where
  "layer_norm gamma beta x =
     (let s = sqrt (pop_var x + 1/100000)
      in map2 (\<lambda>(g, b) v. (v - mean x) / s * g + b) (zip gamma beta) x)"

definition gelu :: "(real \<Rightarrow> real) \<Rightarrow> real \<Rightarrow> real" where
  "gelu erf x = x * (1 / 2) * (1 + erf (x / sqrt 2))"

definition softplus :: "real \<Rightarrow> real" where
  "softplus x = (if 20 < x then x else ln (1 + exp x))"

section \<open>Embeddings\<close>

record cat_embeddings =
  embs :: "real list list list"
  tag_emb :: "real list list"
  tag_dim :: nat
  emb_out_dim :: nat

text \<open>
  The constructor. \<open>init r c\<close> is the freshly initialised table; the tag table is created with
  \<open>padding_idx=0\<close>, which zeroes its first row and needs one.
\<close>

fun build_embs :: "(nat \<Rightarrow> nat \<Rightarrow> real list list) \<Rightarrow> ('f \<times> nat) list \<Rightarrow> ('f \<Rightarrow> nat option) \<Rightarrow> real list list list \<Rightarrow> nat
    \<Rightarrow> (real list list list \<times> nat) res" where
  "build_embs init [] emb_dims ts out_dim = Inr (ts, out_dim)"
| "build_embs init ((name, sz) # vs) emb_dims ts out_dim =
     (case emb_dims name of
        None \<Rightarrow> Inl KeyError
      | Some d \<Rightarrow> build_embs init vs emb_dims (ts @ [init sz d]) (out_dim + d))"

definition CategoricalEmbeddings ::
  "(nat \<Rightarrow> nat \<Rightarrow> real list list) \<Rightarrow> ('f \<times> nat) list \<Rightarrow> ('f \<Rightarrow> nat option) \<Rightarrow> nat \<Rightarrow> nat \<Rightarrow> cat_embeddings res" where
  "CategoricalEmbeddings init vocab_sizes emb_dims tag_vocab_size tag_emb_dim =
     res_bind (build_embs init vocab_sizes emb_dims [] 0) (\<lambda>(ts, out_dim).
       if tag_vocab_size = 0 then Inl AssertionError
       else Inr \<lparr>embs = ts, tag_emb = replicate tag_emb_dim 0 # tl (init tag_vocab_size tag_emb_dim),
                 tag_dim = tag_emb_dim, emb_out_dim = out_dim + tag_emb_dim\<rparr>)"

fun emb_parts :: "real list list list \<Rightarrow> nat list \<Rightarrow> real list list res" where
  "emb_parts [] cat = Inr []"
| "emb_parts (e # es) [] = Inl IndexError"
| "emb_parts (e # es) (c # cat) =
     res_bind (emb_lookup e c) (\<lambda>v. res_bind (emb_parts es cat) (\<lambda>vs. Inr (v # vs)))"

text \<open>Masked mean of the tag embeddings: tag 0 is padding.\<close>

definition tag_bag :: "nat \<Rightarrow> real list list \<Rightarrow> nat list \<Rightarrow> real list res" where
  "tag_bag width table tags =
     res_bind (res_map (emb_lookup table) tags) (\<lambda>tag_e.
       let mask = map (\<lambda>t. if t \<noteq> 0 then 1 else 0 :: real) tags;
           denom = max 1 (sum_list mask)
       in Inr (map (\<lambda>d. sum_list (map2 (\<lambda>v m. v ! d * m) tag_e mask) / denom) [0..<width]))"

definition emb_forward :: "cat_embeddings \<Rightarrow> nat list \<Rightarrow> nat list \<Rightarrow> real list res" where
  "emb_forward e cat tags =
     res_bind (emb_parts (embs e) cat) (\<lambda>parts.
     res_bind (tag_bag (tag_dim e) (tag_emb e) tags) (\<lambda>bag. Inr (concat (parts @ [bag]))))"

section \<open>Backbone\<close>

record mlp_layer =
  fc :: linear
  ln_gamma :: "real list"
  ln_beta :: "real list"

record mlp_backbone =
  bb_layers :: "mlp_layer list"
  bb_out_dim :: nat

definition init_linear :: "(nat \<Rightarrow> nat \<Rightarrow> real list list) \<Rightarrow> nat \<Rightarrow> nat \<Rightarrow> linear" where
  "init_linear init n_in n_out = \<lparr>lin_w = init n_out n_in, lin_b = concat (init n_out 1)\<rparr>"

fun build_layers :: "(nat \<Rightarrow> nat \<Rightarrow> real list list) \<Rightarrow> nat \<Rightarrow> nat list \<Rightarrow> mlp_layer list \<Rightarrow> mlp_backbone" where
  "build_layers init prev [] layers = \<lparr>bb_layers = layers, bb_out_dim = prev\<rparr>"
| "build_layers init prev (h # hidden) layers =
     build_layers init h hidden
       (layers @ [\<lparr>fc = init_linear init prev h, ln_gamma = replicate h 1, ln_beta = replicate h 0\<rparr>])"

definition MLPBackbone :: "(nat \<Rightarrow> nat \<Rightarrow> real list list) \<Rightarrow> nat \<Rightarrow> nat list \<Rightarrow> mlp_backbone" where
  "MLPBackbone init in_dim hidden = build_layers init in_dim hidden []"

definition layer_fwd :: "(real \<Rightarrow> real) \<Rightarrow> mlp_layer \<Rightarrow> real list \<Rightarrow> real list res" where
  "layer_fwd erf l x = res_bind (linear_fwd (fc l) x) (\<lambda>y. Inr (map (gelu erf) (layer_norm (ln_gamma l) (ln_beta l) y)))"

fun layers_fwd :: "(real \<Rightarrow> real) \<Rightarrow> mlp_layer list \<Rightarrow> real list \<Rightarrow> real list res" where
  "layers_fwd erf [] x = Inr x"
| "layers_fwd erf (l # ls) x = res_bind (layer_fwd erf l x) (layers_fwd erf ls)"

section \<open>The networks\<close>

record network =
  net_emb :: cat_embeddings
  net_backbone :: mlp_backbone
  net_head :: linear

record mdn_net = network +
  net_K :: nat
  net_sigma_floor :: real

definition build_network ::
  "(nat \<Rightarrow> nat \<Rightarrow> real list list) \<Rightarrow> ('f \<times> nat) list \<Rightarrow> ('f \<Rightarrow> nat option) \<Rightarrow> nat \<Rightarrow> nat \<Rightarrow> nat \<Rightarrow> nat list \<Rightarrow> nat
     \<Rightarrow> network res" where
  "build_network init vocab_sizes emb_dims tag_vocab_size tag_emb_dim num_continuous hidden n_out =
     res_bind (CategoricalEmbeddings init vocab_sizes emb_dims tag_vocab_size tag_emb_dim) (\<lambda>e.
       let bb = MLPBackbone init (emb_out_dim e + num_continuous) hidden
       in Inr \<lparr>net_emb = e, net_backbone = bb, net_head = init_linear init (bb_out_dim bb) n_out\<rparr>)"

definition MDN where
  "MDN init vocab_sizes emb_dims tag_vocab_size tag_emb_dim num_continuous hidden K sigma_floor =
     res_bind (build_network init vocab_sizes emb_dims tag_vocab_size tag_emb_dim num_continuous hidden (3 * K)) (\<lambda>n.
       Inr (network.extend n (mdn_net.fields K sigma_floor)))"

definition DiscreteBins where
  "DiscreteBins init vocab_sizes emb_dims tag_vocab_size tag_emb_dim num_continuous hidden num_bins =
     build_network init vocab_sizes emb_dims tag_vocab_size tag_emb_dim num_continuous hidden num_bins"

definition hidden_fwd :: "(real \<Rightarrow> real) \<Rightarrow> ('a) network_scheme \<Rightarrow> nat list \<Rightarrow> real list \<Rightarrow> nat list \<Rightarrow> real list res" where
  "hidden_fwd erf n cat cont tags =
     res_bind (emb_forward (net_emb n) cat tags) (\<lambda>e. layers_fwd erf (bb_layers (net_backbone n)) (e @ cont))"

text \<open>The split of the \<open>3 * K\<close> outputs of the mixture head.\<close>

definition split_head :: "nat \<Rightarrow> real \<Rightarrow> real list \<Rightarrow> mdn_row" where
  "split_head K sigma_floor out =
     \<lparr>pi_logits = slice 0 K out, mu = slice K (2 * K) out,
      sigma = map (\<lambda>x. softplus x + sigma_floor) (drop (2 * K) out)\<rparr>"

definition mdn_forward :: "(real \<Rightarrow> real) \<Rightarrow> mdn_net \<Rightarrow> nat list \<Rightarrow> real list \<Rightarrow> nat list \<Rightarrow> mdn_row res" where
  "mdn_forward erf n cat cont tags =
     res_bind (hidden_fwd erf n cat cont tags) (\<lambda>h.
     res_bind (linear_fwd (net_head n) h) (\<lambda>out. Inr (split_head (net_K n) (net_sigma_floor n) out)))"

definition bins_forward :: "(real \<Rightarrow> real) \<Rightarrow> network \<Rightarrow> nat list \<Rightarrow> real list \<Rightarrow> nat list \<Rightarrow> real list res" where
  "bins_forward erf n cat cont tags = res_bind (hidden_fwd erf n cat cont tags) (linear_fwd (net_head n))"

text \<open>\<open>BinsForExport.forward\<close>, in \<open>export_onnx.py\<close> and in the retrainer.\<close>

definition bins_export :: "(real \<Rightarrow> real) \<Rightarrow> network \<Rightarrow> nat list \<Rightarrow> real list \<Rightarrow> nat list \<Rightarrow> real list res" where
  "bins_export erf n cat cont tags = res_bind (bins_forward erf n cat cont tags) (\<lambda>logits. Inr (softmax logits))"

record multi_head = mdn_net +
  net_head_bins :: linear

definition multi_forward :: "(real \<Rightarrow> real) \<Rightarrow> multi_head \<Rightarrow> nat list \<Rightarrow> real list \<Rightarrow> nat list \<Rightarrow> (mdn_row \<times> real list) res" where
  "multi_forward erf n cat cont tags =
     res_bind (hidden_fwd erf n cat cont tags) (\<lambda>h.
     res_bind (linear_fwd (net_head n) h) (\<lambda>m.
     res_bind (linear_fwd (net_head_bins n) h) (\<lambda>logits.
       Inr (split_head (net_K n) (net_sigma_floor n) m, logits))))"

section \<open>Shapes\<close>

text \<open>
  The shapes the constructors create and training keeps: one table per feature with as many rows as its
  vocabulary size, a tag table, and layers that fit onto each other.
\<close>

definition emb_shape :: "('f \<times> nat) list \<Rightarrow> ('f \<Rightarrow> nat option) \<Rightarrow> nat \<Rightarrow> nat \<Rightarrow> cat_embeddings \<Rightarrow> bool" where
  "emb_shape vs dims tv td e \<longleftrightarrow>
     list_all2 (\<lambda>(name, sz) t. matrix sz (the (dims name)) t) vs (embs e) \<and>
     matrix tv td (tag_emb e) \<and> 0 < tv \<and> tag_dim e = td \<and>
     emb_out_dim e = sum_list (map (\<lambda>(name, sz). the (dims name)) vs) + td"

definition linear_shape :: "nat \<Rightarrow> nat \<Rightarrow> linear \<Rightarrow> bool" where
  "linear_shape n_in n_out l \<longleftrightarrow> matrix n_out n_in (lin_w l) \<and> length (lin_b l) = n_out"

fun layers_shape :: "nat \<Rightarrow> mlp_layer list \<Rightarrow> nat \<Rightarrow> bool" where
  "layers_shape prev [] out \<longleftrightarrow> out = prev"
| "layers_shape prev (l # ls) out \<longleftrightarrow>
     (let h = length (lin_b (fc l)) in
       linear_shape prev h (fc l) \<and> length (ln_gamma l) = h \<and> length (ln_beta l) = h \<and> layers_shape h ls out)"

definition net_shape :: "('f \<times> nat) list \<Rightarrow> ('f \<Rightarrow> nat option) \<Rightarrow> nat \<Rightarrow> nat \<Rightarrow> nat \<Rightarrow> nat \<Rightarrow> 'a network_scheme \<Rightarrow> bool" where
  "net_shape vs dims tv td nc n_out n \<longleftrightarrow>
     emb_shape vs dims tv td (net_emb n) \<and>
     layers_shape (emb_out_dim (net_emb n) + nc) (bb_layers (net_backbone n)) (bb_out_dim (net_backbone n)) \<and>
     linear_shape (bb_out_dim (net_backbone n)) n_out (net_head n)"

definition input_fits :: "('f \<times> nat) list \<Rightarrow> nat \<Rightarrow> nat \<Rightarrow> nat list \<Rightarrow> real list \<Rightarrow> nat list \<Rightarrow> bool" where
  "input_fits vs tv nc cat cont tags \<longleftrightarrow>
     list_all2 (\<lambda>(name, sz) c. c < sz) vs cat \<and> length cont = nc \<and> list_all (\<lambda>t. t < tv) tags"

lemma build_embs_shape:
  assumes "\<forall>r c. matrix r c (init r c)" and "\<forall>(name, sz) \<in> set vs. dims name \<noteq> None"
  shows "\<exists>ts'. build_embs init vs dims ts od = Inr (ts @ ts', od + sum_list (map (\<lambda>(name, sz). the (dims name)) vs)) \<and>
    list_all2 (\<lambda>(name, sz) t. matrix sz (the (dims name)) t) vs ts'"
  using assms(2)
proof (induction vs arbitrary: ts od)
  case (Cons p vs)
  obtain name sz where p: "p = (name, sz)" by (cases p)
  obtain d where d: "dims name = Some d" using Cons.prems by (auto simp: p)
  obtain ts' where "build_embs init vs dims (ts @ [init sz d]) (od + d) =
      Inr ((ts @ [init sz d]) @ ts', od + d + sum_list (map (\<lambda>(name, sz). the (dims name)) vs))"
    "list_all2 (\<lambda>(name, sz) t. matrix sz (the (dims name)) t) vs ts'"
    using Cons.IH [of "ts @ [init sz d]" "od + d"] Cons.prems by auto
  then show ?case using assms(1) by (intro exI [of _ "init sz d # ts'"]) (simp add: p d)
qed simp

lemma length_concat_singletons: "list_all (\<lambda>row. length row = Suc 0) m \<Longrightarrow> length (concat m) = length m"
  by (induction m) auto

lemma init_linear_shape: "\<forall>r c. matrix r c (init r c) \<Longrightarrow> linear_shape a b (init_linear init a b)"
  by (simp add: linear_shape_def init_linear_def matrix_def length_concat_singletons del: length_concat)

lemma build_layers_shape:
  assumes "\<forall>r c. matrix r c (init r c)"
  shows "\<exists>ls. build_layers init prev hidden layers = \<lparr>bb_layers = layers @ ls, bb_out_dim = last (prev # hidden)\<rparr> \<and>
    layers_shape prev ls (last (prev # hidden))"
proof (induction hidden arbitrary: prev layers)
  case (Cons h hidden)
  let ?l = "\<lparr>fc = init_linear init prev h, ln_gamma = replicate h 1, ln_beta = replicate h 0\<rparr>"
  obtain ls where "build_layers init h hidden (layers @ [?l]) =
      \<lparr>bb_layers = (layers @ [?l]) @ ls, bb_out_dim = last (h # hidden)\<rparr>" "layers_shape h ls (last (h # hidden))"
    using Cons.IH by blast
  then show ?case
    using init_linear_shape [OF assms, of prev h]
    by (intro exI [of _ "?l # ls"]) (auto simp: Let_def linear_shape_def)
qed simp

lemma build_network_shape:
  assumes "\<forall>r c. matrix r c (init r c)" and "\<forall>(name, sz) \<in> set vs. dims name \<noteq> None" and "0 < tv"
  shows "\<exists>n. build_network init vs dims tv td nc hidden n_out = Inr n \<and> net_shape vs dims tv td nc n_out n"
proof -
  obtain ts where ts: "build_embs init vs dims [] 0 = Inr (ts, sum_list (map (\<lambda>(name, sz). the (dims name)) vs))"
    "list_all2 (\<lambda>(name, sz) t. matrix sz (the (dims name)) t) vs ts"
    using build_embs_shape [OF assms(1,2), of "[]" 0] by auto
  let ?e = "\<lparr>embs = ts, tag_emb = replicate td 0 # tl (init tv td), tag_dim = td,
      emb_out_dim = sum_list (map (\<lambda>(name, sz). the (dims name)) vs) + td\<rparr>"
  have "matrix tv td (init tv td)" using assms(1) by blast
  then have tag: "matrix tv td (tag_emb ?e)"
    using assms(3) by (cases "init tv td") (auto simp: matrix_def)
  obtain ls where ls: "MLPBackbone init (emb_out_dim ?e + nc) hidden =
      \<lparr>bb_layers = ls, bb_out_dim = last ((emb_out_dim ?e + nc) # hidden)\<rparr>"
    "layers_shape (emb_out_dim ?e + nc) ls (last ((emb_out_dim ?e + nc) # hidden))"
    using build_layers_shape [OF assms(1), of "emb_out_dim ?e + nc" hidden "[]"] by (auto simp: MLPBackbone_def)
  have "CategoricalEmbeddings init vs dims tv td = Inr ?e"
    using assms(3) by (simp add: CategoricalEmbeddings_def ts)
  then show ?thesis
    using ls ts(2) tag assms(3) init_linear_shape [OF assms(1)]
    by (simp add: build_network_def Let_def net_shape_def emb_shape_def)
qed

section \<open>Forward passes of fitting inputs succeed\<close>

lemma emb_parts_ok:
  assumes "list_all2 (\<lambda>(name, sz) t. matrix sz (the (dims name)) t) vs es" and "list_all2 (\<lambda>(name, sz) c. c < sz) vs cat"
  shows "\<exists>ps. emb_parts es cat = Inr ps \<and> length (concat ps) = sum_list (map (\<lambda>(name, sz). the (dims name)) vs)"
  using assms
proof (induction vs es arbitrary: cat rule: list_all2_induct)
  case (Cons v vs e es)
  obtain name sz where v: "v = (name, sz)" by (cases v)
  obtain c cs where c: "cat = c # cs" "c < sz" "list_all2 (\<lambda>(name, sz) c. c < sz) vs cs"
    using Cons.prems by (cases cat) (auto simp: v)
  obtain ps where "emb_parts es cs = Inr ps" "length (concat ps) = sum_list (map (\<lambda>(name, sz). the (dims name)) vs)"
    using Cons.IH c(3) by blast
  then show ?case
    using c Cons.hyps(1) by (auto simp: v emb_lookup_def matrix_def list_all_iff)
qed simp

lemma tag_bag_ok:
  assumes "list_all (\<lambda>t. t < length table) tags"
  shows "tag_bag width table tags =
    Inr (map (\<lambda>d. sum_list (map (\<lambda>t. table ! t ! d) (filter (\<lambda>t. t \<noteq> 0) tags)) / max 1 (real (length (filter (\<lambda>t. t \<noteq> 0) tags)))) [0..<width])"
proof -
  have l: "res_map (emb_lookup table) tags = Inr (map ((!) table) tags)"
    using assms by (intro res_map_total) (auto simp: emb_lookup_def list_all_iff)
  have m: "sum_list (map (\<lambda>t. if t \<noteq> 0 then 1 else 0 :: real) tags) = real (length (filter (\<lambda>t. t \<noteq> 0) tags))"
    by (induction tags) auto
  have s: "sum_list (map2 (\<lambda>v m. v ! d * m) (map ((!) table) tags) (map (\<lambda>t. if t \<noteq> 0 then 1 else 0 :: real) tags))
      = sum_list (map (\<lambda>t. table ! t ! d) (filter (\<lambda>t. t \<noteq> 0) tags))" for d
    by (induction tags) auto
  show ?thesis by (simp only: tag_bag_def l res_bind.simps Let_def m s)
qed

lemma emb_forward_ok:
  assumes "emb_shape vs dims tv td e" and "input_fits vs tv nc cat cont tags"
  shows "\<exists>v. emb_forward e cat tags = Inr v \<and> length v = emb_out_dim e"
proof -
  obtain ps where ps: "emb_parts (embs e) cat = Inr ps" "length (concat ps) = sum_list (map (\<lambda>(name, sz). the (dims name)) vs)"
    using emb_parts_ok assms unfolding emb_shape_def input_fits_def by blast
  have "list_all (\<lambda>t. t < length (tag_emb e)) tags"
    using assms by (simp add: emb_shape_def input_fits_def matrix_def)
  then show ?thesis
    using ps assms(1) by (simp add: emb_forward_def tag_bag_ok emb_shape_def del: length_concat)
qed

lemma linear_fwd_ok: "linear_shape a b l \<Longrightarrow> length x = a \<Longrightarrow> \<exists>y. linear_fwd l x = Inr y \<and> length y = b"
  by (auto simp: linear_shape_def linear_fwd_def matrix_def)

lemma layers_fwd_ok:
  "layers_shape a ls out \<Longrightarrow> length x = a \<Longrightarrow> \<exists>y. layers_fwd erf ls x = Inr y \<and> length y = out"
proof (induction ls arbitrary: a x)
  case (Cons l ls)
  let ?h = "length (lin_b (fc l))"
  have s: "linear_shape a ?h (fc l)" "length (ln_gamma l) = ?h" "length (ln_beta l) = ?h" "layers_shape ?h ls out"
    using Cons.prems(1) by (simp_all add: Let_def)
  obtain y where y: "linear_fwd (fc l) x = Inr y" "length y = ?h"
    using linear_fwd_ok [OF s(1) Cons.prems(2)] by blast
  have "layer_fwd erf l x = Inr (map (gelu erf) (layer_norm (ln_gamma l) (ln_beta l) y))"
    by (simp add: layer_fwd_def y)
  moreover have "length (map (gelu erf) (layer_norm (ln_gamma l) (ln_beta l) y)) = ?h"
    using s y by (simp add: layer_norm_def Let_def)
  ultimately show ?case using Cons.IH [OF s(4)] by auto
qed simp

lemma head_fwd_ok:
  assumes "net_shape vs dims tv td nc n_out n" and "input_fits vs tv nc cat cont tags"
  shows "\<exists>h out. hidden_fwd erf n cat cont tags = Inr h \<and> linear_fwd (net_head n) h = Inr out \<and> length out = n_out"
proof -
  obtain v where v: "emb_forward (net_emb n) cat tags = Inr v" "length v = emb_out_dim (net_emb n)"
    using emb_forward_ok assms unfolding net_shape_def by blast
  have "length (v @ cont) = emb_out_dim (net_emb n) + nc"
    using v assms(2) by (simp add: input_fits_def)
  then obtain h where h: "layers_fwd erf (bb_layers (net_backbone n)) (v @ cont) = Inr h"
    "length h = bb_out_dim (net_backbone n)"
    using layers_fwd_ok assms(1) unfolding net_shape_def by blast
  then obtain out where "linear_fwd (net_head n) h = Inr out" "length out = n_out"
    using linear_fwd_ok assms(1) unfolding net_shape_def by blast
  then show ?thesis using v h by (auto simp: hidden_fwd_def)
qed

lemma softplus_pos: "0 < softplus x"
  by (simp add: softplus_def add_pos_pos)

section \<open>Properties\<close>

definition demo_init :: "nat \<Rightarrow> nat \<Rightarrow> real list list" where
  "demo_init r c = replicate r (replicate c 1)"

lemma demo_init_matrix: "\<forall>r c. matrix r c (demo_init r c)"
  by (simp add: matrix_def demo_init_def list_all_iff)

text \<open>
  A mixture network of consistent shapes and \<open>K\<close> components maps every input whose indices lie in
  its tables to a proper mixture row: \<open>K\<close> weights, means and deviations, each deviation above
  \<open>sigma_floor\<close>. Neither lookup nor layer can fail.
\<close>

theorem mdn_forward_wf:
  assumes "net_shape vs dims tv td nc (3 * net_K n) n" and "input_fits vs tv nc cat cont tags"
    and "0 < net_K n" and "0 \<le> net_sigma_floor n"
  shows "\<exists>r. mdn_forward erf n cat cont tags = Inr r \<and> mdn_wf r \<and> length (pi_logits r) = net_K n \<and>
    (\<forall>s \<in> set (sigma r). net_sigma_floor n < s)"
proof -
  obtain h out where h: "hidden_fwd erf n cat cont tags = Inr h" "linear_fwd (net_head n) h = Inr out"
    "length out = 3 * net_K n"
    using head_fwd_ok [OF assms(1,2)] by blast
  let ?r = "split_head (net_K n) (net_sigma_floor n) out"
  have s: "\<forall>s \<in> set (sigma ?r). net_sigma_floor n < s"
    using softplus_pos by (auto simp: split_head_def)
  then have "\<forall>s \<in> set (sigma ?r). 0 < s" using assms(4) by force
  moreover have "length (pi_logits ?r) = net_K n" "length (mu ?r) = net_K n" "length (sigma ?r) = net_K n"
    using h(3) by (simp_all add: split_head_def slice_def)
  ultimately have "mdn_wf ?r" using assms(3) by (auto simp: mdn_wf_def)
  then show ?thesis using h s by (auto simp: mdn_forward_def split_head_def slice_def)
qed

theorem mdn_forward_wf_witness:
  "\<exists>n. MDN demo_init [(City, 3), (Domain, 2)] (\<lambda>_. Some 2) 5 2 9 [4] 2 (1/20) = Inr n \<and>
    (\<exists>r. mdn_forward (\<lambda>_. 0) n [2, 0] (replicate 9 1) [3, 0] = Inr r \<and> mdn_wf r \<and> length (pi_logits r) = net_K n \<and>
      (\<forall>s \<in> set (sigma r). net_sigma_floor n < s))"
proof -
  obtain n0 where n0: "build_network demo_init [(City, 3), (Domain, 2)] (\<lambda>_. Some 2) 5 2 9 [4] (3 * 2) = Inr n0"
    "net_shape [(City, 3), (Domain, 2)] (\<lambda>_. Some 2) 5 2 9 (3 * 2) n0"
    using build_network_shape [OF demo_init_matrix, of "[(City, 3), (Domain, 2)]" "\<lambda>_. Some 2" 5] by fastforce
  let ?n = "network.extend n0 (mdn_net.fields 2 (1/20))"
  have "net_shape [(City, 3), (Domain, 2)] (\<lambda>_. Some 2) 5 2 9 (3 * net_K ?n) ?n"
    using n0(2) by (simp add: net_shape_def network.defs mdn_net.defs)
  moreover have "input_fits [(City, 3), (Domain, 2)] 5 9 [2, 0] (replicate 9 1) [3, 0]"
    by (simp add: input_fits_def)
  moreover have "0 < net_K ?n" "0 \<le> net_sigma_floor ?n" by (simp_all add: network.defs mdn_net.defs)
  ultimately have "\<exists>r. mdn_forward (\<lambda>_. 0) ?n [2, 0] (replicate 9 1) [3, 0] = Inr r \<and> mdn_wf r \<and>
      length (pi_logits r) = net_K ?n \<and> (\<forall>s \<in> set (sigma r). net_sigma_floor ?n < s)"
    by (rule mdn_forward_wf)
  then show ?thesis by (simp add: MDN_def n0(1) [simplified])
qed

text \<open>
  The tag features of a row enter the network only through the multiset of its nonzero tags:
  padding with zeros, dropping zeros and reordering change nothing.
\<close>

theorem tag_padding_irrelevant:
  assumes "list_all (\<lambda>t. t < length (tag_emb e)) tags" and "list_all (\<lambda>t. t < length (tag_emb e)) tags'"
    and "mset (filter (\<lambda>t. t \<noteq> 0) tags) = mset (filter (\<lambda>t. t \<noteq> 0) tags')"
  shows "emb_forward e cat tags = emb_forward e cat tags'"
proof -
  let ?f = "filter (\<lambda>t. t \<noteq> 0)"
  have "sum_list (map g (?f tags)) = sum_list (map g (?f tags'))" for g :: "nat \<Rightarrow> real"
  proof -
    have "mset (map g (?f tags)) = mset (map g (?f tags'))" unfolding mset_map assms(3) ..
    then show ?thesis by (simp only: sum_mset_sum_list [symmetric])
  qed
  moreover have "length (?f tags) = length (?f tags')"
    using assms(3) by (rule mset_eq_length)
  ultimately show ?thesis
    by (simp only: emb_forward_def tag_bag_ok [OF assms(1)] tag_bag_ok [OF assms(2)])
qed

theorem tag_padding_irrelevant_witness:
  "\<exists>e. CategoricalEmbeddings demo_init [(City, 3)] (\<lambda>_. Some 2) 5 2 = Inr e \<and>
    emb_forward e [1] [3, 4, 0] = emb_forward e [1] [4, 3]"
proof -
  let ?e = "\<lparr>embs = [demo_init 3 2], tag_emb = replicate 2 0 # tl (demo_init 5 2), tag_dim = 2, emb_out_dim = 4\<rparr>"
  have "emb_forward ?e [1] [3, 4, 0] = emb_forward ?e [1] [4, 3]"
    by (rule tag_padding_irrelevant) (simp_all add: demo_init_def)
  moreover have "CategoricalEmbeddings demo_init [(City, 3)] (\<lambda>_. Some 2) 5 2 = Inr ?e"
    by (simp add: CategoricalEmbeddings_def)
  ultimately show ?thesis by blast
qed

text \<open>
  A bins network of consistent shapes exports, for every input that fits its tables, one positive
  probability per price bin, summing to one; its cumulative sums are a distribution function.
\<close>

theorem bins_export_dist:
  assumes "net_shape vs dims tv td nc num_bins n" and "input_fits vs tv nc cat cont tags" and "0 < num_bins"
  shows "\<exists>p. bins_export erf n cat cont tags = Inr p \<and> length p = num_bins \<and> sum_list p = 1 \<and> (\<forall>x \<in> set p. 0 < x) \<and>
    (\<forall>i < num_bins. 0 \<le> cumsum p ! i \<and> cumsum p ! i \<le> 1) \<and> cumsum p ! (num_bins - 1) = 1"
proof -
  obtain h out where h: "hidden_fwd erf n cat cont tags = Inr h" "linear_fwd (net_head n) h = Inr out"
    "length out = num_bins"
    using head_fwd_ok [OF assms(1,2)] by blast
  then have ne: "out \<noteq> []" using assms(3) by auto
  show ?thesis
    using h sum_softmax [OF ne] softmax_pos [of _ out] softmax_dist.cdf_bounds [OF ne] softmax_dist.cdf_last [OF ne]
    by (auto simp: bins_export_def bins_forward_def)
qed

theorem bins_export_dist_witness:
  "\<exists>n. DiscreteBins demo_init [(City, 3)] (\<lambda>_. Some 2) 5 2 9 [4, 4] 3 = Inr n \<and>
    (\<exists>p. bins_export (\<lambda>_. 0) n [2] (replicate 9 1) [3] = Inr p \<and> length p = 3 \<and> sum_list p = 1 \<and> (\<forall>x \<in> set p. 0 < x) \<and>
      (\<forall>i < 3. 0 \<le> cumsum p ! i \<and> cumsum p ! i \<le> 1) \<and> cumsum p ! (3 - 1) = 1)"
proof -
  obtain n where n: "build_network demo_init [(City, 3)] (\<lambda>_. Some 2) 5 2 9 [4, 4] 3 = Inr n"
    "net_shape [(City, 3)] (\<lambda>_. Some 2) 5 2 9 3 n"
    using build_network_shape [OF demo_init_matrix, of "[(City, 3)]" "\<lambda>_. Some 2" 5] by fastforce
  have "input_fits [(City, 3)] 5 9 [2] (replicate 9 1) [3]" by (simp add: input_fits_def)
  then show ?thesis
    using bins_export_dist [OF n(2), of "[2]" "replicate 9 1" "[3]" "\<lambda>_. 0"] n(1) by (simp add: DiscreteBins_def)
qed

section \<open>From the preprocessing to the network\<close>

lemma build_vocab_sizes_eq:
  assumes "distinct feats" and "\<forall>f \<in> set feats. encoders f \<noteq> None" and "fst ` set vs \<inter> set feats = {}"
  shows "build_vocab_sizes feats encoders vs = Inr (vs @ map (\<lambda>f. (f, length (the (encoders f)) + 1)) feats)"
  using assms
proof (induction feats arbitrary: vs)
  case (Cons f feats)
  obtain voc where voc: "encoders f = Some voc" using Cons.prems by auto
  have "f \<notin> fst ` set vs" using Cons.prems by auto
  then show ?case
    using Cons.prems Cons.IH [of "vs @ [(f, length voc + 1)]"] by (simp add: voc update_fresh)
qed simp

text \<open>
  The vocabulary sizes \<open>build_vocab_sizes\<close> derives from the artifacts fit the rows the
  preprocessing writes: every encoded row, packed by the dataset, is a fitting input of a network with
  these sizes, a tag table of the size of the tag vocabulary and nine continuous inputs. The last row
  of every categorical table is never looked up.
\<close>

theorem encoded_rows_fit:
  assumes "distinct cats" and "xs \<noteq> []" and "art_of cats clip_min xs = Inr art" and "PAD \<notin> set (row_tags xs)"
  shows "\<exists>vs. build_vocab_sizes (art_cats art) (art_encoders art) [] = Inr vs \<and>
    (let out = encode_row art r; tags = pad_tags (o_tag_indices out) in
      input_fits vs (length (art_tag_vocab art)) 9 (o_cat out) (pack_cont out) tags \<and>
      list_all2 (\<lambda>(feat, sz) c. c < sz - 1) vs (o_cat out))"
proof -
  have n: "int (length xs) \<noteq> 0" using assms(2) by simp
  note d = assms(3) [unfolded art_of_def fit_artifacts_def if_not_P [OF n] Let_def, simplified, symmetric]
  have cats: "art_cats art = cats" by (rule art_of_vocs [OF assms(1-3)])
  have enc: "\<forall>f \<in> set cats. art_encoders art f \<noteq> None" by (simp add: d)
  let ?vs = "map (\<lambda>f. (f, length (the (art_encoders art f)) + 1)) cats"
  have vs: "build_vocab_sizes (art_cats art) (art_encoders art) [] = Inr ?vs"
    using build_vocab_sizes_eq [OF assms(1) enc, of "[]"] by (simp add: cats)
  have ok: "row_codes_ok art (encode_row art r)" using features_codes [OF assms] by blast
  have "the (art_encoders art f) = art_voc art f" if "f \<in> set cats" for f
    using enc that by (auto simp: art_voc_def)
  then have c: "list_all2 (\<lambda>(feat, sz) c. c < sz - 1) ?vs (o_cat (encode_row art r))"
    using ok by (auto simp: row_codes_ok_def cats list_all2_conv_all_nth)
  then have "list_all2 (\<lambda>(feat, sz) c. c < sz) ?vs (o_cat (encode_row art r))"
    by (auto elim!: list_all2_mono)
  moreover have "list_all (\<lambda>t. t < length (art_tag_vocab art)) (pad_tags (o_tag_indices (encode_row art r)))"
    using ok by (simp add: row_codes_ok_def pad_tags_eq)
  moreover have "length (pack_cont (encode_row art r)) = 9" by (simp add: pack_cont_def)
  ultimately show ?thesis using vs c by (simp add: Let_def input_fits_def)
qed

theorem encoded_rows_fit_witness:
  "\<exists>art vs. art_of [City, Domain] (\<lambda>_. None) [demo_row 1 ''a'' 20, demo_row 2 ''a'' 70] = Inr art \<and>
    build_vocab_sizes (art_cats art) (art_encoders art) [] = Inr vs \<and>
    (let out = encode_row art (demo_row 2 ''z'' 1); tags = pad_tags (o_tag_indices out) in
      input_fits vs (length (art_tag_vocab art)) 9 (o_cat out) (pack_cont out) tags \<and>
      list_all2 (\<lambda>(feat, sz) c. c < sz - 1) vs (o_cat out))"
proof -
  let ?xs = "[demo_row 1 ''a'' 20, demo_row 2 ''a'' 70]"
  obtain art where art: "art_of [City, Domain] (\<lambda>_. None) ?xs = Inr art"
    using art_of_ok [of ?xs "[City, Domain]" "\<lambda>_. None"] by auto
  moreover have "PAD \<notin> set (row_tags ?xs)"
    by (simp add: row_tags_def tag_tokens_def no_tags_def demo_row_def PAD_def)
  ultimately show ?thesis
    using encoded_rows_fit [of "[City, Domain]" ?xs "\<lambda>_. None" art "demo_row 2 ''z'' 1"] by auto
qed

end
