(* ===== verification/Outcome.thy ===== *)
theory Outcome
  imports Model
begin

text \<open>
  The outcome records of the feedback loop. \<open>rtb-bid-model/src/export_onnx.py\<close> writes the feature
  configuration of a trained model; \<open>retrainer/retrain.py\<close> reads it, reads the window of the most recent
  outcome records and encodes them into training rows. The parser \<open>json.loads\<close> of one line, \<open>str\<close> of a
  value that is neither a string nor an integer (\<open>repr\<close>), and \<open>float\<close> of a string (\<open>to_float\<close>) are
  parameters.
\<close>

section \<open>JSON values\<close>

datatype json =
    JNull | JBool bool | JInt int | JFloat real | JStr string | JList "json list" | JObj "(string \<times> json) list"

text \<open>\<open>rec[k]\<close>: only a dictionary has string subscripts.\<close>

definition dict_get :: "(string \<times> 'v) list \<Rightarrow> string \<Rightarrow> 'v res" where
  "dict_get m k = (case map_of m k of None \<Rightarrow> Inl KeyError | Some v \<Rightarrow> Inr v)"

fun rec_get :: "json \<Rightarrow> string \<Rightarrow> json res" where
  "rec_get (JObj m) k = dict_get m k"
| "rec_get _ k = Inl TypeError"

fun py_str :: "(json \<Rightarrow> string) \<Rightarrow> json \<Rightarrow> string" where
  "py_str repr (JStr s) = s"
| "py_str repr (JInt i) = str_int i"
| "py_str repr JNull = ''None''"
| "py_str repr (JBool b) = (if b then ''True'' else ''False'')"
| "py_str repr v = repr v"

fun to_int :: "json \<Rightarrow> int res" where
  "to_int (JInt i) = Inr i"
| "to_int (JBool b) = Inr (if b then 1 else 0)"
| "to_int (JFloat x) = Inr (trunc_int x)"
| "to_int (JStr s) = py_int s"
| "to_int _ = Inl TypeError"

fun to_real :: "(string \<Rightarrow> real option) \<Rightarrow> json \<Rightarrow> real res" where
  "to_real to_float (JInt i) = Inr (real_of_int i)"
| "to_real to_float (JBool b) = Inr (b2r b)"
| "to_real to_float (JFloat x) = Inr x"
| "to_real to_float (JStr s) = (case to_float s of None \<Rightarrow> Inl ValueError | Some x \<Rightarrow> Inr x)"
| "to_real to_float _ = Inl TypeError"

fun truthy :: "json \<Rightarrow> bool" where
  "truthy JNull = False"
| "truthy (JBool b) = b"
| "truthy (JInt i) = (i \<noteq> 0)"
| "truthy (JFloat x) = (x \<noteq> 0)"
| "truthy (JStr s) = (s \<noteq> [])"
| "truthy (JList xs) = (xs \<noteq> [])"
| "truthy (JObj m) = (m \<noteq> [])"

text \<open>The elements a value iterates over: characters of a string, keys of a dictionary.\<close>

fun py_iter :: "json \<Rightarrow> json list res" where
  "py_iter (JStr s) = Inr (map (\<lambda>c. JStr [c]) s)"
| "py_iter (JList xs) = Inr xs"
| "py_iter (JObj m) = Inr (map (\<lambda>(k, v). JStr k) m)"
| "py_iter _ = Inl TypeError"

section \<open>The feature configuration\<close>

record feature_cfg =
  cfg_cat_order :: "string list"
  cfg_cat_vocabs :: "(string \<times> (string \<times> nat) list) list"
  cfg_tag_vocab :: "(string \<times> nat) list"
  cfg_cont_cols_order :: "string list"
  cfg_cont_means :: "(string \<times> real) list"
  cfg_cont_stds :: "(string \<times> real) list"
  cfg_tag_max_len :: nat
  cfg_tag_pad_idx :: nat
  cfg_num_bins :: nat
  cfg_embedding_dims :: "(string \<times> nat) list"
  cfg_tag_emb_dim :: nat

fun feat_name :: "cat_feat \<Rightarrow> string" where
  "feat_name Region = ''region''"
| "feat_name City = ''city''"
| "feat_name Domain = ''domain''"
| "feat_name AdExchange = ''ad_exchange''"
| "feat_name SlotWidth = ''slot_width''"
| "feat_name SlotHeight = ''slot_height''"
| "feat_name SlotVisibility = ''slot_visibility''"
| "feat_name SlotFormat = ''slot_format''"
| "feat_name AdvertiserId = ''advertiser_id''"

text \<open>A dictionary written as JSON and read back: integer keys have become strings.\<close>

fun json_key :: "key \<Rightarrow> string" where
  "json_key (KStr s) = s"
| "json_key (KInt i) = str_int i"

definition json_dict :: "vocab \<Rightarrow> (string \<times> nat) list" where
  "json_dict voc = foldl (\<lambda>m (k, v). AList.update (json_key k) v m) [] voc"

fun export_vocabs :: "artifacts \<Rightarrow> cat_feat list \<Rightarrow> (string \<times> (string \<times> nat) list) list
    \<Rightarrow> (string \<times> (string \<times> nat) list) list res" where
  "export_vocabs art [] vs = Inr vs"
| "export_vocabs art (feat # feats) vs =
     (case art_encoders art feat of
        None \<Rightarrow> Inl KeyError
      | Some voc \<Rightarrow> export_vocabs art feats (AList.update (feat_name feat) (json_dict voc) vs))"

definition export_feature_config :: "artifacts \<Rightarrow> nat \<Rightarrow> (string \<times> nat) list \<Rightarrow> nat \<Rightarrow> feature_cfg res" where
  "export_feature_config art num_bins emb_dims tag_emb_dim =
     res_bind (export_vocabs art (art_cats art) []) (\<lambda>vocabs. Inr
       \<lparr>cfg_cat_order = map feat_name (art_cats art), cfg_cat_vocabs = vocabs,
        cfg_tag_vocab = json_dict (art_tag_vocab art),
        cfg_cont_cols_order = [''log_floor_price'', ''slot_area'', ''tag_count'', ''has_floor_price'',
          ''is_weekend'', ''hour_sin'', ''hour_cos'', ''weekday_sin'', ''weekday_cos''],
        cfg_cont_means = [(''log_floor_price'', mean_lf art), (''slot_area'', mean_sa art), (''tag_count'', mean_tc art)],
        cfg_cont_stds = [(''log_floor_price'', std_lf art), (''slot_area'', std_sa art), (''tag_count'', std_tc art)],
        cfg_tag_max_len = 10, cfg_tag_pad_idx = 0, cfg_num_bins = num_bins,
        cfg_embedding_dims = emb_dims, cfg_tag_emb_dim = tag_emb_dim\<rparr>)"

section \<open>Encoding one record\<close>

definition str_get :: "(string \<times> nat) list \<Rightarrow> string \<Rightarrow> nat" where
  "str_get vocab k = (case map_of vocab k of None \<Rightarrow> 0 | Some i \<Rightarrow> i)"

definition cat_code :: "(json \<Rightarrow> string) \<Rightarrow> feature_cfg \<Rightarrow> json \<Rightarrow> string \<Rightarrow> nat res" where
  "cat_code repr cfg rec feat =
     res_bind (dict_get (cfg_cat_vocabs cfg) feat) (\<lambda>vocab.
     res_bind (rec_get rec feat) (\<lambda>v.
     res_bind (if feat = ''domain'' \<or> feat = ''advertiser_id'' then Inr (py_str repr v)
               else res_bind (to_int v) (\<lambda>i. Inr (str_int i))) (\<lambda>key.
       Inr (str_get vocab key))))"

text \<open>Division of floats raises on a zero divisor.\<close>

definition float_div :: "real \<Rightarrow> real \<Rightarrow> real res" where
  "float_div x y = (if y = 0 then Inl ZeroDivisionError else Inr (x / y))"

definition scale :: "feature_cfg \<Rightarrow> string \<Rightarrow> real \<Rightarrow> real res" where
  "scale cfg name x =
     res_bind (dict_get (cfg_cont_means cfg) name) (\<lambda>m.
     res_bind (dict_get (cfg_cont_stds cfg) name) (\<lambda>s. float_div (x - m) s))"

fun record_tag_loop :: "(json \<Rightarrow> string) \<Rightarrow> (string \<times> nat) list \<Rightarrow> nat \<Rightarrow> json list \<Rightarrow> nat \<Rightarrow> nat list \<Rightarrow> nat list" where
  "record_tag_loop repr vocab max_len [] j tag_ids = tag_ids"
| "record_tag_loop repr vocab max_len (t # ts) j tag_ids =
     (if max_len \<le> j then tag_ids
      else let tid = str_get vocab (py_str repr t)
           in if tid = 0 then record_tag_loop repr vocab max_len ts j tag_ids
              else record_tag_loop repr vocab max_len ts (j + 1) (tag_ids[j := tid]))"

definition user_tags_of :: "json \<Rightarrow> json" where
  "user_tags_of rec =
     (case rec_get rec ''user_tags'' of Inl _ \<Rightarrow> JList [] | Inr v \<Rightarrow> if truthy v then v else JList [])"

definition encode_record ::
  "(json \<Rightarrow> string) \<Rightarrow> (string \<Rightarrow> real option) \<Rightarrow> json \<Rightarrow> feature_cfg \<Rightarrow> (nat list \<times> real list \<times> nat list) res" where
  "encode_record repr to_float rec cfg =
     res_bind (res_map (cat_code repr cfg rec) (cfg_cat_order cfg)) (\<lambda>cat.
     res_bind (res_bind (rec_get rec ''slot_floor_price'') (to_real to_float)) (\<lambda>price.
     let log_floor = ln (1 + max 0 price) in
     res_bind (res_bind (rec_get rec ''slot_width'') (to_real to_float)) (\<lambda>width.
     res_bind (res_bind (rec_get rec ''slot_height'') (to_real to_float)) (\<lambda>height.
     let slot_area = width * height in
     res_bind (py_iter (user_tags_of rec)) (\<lambda>tags_list.
     let tag_count = real (length tags_list) in
     res_bind (scale cfg ''log_floor_price'' log_floor) (\<lambda>lf.
     res_bind (scale cfg ''slot_area'' slot_area) (\<lambda>sa.
     res_bind (scale cfg ''tag_count'' tag_count) (\<lambda>tc.
     res_bind (res_bind (rec_get rec ''timestamp'') to_int) (\<lambda>ts.
     let hour = (ts mod 1000000) div 10000; h = real_of_int hour in
     res_bind (weekday_monday0 ts) (\<lambda>wd.
     let w = real_of_int wd;
         cont = [lf, sa, tc, b2r (0 < price), b2r (5 \<le> wd),
                 sin (2 * pi * h / 24), cos (2 * pi * h / 24), sin (2 * pi * w / 7), cos (2 * pi * w / 7)];
         ml = cfg_tag_max_len cfg;
         tag_ids = record_tag_loop repr (cfg_tag_vocab cfg) ml tags_list 0 (replicate ml 0)
     in Inr (cat, cont, tag_ids)))))))))))"

section \<open>The window of recent records\<close>

text \<open>\<open>json.loads\<close> of a stripped line; every exception drops the line.\<close>

fun parse_lines :: "(string \<Rightarrow> json option) \<Rightarrow> string list \<Rightarrow> json list \<Rightarrow> json list" where
  "parse_lines loads [] rows = rows"
| "parse_lines loads (line # lines) rows =
     (let line = strip line in
      if line = [] then parse_lines loads lines rows
      else case loads line of
             None \<Rightarrow> parse_lines loads lines rows
           | Some rec \<Rightarrow> parse_lines loads lines (rows @ [rec]))"

text \<open>\<open>xs[-w:]\<close>: a negative start counts from the end and stops at the front, \<open>-0\<close> is the front.\<close>

definition py_from :: "int \<Rightarrow> 'a list \<Rightarrow> 'a list" where
  "py_from i xs = (if i < 0 then drop (nat (max 0 (int (length xs) + i))) xs else drop (nat i) xs)"

text \<open>
  The file as the process finds it: \<open>Inr None\<close> is a log that does not exist, an error is one of opening
  or decoding it, which nothing here catches.
\<close>

definition read_window :: "(string \<Rightarrow> json option) \<Rightarrow> string list option res \<Rightarrow> int \<Rightarrow> json list res" where
  "read_window loads outcome_log window =
     res_bind outcome_log (\<lambda>outcomes.
       case outcomes of
         None \<Rightarrow> Inr []
       | Some lines \<Rightarrow>
           (let rows = parse_lines loads lines []
            in Inr (if window < int (length rows) then py_from (- window) rows else rows)))"

section \<open>The tensors of a window\<close>

text \<open>\<open>round(x)\<close> rounds to the nearest integer, ties to the even one.\<close>

definition round_even :: "real \<Rightarrow> int" where
  "round_even x =
     (let f = \<lfloor>x\<rfloor>; r = x - real_of_int f
      in if r < 1/2 then f else if 1/2 < r then f + 1 else if even f then f else f + 1)"

definition price_label :: "nat \<Rightarrow> real \<Rightarrow> int" where
  "price_label num_bins price =
     (let cp = round_even price; cp = (if cp < 0 then 0 else cp)
      in if int num_bins - 1 < cp then int num_bins - 1 else cp)"

record train_row =
  tr_cat :: "nat list"
  tr_cont :: "real list"
  tr_tags :: "nat list"
  tr_label :: int

definition build_row ::
  "(json \<Rightarrow> string) \<Rightarrow> (string \<Rightarrow> real option) \<Rightarrow> feature_cfg \<Rightarrow> nat \<Rightarrow> json \<Rightarrow> train_row res" where
  "build_row repr to_float cfg num_bins rec =
     res_bind (encode_record repr to_float rec cfg) (\<lambda>(cat, cont, tags).
     res_bind (res_bind (rec_get rec ''clearing_price'') (to_real to_float)) (\<lambda>price.
       Inr \<lparr>tr_cat = cat, tr_cont = cont, tr_tags = tags, tr_label = price_label num_bins price\<rparr>))"

definition build_tensors ::
  "(json \<Rightarrow> string) \<Rightarrow> (string \<Rightarrow> real option) \<Rightarrow> json list \<Rightarrow> feature_cfg \<Rightarrow> nat \<Rightarrow> train_row list res" where
  "build_tensors repr to_float rows cfg num_bins = res_map (build_row repr to_float cfg num_bins) rows"

section \<open>Lookups in the exported vocabularies\<close>

lemma json_foldl_get:
  assumes "distinct (map fst voc)" and "\<And>k'. k' \<in> fst ` set voc \<Longrightarrow> json_key k' = json_key k \<Longrightarrow> k' = k"
  shows "map_of (foldl (\<lambda>m (k, v). AList.update (json_key k) v m) m voc) (json_key k) =
    (case map_of voc k of None \<Rightarrow> map_of m (json_key k) | Some i \<Rightarrow> Some i)"
  using assms
proof (induction voc arbitrary: m)
  case (Cons p voc)
  obtain k1 v where p: "p = (k1, v)" by (cases p)
  have "map_of (foldl (\<lambda>m (k, v). AList.update (json_key k) v m) (AList.update (json_key k1) v m) voc) (json_key k) =
      (case map_of voc k of None \<Rightarrow> map_of (AList.update (json_key k1) v m) (json_key k) | Some i \<Rightarrow> Some i)"
    using Cons.prems by (intro Cons.IH) (auto simp: p)
  moreover have "json_key k1 = json_key k \<longleftrightarrow> k1 = k" using Cons.prems(2) by (auto simp: p)
  moreover have "k1 = k \<Longrightarrow> map_of voc k = None" using Cons.prems(1) by (auto simp: p map_of_eq_None_iff)
  ultimately show ?case by (auto simp: p update_conv' split: option.splits)
qed simp

lemma json_dict_get:
  assumes "distinct (map fst voc)" and "\<And>k'. k' \<in> fst ` set voc \<Longrightarrow> json_key k' = json_key k \<Longrightarrow> k' = k"
  shows "str_get (json_dict voc) (json_key k) = vocab_get voc k"
  using json_foldl_get [OF assms, of "[]"] by (simp add: str_get_def json_dict_def vocab_get_def split: option.splits)

text \<open>The keys of one encoder are all strings, or integers beside \<open><UNK>\<close>: no two share a JSON name.\<close>

definition is_str_feat :: "cat_feat \<Rightarrow> bool" where
  "is_str_feat feat \<longleftrightarrow> feat = Domain \<or> feat = AdvertiserId"

definition feat_keys :: "cat_feat \<Rightarrow> key set" where
  "feat_keys feat = (if is_str_feat feat then range KStr else insert UNK (range KInt))"

lemma cat_val_keys: "cat_val feat r \<in> feat_keys feat"
  by (cases feat) (auto simp: feat_keys_def is_str_feat_def)

lemma UNK_keys: "UNK \<in> feat_keys feat"
  by (auto simp: feat_keys_def UNK_def)

lemma str_int_not_UNK: "str_int i \<noteq> ''<UNK>''"
  using str_int_hd [of i] is_digit_not_special [of "hd (str_int i)"] by auto

lemma json_key_inj: "k \<in> feat_keys feat \<Longrightarrow> k' \<in> feat_keys feat \<Longrightarrow> json_key k' = json_key k \<Longrightarrow> k' = k"
  using str_int_not_UNK not_sym [OF str_int_not_UNK]
  by (auto simp: feat_keys_def UNK_def split: if_splits)

lemma encoder_keys: "fst ` set (fit_encoder (count_update [] xs) mc) \<subseteq> insert UNK (set xs)"
proof -
  have "map fst (fit_encoder (count_update [] xs) mc) = UNK # kept_keys mc (most_common (count_update [] xs))"
    by (simp add: fit_encoder_keys)
  then have "fst ` set (fit_encoder (count_update [] xs) mc) = insert UNK (set (kept_keys mc (most_common (count_update [] xs))))"
    by (metis list.set(2) set_map)
  then show ?thesis using kept_iff [of _ mc xs] by (auto simp: kept_def)
qed

lemma encoder_distinct: "distinct (map fst (fit_encoder (count_update [] xs) mc))"
  using kept_keys_distinct [OF most_common_distinct [OF counted_distinct]] by (simp add: fit_encoder_keys)

lemma rename_loop_keys:
  "distinct (map fst new) \<Longrightarrow> distinct (map fst (rename_loop rest new)) \<and>
   fst ` set (rename_loop rest new) \<subseteq> insert PAD (fst ` set new \<union> fst ` set rest)"
proof (induction rest arbitrary: new)
  case (Cons p rest)
  obtain k v where p: "p = (k, v)" by (cases p)
  show ?case
    using Cons.IH [of "AList.update k v new"] Cons.IH [of "AList.update PAD v new"] Cons.prems
    by (auto simp: p distinct_update dom_update)
qed auto

section \<open>The exported configuration\<close>

lemma feat_name_inj [simp]: "feat_name f = feat_name g \<longleftrightarrow> f = g"
  by (cases f; cases g; simp)

lemma export_vocabs_ok:
  assumes "\<forall>f \<in> set feats. art_encoders art f \<noteq> None"
  shows "\<exists>vs'. export_vocabs art feats vs = Inr vs' \<and>
    (\<forall>f. map_of vs' (feat_name f) = (if f \<in> set feats then Some (json_dict (art_voc art f)) else map_of vs (feat_name f)))"
  using assms
proof (induction feats arbitrary: vs)
  case (Cons g feats)
  then obtain voc where "art_encoders art g = Some voc" by auto
  then show ?case
    using Cons.IH [of "AList.update (feat_name g) (json_dict voc) vs"] Cons.prems
    by (auto simp: update_conv' art_voc_def)
qed simp

lemma art_of_encoders:
  assumes "distinct cats" and "xs \<noteq> []" and "art_of cats clip_min xs = Inr art"
  shows "\<forall>f \<in> set cats. art_encoders art f \<noteq> None"
proof -
  have n: "int (length xs) \<noteq> 0" using assms(2) by simp
  note d = assms(3) [unfolded art_of_def fit_artifacts_def if_not_P [OF n] Let_def, simplified, symmetric]
  show ?thesis by (simp add: d)
qed

text \<open>What the encoding of records uses of the exported configuration of fitted artifacts.\<close>

definition cfg_of :: "artifacts \<Rightarrow> feature_cfg \<Rightarrow> bool" where
  "cfg_of art cfg \<longleftrightarrow>
     cfg_cat_order cfg = map feat_name (art_cats art) \<and>
     (\<forall>f \<in> set (art_cats art). dict_get (cfg_cat_vocabs cfg) (feat_name f) = Inr (json_dict (art_voc art f))) \<and>
     cfg_tag_vocab cfg = json_dict (art_tag_vocab art) \<and> cfg_tag_max_len cfg = 10 \<and>
     (\<forall>x. scale cfg ''log_floor_price'' x = Inr ((x - mean_lf art) / std_lf art)) \<and>
     (\<forall>x. scale cfg ''slot_area'' x = Inr ((x - mean_sa art) / std_sa art)) \<and>
     (\<forall>x. scale cfg ''tag_count'' x = Inr ((x - mean_tc art) / std_tc art))"

lemma export_cfg_of:
  assumes "distinct cats" and "xs \<noteq> []" and "art_of cats clip_min xs = Inr art"
  shows "\<exists>cfg. export_feature_config art nb dims td = Inr cfg \<and> cfg_of art cfg \<and> cfg_num_bins cfg = nb"
proof -
  note cats = art_of_vocs(1) [OF assms]
  obtain vs where vs: "export_vocabs art cats [] = Inr vs"
    "\<forall>f. map_of vs (feat_name f) = (if f \<in> set cats then Some (json_dict (art_voc art f)) else None)"
    using export_vocabs_ok [OF art_of_encoders [OF assms], of "[]"] by auto
  have pos: "std_lf art \<noteq> 0" "std_sa art \<noteq> 0" "std_tc art \<noteq> 0"
    using scaled_pos [of fr_log_floor_price xs] scaled_pos [of fr_slot_area xs] scaled_pos [of fr_tag_count xs]
    by (simp_all add: art_of_stats [OF assms(2,3)])
  show ?thesis
    using vs pos by (simp add: export_feature_config_def cats cfg_of_def scale_def dict_get_def float_div_def)
qed

lemma art_voc_get:
  assumes "distinct cats" and "xs \<noteq> []" and "art_of cats clip_min xs = Inr art"
    and "feat \<in> set cats" and "k \<in> feat_keys feat"
  shows "str_get (json_dict (art_voc art feat)) (json_key k) = vocab_get (art_voc art feat) k"
proof (rule json_dict_get)
  note voc = art_of_vocs(2) [OF assms(1-4)]
  show "distinct (map fst (art_voc art feat))" by (simp add: voc encoder_distinct)
  fix k' assume k': "k' \<in> fst ` set (art_voc art feat)" "json_key k' = json_key k"
  have "k' \<in> insert UNK (set (map (cat_val feat) xs))"
    using k'(1) encoder_keys unfolding voc by blast
  then have "k' \<in> feat_keys feat" using cat_val_keys [of feat] UNK_keys [of feat] by auto
  then show "k' = k" using json_key_inj [OF assms(5) _ k'(2)] by blast
qed

lemma art_tag_get:
  assumes "distinct cats" and "xs \<noteq> []" and "art_of cats clip_min xs = Inr art"
  shows "str_get (json_dict (art_tag_vocab art)) s = vocab_get (art_tag_vocab art) (KStr s)"
proof -
  note voc = art_of_vocs(3) [OF assms]
  note r = rename_loop_keys [of "[]" "fit_encoder (count_update [] (row_tags xs)) 200", folded rename_pad_def, simplified]
  have "str_get (json_dict (art_tag_vocab art)) (json_key (KStr s)) = vocab_get (art_tag_vocab art) (KStr s)"
  proof (rule json_dict_get)
    show "distinct (map fst (art_tag_vocab art))" using r by (simp add: voc)
    fix k' assume k': "k' \<in> fst ` set (art_tag_vocab art)" "json_key k' = json_key (KStr s)"
    have "k' \<in> insert PAD (insert UNK (set (row_tags xs)))"
      using k'(1) r encoder_keys [of "row_tags xs" 200] unfolding voc by blast
    then have "k' \<in> range KStr" by (auto simp: PAD_def UNK_def row_tags_def)
    then show "k' = KStr s" using k'(2) by auto
  qed
  then show ?thesis by simp
qed

section \<open>The retrainer encodes a record as training encodes the logged row\<close>

text \<open>
  The record holds the fields of the log row: integers and the floor price read from their columns,
  the tokens of the tag column as a list, the timestamp up to the seconds as one number. The engine's
  encoder writes an integral floor without a decimal point and an auction without tags as \<open>null\<close>; a record
  may also lack the field then.
\<close>

definition json_number :: "real \<Rightarrow> json res \<Rightarrow> bool" where
  "json_number x v \<longleftrightarrow>
     (case v of Inr (JFloat y) \<Rightarrow> y = x | Inr (JInt i) \<Rightarrow> real_of_int i = x | _ \<Rightarrow> False)"

definition json_tags :: "string list \<Rightarrow> json res \<Rightarrow> bool" where
  "json_tags ts v \<longleftrightarrow> v = Inr (JList (map JStr ts)) \<or> ts = [] \<and> v \<in> {Inr JNull, Inl KeyError}"

definition logs_auction :: "(string \<Rightarrow> real option) \<Rightarrow> raw_row \<Rightarrow> json \<Rightarrow> bool" where
  "logs_auction to_numeric raw rec \<longleftrightarrow>
     list_all (\<lambda>(k, v). rec_get rec k = Inr v)
       [(''region'', JInt (int0 to_numeric (rw_region raw))),
        (''city'', JInt (int0 to_numeric (rw_city raw))),
        (''domain'', JStr (rw_domain raw)),
        (''ad_exchange'', JInt (int0 to_numeric (rw_ad_exchange raw))),
        (''slot_width'', JInt (int0 to_numeric (rw_slot_width raw))),
        (''slot_height'', JInt (int0 to_numeric (rw_slot_height raw))),
        (''slot_visibility'', JInt (int0 to_numeric (rw_slot_visibility raw))),
        (''slot_format'', JInt (int0 to_numeric (format_str (rw_slot_format raw)))),
        (''advertiser_id'', JStr (rw_advertiser_id raw)),
        (''timestamp'', JInt (int (nat_of_digits (take 14 (rw_timestamp raw)))))] \<and>
     json_number (num0 to_numeric (rw_slot_floor_price raw)) (rec_get rec ''slot_floor_price'') \<and>
     json_tags (tag_tokens (rw_user_tags raw)) (rec_get rec ''user_tags'')"

lemma json_number_real: "json_number x v \<Longrightarrow> res_bind v (to_real to_float) = Inr x"
  by (auto simp: json_number_def split: sum.splits json.splits)

lemma json_tags_iter:
  "json_tags ts (rec_get rec ''user_tags'') \<Longrightarrow> py_iter (user_tags_of rec) = Inr (map JStr ts)"
  by (auto simp: json_tags_def user_tags_of_def)

text \<open>
  What the documentation of \<open>pandas.to_datetime\<close> and \<open>dt.weekday\<close> says of eight digits \<open>YYYYMMDD\<close> of the
  years that nanosecond timestamps cover: the weekday of a date of the calendar, NaT for no date.
\<close>

definition weekday_spec :: "(string \<Rightarrow> int option) \<Rightarrow> bool" where
  "weekday_spec weekday \<longleftrightarrow>
     (\<forall>s. length s = 8 \<and> list_all is_digit s \<longrightarrow>
       (let n = int (nat_of_digits s); y = n div 10000 in
         1700 \<le> y \<and> y \<le> 2200 \<longrightarrow>
         weekday s = (case date_weekday y ((n div 100) mod 100) (n mod 100) of Inl _ \<Rightarrow> None | Inr w \<Rightarrow> Some w)))"

definition plain_timestamp :: "string \<Rightarrow> bool" where
  "plain_timestamp s \<longleftrightarrow>
     14 \<le> length s \<and> list_all is_digit (take 14 s) \<and>
     1700 \<le> nat_of_digits (take 4 s) \<and> nat_of_digits (take 4 s) \<le> 2200"

lemma take_slice: "i \<le> j \<Longrightarrow> take i s @ slice i j s = take j s"
  by (simp add: slice_def) (metis append_take_drop_id min.absorb1 take_take)

lemma slice_digits: "list_all is_digit (take k s) \<Longrightarrow> j \<le> k \<Longrightarrow> list_all is_digit (slice i j s)"
  unfolding list_all_iff slice_def by (meson in_set_dropD set_take_subset_set_take subsetD)

lemma split_digits:
  assumes "i \<le> j" and "j \<le> length s" and "list_all is_digit (take j s)"
  shows "nat_of_digits (take j s) div 10 ^ (j - i) = nat_of_digits (take i s)"
    and "nat_of_digits (take j s) mod 10 ^ (j - i) = nat_of_digits (slice i j s)"
proof -
  have len: "length (slice i j s) = j - i" using assms(2) by (simp add: slice_def)
  have "nat_of_digits (slice i j s) < 10 ^ (j - i)"
    using nat_of_digits_less [OF slice_digits [OF assms(3) order_refl, of i]] by (simp add: len)
  moreover have "nat_of_digits (take j s) = nat_of_digits (take i s) * 10 ^ (j - i) + nat_of_digits (slice i j s)"
    using nat_of_digits_append [of "take i s" "slice i j s"] by (simp add: take_slice [OF assms(1)] len)
  ultimately show "nat_of_digits (take j s) div 10 ^ (j - i) = nat_of_digits (take i s)"
    and "nat_of_digits (take j s) mod 10 ^ (j - i) = nat_of_digits (slice i j s)" by simp_all
qed

lemma timestamp_parts:
  assumes "plain_timestamp s"
  shows "int (nat_of_digits (take 14 s)) div 1000000 = int (nat_of_digits (take 8 s))"
    and "int (nat_of_digits (take 14 s)) mod 1000000 div 10000 = int (nat_of_digits (slice 8 10 s))"
    and "int (nat_of_digits (take 8 s)) div 10000 = int (nat_of_digits (take 4 s))"
    and "py_int (slice 8 10 s) = Inr (int (nat_of_digits (slice 8 10 s)))"
    and "list_all is_digit (take 8 s)"
proof -
  have len: "14 \<le> length s" and dig: "list_all is_digit (take 14 s)" using assms by (auto simp: plain_timestamp_def)
  have d: "list_all is_digit (take k s)" if "k \<le> 14" for k
    using slice_digits [OF dig that, of 0] by (simp add: slice_def)
  show "list_all is_digit (take 8 s)" by (rule d) simp
  have "nat_of_digits (take 14 s) div 10 ^ 6 = nat_of_digits (take 8 s)"
    using split_digits(1) [of 8 14 s] len dig by simp
  then show "int (nat_of_digits (take 14 s)) div 1000000 = int (nat_of_digits (take 8 s))"
    using zdiv_int [of "nat_of_digits (take 14 s)" "10 ^ 6"] by simp
  have "nat_of_digits (take 8 s) div 10 ^ 4 = nat_of_digits (take 4 s)"
    using split_digits(1) [of 4 8 s] len d [of 8] by simp
  then show "int (nat_of_digits (take 8 s)) div 10000 = int (nat_of_digits (take 4 s))"
    using zdiv_int [of "nat_of_digits (take 8 s)" "10 ^ 4"] by simp
  have m: "nat_of_digits (take 14 s) mod 10 ^ 6 = nat_of_digits (slice 8 14 s)"
    using split_digits(2) [of 8 14 s] len dig by simp
  have "nat_of_digits (slice 8 14 s) div 10 ^ 4 = nat_of_digits (slice 8 10 s)"
    using split_digits(1) [of 2 6 "drop 8 s"] slice_digits [OF dig order_refl, of 8] len
    by (simp add: slice_def drop_take)
  then show "int (nat_of_digits (take 14 s)) mod 1000000 div 10000 = int (nat_of_digits (slice 8 10 s))"
    using m zmod_int [of "nat_of_digits (take 14 s)" "10 ^ 6"] zdiv_int [of "nat_of_digits (slice 8 14 s)" "10 ^ 4"]
    by simp
  show "py_int (slice 8 10 s) = Inr (int (nat_of_digits (slice 8 10 s)))"
    by (rule py_int_digits) (use len slice_digits [OF dig, of 10 8] in \<open>auto simp: slice_def\<close>)
qed

lemma timestamp_weekday:
  assumes "plain_timestamp s" and "weekday_spec weekday"
  shows "weekday_monday0 (int (nat_of_digits (take 14 s))) =
    Inr (case weekday (slice 0 8 s) of None \<Rightarrow> 0 | Some d \<Rightarrow> d)"
proof -
  note p = timestamp_parts [OF assms(1)]
  have len: "14 \<le> length s" and yr: "1700 \<le> nat_of_digits (take 4 s)" "nat_of_digits (take 4 s) \<le> 2200"
    using assms(1) by (auto simp: plain_timestamp_def)
  define n where "n = int (nat_of_digits (take 8 s))"
  define y where "y = int (nat_of_digits (take 4 s))"
  have y: "n div 10000 = y" "1700 \<le> y" "y \<le> 2200" using p(3) yr by (simp_all add: n_def y_def)
  have "slice 0 8 s = take 8 s" by (simp add: slice_def)
  moreover have "weekday (take 8 s) = (case date_weekday y (n div 100 mod 100) (n mod 100) of Inl _ \<Rightarrow> None | Inr w \<Rightarrow> Some w)"
    using assms(2) len p(5) y unfolding weekday_spec_def Let_def n_def [symmetric] by (auto simp: n_def)
  moreover have "- 2147483648 \<le> n div 100 mod 100 \<and> n div 100 mod 100 < 2147483648"
    "- 2147483648 \<le> n mod 100 \<and> n mod 100 < 2147483648"
    using pos_mod_bound [of 100 "n div 100"] pos_mod_sign [of 100 "n div 100"] pos_mod_bound [of 100 n] pos_mod_sign [of 100 n]
    by linarith+
  then have "datetime_weekday y (n div 100 mod 100) (n mod 100) = date_weekday y (n div 100 mod 100) (n mod 100)"
    using y(2,3) by (simp add: datetime_weekday_def)
  moreover have "date_weekday a b c = Inl e \<Longrightarrow> e = ValueError" for a b c e
    by (simp add: date_weekday_def split: if_splits)
  ultimately show ?thesis
    unfolding weekday_monday0_def Let_def p(1) n_def [symmetric] y(1)
    by (auto split: sum.splits)
qed

lemma res_map_of_map: "res_map f (map g xs) = res_map (\<lambda>x. f (g x)) xs"
  by (induction xs) (auto split: sum.split)

lemma record_tag_loop_eq:
  assumes "\<And>s. str_get d s = vocab_get voc (KStr s)" and "[] \<notin> set ts"
  shows "record_tag_loop repr d ml (map JStr ts) j arr = tag_loop voc ml ts j arr"
  using assms(2) by (induction ts arbitrary: j arr) (auto simp: assms(1) Let_def)

lemma tag_loop_full: "ml \<le> j \<Longrightarrow> tag_loop voc ml ps j arr = arr"
  by (cases ps) auto

lemma tag_loop_filter: "tag_loop voc ml (filter (\<lambda>p. p \<noteq> []) ps) j arr = tag_loop voc ml ps j arr"
  by (induction ps arbitrary: j arr) (auto simp: Let_def tag_loop_full)

lemma record_tags_eq:
  assumes "\<And>s. str_get d s = vocab_get voc (KStr s)"
  shows "record_tag_loop repr d ml (map JStr (tag_tokens s)) 0 (replicate ml 0) = encode_tags_row voc ml s"
proof (cases "no_tags s")
  case True
  then show ?thesis by (simp add: tag_tokens_def encode_tags_row_def)
next
  case False
  then show ?thesis
    using record_tag_loop_eq [OF assms, of "tag_tokens s" repr ml 0 "replicate ml 0"]
    by (simp add: tag_tokens_def encode_tags_row_def tag_loop_filter)
qed

lemma encode_tags_nonneg_pad: "pad_tags (encode_tags_row voc 10 s) = encode_tags_row voc 10 s"
  by (simp add: pad_tags_eq)

lemma cat_code_logged:
  assumes "logs_auction to_numeric raw rec" and "basic_features_row to_numeric weekday raw = Inr f"
    and "dict_get (cfg_cat_vocabs cfg) (feat_name feat) = Inr d"
  shows "cat_code repr cfg rec (feat_name feat) = Inr (str_get d (json_key (cat_val feat f)))"
  using assms
  by (cases feat) (auto simp: cat_code_def logs_auction_def basic_features_row_def Let_def res_bind_Inr_iff)

lemma encode_logged:
  assumes "distinct cats" and "xs \<noteq> []" and "art_of cats clip_min xs = Inr art"
    and "logs_auction to_numeric raw rec" and "plain_timestamp (rw_timestamp raw)" and "weekday_spec weekday"
    and "cfg_of art cfg"
  shows "\<exists>f. basic_features_row to_numeric weekday raw = Inr f \<and>
    encode_record repr to_float rec cfg =
      Inr (o_cat (encode_row art f), pack_cont (encode_row art f), pad_tags (o_tag_indices (encode_row art f)))"
proof -
  note p = timestamp_parts [OF assms(5)]
  obtain f where f: "basic_features_row to_numeric weekday raw = Inr f"
      by (simp add: basic_features_row_def p(4) Let_def)
  note fr = f [unfolded basic_features_row_def p(4) res_bind.simps Let_def, simplified, symmetric]
  have cats: "art_cats art = cats" by (rule art_of_vocs(1) [OF assms(1-3)])
  have cat: "res_map (cat_code repr cfg rec) (cfg_cat_order cfg) = Inr (o_cat (encode_row art f))"
  proof -
    have "cat_code repr cfg rec (feat_name g) = Inr (vocab_get (art_voc art g) (cat_val g f))" if "g \<in> set cats" for g
      using cat_code_logged [OF assms(4) f, of cfg g] assms(7) that
      by (simp add: cfg_of_def cats art_voc_get [OF assms(1-3) that cat_val_keys])
    then have "res_map (\<lambda>g. cat_code repr cfg rec (feat_name g)) cats = Inr (map (\<lambda>g. vocab_get (art_voc art g) (cat_val g f)) cats)"
      by (intro res_map_total) blast
    then show ?thesis using assms(7) by (simp add: cfg_of_def cats res_map_of_map encode_row_def)
  qed
  have tags: "py_iter (user_tags_of rec) = Inr (map JStr (tag_tokens (rw_user_tags raw)))"
    using assms(4) by (simp add: logs_auction_def json_tags_iter)
  have tag_ids: "record_tag_loop repr (cfg_tag_vocab cfg) (cfg_tag_max_len cfg) (map JStr (tag_tokens (rw_user_tags raw))) 0
      (replicate (cfg_tag_max_len cfg) 0) = pad_tags (o_tag_indices (encode_row art f))"
    using assms(7) record_tags_eq [OF art_tag_get [OF assms(1-3)], of repr 10 "rw_user_tags raw"]
    by (simp add: cfg_of_def encode_row_def encode_tags_nonneg_pad fr)
  have wd: "weekday_monday0 (int (nat_of_digits (take 14 (rw_timestamp raw)))) =
      Inr (case weekday (slice 0 8 (rw_timestamp raw)) of None \<Rightarrow> 0 | Some d \<Rightarrow> d)"
    by (rule timestamp_weekday [OF assms(5,6)])
  have price: "res_bind (rec_get rec ''slot_floor_price'') (to_real to_float) = Inr (num0 to_numeric (rw_slot_floor_price raw))"
    using assms(4) by (simp add: logs_auction_def json_number_real)
  have fields: "rec_get rec ''slot_width'' = Inr (JInt (int0 to_numeric (rw_slot_width raw)))"
    "rec_get rec ''slot_height'' = Inr (JInt (int0 to_numeric (rw_slot_height raw)))"
    "rec_get rec ''timestamp'' = Inr (JInt (int (nat_of_digits (take 14 (rw_timestamp raw)))))"
    using assms(4) by (simp_all add: logs_auction_def)
  have sc: "scale cfg ''log_floor_price'' x = Inr ((x - mean_lf art) / std_lf art)"
    "scale cfg ''slot_area'' x = Inr ((x - mean_sa art) / std_sa art)"
    "scale cfg ''tag_count'' x = Inr ((x - mean_tc art) / std_tc art)" for x
    using assms(7) by (simp_all add: cfg_of_def)
  have tc: "count_tags s = length (tag_tokens s)" for s
    by (simp add: count_tags_def tag_tokens_def)
  have "encode_record repr to_float rec cfg =
      Inr (o_cat (encode_row art f), pack_cont (encode_row art f), pad_tags (o_tag_indices (encode_row art f)))"
    unfolding encode_record_def cat price fields tags res_bind.simps to_real.simps to_int.simps Let_def sc wd p(2) tag_ids
    by (simp add: pack_cont_def encode_row_def fr tc)
  then show ?thesis using f by blast
qed

text \<open>
  C4: The retrainer sees an auction as training saw it. For artifacts fitted on any nonempty training
  rows and the configuration exported from them, the record of a logged auction - its floor price an integer
  or a float, its missing tags an empty list, \<open>null\<close> or no field - is encoded into the
  same category codes, the same nine continuous inputs and the same tag row as the preprocessing and
  the dataset give its log row.
\<close>

theorem retrainer_parity:
  assumes "distinct cats" and "xs \<noteq> []" and "art_of cats clip_min xs = Inr art"
    and "logs_auction to_numeric raw rec" and "plain_timestamp (rw_timestamp raw)" and "weekday_spec weekday"
  shows "\<exists>cfg f. export_feature_config art nb dims td = Inr cfg \<and>
    basic_features_row to_numeric weekday raw = Inr f \<and>
    encode_record repr to_float rec cfg =
      Inr (o_cat (encode_row art f), pack_cont (encode_row art f), pad_tags (o_tag_indices (encode_row art f)))"
proof -
  obtain cfg where "export_feature_config art nb dims td = Inr cfg" "cfg_of art cfg"
    using export_cfg_of [OF assms(1-3)] by blast
  then show ?thesis using encode_logged [OF assms] by blast
qed

section \<open>Whatever is encoded fits the network\<close>

lemma json_dict_values:
  "i \<in> snd ` set (json_dict voc) \<Longrightarrow> i \<in> snd ` set voc"
proof -
  have "snd ` set (foldl (\<lambda>m (k, v). AList.update (json_key k) v m) m voc) \<subseteq> snd ` set m \<union> snd ` set voc" for m
  proof (induction voc arbitrary: m)
    case (Cons p voc)
    obtain k v where p: "p = (k, v)" by (cases p)
    have "snd ` set (AList.update (json_key k) v m) \<subseteq> insert v (snd ` set m)"
      by (induction m) auto
    then show ?case using Cons.IH [of "AList.update (json_key k) v m"] by (simp add: p) blast
  qed simp
  from this [of "[]"] show "i \<in> snd ` set (json_dict voc) \<Longrightarrow> i \<in> snd ` set voc"
    by (auto simp: json_dict_def)
qed

lemma str_get_less:
  assumes "\<forall>i \<in> snd ` set voc. i < n" and "0 < n"
  shows "str_get (json_dict voc) s < n"
proof (cases "map_of (json_dict voc) s")
  case (Some i)
  then have "i \<in> snd ` set voc" using json_dict_values map_of_SomeD by force
  then show ?thesis using bspec [OF assms(1)] Some by (simp add: str_get_def)
qed (simp add: str_get_def assms(2))

lemma encoder_values_less: "\<forall>i \<in> snd ` set (fit_encoder (count_update [] xs) mc). i < length (fit_encoder (count_update [] xs) mc)"
proof -
  have "snd ` set (fit_encoder (count_update [] xs) mc) = {0..<length (fit_encoder (count_update [] xs) mc)}"
    using fit_encoder_values [OF counted_distinct, of xs mc] by (metis atLeastLessThan_upt set_map)
  then show ?thesis by simp
qed

lemma record_tag_loop_bounds:
  "list_all (\<lambda>t. t < n) arr \<Longrightarrow> (\<And>s. str_get d s < n) \<Longrightarrow>
   list_all (\<lambda>t. t < n) (record_tag_loop repr d ml ts j arr) \<and> length (record_tag_loop repr d ml ts j arr) = length arr"
proof (induction ts arbitrary: j arr)
  case (Cons t ts)
  have "list_all (\<lambda>t. t < n) (arr[j := str_get d (py_str repr t)])"
    using Cons.prems set_update_subset_insert [of arr j "str_get d (py_str repr t)"] by (auto simp: list_all_iff)
  then show ?case using Cons by (auto simp: Let_def)
qed simp

lemma price_label_range: "0 < nb \<Longrightarrow> 0 \<le> price_label nb x \<and> price_label nb x < int nb"
  by (auto simp: price_label_def Let_def)

lemma list_all2_some: "list_all2 P xs ys \<Longrightarrow> y \<in> set ys \<Longrightarrow> \<exists>x. P x y"
  by (induction xs ys rule: list_all2_induct) auto

lemma build_row_fits:
  assumes "distinct cats" and "xs \<noteq> []" and "art_of cats clip_min xs = Inr art" and "PAD \<notin> set (row_tags xs)"
    and "cfg_of art cfg" and "build_row repr to_float cfg nb rec = Inr t" and "0 < nb"
  shows "input_fits (map (\<lambda>f. (f, length (the (art_encoders art f)) + 1)) cats) (length (art_tag_vocab art)) 9
      (tr_cat t) (tr_cont t) (tr_tags t) \<and>
    length (tr_tags t) = 10 \<and> 0 \<le> tr_label t \<and> tr_label t < int nb"
proof -
  note v = art_of_vocs [OF assms(1-3)]
  have voc: "the (art_encoders art f) = art_voc art f" if "f \<in> set cats" for f
    using art_of_encoders [OF assms(1-3)] that by (auto simp: art_voc_def)
  have code: "str_get (json_dict (art_voc art f)) s < length (art_voc art f)" if "f \<in> set cats" for f s
    unfolding v(2) [OF that] by (rule str_get_less [OF encoder_values_less]) (rule fitted.sz_pos)
  have len: "length (art_tag_vocab art) = length (fit_encoder (count_update [] (row_tags xs)) 200)"
    using rename_pad_fresh [OF counted_distinct, of 200 "row_tags xs"] assms(4) fitted.sz_pos [of "row_tags xs" 200]
    by (simp add: v kept_iff kept_def)
  have tag: "str_get (cfg_tag_vocab cfg) s < length (art_tag_vocab art)" for s
  proof -
    have "vocab_get (art_tag_vocab art) (KStr s) < length (art_tag_vocab art)"
      using fitted.code_less [of "row_tags xs" 200] by (simp only: len) (simp add: v rename_pad_get)
    then show ?thesis using assms(5) by (simp add: cfg_of_def art_tag_get [OF assms(1-3)])
  qed
  have "(\<exists>ts. tr_tags t = record_tag_loop repr (cfg_tag_vocab cfg) 10 ts 0 (replicate 10 0)) \<and>
    length (tr_cont t) = 9 \<and> res_map (cat_code repr cfg rec) (cfg_cat_order cfg) = Inr (tr_cat t) \<and>
    (\<exists>x. tr_label t = price_label nb x)"
    using assms(5,6) by (auto simp: build_row_def encode_record_def res_bind_Inr_iff Let_def cfg_of_def)
  then obtain ts where t: "tr_tags t = record_tag_loop repr (cfg_tag_vocab cfg) 10 ts 0 (replicate 10 0)"
    "length (tr_cont t) = 9" "res_map (cat_code repr cfg rec) (cfg_cat_order cfg) = Inr (tr_cat t)"
    "\<exists>x. tr_label t = price_label nb x" by blast
  have z: "list_all (\<lambda>i. i < length (art_tag_vocab art)) (replicate 10 0)"
    using tag [of "[]"] by (auto simp: list_all_iff)
  have "list_all2 (\<lambda>f c. cat_code repr cfg rec (feat_name f) = Inr c) cats (tr_cat t)"
    using t(3) assms(5) by (simp add: cfg_of_def v(1) res_map_Inr_iff list_all2_map1)
  moreover have "c < length (art_voc art f) + 1" if "f \<in> set cats" "cat_code repr cfg rec (feat_name f) = Inr c" for f c
  proof -
    have "dict_get (cfg_cat_vocabs cfg) (feat_name f) = Inr (json_dict (art_voc art f))"
      using assms(5) that(1) by (simp add: cfg_of_def v(1))
    then have "\<exists>s. c = str_get (json_dict (art_voc art f)) s"
      using that(2) by (auto simp: cat_code_def res_bind_Inr_iff)
    then show ?thesis using code [OF that(1)] by (auto intro: less_SucI)
  qed
  ultimately have "list_all2 (\<lambda>(f, sz) c. c < sz) (map (\<lambda>f. (f, length (the (art_encoders art f)) + 1)) cats) (tr_cat t)"
    by (auto simp: list_all2_conv_all_nth voc)
  then show ?thesis
    using record_tag_loop_bounds [OF z tag, where repr = repr and ml = 10 and ts = ts and j = 0] t price_label_range [OF assms(7)]
    by (auto simp: input_fits_def)
qed

text \<open>
  C32: Whatever the log holds, a window that encodes under the exported configuration gives training
  rows of the network's type: every category code is a row of its embedding table, there are nine
  continuous inputs and ten tag codes of the tag table, the label is one of the bins, and so a bins
  network of the trained shape gives one logit per bin for every row.
\<close>

theorem window_rows_fit:
  assumes "distinct cats" and "xs \<noteq> []" and "art_of cats clip_min xs = Inr art" and "PAD \<notin> set (row_tags xs)"
    and "0 < nb" and "export_feature_config art nb dims td = Inr cfg"
    and "build_tensors repr to_float rows cfg (cfg_num_bins cfg) = Inr trs"
  shows "\<exists>vs. build_vocab_sizes (art_cats art) (art_encoders art) [] = Inr vs \<and> length trs = length rows \<and>
    list_all (\<lambda>t. input_fits vs (length (art_tag_vocab art)) 9 (tr_cat t) (tr_cont t) (tr_tags t) \<and>
      length (tr_tags t) = 10 \<and> 0 \<le> tr_label t \<and> tr_label t < int nb) trs \<and>
    (\<forall>n edims tdim. net_shape vs edims (length (art_tag_vocab art)) tdim 9 nb n \<longrightarrow>
      list_all (\<lambda>t. \<exists>out. bins_forward erf n (tr_cat t) (tr_cont t) (tr_tags t) = Inr out \<and> length out = nb) trs)"
proof -
  let ?vs = "map (\<lambda>f. (f, length (the (art_encoders art f)) + 1)) cats"
  have vs: "build_vocab_sizes (art_cats art) (art_encoders art) [] = Inr ?vs"
    using build_vocab_sizes_eq [OF assms(1) art_of_encoders [OF assms(1-3)], of "[]"]
    by (simp add: art_of_vocs(1) [OF assms(1-3)])
  have cfg: "cfg_of art cfg" "cfg_num_bins cfg = nb"
    using export_cfg_of [OF assms(1-3), of nb dims td] assms(6) by auto
  have rows: "list_all2 (\<lambda>rec t. build_row repr to_float cfg nb rec = Inr t) rows trs"
    using assms(7) by (simp add: build_tensors_def cfg(2) res_map_Inr_iff)
  have fit: "input_fits ?vs (length (art_tag_vocab art)) 9 (tr_cat t) (tr_cont t) (tr_tags t) \<and>
      length (tr_tags t) = 10 \<and> 0 \<le> tr_label t \<and> tr_label t < int nb" if t: "t \<in> set trs" for t
  proof -
    obtain rec where "build_row repr to_float cfg nb rec = Inr t"
      using list_all2_some [OF rows t] by blast
    then show ?thesis by (rule build_row_fits [OF assms(1-4) cfg(1) _ assms(5)])
  qed
  have "\<exists>out. bins_forward erf n (tr_cat t) (tr_cont t) (tr_tags t) = Inr out \<and> length out = nb"
    if t: "t \<in> set trs" and n: "net_shape ?vs edims (length (art_tag_vocab art)) tdim 9 nb n" for t n edims tdim
  proof -
    obtain h out where "hidden_fwd erf n (tr_cat t) (tr_cont t) (tr_tags t) = Inr h"
      "linear_fwd (net_head n) h = Inr out" "length out = nb"
      using head_fwd_ok [OF n] fit [OF t] by blast
    then show ?thesis by (simp add: bins_forward_def)
  qed
  moreover have "length trs = length rows" using list_all2_lengthD [OF rows] by simp
  ultimately show ?thesis
    using vs fit by (intro exI [of _ ?vs] conjI allI impI) (simp_all add: list_all_iff)
qed

section \<open>A concrete auction\<close>

definition demo_numeric :: "string \<Rightarrow> real option" where
  "demo_numeric s = (if s \<noteq> [] \<and> list_all is_digit s then Some (real (nat_of_digits s)) else None)"

definition demo_weekday :: "string \<Rightarrow> int option" where
  "demo_weekday s =
     (let n = int (nat_of_digits s)
      in case date_weekday (n div 10000) ((n div 100) mod 100) (n mod 100) of Inl _ \<Rightarrow> None | Inr w \<Rightarrow> Some w)"

lemma demo_weekday_spec: "weekday_spec demo_weekday"
  by (simp add: weekday_spec_def demo_weekday_def Let_def)

definition demo_raw :: raw_row where
  "demo_raw =
     \<lparr>rw_timestamp = ''20130608135001123'', rw_region = ''1'', rw_city = ''2'', rw_ad_exchange = ''2'',
      rw_domain = ''a'', rw_slot_width = ''300'', rw_slot_height = ''250'', rw_slot_visibility = ''0'',
      rw_slot_format = ''Na'', rw_slot_floor_price = ''20'', rw_bidding_price = ''300'',
      rw_payprice = ''70'', rw_advertiser_id = ''1458'', rw_user_tags = ''10006,,10110'', rw_extra = None\<rparr>"

definition demo_record :: json where
  "demo_record = JObj
     [(''region'', JInt 1), (''city'', JInt 2), (''domain'', JStr ''a''), (''ad_exchange'', JInt 2),
      (''slot_width'', JInt 300), (''slot_height'', JInt 250), (''slot_visibility'', JInt 0),
      (''slot_format'', JInt 0), (''advertiser_id'', JStr ''1458''),
      (''user_tags'', JList [JStr ''10006'', JStr ''10110'']), (''slot_floor_price'', JInt 20),
      (''timestamp'', JInt 20130608135001), (''clearing_price'', JFloat (147 / 2))]"

lemma demo_logged: "logs_auction demo_numeric demo_raw demo_record"
  by (simp add: logs_auction_def json_number_def json_tags_def demo_record_def demo_raw_def dict_get_def int0_def num0_def demo_numeric_def
      format_str_def trunc_int_def is_digit_def nat_of_digits_def digit_val_def tag_tokens_def no_tags_def)

lemma demo_plain: "plain_timestamp (rw_timestamp demo_raw)"
  by (simp add: plain_timestamp_def demo_raw_def is_digit_def nat_of_digits_def digit_val_def)

lemma demo_art:
  obtains art where "art_of [City, Domain] (\<lambda>_. None) [demo_row 1 ''a'' 20, demo_row 2 ''a'' 70] = Inr art"
  using art_of_ok [of "[demo_row 1 ''a'' 20, demo_row 2 ''a'' 70]" "[City, Domain]" "\<lambda>_. None"] by auto

theorem retrainer_parity_witness:
  "\<exists>art cfg f. export_feature_config art 301 [] 24 = Inr cfg \<and>
    basic_features_row demo_numeric demo_weekday demo_raw = Inr f \<and>
    encode_record (\<lambda>_. []) (\<lambda>_. None) demo_record cfg =
      Inr (o_cat (encode_row art f), pack_cont (encode_row art f), pad_tags (o_tag_indices (encode_row art f)))"
proof -
  obtain art where art: "art_of [City, Domain] (\<lambda>_. None) [demo_row 1 ''a'' 20, demo_row 2 ''a'' 70] = Inr art"
    by (rule demo_art)
  have "distinct [City, Domain]" by simp
  from retrainer_parity [OF this _ art demo_logged demo_plain demo_weekday_spec] show ?thesis by blast
qed

theorem window_rows_fit_witness:
  "\<exists>art cfg trs vs. export_feature_config art 301 [] 24 = Inr cfg \<and>
    build_tensors (\<lambda>_. []) (\<lambda>_. None) [demo_record] cfg (cfg_num_bins cfg) = Inr trs \<and>
    build_vocab_sizes (art_cats art) (art_encoders art) [] = Inr vs \<and> length trs = 1 \<and>
    list_all (\<lambda>t. input_fits vs (length (art_tag_vocab art)) 9 (tr_cat t) (tr_cont t) (tr_tags t) \<and> tr_label t < 301) trs"
proof -
  let ?xs = "[demo_row 1 ''a'' 20, demo_row 2 ''a'' 70]"
  obtain art where art: "art_of [City, Domain] (\<lambda>_. None) ?xs = Inr art" by (rule demo_art)
  have d: "distinct [City, Domain]" "?xs \<noteq> []" by simp_all
  have pad: "PAD \<notin> set (row_tags ?xs)"
    by (simp add: row_tags_def tag_tokens_def no_tags_def demo_row_def PAD_def)
  obtain cfg where cfg: "export_feature_config art 301 [] 24 = Inr cfg" "cfg_of art cfg" "cfg_num_bins cfg = 301"
    using export_cfg_of [OF d art] by blast
  have cats: "art_cats art = [City, Domain]" by (rule art_of_vocs(1) [OF d art])
  obtain c where c: "encode_record (\<lambda>_. []) (\<lambda>_. None) demo_record cfg = Inr c"
    using encode_logged [OF d art demo_logged demo_plain demo_weekday_spec cfg(2)] by blast
  have "\<exists>trs. build_tensors (\<lambda>_. []) (\<lambda>_. None) [demo_record] cfg (cfg_num_bins cfg) = Inr trs"
    by (cases c) (simp add: build_tensors_def build_row_def c, simp add: demo_record_def dict_get_def)
  then obtain trs where trs: "build_tensors (\<lambda>_. []) (\<lambda>_. None) [demo_record] cfg (cfg_num_bins cfg) = Inr trs" by blast
  have nb: "(0 :: nat) < 301" by simp
  from window_rows_fit [OF d art pad nb cfg(1) trs, of "\<lambda>_. 0"]
  obtain vs where vs: "build_vocab_sizes (art_cats art) (art_encoders art) [] = Inr vs" "length trs = length [demo_record]"
    "list_all (\<lambda>t. input_fits vs (length (art_tag_vocab art)) 9 (tr_cat t) (tr_cont t) (tr_tags t) \<and>
      length (tr_tags t) = 10 \<and> 0 \<le> tr_label t \<and> tr_label t < int 301) trs" by blast
  have "list_all (\<lambda>t. input_fits vs (length (art_tag_vocab art)) 9 (tr_cat t) (tr_cont t) (tr_tags t) \<and> tr_label t < 301) trs"
    using vs(3) by (rule list.pred_mono_strong) simp
  moreover have "length trs = 1" using vs(2) by simp
  ultimately show ?thesis using cfg(1) trs vs(1) by blast
qed

section \<open>The window holds the most recent records\<close>

definition good_records :: "(string \<Rightarrow> json option) \<Rightarrow> string list \<Rightarrow> json list" where
  "good_records loads lines = List.map_filter (\<lambda>l. if strip l = [] then None else loads (strip l)) lines"

lemma good_records_append: "good_records loads (l1 @ l2) = good_records loads l1 @ good_records loads l2"
  by (simp add: good_records_def map_filter_def)

lemma parse_lines_eq: "parse_lines loads lines rows = rows @ good_records loads lines"
  by (induction lines arbitrary: rows)
    (auto simp: good_records_def map_filter_def Let_def split: option.splits)

definition last_n :: "nat \<Rightarrow> 'a list \<Rightarrow> 'a list" where
  "last_n w xs = drop (length xs - w) xs"

lemma last_n_append: "last_n w (last_n w xs @ ys) = last_n w (xs @ ys)"
proof -
  have "last_n w zs = rev (take w (rev zs))" for zs :: "'a list"
    by (simp add: last_n_def rev_take)
  then show ?thesis by simp
qed

lemma read_window_eq:
  "read_window loads (Inr (Some lines)) window = Inr
     (if 0 < window then last_n (nat window) (good_records loads lines)
      else drop (nat (- window)) (good_records loads lines))"
  by (auto simp: read_window_def parse_lines_eq py_from_def last_n_def Let_def nat_diff_distrib' max_def
      intro!: arg_cong [where f = "\<lambda>n. drop n _"])

text \<open>
  With a positive window the retrainer works on the most recent readable records: at most
  \<open>window\<close> of them, and when the engine appends lines to the log the next round sees the last \<open>window\<close> of the
  old window and the new records. Blank and unreadable lines count for nothing. With \<open>window = 0\<close>
  the slice \<open>rows[-0:]\<close> keeps the whole log.
\<close>

theorem window_slides:
  assumes "0 < window"
  shows "\<exists>rows more. read_window loads (Inr (Some lines)) window = Inr rows \<and> length rows \<le> nat window \<and>
    read_window loads (Inr (Some new)) 0 = Inr more \<and>
    read_window loads (Inr (Some (lines @ new))) window = Inr (last_n (nat window) (rows @ more)) \<and>
    read_window loads (Inr (Some lines)) 0 = Inr (good_records loads lines)"
  using assms by (simp add: read_window_eq good_records_append last_n_append) (simp add: last_n_def)

theorem window_slides_witness:
  "\<exists>rows more. read_window (\<lambda>s. if s = ''x'' then None else Some (JStr s)) (Inr (Some [''a'', ''x'', '' b''])) 2 = Inr rows \<and>
    read_window (\<lambda>s. if s = ''x'' then None else Some (JStr s)) (Inr (Some ['' '', ''c''])) 0 = Inr more \<and>
    read_window (\<lambda>s. if s = ''x'' then None else Some (JStr s)) (Inr (Some ([''a'', ''x'', '' b''] @ ['' '', ''c'']))) 2 =
      Inr (last_n 2 (rows @ more))"
  using window_slides [of 2 "\<lambda>s. if s = ''x'' then None else Some (JStr s)" "[''a'', ''x'', '' b'']" "['' '', ''c'']"]
  by auto

section \<open>Labels\<close>

lemma round_even_near: "\<bar>x - real_of_int (round_even x)\<bar> \<le> 1/2"
  unfolding round_even_def Let_def by (auto simp: abs_le_iff; linarith)

lemma round_even_int [simp]: "round_even (real_of_int i) = i"
  by (simp add: round_even_def)

text \<open>An integer within one half is a nearest integer.\<close>

lemma near_int:
  assumes "\<bar>x - real_of_int l\<bar> \<le> 1/2"
  shows "\<bar>x - real_of_int l\<bar> \<le> \<bar>x - real_of_int k\<bar>"
proof (cases "k = l")
  case False
  then have "1 \<le> \<bar>real_of_int k - real_of_int l\<bar>" by linarith
  then show ?thesis using assms by linarith
qed simp

text \<open>
  The training label of a clearing price is the nearest bin: no bin lies closer to the price, and an
  integer price within the bins is its own label.
\<close>

theorem price_label_nearest:
  assumes "0 < nb"
  shows "0 \<le> price_label nb x \<and> price_label nb x < int nb \<and>
    (\<forall>k. 0 \<le> k \<and> k < int nb \<longrightarrow>
      \<bar>x - real_of_int (price_label nb x)\<bar> \<le> \<bar>x - real_of_int k\<bar> \<and> price_label nb (real_of_int k) = k)"
proof (intro conjI allI impI)
  show "0 \<le> price_label nb x" "price_label nb x < int nb" using price_label_range [OF assms] by auto
  fix k assume k: "0 \<le> k \<and> k < int nb"
  then show "price_label nb (real_of_int k) = k" by (simp add: price_label_def)
  let ?r = "round_even x"
  note near = round_even_near [of x]
  show "\<bar>x - real_of_int (price_label nb x)\<bar> \<le> \<bar>x - real_of_int k\<bar>"
  proof (cases "0 \<le> ?r \<and> ?r \<le> int nb - 1")
    case True
    then have "price_label nb x = ?r" by (simp add: price_label_def Let_def)
    then show ?thesis using near_int [OF near] by simp
  next
    case False
    then consider "?r \<le> -1" | "int nb \<le> ?r" by linarith
    then show ?thesis
    proof cases
      case 1
      then have "price_label nb x = 0" using assms by (simp add: price_label_def Let_def)
      moreover have "x \<le> 0" using near 1 by linarith
      moreover have "0 \<le> real_of_int k" using k by simp
      ultimately show ?thesis by simp
    next
      case 2
      then have "price_label nb x = int nb - 1" using assms by (simp add: price_label_def Let_def)
      moreover have "real_of_int k \<le> real_of_int (int nb - 1)" using k by linarith
      moreover have "real_of_int (int nb - 1) \<le> x" using near 2 by linarith
      ultimately show ?thesis by simp
    qed
  qed
qed

theorem price_label_nearest_witness:
  "price_label 301 (147 / 2) = 74 \<and> \<bar>(147 / 2 :: real) - real_of_int (price_label 301 (147 / 2))\<bar> \<le> \<bar>147 / 2 - real_of_int 73\<bar>"
  using price_label_nearest [of 301 "147 / 2"] by (simp add: price_label_def round_even_def)

end
