(* ===== verification/Retrainer.thy ===== *)
theory Retrainer
  imports Outcome "HOL-Library.Sublist"
begin

text \<open>
  The loop of \<open>retrainer/retrain.py\<close>: one round reads the window, fine-tunes the warm-start model on it
  and exports it; the state dictionary, the model file and the status file outlive the round, also a
  failed one. The file system is a map from paths to contents; a file being written is
  \<open>Partial\<close> until its writer is done. Loading the warm start, the optimizer step, the permutation of
  \<open>torch.randperm\<close>, the clock and the faults of the outside world are parameters of a round.
\<close>

section \<open>Files\<close>

record payload =
  pl_round :: nat
  pl_exports :: nat
  pl_rows :: nat
  pl_last_loss :: real
  pl_exported_at :: int
  pl_model_version :: real
  pl_window :: int
  pl_status :: string

text \<open>
  \<open>RawModel\<close> is the export of \<open>torch.onnx.export\<close>, whose weights may sit in a second file (\<open>ExtData\<close>);
  \<open>FullModel\<close> the model with its weights embedded.
\<close>

datatype 'm content = Partial | RawModel 'm | ExtData | FullModel 'm | StatusFile payload

type_synonym 'm fs = "string \<Rightarrow> 'm content option"

datatype 'm fs_op = Begin string | Finish string "'m content" | Load string | Replace string string | RemoveIf string

fun fs_step :: "'m fs_op \<Rightarrow> 'm fs \<Rightarrow> 'm fs res" where
  "fs_step (Begin p) fs = Inr (fs(p \<mapsto> Partial))"
| "fs_step (Finish p c) fs = Inr (fs(p \<mapsto> c))"
| "fs_step (Load p) fs = (case fs p of None \<Rightarrow> Inl OSError | Some c \<Rightarrow> Inr fs)"
| "fs_step (Replace a b) fs = (case fs a of None \<Rightarrow> Inl OSError | Some c \<Rightarrow> Inr ((fs(a := None))(b \<mapsto> c)))"
| "fs_step (RemoveIf p) fs = Inr (fs(p := None))"

text \<open>Operations run in order; \<open>Some k\<close> makes the operation number \<open>k\<close> raise instead.\<close>

fun run_ops :: "nat option \<Rightarrow> 'm fs_op list \<Rightarrow> 'm fs \<Rightarrow> 'm fs \<times> unit res" where
  "run_ops fault [] fs = (fs, Inr ())"
| "run_ops fault (x # xs) fs =
     (if fault = Some 0 then (fs, Inl OSError)
      else case fs_step x fs of
             Inl e \<Rightarrow> (fs, Inl e)
           | Inr fs' \<Rightarrow> run_ops (map_option (\<lambda>k. k - 1) fault) xs fs')"

definition raw_path :: "string \<Rightarrow> string" where "raw_path out_path = out_path @ ''.raw.onnx''"
definition data_path :: "string \<Rightarrow> string" where "data_path out_path = out_path @ ''.raw.onnx.data''"
definition embed_path :: "string \<Rightarrow> string" where "embed_path out_path = out_path @ ''.embed.tmp''"

text \<open>The file operations of \<open>export_onnx\<close>; \<open>ext\<close>: the exporter splits the weights off.\<close>

definition export_onnx :: "'m \<Rightarrow> bool \<Rightarrow> string \<Rightarrow> 'm fs_op list" where
  "export_onnx model ext out_path =
     Begin (raw_path out_path) #
     (if ext then [Begin (data_path out_path), Finish (data_path out_path) ExtData] else []) @
     [Finish (raw_path out_path) (RawModel model),
      Load (raw_path out_path), Begin (embed_path out_path), Finish (embed_path out_path) (FullModel model),
      Replace (embed_path out_path) out_path,
      RemoveIf (raw_path out_path), RemoveIf (data_path out_path)]"

section \<open>One round\<close>

record rstate =
  rs_round :: nat
  rs_exports :: nat
  rs_last_loss :: real
  rs_exported_at :: int

record rargs =
  ra_window :: int
  ra_min_rows :: int
  ra_epochs :: nat
  ra_batch_size :: int
  ra_out :: string
  ra_status :: string

text \<open>
  What a round gets from outside: the outcome log (or the error of reading it), the model and bin count of the warm start (or the
  error of loading it), the permutation of each epoch, the clock, and the faults of the export and of
  its two status writes.
\<close>

record 'm round_in =
  in_log :: "string list option res"
  in_warm :: "('m \<times> nat) res"
  in_perm :: "nat \<Rightarrow> nat list"
  in_time :: real
  in_ext :: bool
  in_export_fault :: "nat option"
  in_status_fault :: "bool \<Rightarrow> nat option"

record 'm world =
  w_state :: rstate
  w_fs :: "'m fs"

definition status_payload :: "rargs \<Rightarrow> rstate \<Rightarrow> string \<Rightarrow> nat \<Rightarrow> real \<Rightarrow> payload" where
  "status_payload args st status rows last_loss =
     \<lparr>pl_round = rs_round st, pl_exports = rs_exports st, pl_rows = rows, pl_last_loss = last_loss,
      pl_exported_at = rs_exported_at st, pl_model_version = real (rs_exports st),
      pl_window = ra_window args, pl_status = status\<rparr>"

text \<open>\<open>write_status\<close>: no path, no write; every error is swallowed.\<close>

definition status_ops :: "string \<Rightarrow> payload \<Rightarrow> 'm fs_op list" where
  "status_ops path pl =
     [Begin (path @ ''.tmp''), Finish (path @ ''.tmp'') (StatusFile pl), Replace (path @ ''.tmp'') path]"

definition write_status :: "rargs \<Rightarrow> nat option \<Rightarrow> rstate \<Rightarrow> string \<Rightarrow> nat \<Rightarrow> real \<Rightarrow> 'm fs \<Rightarrow> 'm fs" where
  "write_status args fault st status rows last_loss fs =
     (if ra_status args = [] then fs
      else fst (run_ops fault (status_ops (ra_status args) (status_payload args st status rows last_loss)) fs))"

type_synonym ('m, 's) opt_step = "train_row list \<Rightarrow> 'm \<Rightarrow> 's \<Rightarrow> ('m \<times> 's \<times> real) res"

text \<open>\<open>for i in range(0, n, bs): idx = perm[i:i + bs]\<close>.\<close>

definition round_batches :: "int \<Rightarrow> nat list \<Rightarrow> train_row list \<Rightarrow> train_row list list res" where
  "round_batches bs perm rows =
     (if bs = 0 then Inl ValueError
      else Inr (map (\<lambda>(i, j). gather rows (slice i j perm))
                  (if bs < 0 then [] else chunk_spans_from 0 (length rows) (nat bs))))"

fun epoch_steps :: "('m, 's) opt_step \<Rightarrow> train_row list list \<Rightarrow> 'm \<Rightarrow> 's \<Rightarrow> real \<Rightarrow> nat \<Rightarrow> ('m \<times> 's \<times> real \<times> nat) res" where
  "epoch_steps step [] m s sum_loss steps = Inr (m, s, sum_loss, steps)"
| "epoch_steps step (b # bs) m s sum_loss steps =
     res_bind (step b m s) (\<lambda>(m', s', loss). epoch_steps step bs m' s' (sum_loss + loss) (steps + 1))"

definition round4 :: "real \<Rightarrow> real" where
  "round4 x = real_of_int (round_even (x * 10000)) / 10000"

fun run_epochs :: "('m, 's) opt_step \<Rightarrow> int \<Rightarrow> (nat \<Rightarrow> nat list) \<Rightarrow> train_row list \<Rightarrow> nat list \<Rightarrow> 'm \<Rightarrow> 's \<Rightarrow> real
    \<Rightarrow> ('m \<times> real) res" where
  "run_epochs step bs perm rows [] m s last_loss = Inr (m, last_loss)"
| "run_epochs step bs perm rows (e # es) m s last_loss =
     res_bind (round_batches bs (perm e) rows) (\<lambda>batches.
     res_bind (epoch_steps step batches m s 0 0) (\<lambda>(m', s', sum_loss, steps).
       run_epochs step bs perm rows es m' s' (round4 (sum_loss / real (max 1 steps)))))"

text \<open>
  \<open>train_round\<close>: the result is the number of rows or the error that ends the round, and the world it
  leaves either way.
\<close>

record ('m, 's) host =
  h_repr :: "json \<Rightarrow> string"
  h_float :: "string \<Rightarrow> real option"
  h_loads :: "string \<Rightarrow> json option"
  h_opt0 :: "'m \<Rightarrow> 's"
  h_step :: "('m, 's) opt_step"

definition fine_tune :: "('m, 's) host \<Rightarrow> feature_cfg \<Rightarrow> rargs \<Rightarrow> 'm round_in \<Rightarrow> json list \<Rightarrow> real
    \<Rightarrow> ('m \<times> real \<times> nat) res" where
  "fine_tune h cfg args inp rows last_loss =
     res_bind (in_warm inp) (\<lambda>(model, num_bins).
     res_bind (build_tensors (h_repr h) (h_float h) rows cfg num_bins) (\<lambda>data.
     res_bind (run_epochs (h_step h) (ra_batch_size args) (in_perm inp) data [0..<ra_epochs args] model (h_opt0 h model) last_loss)
       (\<lambda>(m, loss). Inr (m, loss, length data))))"

definition train_round :: "('m, 's) host \<Rightarrow> feature_cfg \<Rightarrow> rargs \<Rightarrow> 'm round_in \<Rightarrow> 'm world \<Rightarrow> nat res \<times> 'm world" where
  "train_round h cfg args inp w =
     (let st = (w_state w)\<lparr>rs_round := rs_round (w_state w) + 1\<rparr>
      in case read_window (h_loads h) (in_log inp) (ra_window args) of
        Inl e \<Rightarrow> (Inl e, \<lparr>w_state = st, w_fs = w_fs w\<rparr>)
      | Inr rows \<Rightarrow>
         if int (length rows) < ra_min_rows args then
           (Inr 0, \<lparr>w_state = st, w_fs = write_status args (in_status_fault inp False) st ''waiting'' (length rows) (rs_last_loss st) (w_fs w)\<rparr>)
         else
           let fs1 = write_status args (in_status_fault inp False) st ''training'' (length rows) (rs_last_loss st) (w_fs w)
           in case fine_tune h cfg args inp rows (rs_last_loss st) of
                Inl e \<Rightarrow> (Inl e, \<lparr>w_state = st, w_fs = fs1\<rparr>)
              | Inr (m, loss, n) \<Rightarrow>
                  (case run_ops (in_export_fault inp) (export_onnx m (in_ext inp) (ra_out args)) fs1 of
                     (fs2, Inl e) \<Rightarrow> (Inl e, \<lparr>w_state = st, w_fs = fs2\<rparr>)
                   | (fs2, Inr _) \<Rightarrow>
                       let st2 = st\<lparr>rs_exports := rs_exports st + 1, rs_last_loss := loss,
                                    rs_exported_at := trunc_int (in_time inp)\<rparr>
                       in (Inr n, \<lparr>w_state = st2, w_fs = write_status args (in_status_fault inp True) st2 ''exported'' n loss fs2\<rparr>)))"

section \<open>The loop\<close>

definition rstate0 :: rstate where
  "rstate0 = \<lparr>rs_round = 0, rs_exports = 0, rs_last_loss = 0, rs_exported_at = 0\<rparr>"

text \<open>The unbounded loop over the rounds so far: an exception of a round is printed and dropped.\<close>

definition retrain_loop :: "('m, 's) host \<Rightarrow> feature_cfg \<Rightarrow> rargs \<Rightarrow> 'm round_in list \<Rightarrow> 'm world \<Rightarrow> 'm world" where
  "retrain_loop h cfg args inps w = foldl (\<lambda>w inp. snd (train_round h cfg args inp w)) w inps"

text \<open>\<open>main\<close>, with and without \<open>--once\<close>.\<close>

definition main_retrain :: "('m, 's) host \<Rightarrow> feature_cfg \<Rightarrow> rargs \<Rightarrow> bool \<Rightarrow> 'm round_in \<Rightarrow> 'm round_in list \<Rightarrow> 'm fs \<Rightarrow> nat res \<times> 'm world" where
  "main_retrain h cfg args once inp inps fs =
     (let w = \<lparr>w_state = rstate0, w_fs = fs\<rparr>
      in if once then train_round h cfg args inp w else (Inr 0, retrain_loop h cfg args (inp # inps) w))"

section \<open>Atomic replacement of a file\<close>

text \<open>
  The contract of both writers: wherever their operations are cut off, the target has its old or its
  complete new content, and nothing but the target and the temporary files has changed.
\<close>

locale atomic_write =
  fixes ops :: "'m fs_op list" and target :: string and new :: "'m content" and tmps :: "string set"
  assumes only_tmps: "q \<noteq> target \<Longrightarrow> q \<notin> tmps \<Longrightarrow> fst (run_ops fault ops fs) q = fs q"
    and old_or_new: "fst (run_ops fault ops fs) target = fs target \<or> fst (run_ops fault ops fs) target = Some new"
    and completes: "snd (run_ops None ops fs) = Inr () \<and> fst (run_ops None ops fs) target = Some new"
    and finished: "snd (run_ops fault ops fs) = Inr () \<Longrightarrow> fst (run_ops fault ops fs) target = Some new"
begin

text \<open>What holds of the old and the new content holds of every content a reader can see.\<close>

lemma observed:
  "(\<And>c. fs target = Some c \<Longrightarrow> P c) \<Longrightarrow> P new \<Longrightarrow> fst (run_ops fault ops fs) target = Some c \<Longrightarrow> P c"
  using old_or_new [of fault fs] by auto

lemma present: "fs target = Some c \<Longrightarrow> \<exists>c'. fst (run_ops fault ops fs) target = Some c'"
  using old_or_new [of fault fs] by auto

end

text \<open>A fault cuts the operations off at a prefix.\<close>

lemma run_ops_fault:
  "run_ops (Some k) xs fs =
     (if k < length xs \<and> snd (run_ops None (take k xs) fs) = Inr () then (fst (run_ops None (take k xs) fs), Inl OSError)
      else run_ops None (take k xs) fs)"
proof (induction xs arbitrary: k fs)
  case (Cons x xs)
  show ?case
    by (cases k; cases "fs_step x fs") (simp_all add: Cons.IH)
qed simp

lemma run_ops_prefixes:
  assumes "\<forall>ys \<in> set (prefixes xs). P (fst (run_ops None ys fs))"
  shows "P (fst (run_ops fault xs fs))"
proof (cases fault)
  case None
  then show ?thesis using assms by (simp add: in_set_prefixes)
next
  case (Some k)
  then show ?thesis using assms by (simp add: run_ops_fault in_set_prefixes take_is_prefix)
qed

lemma run_ops_finished:
  assumes "snd (run_ops fault xs fs) = Inr ()"
  shows "fst (run_ops fault xs fs) = fst (run_ops None xs fs)"
proof (cases fault)
  case (Some k)
  then have "\<not> k < length xs" using assms by (auto simp: run_ops_fault split: if_splits)
  then show ?thesis by (simp add: Some run_ops_fault)
qed simp

lemmas path_defs = raw_path_def data_path_def embed_path_def

interpretation export_write:
  atomic_write "export_onnx m ext out_path" out_path "FullModel m" "{raw_path out_path, data_path out_path, embed_path out_path}"
  for m :: 'm and ext out_path
proof
  fix fs :: "'m fs" and q fault
  let ?ops = "export_onnx m ext out_path"
  show "fst (run_ops fault ?ops fs) out_path = fs out_path \<or> fst (run_ops fault ?ops fs) out_path = Some (FullModel m)"
    by (rule run_ops_prefixes) (cases ext; simp add: export_onnx_def path_defs)
  show "q \<noteq> out_path \<Longrightarrow> q \<notin> {raw_path out_path, data_path out_path, embed_path out_path} \<Longrightarrow>
      fst (run_ops fault ?ops fs) q = fs q"
    by (rule run_ops_prefixes) (cases ext; simp add: export_onnx_def path_defs)
  show c: "snd (run_ops None ?ops fs) = Inr () \<and> fst (run_ops None ?ops fs) out_path = Some (FullModel m)"
    by (cases ext) (simp_all add: export_onnx_def path_defs)
  show "snd (run_ops fault ?ops fs) = Inr () \<Longrightarrow> fst (run_ops fault ?ops fs) out_path = Some (FullModel m)"
    using c run_ops_finished [of fault ?ops fs] by simp
qed

interpretation status_write:
  atomic_write "status_ops path pl :: 'm fs_op list" path "StatusFile pl" "{path @ ''.tmp''}" for path pl
proof
  fix fs :: "'m fs" and q fault
  let ?ops = "status_ops path pl :: 'm fs_op list"
  show "fst (run_ops fault ?ops fs) path = fs path \<or> fst (run_ops fault ?ops fs) path = Some (StatusFile pl)"
    by (rule run_ops_prefixes) (simp add: status_ops_def)
  show "q \<noteq> path \<Longrightarrow> q \<notin> {path @ ''.tmp''} \<Longrightarrow> fst (run_ops fault ?ops fs) q = fs q"
    by (rule run_ops_prefixes) (simp add: status_ops_def)
  show c: "snd (run_ops None ?ops fs) = Inr () \<and> fst (run_ops None ?ops fs) path = Some (StatusFile pl)"
    by (simp add: status_ops_def)
  show "snd (run_ops fault ?ops fs) = Inr () \<Longrightarrow> fst (run_ops fault ?ops fs) path = Some (StatusFile pl)"
    using c run_ops_finished [of fault ?ops fs] by simp
qed

section \<open>Readers of the files\<close>

text \<open>
  The retrainer interleaved with the processes that read its files, at the grain of single file
  operations: an idle retrainer starts an export or a status write, takes the next operation, or stops
  in the middle (an exception, a killed container) and later starts over on the files it left.
\<close>

inductive reach :: "rargs \<Rightarrow> 'm fs \<Rightarrow> 'm fs \<Rightarrow> 'm fs_op list \<Rightarrow> bool" for args fs0 where
  start: "reach args fs0 fs0 []"
| begin_export: "reach args fs0 fs [] \<Longrightarrow> reach args fs0 fs (export_onnx m ext (ra_out args))"
| begin_status: "reach args fs0 fs [] \<Longrightarrow> reach args fs0 fs (status_ops (ra_status args) pl)"
| op: "reach args fs0 fs (x # xs) \<Longrightarrow> fs_step x fs = Inr fs' \<Longrightarrow> reach args fs0 fs' xs"
| stop: "reach args fs0 fs xs \<Longrightarrow> reach args fs0 fs []"

fun is_full :: "'m content \<Rightarrow> bool" where
  "is_full (FullModel m) = True"
| "is_full _ = False"

fun is_status :: "'m content \<Rightarrow> bool" where
  "is_status (StatusFile pl) = True"
| "is_status _ = False"

text \<open>The paths the retrainer writes are distinct.\<close>

definition tmp_path :: "string \<Rightarrow> string" where "tmp_path path = path @ ''.tmp''"

definition paths_ok :: "rargs \<Rightarrow> bool" where
  "paths_ok args \<longleftrightarrow> distinct [ra_out args, raw_path (ra_out args), data_path (ra_out args), embed_path (ra_out args),
     ra_status args, tmp_path (ra_status args)]"

definition files_ok :: "rargs \<Rightarrow> 'm fs \<Rightarrow> bool" where
  "files_ok args fs \<longleftrightarrow>
     (\<forall>c. fs (ra_out args) = Some c \<longrightarrow> is_full c) \<and> (\<forall>c. fs (ra_status args) = Some c \<longrightarrow> is_status c)"

lemma export_files_ok:
  assumes "paths_ok args" and "files_ok args fs"
  shows "files_ok args (fst (run_ops fault (export_onnx m ext (ra_out args)) fs))"
  using assms export_write.observed [of fs "ra_out args" is_full m fault ext]
    export_write.only_tmps [of "ra_status args" "ra_out args" fault m ext fs]
  by (auto simp: files_ok_def paths_ok_def)

lemma status_files_ok:
  assumes "paths_ok args" and "files_ok args fs"
  shows "files_ok args (fst (run_ops fault (status_ops (ra_status args) pl) fs))"
  using assms status_write.observed [of fs "ra_status args" is_status pl fault]
    status_write.only_tmps [of "ra_out args" "ra_status args" fault pl fs]
  by (auto simp: files_ok_def paths_ok_def tmp_path_def)

lemma reach_inv:
  assumes "reach args fs0 fs xs" and "paths_ok args" and "files_ok args fs0"
  shows "files_ok args (fst (run_ops fault xs fs))"
  using assms(1)
proof (induction arbitrary: fault)
  case (begin_export fs m ext)
  have "files_ok args fs" using begin_export.IH [of None] by simp
  then show ?case by (rule export_files_ok [OF assms(2)])
next
  case (begin_status fs pl)
  have "files_ok args fs" using begin_status.IH [of None] by simp
  then show ?case by (rule status_files_ok [OF assms(2)])
next
  case (op fs x xs fs')
  show ?case using op.IH [of "map_option Suc fault"] op.hyps(2) by (cases fault) simp_all
next
  case (stop fs xs)
  show ?case using stop.IH [of "Some 0"] by (cases xs) simp_all
qed (use assms(3) in simp)

text \<open>
  C2: Readers never see a half-written file. Whatever operation the retrainer is at and however often
  it was stopped in the middle of an export or a status write before, the model file holds a complete
  model with embedded weights and the status file a complete status, if they exist.
\<close>

theorem readers_see_complete_files:
  assumes "reach args fs0 fs xs" and "paths_ok args" and "files_ok args fs0"
  shows "(\<forall>c. fs (ra_out args) = Some c \<longrightarrow> is_full c) \<and> (\<forall>c. fs (ra_status args) = Some c \<longrightarrow> is_status c)"
proof -
  have "files_ok args (fst (run_ops (Some 0) xs fs))" by (rule reach_inv [OF assms])
  then show ?thesis by (cases xs) (simp_all add: files_ok_def)
qed

definition demo_args :: rargs where
  "demo_args = \<lparr>ra_window = 5, ra_min_rows = 1, ra_epochs = 2, ra_batch_size = 2, ra_out = ''bid.onnx'', ra_status = ''s.json''\<rparr>"

lemma demo_paths: "paths_ok demo_args"
  by (simp add: paths_ok_def demo_args_def path_defs tmp_path_def)

lemma reach_run:
  "reach args fs0 fs (xs @ ys) \<Longrightarrow> run_ops None xs fs = (fs', Inr ()) \<Longrightarrow> reach args fs0 fs' ys"
proof (induction xs arbitrary: fs)
  case (Cons x xs)
  then show ?case by (cases "fs_step x fs") (auto dest: op)
qed simp

text \<open>The exporter is stopped while it writes the embedded model.\<close>

lemma demo_reach:
  defines "fs \<equiv> Map.empty(''bid.onnx'' \<mapsto> FullModel (7 :: nat))"
  shows "reach demo_args fs (fs(''bid.onnx.raw.onnx'' \<mapsto> RawModel 8, ''bid.onnx.embed.tmp'' \<mapsto> Partial))
    (drop 4 (export_onnx 8 False ''bid.onnx''))"
proof -
  have "reach demo_args fs fs (export_onnx 8 False (ra_out demo_args))" by (intro begin_export start)
  then have r: "reach demo_args fs fs (take 4 (export_onnx 8 False ''bid.onnx'') @ drop 4 (export_onnx 8 False ''bid.onnx''))"
    by (simp only: append_take_drop_id demo_args_def rargs.simps)
  show ?thesis
    by (rule reach_run [OF r]) (simp add: export_onnx_def path_defs)
qed

theorem readers_see_complete_files_witness:
  "\<exists>fs :: nat fs. \<exists>xs. reach demo_args (Map.empty(''bid.onnx'' \<mapsto> FullModel 7)) fs xs \<and> fs ''bid.onnx.embed.tmp'' = Some Partial \<and>
    (\<forall>c. fs (ra_out demo_args) = Some c \<longrightarrow> is_full c)"
proof -
  let ?fs0 = "Map.empty(''bid.onnx'' \<mapsto> FullModel (7 :: nat))"
  have "files_ok demo_args ?fs0" by (simp add: files_ok_def demo_args_def)
  then show ?thesis
    using readers_see_complete_files [OF demo_reach demo_paths] demo_reach
    by (intro exI [of _ "?fs0(''bid.onnx.raw.onnx'' \<mapsto> RawModel 8, ''bid.onnx.embed.tmp'' \<mapsto> Partial)"]
        exI [of _ "drop 4 (export_onnx 8 False ''bid.onnx'')"] conjI) simp_all
qed

section \<open>What a round does to the world\<close>

definition round_rows :: "('m, 's) host \<Rightarrow> rargs \<Rightarrow> 'm round_in \<Rightarrow> json list res" where
  "round_rows h args inp = read_window (h_loads h) (in_log inp) (ra_window args)"

definition tuned :: "('m, 's) host \<Rightarrow> feature_cfg \<Rightarrow> rargs \<Rightarrow> 'm round_in \<Rightarrow> real \<Rightarrow> 'm \<Rightarrow> bool" where
  "tuned h cfg args inp l m \<longleftrightarrow> 
     (\<exists>rows loss n. round_rows h args inp = Inr rows \<and> fine_tune h cfg args inp rows l = Inr (m, loss, n))"

text \<open>The status write leaves every file alone but the status file and its temporary.\<close>

lemma write_status_other:
  "q \<noteq> ra_status args \<Longrightarrow> q \<noteq> tmp_path (ra_status args) \<Longrightarrow> write_status args fault st status n loss fs q = fs q"
  using status_write.only_tmps [of q "ra_status args" fault "status_payload args st status n loss" fs]
  by (simp add: write_status_def tmp_path_def)

lemma write_status_done:
  "ra_status args \<noteq> [] \<Longrightarrow>
   write_status args None st status n loss fs (ra_status args) = Some (StatusFile (status_payload args st status n loss))"
  using status_write.completes [of "ra_status args" "status_payload args st status n loss" fs]
  by (simp add: write_status_def)

text \<open>The ways a round goes: no or not enough rows, an error, an export.\<close>

lemma train_round_cases:
  assumes "paths_ok args"
  shows "let (r, w') = train_round h cfg args inp w; st = w_state w; st' = w_state w' in
    rs_round st' = rs_round st + 1 \<and>
    (rs_exports st' = rs_exports st \<and> rs_last_loss st' = rs_last_loss st \<and> rs_exported_at st' = rs_exported_at st \<and>
       (w_fs w' (ra_out args) = w_fs w (ra_out args) \<or>
        (\<exists>m. tuned h cfg args inp (rs_last_loss st) m \<and> w_fs w' (ra_out args) = Some (FullModel m) \<and> \<not> is_ok r))
     \<or> rs_exports st' = rs_exports st + 1 \<and> is_ok r \<and>
       (\<exists>m. tuned h cfg args inp (rs_last_loss st) m \<and> w_fs w' (ra_out args) = Some (FullModel m)))"
proof -
  let ?st = "(w_state w)\<lparr>rs_round := rs_round (w_state w) + 1\<rparr>"
  have o: "write_status args k st status n loss fs (ra_out args) = fs (ra_out args)" for k st status n loss fs
    using assms by (intro write_status_other) (simp_all add: paths_ok_def)
  note d = train_round_def [of h cfg args inp w, folded round_rows_def, unfolded Let_def]
  show ?thesis
  proof (cases "round_rows h args inp")
    case (Inr rows)
    let ?fs1 = "write_status args (in_status_fault inp False) ?st ''training'' (length rows) (rs_last_loss ?st) (w_fs w)"
    consider "int (length rows) < ra_min_rows args"
      | e where "\<not> int (length rows) < ra_min_rows args" "fine_tune h cfg args inp rows (rs_last_loss ?st) = Inl e"
      | m loss n where "\<not> int (length rows) < ra_min_rows args"
          "fine_tune h cfg args inp rows (rs_last_loss ?st) = Inr (m, loss, n)"
      by (cases "fine_tune h cfg args inp rows (rs_last_loss ?st)") auto
    then show ?thesis
    proof cases
      case (3 m loss n)
      have tm: "tuned h cfg args inp (rs_last_loss (w_state w)) m" using 3(2) Inr by (auto simp: tuned_def)
      obtain fs2 r2 where x: "run_ops (in_export_fault inp) (export_onnx m (in_ext inp) (ra_out args)) ?fs1 = (fs2, r2)"
        by (meson surj_pair)
      have "fs2 (ra_out args) = w_fs w (ra_out args) \<or> fs2 (ra_out args) = Some (FullModel m)"
        using export_write.old_or_new [of "in_export_fault inp" m "in_ext inp" "ra_out args" ?fs1] unfolding x fst_conv o .
      moreover have "fs2 (ra_out args) = Some (FullModel m)" if "r2 = Inr ()"
        using export_write.finished [of "in_export_fault inp" m "in_ext inp" "ra_out args" ?fs1] that unfolding x by simp
      ultimately show ?thesis
        using 3 Inr tm x [simplified] by (cases r2) (auto simp: d o)
    qed (use Inr in \<open>simp_all add: d o\<close>)
  qed (simp add: d)
qed

section \<open>Any number of rounds\<close>

lemma retrain_loop_simps [simp]:
  "retrain_loop h cfg args [] w = w"
  "retrain_loop h cfg args (inp # inps) w = retrain_loop h cfg args inps (snd (train_round h cfg args inp w))"
  by (simp_all add: retrain_loop_def)

lemma retrain_loop_append:
  "retrain_loop h cfg args (inps @ inps') w = retrain_loop h cfg args inps' (retrain_loop h cfg args inps w)"
  by (simp add: retrain_loop_def)

text \<open>
  C16: Over any rounds, whatever fails in them: the round counter counts them all, the export counter
  grows by at most one a round, and the model file either is untouched, and then nothing has been
  exported, or holds a model that one of the rounds fine-tuned from the warm start on its own window.
\<close>

theorem loop_counts_and_provenance:
  assumes "paths_ok args"
  shows "let w' = retrain_loop h cfg args inps w; st = w_state w; st' = w_state w' in
    rs_round st' = rs_round st + length inps \<and>
    rs_exports st \<le> rs_exports st' \<and> rs_exports st' \<le> rs_exports st + length inps \<and>
    (rs_exports st' = rs_exports st \<and> w_fs w' (ra_out args) = w_fs w (ra_out args) \<or>
     (\<exists>inp \<in> set inps. \<exists>l m. tuned h cfg args inp l m \<and> w_fs w' (ra_out args) = Some (FullModel m)))"
proof (induction inps arbitrary: w)
  case (Cons inp inps)
  obtain r w1 where w1: "train_round h cfg args inp w = (r, w1)" by (cases "train_round h cfg args inp w")
  show ?case
    using Cons.IH [of w1] train_round_cases [OF assms, of h cfg inp w] unfolding w1 by (auto simp: Let_def w1)
qed (simp add: Let_def)

section \<open>Training in a round\<close>

interpretation gather_rows: rowwise "gather xs" for xs :: "'a list"
  by unfold_locales (simp_all add: gather_def)

lemma gather_permute: "mset perm = mset [0..<length xs] \<Longrightarrow> mset (gather xs perm) = mset xs"
  by (metis gather_def map_nth mset_map)

text \<open>
  One epoch of a round visits every row of the window exactly once, in batches of at most
  \<open>batch_size\<close> rows, whatever permutation is drawn.
\<close>

theorem epoch_visits_each_row_once:
  assumes "0 < bs" and "mset perm = mset [0..<length rows]"
  shows "\<exists>batches. round_batches bs perm rows = Inr batches \<and> mset (concat batches) = mset rows \<and>
    (\<forall>b \<in> set batches. b \<noteq> [] \<and> int (length b) \<le> bs)"
proof -
  have n: "length perm = length rows" using mset_eq_length [OF assms(2)] by simp
  let ?bs = "map (\<lambda>(i, j). gather rows (slice i j perm)) (chunk_spans_from 0 (length rows) (nat bs))"
  have "concat ?bs = gather rows perm"
    using gather_rows.chunks_from [of "nat bs" rows perm 0] assms(1) by (simp add: n)
  moreover have "\<forall>b \<in> set ?bs. b \<noteq> [] \<and> int (length b) \<le> bs"
    using chunk_spans_bounds assms(1) n by (fastforce simp: gather_def slice_def)
  ultimately show ?thesis
    using assms gather_permute [OF assms(2)] by (simp add: round_batches_def)
qed

theorem epoch_visits_each_row_once_witness:
  "let r = (\<lambda>k. \<lparr>tr_cat = [k], tr_cont = [], tr_tags = [], tr_label = 0\<rparr>) in
    \<exists>batches. round_batches 2 [2, 0, 1] [r 1, r 2, r 3] = Inr batches \<and> mset (concat batches) = {#r 1, r 2, r 3#}"
  using epoch_visits_each_row_once [of 2 "[2, 0, 1]" "map (\<lambda>k. \<lparr>tr_cat = [k], tr_cont = [], tr_tags = [], tr_label = 0\<rparr>) [1, 2, 3]"]
  by (auto simp: upt_rec Let_def)

text \<open>Fine-tuning succeeds when the warm start loads, the window encodes and no optimizer step fails.\<close>

lemma epoch_steps_ok:
  "\<forall>b m s. is_ok (step b m s) \<Longrightarrow> \<exists>m' s' l k. epoch_steps step bs m s a n = Inr (m', s', l, k)"
proof (induction bs arbitrary: m s a n)
  case (Cons b bs)
  then obtain m' s' l where "step b m s = Inr (m', s', l)" by (metis is_ok_iff surj_pair)
  then show ?case using Cons by simp
qed simp

lemma run_epochs_ok:
  assumes "\<forall>b m s. is_ok (step b m s)" and "bs \<noteq> 0"
  shows "\<exists>m' l'. run_epochs step bs perm rows es m s l = Inr (m', l')"
proof (induction es arbitrary: m s l)
  case (Cons e es)
  obtain batches where b: "round_batches bs (perm e) rows = Inr batches" using assms(2) by (simp add: round_batches_def)
  obtain m' s' a k where "epoch_steps step batches m s 0 0 = Inr (m', s', a, k)"
    using epoch_steps_ok [OF assms(1)] by blast
  then show ?case using Cons.IH b by simp
qed simp

lemma fine_tune_ok:
  assumes "in_warm inp = Inr (m0, nb)" and "build_tensors (h_repr h) (h_float h) rows cfg nb = Inr data"
    and "\<forall>b m s. is_ok (h_step h b m s)" and "ra_batch_size args \<noteq> 0"
  shows "\<exists>m loss. fine_tune h cfg args inp rows l = Inr (m, loss, length rows)"
proof -
  obtain m loss where "run_epochs (h_step h) (ra_batch_size args) (in_perm inp) data [0..<ra_epochs args] m0 (h_opt0 h m0) l = Inr (m, loss)"
    using run_epochs_ok [OF assms(3,4)] by blast
  then show ?thesis
    using assms(1,2) res_map_length [OF assms(2) [unfolded build_tensors_def]] by (simp add: fine_tune_def)
qed

text \<open>
  C17: The loop recovers. After any rounds, with any faults, from any files: a round with enough
  readable records that encode, a warm start that loads, steps that do not fail and no fault of the
  file system exports. Its result is the number of rows; the model file holds the model fine-tuned in
  this round, the temporary files are gone, the export counter has grown by one and the status file
  reports all this as version \<open>exports\<close>.
\<close>

theorem retrainer_recovers:
  assumes "paths_ok args" and "ra_status args \<noteq> []" and "ra_batch_size args \<noteq> 0"
    and "round_rows h args inp = Inr rows" and "ra_min_rows args \<le> int (length rows)"
    and "in_warm inp = Inr (m0, nb)" and "is_ok (build_tensors (h_repr h) (h_float h) rows cfg nb)"
    and "\<forall>b m s. is_ok (h_step h b m s)" and "in_export_fault inp = None" and "in_status_fault inp = (\<lambda>_. None)"
  shows "let w = retrain_loop h cfg args inps w0; w' = retrain_loop h cfg args (inps @ [inp]) w0; out_path = ra_out args;
      n = length rows; st' = w_state w' in
    fst (train_round h cfg args inp w) = Inr n \<and> rs_exports st' = rs_exports (w_state w) + 1 \<and>
    (\<exists>m. tuned h cfg args inp (rs_last_loss (w_state w)) m \<and> w_fs w' out_path = Some (FullModel m)) \<and>
    w_fs w' (raw_path out_path) = None \<and> w_fs w' (data_path out_path) = None \<and> w_fs w' (embed_path out_path) = None \<and>
    w_fs w' (ra_status args) = Some (StatusFile
      \<lparr>pl_round = rs_round st', pl_exports = rs_exports st', pl_rows = n, pl_last_loss = rs_last_loss st',
       pl_exported_at = trunc_int (in_time inp), pl_model_version = real (rs_exports st'),
       pl_window = ra_window args, pl_status = ''exported''\<rparr>)"
proof -
  define w where "w = retrain_loop h cfg args inps w0"
  obtain data where data: "build_tensors (h_repr h) (h_float h) rows cfg nb = Inr data"
    using assms(7) by (auto simp: is_ok_iff)
  obtain m loss where ft: "fine_tune h cfg args inp rows (rs_last_loss (w_state w)) = Inr (m, loss, length rows)"
    using fine_tune_ok [OF assms(6) data assms(8,3)] by blast
  have tm: "tuned h cfg args inp (rs_last_loss (w_state w)) m" using ft assms(4) by (auto simp: tuned_def)
  define st2 where "st2 = (w_state w)\<lparr>rs_round := rs_round (w_state w) + 1, rs_exports := rs_exports (w_state w) + 1,
    rs_last_loss := loss, rs_exported_at := trunc_int (in_time inp)\<rparr>"
  define fs1 where "fs1 = write_status args None ((w_state w)\<lparr>rs_round := rs_round (w_state w) + 1\<rparr>) ''training''
    (length rows) (rs_last_loss (w_state w)) (w_fs w)"
  define fs2 where "fs2 = fst (run_ops None (export_onnx m (in_ext inp) (ra_out args)) fs1)"
  have x: "run_ops None (export_onnx m (in_ext inp) (ra_out args)) fs1 = (fs2, Inr ())"
    using export_write.completes [of m "in_ext inp" "ra_out args" fs1] by (simp add: fs2_def prod_eq_iff)
  define fs3 where "fs3 = write_status args None st2 ''exported'' (length rows) loss fs2"
  have r: "train_round h cfg args inp w = (Inr (length rows), \<lparr>w_state = st2, w_fs = fs3\<rparr>)"
    using assms(5) ft x
    by (simp add: train_round_def round_rows_def [symmetric] Let_def assms(4,9,10) fs1_def st2_def fs3_def)
  have p: "fs3 q = fs2 q"
    if "q \<in> {ra_out args, raw_path (ra_out args), data_path (ra_out args), embed_path (ra_out args)}" for q
    unfolding fs3_def using that assms(1) by (intro write_status_other) (auto simp: paths_ok_def)
  have st: "fs3 (ra_status args) = Some (StatusFile (status_payload args st2 ''exported'' (length rows) loss))"
    unfolding fs3_def by (rule write_status_done [OF assms(2)])
  have gone: "fs2 (ra_out args) = Some (FullModel m)" "fs2 (raw_path (ra_out args)) = None"
    "fs2 (data_path (ra_out args)) = None" "fs2 (embed_path (ra_out args)) = None"
    unfolding fs2_def by (cases "in_ext inp"; simp add: export_onnx_def path_defs)+
  show ?thesis
    using tm
    by (auto simp: retrain_loop_append w_def [symmetric] r p gone st status_payload_def Let_def st2_def)
qed

text \<open>
  C39: A round that raises leaves the counters and the last loss of the state as they were, apart from the
  round number, and never a broken model file. If it could read the log, and unless the error hit the status
  write itself, the status file goes on reporting \<open>training\<close> until the next round: the handler in the loop
  writes no status. If it could not read the log, no file has changed at all.
\<close>

theorem failed_round_status_stale:
  assumes "paths_ok args" and "ra_status args \<noteq> []" and "in_status_fault inp False = None"
    and "train_round h cfg args inp w = (Inl e, w')"
  shows "w_state w' = (w_state w)\<lparr>rs_round := rs_round (w_state w) + 1\<rparr> \<and>
    (w_fs w' (ra_out args) = w_fs w (ra_out args) \<or> (\<exists>m. w_fs w' (ra_out args) = Some (FullModel m))) \<and>
    (case round_rows h args inp of
       Inl e' \<Rightarrow> e = e' \<and> w_fs w' = w_fs w
     | Inr rows \<Rightarrow> w_fs w' (ra_status args) = Some (StatusFile
         (status_payload args (w_state w') ''training'' (length rows) (rs_last_loss (w_state w)))))"
proof -
  let ?st = "(w_state w)\<lparr>rs_round := rs_round (w_state w) + 1\<rparr>"
  note d = assms(4) [unfolded train_round_def Let_def, folded round_rows_def]
  have model: "w_fs w' (ra_out args) = w_fs w (ra_out args) \<or> (\<exists>m. w_fs w' (ra_out args) = Some (FullModel m))"
    using train_round_cases [OF assms(1), of h cfg inp w] by (auto simp: assms(4) Let_def)
  show ?thesis
  proof (cases "round_rows h args inp")
    case (Inl e')
    then show ?thesis using d model by auto
  next
    case (Inr rows)
    let ?fs1 = "write_status args None ?st ''training'' (length rows) (rs_last_loss (w_state w)) (w_fs w)"
    have s1: "?fs1 (ra_status args) = Some (StatusFile (status_payload args ?st ''training'' (length rows) (rs_last_loss (w_state w))))"
      by (rule write_status_done [OF assms(2)])
    have "w_state w' = ?st \<and> w_fs w' (ra_status args) = ?fs1 (ra_status args)"
    proof (cases "fine_tune h cfg args inp rows (rs_last_loss (w_state w))")
      case (Inl e')
      then show ?thesis using d assms(3) Inr by (auto split: if_splits)
    next
      case t: (Inr t)
      obtain m loss n where m: "t = (m, loss, n)" by (cases t)
      obtain fs2 r2 where x: "run_ops (in_export_fault inp) (export_onnx m (in_ext inp) (ra_out args)) ?fs1 = (fs2, r2)"
        by (meson surj_pair)
      have "fs2 (ra_status args) = ?fs1 (ra_status args)"
        using export_write.only_tmps [of "ra_status args" "ra_out args" "in_export_fault inp" m "in_ext inp" ?fs1] assms(1)
        unfolding x fst_conv by (auto simp: paths_ok_def)
      then show ?thesis using d Inr t assms(3) x [simplified] by (cases r2) (auto simp: m split: if_splits)
    qed
    then show ?thesis using model s1 Inr by (simp add: status_payload_def)
  qed
qed

section \<open>A concrete loop\<close>

definition demo_cfg :: feature_cfg where
  "demo_cfg = \<lparr>cfg_cat_order = [''region''], cfg_cat_vocabs = [(''region'', [(''<UNK>'', 0), (''1'', 1)])],
     cfg_tag_vocab = [(''<PAD>'', 0), (''10006'', 1)], cfg_cont_cols_order = [],
     cfg_cont_means = [(''log_floor_price'', 0), (''slot_area'', 75000), (''tag_count'', 1)],
     cfg_cont_stds = [(''log_floor_price'', 1), (''slot_area'', 100), (''tag_count'', 1)],
     cfg_tag_max_len = 2, cfg_tag_pad_idx = 0, cfg_num_bins = 301, cfg_embedding_dims = [], cfg_tag_emb_dim = 2\<rparr>"

definition demo_host :: "(nat, unit) host" where
  "demo_host = \<lparr>h_repr = (\<lambda>_. []), h_float = (\<lambda>_. None), h_loads = (\<lambda>_. Some demo_record),
     h_opt0 = (\<lambda>_. ()), h_step = (\<lambda>b m s. Inr (m + length b, s, 1 / 2))\<rparr>"

definition demo_in :: "(nat \<times> nat) res \<Rightarrow> nat round_in" where
  "demo_in warm = \<lparr>in_log = Inr (Some [''{}'', ''{}'', ''{}'']), in_warm = warm, in_perm = (\<lambda>_. [2, 0, 1]),
     in_time = 17, in_ext = True, in_export_fault = None, in_status_fault = (\<lambda>_. None)\<rparr>"

lemma demo_strip: "strip ''{}'' = ''{}''"
  by (simp add: strip_def is_space_def)

lemma demo_rows: "round_rows demo_host demo_args (demo_in warm) = Inr [demo_record, demo_record, demo_record]"
  by (simp add: round_rows_def demo_in_def demo_host_def demo_args_def read_window_def demo_strip)

lemma demo_weekday_ok: "\<exists>wd. weekday_monday0 20130608135001 = Inr wd"
  unfolding weekday_monday0_def datetime_weekday_def Let_def
  by (simp split: sum.split) (auto simp: date_weekday_def split: if_splits)

lemma demo_encodes: "is_ok (build_tensors (h_repr demo_host) (h_float demo_host) [demo_record, demo_record, demo_record] demo_cfg 301)"
proof -
  obtain wd where wd: "weekday_monday0 20130608135001 = Inr wd" using demo_weekday_ok by blast
  have "\<exists>c. encode_record (\<lambda>_. []) (\<lambda>_. None) demo_record demo_cfg = Inr c"
    by (simp add: encode_record_def demo_record_def demo_cfg_def dict_get_def cat_code_def scale_def float_div_def
        user_tags_of_def wd Let_def)
  then obtain c where c: "encode_record (\<lambda>_. []) (\<lambda>_. None) demo_record demo_cfg = Inr c" by blast
  have p: "rec_get demo_record ''clearing_price'' = Inr (JFloat (147 / 2))"
    by (simp add: demo_record_def dict_get_def)
  show ?thesis by (cases c) (simp add: build_tensors_def build_row_def demo_host_def c p)
qed

lemma demo_steps: "\<forall>b m s. is_ok (h_step demo_host b m s)"
  by (simp add: demo_host_def)

theorem retrainer_recovers_witness:
  "let inps = [demo_in (Inl OSError), demo_in (Inl OSError)]; good = demo_in (Inr (5, 301));
       w = retrain_loop demo_host demo_cfg demo_args inps \<lparr>w_state = rstate0, w_fs = Map.empty\<rparr>;
       w' = retrain_loop demo_host demo_cfg demo_args (inps @ [good]) \<lparr>w_state = rstate0, w_fs = Map.empty\<rparr>
   in fst (train_round demo_host demo_cfg demo_args good w) = Inr 3 \<and>
      (\<exists>m. w_fs w' ''bid.onnx'' = Some (FullModel m)) \<and> w_fs w' ''bid.onnx.embed.tmp'' = None"
proof -
  have args: "ra_status demo_args \<noteq> []" "ra_batch_size demo_args \<noteq> 0" "ra_out demo_args = ''bid.onnx''"
    "ra_min_rows demo_args \<le> int (length [demo_record, demo_record, demo_record])"
    by (simp_all add: demo_args_def)
  have inp: "in_warm (demo_in (Inr (5, 301))) = Inr (5, 301)" "in_export_fault (demo_in (Inr (5, 301))) = None"
    "in_status_fault (demo_in (Inr (5, 301))) = (\<lambda>_. None)"
    by (simp_all add: demo_in_def)
  show ?thesis
    using retrainer_recovers [OF demo_paths args(1,2) demo_rows args(4) inp(1) demo_encodes demo_steps inp(2,3),
        of "[demo_in (Inl OSError), demo_in (Inl OSError)]" "\<lparr>w_state = rstate0, w_fs = Map.empty\<rparr>"]
    unfolding Let_def args(3) embed_path_def by auto
qed

theorem failed_round_status_stale_witness:
  "\<exists>w'. train_round demo_host demo_cfg demo_args (demo_in (Inl OSError)) \<lparr>w_state = rstate0, w_fs = Map.empty\<rparr> = (Inl OSError, w') \<and>
    (\<exists>pl. w_fs w' ''s.json'' = Some (StatusFile pl) \<and> pl_status pl = ''training'')"
proof -
  have r: "\<exists>w'. train_round demo_host demo_cfg demo_args (demo_in (Inl OSError)) \<lparr>w_state = rstate0, w_fs = Map.empty\<rparr> = (Inl OSError, w')"
    unfolding train_round_def Let_def
    by (simp add: round_rows_def [symmetric] demo_rows) (simp add: demo_args_def fine_tune_def demo_in_def)
  have f: "in_status_fault (demo_in (Inl OSError)) False = None" by (simp add: demo_in_def)
  have s: "ra_status demo_args = ''s.json''" by (simp add: demo_args_def)
  obtain w' where w': "train_round demo_host demo_cfg demo_args (demo_in (Inl OSError)) \<lparr>w_state = rstate0, w_fs = Map.empty\<rparr> = (Inl OSError, w')"
    using r by blast
  show ?thesis
    using failed_round_status_stale [OF demo_paths _ f w'] w' by (simp add: s demo_rows status_payload_def)
qed

theorem loop_counts_and_provenance_witness:
  "let w' = retrain_loop demo_host demo_cfg demo_args [demo_in (Inl OSError), demo_in (Inr (5, 301))] \<lparr>w_state = rstate0, w_fs = Map.empty\<rparr>
   in rs_round (w_state w') = 2 \<and> rs_exports (w_state w') \<le> 2"
  using loop_counts_and_provenance [OF demo_paths, of demo_host demo_cfg "[demo_in (Inl OSError), demo_in (Inr (5, 301))]"
      "\<lparr>w_state = rstate0, w_fs = Map.empty\<rparr>"]
  by (simp add: Let_def rstate0_def del: retrain_loop_simps)

end
