(* ===== verification/Train.thy ===== *)
theory Train
  imports Model
begin

text \<open>
  \<open>train.py\<close>: the moving average of the weights, the learning-rate schedule, the validation loss, and
  the training loop with checkpointing and early stopping. Backpropagation and the optimizer step
  are a parameter \<open>train_step\<close> of the loop: what they do to the weights and their own state is not
  modelled. A tensor is the list of its entries.
\<close>

section \<open>Moving average of the weights\<close>

record param =
  requires_grad :: bool
  p_data :: "real list"

type_synonym params = "(string \<times> param) list"
type_synonym shadow = "(string \<times> real list) list"

text \<open>\<open>EMA.__init__\<close>, and the same loop where \<open>main\<close> backs the weights up.\<close>

definition snapshot :: "params \<Rightarrow> shadow" where
  "snapshot model = map (\<lambda>(n, p). (n, p_data p)) (filter (\<lambda>(n, p). requires_grad p) model)"

definition blend :: "real \<Rightarrow> real list \<Rightarrow> real list \<Rightarrow> real list" where
  "blend decay s p = map2 (\<lambda>a b. decay * a + (1 - decay) * b) s p"

fun ema_update :: "real \<Rightarrow> params \<Rightarrow> shadow \<Rightarrow> shadow res" where
  "ema_update decay [] sh = Inr sh"
| "ema_update decay ((n, p) # ps) sh =
     (if requires_grad p then
        (case map_of sh n of
           None \<Rightarrow> Inl KeyError
         | Some s \<Rightarrow> ema_update decay ps (AList.update n (blend decay s (p_data p)) sh))
      else ema_update decay ps sh)"

text \<open>\<open>copy_to\<close>, and the loops that put the shadow or the backup into the model.\<close>

definition copy_to :: "shadow \<Rightarrow> params \<Rightarrow> params res" where
  "copy_to sh model =
     res_map (\<lambda>(n, p). if requires_grad p then
        (case map_of sh n of None \<Rightarrow> Inl KeyError | Some s \<Rightarrow> Inr (n, p\<lparr>p_data := s\<rparr>)) else Inr (n, p)) model"

section \<open>Learning rate\<close>

definition cosine_lr :: "nat \<Rightarrow> nat \<Rightarrow> nat \<Rightarrow> real \<Rightarrow> real \<Rightarrow> real" where
  "cosine_lr step warmup total_steps base_lr min_lr_ratio =
     (if step < warmup then base_lr * (real step + 1) / real warmup
      else let prog0 = (real step - real warmup) / max 1 (real total_steps - real warmup);
               prog = min 1 (max 0 prog0);
               c = 1 / 2 * (1 + cos (pi * prog))
           in base_lr * (min_lr_ratio + (1 - min_lr_ratio) * c))"

section \<open>Validation loss\<close>

text \<open>
  The loss of one batch under the mixture or the bins network. \<open>pp.long().clamp(0, num_bins - 1)\<close> is
  the truncated price kept within the bins.
\<close>

definition batch_inputs :: "batch \<Rightarrow> (nat list \<times> real list \<times> nat list) list" where
  "batch_inputs b = zip (b_cat b) (zip (b_cont b) (b_tags b))"

definition mdn_batch_loss :: "(real \<Rightarrow> real) \<Rightarrow> mdn_net \<Rightarrow> batch \<Rightarrow> real res" where
  "mdn_batch_loss erf n b =
     res_bind (res_map (\<lambda>(cat, cont, tags). mdn_forward erf n cat cont tags) (batch_inputs b)) (\<lambda>rows.
       Inr (mdn_nll rows (b_log_pp b) 0 0 []))"

definition price_bin :: "nat \<Rightarrow> real \<Rightarrow> nat" where
  "price_bin num_bins pp = nat (min (int num_bins - 1) (max 0 (trunc_int pp)))"

definition bins_batch_loss :: "(real \<Rightarrow> real) \<Rightarrow> network \<Rightarrow> nat \<Rightarrow> batch \<Rightarrow> real res" where
  "bins_batch_loss erf n num_bins b =
     res_bind (res_map (\<lambda>(cat, cont, tags). bins_forward erf n cat cont tags) (batch_inputs b)) (\<lambda>logits.
       discrete_bins_nll logits (map (price_bin num_bins) (b_pp b)))"

fun loss_loop :: "(batch \<Rightarrow> real res) \<Rightarrow> batch list \<Rightarrow> real \<Rightarrow> nat \<Rightarrow> (real \<times> nat) res" where
  "loss_loop loss [] acc cnt = Inr (acc, cnt)"
| "loss_loop loss (b # bs) acc cnt =
     res_bind (loss b) (\<lambda>l. loss_loop loss bs (acc + l * real (length (b_cat b))) (cnt + length (b_cat b)))"

text \<open>\<^const>\<open>None\<close>: the iteration over the batches does not end.\<close>

definition evaluate_loss :: "(batch \<Rightarrow> real res) \<Rightarrow> bid_dataset \<Rightarrow> nat \<Rightarrow> real res option" where
  "evaluate_loss loss ds batch_size =
     map_option (\<lambda>bs. res_bind (loss_loop loss bs 0 0) (\<lambda>(total, cnt).
        if cnt = 0 then Inl ZeroDivisionError else Inr (total / real cnt)))
       (iter_batches ds batch_size None False)"

section \<open>The training loop\<close>

record net_config =
  c_is_mdn :: bool
  c_K :: "nat option"
  c_num_bins :: "nat option"
  c_hidden :: "nat list"
  c_sigma_floor :: "real option"

record checkpoint =
  ck_ema :: shadow
  ck_val_loss :: real
  ck_use_ema :: bool
  ck_config :: net_config
  ck_full :: params

record 's train_state =
  ts_w :: params
  ts_opt :: 's
  ts_ema :: shadow
  ts_best :: ext
  ts_bad :: nat
  ts_step :: nat
  ts_ckpt :: "checkpoint option"
  ts_log :: "(real \<times> real) list"

text \<open>The settings of a run after the command line and the config file are merged.\<close>

record run_cfg =
  rc_bs :: nat
  rc_epochs :: nat
  rc_base_lr :: real
  rc_ema_decay :: real
  rc_warmup :: nat
  rc_patience :: nat
  rc_total_steps :: nat
  rc_config :: net_config

type_synonym 's train_step = "real \<Rightarrow> batch \<Rightarrow> params \<Rightarrow> 's \<Rightarrow> (params \<times> 's \<times> real) res"

fun train_batches :: "'s train_step \<Rightarrow> run_cfg \<Rightarrow> batch list \<Rightarrow> 's train_state \<Rightarrow> real \<Rightarrow> nat
    \<Rightarrow> ('s train_state \<times> real \<times> nat) res" where
  "train_batches train_step rc [] st running running_n = Inr (st, running, running_n)"
| "train_batches train_step rc (b # bs) st running running_n =
     (let lr = cosine_lr (ts_step st) (rc_warmup rc) (rc_total_steps rc) (rc_base_lr rc) (5/100) in
      res_bind (train_step lr b (ts_w st) (ts_opt st)) (\<lambda>(w, opt, loss).
      res_bind (ema_update (rc_ema_decay rc) w (ts_ema st)) (\<lambda>sh.
        train_batches train_step rc bs (st\<lparr>ts_w := w, ts_opt := opt, ts_ema := sh, ts_step := ts_step st + 1\<rparr>)
          (running + loss * real (length (b_cat b))) (running_n + length (b_cat b)))))"

text \<open>
  The end of an epoch: validation with the raw weights, with the averaged weights swapped in and the
  raw ones restored; then either a new checkpoint (again with the chosen weights swapped in while it
  is saved) or one more bad epoch. \<open>ts_log\<close> collects the pairs of validation losses the script logs.
  The second component tells whether the loop stops.
\<close>

definition finish_epoch :: "(params \<Rightarrow> real res) \<Rightarrow> run_cfg \<Rightarrow> 's train_state \<Rightarrow> ('s train_state \<times> bool) res" where
  "finish_epoch val rc st =
     res_bind (val (ts_w st)) (\<lambda>val_loss_raw.
     let backup = snapshot (ts_w st) in
     res_bind (copy_to (ts_ema st) (ts_w st)) (\<lambda>w_ema.
     res_bind (val w_ema) (\<lambda>val_loss_ema.
     res_bind (copy_to backup w_ema) (\<lambda>w_raw.
     let val_loss = min val_loss_raw val_loss_ema;
         use_ema = (val_loss_ema \<le> val_loss_raw);
         logged = ts_log st @ [(val_loss_raw, val_loss_ema)] in
     if Fin val_loss < ext_minus (ts_best st) (1/100000) then
       res_bind (if use_ema then copy_to (ts_ema st) w_raw else Inr w_raw) (\<lambda>w_save.
       let ckpt = \<lparr>ck_ema = ts_ema st, ck_val_loss = val_loss, ck_use_ema = use_ema,
                   ck_config = rc_config rc, ck_full = w_save\<rparr> in
       res_bind (if use_ema then copy_to backup w_save else Inr w_save) (\<lambda>w.
         Inr (st\<lparr>ts_w := w, ts_best := Fin val_loss, ts_bad := 0, ts_ckpt := Some ckpt, ts_log := logged\<rparr>, False)))
     else
       let bad = ts_bad st + 1 in Inr (st\<lparr>ts_w := w_raw, ts_bad := bad, ts_log := logged\<rparr>, rc_patience rc \<le> bad)))))"

definition train_epoch :: "'s train_step \<Rightarrow> (params \<Rightarrow> real res) \<Rightarrow> run_cfg \<Rightarrow> batch list \<Rightarrow> 's train_state
    \<Rightarrow> ('s train_state \<times> bool) res" where
  "train_epoch train_step val rc bs st =
     res_bind (train_batches train_step rc bs st 0 0) (\<lambda>(st', running, running_n).
       if running_n = 0 then Inl ZeroDivisionError else finish_epoch val rc st')"

fun train_epochs :: "'s train_step \<Rightarrow> (params \<Rightarrow> real res) \<Rightarrow> run_cfg \<Rightarrow> batch list list \<Rightarrow> 's train_state \<Rightarrow> 's train_state res" where
  "train_epochs train_step val rc [] st = Inr st"
| "train_epochs train_step val rc (bs # rest) st =
     res_bind (train_epoch train_step val rc bs st) (\<lambda>(st', stop).
       if stop then Inr st' else train_epochs train_step val rc rest st')"

section \<open>The script\<close>

record train_args =
  ta_is_mdn :: bool
  ta_epochs :: "nat option"
  ta_lr :: "real option"
  ta_batch_size :: "nat option"
  ta_K :: "nat option"
  ta_num_bins :: "nat option"
  ta_hidden :: "string option"
  ta_ema_decay :: "real option"
  ta_sigma_floor :: "real option"

record train_cfg =
  tc_batch_size :: nat
  tc_max_epochs :: nat
  tc_learning_rate :: real
  tc_ema_decay :: real
  tc_warmup_steps :: nat
  tc_patience :: nat
  tc_mdn_hidden :: "nat list"
  tc_bins_hidden :: "nat list"
  tc_n_components :: nat
  tc_sigma_floor :: real
  tc_num_bins :: nat

definition arg_or :: "'a option \<Rightarrow> 'a \<Rightarrow> 'a" where
  "arg_or a d = (case a of None \<Rightarrow> d | Some v \<Rightarrow> v)"

text \<open>\<open>--hidden\<close>: comma-separated integers.\<close>

definition parse_hidden :: "train_args \<Rightarrow> train_cfg \<Rightarrow> nat list res" where
  "parse_hidden args cfg =
     (case ta_hidden args of
        Some s \<Rightarrow> res_map (\<lambda>x. res_bind (py_int x) (\<lambda>h. Inr (nat h))) (split_on CHR '','' s)
      | None \<Rightarrow> Inr (if ta_is_mdn args then tc_mdn_hidden cfg else tc_bins_hidden cfg))"

definition used_sigma_floor :: "train_args \<Rightarrow> train_cfg \<Rightarrow> real" where
  "used_sigma_floor args cfg = arg_or (ta_sigma_floor args) (tc_sigma_floor cfg)"

text \<open>
  The configuration stored in the checkpoint takes the floor from the config file; entries of the other
  kind of network are \<^const>\<open>None\<close>.
\<close>

definition ckpt_config :: "train_args \<Rightarrow> train_cfg \<Rightarrow> nat list \<Rightarrow> net_config" where
  "ckpt_config args cfg hidden =
     \<lparr>c_is_mdn = ta_is_mdn args,
      c_K = (if ta_is_mdn args then Some (arg_or (ta_K args) (tc_n_components cfg)) else None),
      c_num_bins = (if ta_is_mdn args then None else Some (arg_or (ta_num_bins args) (tc_num_bins cfg))),
      c_hidden = hidden, c_sigma_floor = (if ta_is_mdn args then Some (tc_sigma_floor cfg) else None)\<rparr>"

text \<open>
  \<open>main\<close> from the merged settings on: \<open>model\<close> holds the freshly built weights, \<open>val w\<close> the validation
  loss of the weights \<open>w\<close> (\<^const>\<open>evaluate_loss\<close> with twice the batch size), \<open>perms\<close> the permutation
  drawn in each epoch.
\<close>

definition main_train ::
  "'s train_step \<Rightarrow> (params \<Rightarrow> batch \<Rightarrow> real res) \<Rightarrow> (nat \<Rightarrow> nat list) \<Rightarrow> train_args \<Rightarrow> train_cfg
     \<Rightarrow> bid_dataset \<Rightarrow> bid_dataset \<Rightarrow> params \<Rightarrow> 's \<Rightarrow> 's train_state res" where
  "main_train train_step loss_of perms args cfg train_ds val_ds model opt0 =
     res_bind (parse_hidden args cfg) (\<lambda>hidden.
     let bs = arg_or (ta_batch_size args) (tc_batch_size cfg);
         epochs = arg_or (ta_epochs args) (tc_max_epochs cfg) in
     res_bind (num_batches train_ds bs True) (\<lambda>steps_per_epoch.
     let rc = \<lparr>rc_bs = bs, rc_epochs = epochs, rc_base_lr = arg_or (ta_lr args) (tc_learning_rate cfg),
               rc_ema_decay = arg_or (ta_ema_decay args) (tc_ema_decay cfg),
               rc_warmup = tc_warmup_steps cfg, rc_patience = tc_patience cfg,
               rc_total_steps = steps_per_epoch * epochs, rc_config = ckpt_config args cfg hidden\<rparr>;
         st = \<lparr>ts_w = model, ts_opt = opt0, ts_ema = snapshot model, ts_best = Infty, ts_bad = 0,
               ts_step = 0, ts_ckpt = None, ts_log = []\<rparr>;
         batches = (\<lambda>e. the (iter_batches train_ds bs (Some (perms e)) True));
         val = (\<lambda>w. the (evaluate_loss (loss_of w) val_ds (bs * 2)))
     in train_epochs train_step val rc (map batches [0..<epochs]) st))"

section \<open>The moving average\<close>

lemma ema_update_get:
  assumes "distinct (map fst m)" and "\<forall>(n, p) \<in> set m. requires_grad p \<longrightarrow> n \<in> fst ` set sh"
  shows "\<exists>sh'. ema_update d m sh = Inr sh' \<and> fst ` set sh' = fst ` set sh \<and>
    (\<forall>n. map_of sh' n = (case map_of m n of
        Some p \<Rightarrow> if requires_grad p then map_option (\<lambda>s. blend d s (p_data p)) (map_of sh n) else map_of sh n
      | None \<Rightarrow> map_of sh n))"
  using assms
proof (induction m arbitrary: sh)
  case (Cons q m)
  obtain n p where q: "q = (n, p)" by (cases q)
  have n: "map_of m n = None" using Cons.prems(1) by (simp add: q map_of_eq_None_iff)
  show ?case
  proof (cases "requires_grad p")
    case False
    then show ?thesis using Cons.IH [of sh] Cons.prems n by (fastforce simp: q)
  next
    case True
    then obtain s where s: "map_of sh n = Some s"
      using Cons.prems(2) by (auto simp: q dest: weak_map_of_SomeI)
    let ?sh = "AList.update n (blend d s (p_data p)) sh"
    have k: "fst ` set ?sh = fst ` set sh"
      using map_of_SomeD [OF s] by (force simp: dom_update)
    obtain sh' where sh': "ema_update d m ?sh = Inr sh'" "fst ` set sh' = fst ` set ?sh"
      "\<forall>n. map_of sh' n = (case map_of m n of
        Some p \<Rightarrow> if requires_grad p then map_option (\<lambda>s. blend d s (p_data p)) (map_of ?sh n) else map_of ?sh n
      | None \<Rightarrow> map_of ?sh n)"
      using Cons.IH [of ?sh] Cons.prems k by (fastforce simp: q)
    then show ?thesis
      using True s n k by (auto simp: q update_conv' split: option.splits)
  qed
qed simp

lemma snapshot_keys: "fst ` set (snapshot m) = {n. \<exists>p. (n, p) \<in> set m \<and> requires_grad p}"
  by (force simp: snapshot_def)

lemma snapshot_get:
  assumes "distinct (map fst m)"
  shows "map_of (snapshot m) n = (case map_of m n of Some p \<Rightarrow> if requires_grad p then Some (p_data p) else None | None \<Rightarrow> None)"
  using assms
proof (induction m)
  case (Cons q m)
  obtain k p where q: "q = (k, p)" by (cases q)
  have "map_of m k = None" using Cons.prems by (simp add: q map_of_eq_None_iff)
  then show ?case using Cons by (auto simp: q snapshot_def)
qed (simp add: snapshot_def)

definition covers :: "shadow \<Rightarrow> params \<Rightarrow> bool" where
  "covers sh m \<longleftrightarrow> distinct (map fst m) \<and> (\<forall>(n, p) \<in> set m. requires_grad p \<longrightarrow> n \<in> fst ` set sh)"

definition with_data :: "shadow \<Rightarrow> params \<Rightarrow> params" where
  "with_data sh m = map (\<lambda>(n, p). (n, if requires_grad p then p\<lparr>p_data := the (map_of sh n)\<rparr> else p)) m"

lemma copy_to_eq: "covers sh m \<Longrightarrow> copy_to sh m = Inr (with_data sh m)"
  unfolding copy_to_def with_data_def
proof (rule res_map_total)
  fix q assume c: "covers sh m" and q: "q \<in> set m"
  obtain n p where np: "q = (n, p)" by (cases q)
  have "\<exists>s. map_of sh n = Some s" if "requires_grad p"
    using c q that by (cases "map_of sh n") (auto simp: np covers_def map_of_eq_None_iff)
  then show "(case q of (n, p) \<Rightarrow> if requires_grad p then
      (case map_of sh n of None \<Rightarrow> Inl KeyError | Some s \<Rightarrow> Inr (n, p\<lparr>p_data := s\<rparr>)) else Inr (n, p)) =
    Inr (case q of (n, p) \<Rightarrow> (n, if requires_grad p then p\<lparr>p_data := the (map_of sh n)\<rparr> else p))"
    by (auto simp: np)
qed

lemma covers_snapshot: "distinct (map fst m) \<Longrightarrow> covers (snapshot m) m"
  by (auto simp: covers_def snapshot_keys)

lemma covers_with_data: "covers sh (with_data sh' m) \<longleftrightarrow> covers sh m"
  by (fastforce simp: covers_def with_data_def comp_def split_def split: if_splits)

lemma restore:
  assumes "distinct (map fst m)"
  shows "with_data (snapshot m) (with_data sh m) = m"
proof -
  have "map_of m n = Some p" if "(n, p) \<in> set m" for n p
    using assms that by simp
  then show ?thesis
    by (auto simp: with_data_def snapshot_get [OF assms] comp_def split_def intro!: map_idI)
qed

lemma with_data_twice: "with_data sh (with_data sh' m) = with_data sh m"
  by (auto simp: with_data_def)

lemmas swap_simps = copy_to_eq covers_with_data covers_snapshot restore with_data_twice

fun ema_run :: "real \<Rightarrow> params list \<Rightarrow> shadow \<Rightarrow> shadow res" where
  "ema_run decay [] sh = Inr sh"
| "ema_run decay (m # ms) sh = res_bind (ema_update decay m sh) (ema_run decay ms)"

lemma length_blend [simp]: "length (blend d s p) = min (length s) (length p)"
  by (simp add: blend_def)

lemma nth_blend: "i < length s \<Longrightarrow> i < length p \<Longrightarrow> blend d s p ! i = d * s ! i + (1 - d) * p ! i"
  by (simp add: blend_def)

lemma blend_closed_form:
  assumes "length s = L" and "\<forall>p \<in> set ps. length p = L" and "i < L"
  shows "length (foldl (blend d) s ps) = L \<and> foldl (blend d) s ps ! i =
    d ^ length ps * s ! i + (1 - d) * (\<Sum>j<length ps. d ^ (length ps - 1 - j) * ps ! j ! i)"
  using assms(2)
proof (induction ps rule: rev_induct)
  case (snoc p ps)
  let ?k = "length ps"
  have "(\<Sum>j<Suc ?k. d ^ (?k - j) * (ps @ [p]) ! j ! i) = (\<Sum>j<?k. d ^ (?k - j) * ps ! j ! i) + p ! i"
    by (simp add: nth_append)
  also have "(\<Sum>j<?k. d ^ (?k - j) * ps ! j ! i) = d * (\<Sum>j<?k. d ^ (?k - 1 - j) * ps ! j ! i)"
    unfolding sum_distrib_left
  proof (rule sum.cong [OF refl])
    fix j assume "j \<in> {..<?k}"
    then have "?k - j = Suc (?k - 1 - j)" by auto
    then show "d ^ (?k - j) * ps ! j ! i = d * (d ^ (?k - 1 - j) * ps ! j ! i)" by simp
  qed
  finally have s: "(\<Sum>j<Suc ?k. d ^ (?k - j) * (ps @ [p]) ! j ! i) = d * (\<Sum>j<?k. d ^ (?k - 1 - j) * ps ! j ! i) + p ! i" .
  have IH: "length (foldl (blend d) s ps) = L"
    "foldl (blend d) s ps ! i = d ^ ?k * s ! i + (1 - d) * (\<Sum>j<?k. d ^ (?k - 1 - j) * ps ! j ! i)"
    using snoc by simp_all
  have "foldl (blend d) s (ps @ [p]) ! i = d * foldl (blend d) s ps ! i + (1 - d) * p ! i"
    using snoc.prems IH(1) assms(3) by (simp add: nth_blend)
  also have "\<dots> = d ^ Suc ?k * s ! i + (1 - d) * (d * (\<Sum>j<?k. d ^ (?k - 1 - j) * ps ! j ! i) + p ! i)"
    unfolding IH(2) by (simp only: power_Suc) (simp only: distrib_left mult.assoc mult.left_commute)
  finally show ?case
    unfolding s [symmetric] using IH(1) snoc.prems by simp
qed (use assms(1) in simp)

lemma ema_run_get:
  assumes "\<forall>m \<in> set ms. covers sh m \<and> (\<exists>p. map_of m n = Some p \<and> requires_grad p)" and "map_of sh n = Some s"
  shows "\<exists>sh'. ema_run d ms sh = Inr sh' \<and>
    map_of sh' n = Some (foldl (blend d) s (map (\<lambda>m. p_data (the (map_of m n))) ms))"
  using assms
proof (induction ms arbitrary: sh s)
  case (Cons m ms)
  obtain p where p: "map_of m n = Some p" "requires_grad p" using Cons.prems by auto
  obtain sh1 where sh1: "ema_update d m sh = Inr sh1" "fst ` set sh1 = fst ` set sh"
    "map_of sh1 n = Some (blend d s (p_data p))"
    using ema_update_get [of m sh d] Cons.prems p by (auto simp: covers_def)
  then show ?case
    using Cons.IH [of sh1 "blend d s (p_data p)"] Cons.prems p by (simp add: covers_def)
qed simp

lemma geometric_weights: "d ^ k + (1 - d) * (\<Sum>j<k. d ^ (k - 1 - j)) = (1 :: real)"
proof (induction k)
  case (Suc k)
  have "(\<Sum>j<Suc k. d ^ (Suc k - 1 - j)) = (\<Sum>j<k. d ^ (k - j)) + 1" by simp
  also have "(\<Sum>j<k. d ^ (k - j)) = d * (\<Sum>j<k. d ^ (k - 1 - j))"
    unfolding sum_distrib_left by (rule sum.cong [OF refl]) (simp add: Suc_diff_Suc power_Suc [symmetric] del: power_Suc)
  finally have "(\<Sum>j<Suc k. d ^ (Suc k - 1 - j)) = d * (\<Sum>j<k. d ^ (k - 1 - j)) + 1" .
  then have "d ^ Suc k + (1 - d) * (\<Sum>j<Suc k. d ^ (Suc k - 1 - j))
      = d * (d ^ k + (1 - d) * (\<Sum>j<k. d ^ (k - 1 - j))) + (1 - d)"
    by (simp add: algebra_simps)
  then show ?case using Suc by simp
qed simp

lemma blend_hull:
  assumes "0 \<le> d" "d \<le> 1" and "\<forall>x \<in> set s. lo \<le> x \<and> x \<le> hi" and "\<forall>x \<in> set p. lo \<le> x \<and> x \<le> hi"
  shows "\<forall>x \<in> set (blend d s p). lo \<le> x \<and> x \<le> hi"
proof -
  have "lo \<le> d * a + (1 - d) * b \<and> d * a + (1 - d) * b \<le> hi" if "lo \<le> a" "a \<le> hi" "lo \<le> b" "b \<le> hi" for a b
    using convex_bound_le [of a hi b d "1 - d"] convex_bound_le [of "- a" "- lo" "- b" d "1 - d"] assms(1,2) that by simp
  moreover have "\<exists>a \<in> set s. \<exists>b \<in> set p. x = d * a + (1 - d) * b" if "x \<in> set (blend d s p)" for x
    using that by (auto simp: blend_def dest: set_zip_leftD set_zip_rightD)
  ultimately show ?thesis using assms(3,4) by blast
qed

lemma foldl_blend_hull:
  assumes "0 \<le> d" "d \<le> 1"
  shows "\<forall>x \<in> set s. lo \<le> x \<and> x \<le> hi \<Longrightarrow> \<forall>p \<in> set ps. \<forall>x \<in> set p. lo \<le> x \<and> x \<le> hi \<Longrightarrow>
    \<forall>x \<in> set (foldl (blend d) s ps). lo \<le> x \<and> x \<le> hi"
proof (induction ps arbitrary: s)
  case (Cons p ps)
  have "\<forall>x \<in> set (blend d s p). lo \<le> x \<and> x \<le> hi"
    by (rule blend_hull [OF assms Cons.prems(1)]) (use Cons.prems(2) in simp)
  then show ?case
    using Cons.IH [of "blend d s p"] Cons.prems(2) by (metis foldl_Cons list.set_intros(2))
qed simp

text \<open>Training changes the entries of the tensors only.\<close>

definition same_shape :: "params \<Rightarrow> params \<Rightarrow> bool" where
  "same_shape m m0 \<longleftrightarrow>
     map (\<lambda>(n, p). (n, requires_grad p, length (p_data p))) m = map (\<lambda>(n, p). (n, requires_grad p, length (p_data p))) m0"

lemma same_shape_names: "same_shape m m0 \<Longrightarrow> map fst m = map fst m0"
  unfolding same_shape_def by (drule arg_cong [where f = "map fst"]) (simp add: comp_def split_def)

lemma same_shape_get:
  assumes "same_shape m m0" and "map_of m0 n = Some p0"
  shows "\<exists>p. map_of m n = Some p \<and> requires_grad p = requires_grad p0 \<and> length (p_data p) = length (p_data p0)"
proof -
  let ?f = "\<lambda>p. (requires_grad p, length (p_data p))"
  have "map_of (map (\<lambda>(n, p). (n, ?f p)) m) n = map_of (map (\<lambda>(n, p). (n, ?f p)) m0) n"
    using assms(1) by (simp add: same_shape_def)
  then show ?thesis
    using assms(2) by (auto simp: map_of_map)
qed

lemma same_shape_covers:
  assumes "same_shape m m0" and "distinct (map fst m0)"
  shows "covers (snapshot m0) m"
proof -
  have d: "distinct (map fst m)" using same_shape_names [OF assms(1)] assms(2) by simp
  have "n \<in> fst ` set (snapshot m0)" if "(n, p) \<in> set m" "requires_grad p" for n p
  proof -
    have "map_of m n = Some p" using d that(1) by simp
    moreover have "n \<in> set (map fst m0)"
      using that(1) same_shape_names [OF assms(1), symmetric] by force
    then obtain p0 where "map_of m0 n = Some p0"
      by (cases "map_of m0 n") (simp_all add: map_of_eq_None_iff)
    moreover from this obtain p1 where "map_of m n = Some p1" "requires_grad p1 = requires_grad p0"
      using same_shape_get [OF assms(1)] by blast
    ultimately have "(n, p0) \<in> set m0" "requires_grad p0"
      using that(2) by (auto dest: map_of_SomeD)
    then show ?thesis by (auto simp: snapshot_keys)
  qed
  then show ?thesis using d by (auto simp: covers_def)
qed

text \<open>
  After any number of updates with decay \<open>d\<close>, each shadow tensor is the average of the initial
  weights and the weights seen at the updates, with weight \<open>d ^ k\<close> for the former and
  \<open>(1 - d) * d ^ (k - 1 - j)\<close> for the weights of update \<open>j\<close>; these weights sum to one.
\<close>

theorem ema_closed_form:
  assumes "distinct (map fst m0)" and "\<forall>m \<in> set ms. same_shape m m0"
    and "map_of m0 n = Some p" and "requires_grad p" and "i < length (p_data p)"
  shows "\<exists>sh v. ema_run d ms (snapshot m0) = Inr sh \<and> map_of sh n = Some v \<and>
    v ! i = d ^ length ms * p_data p ! i
      + (1 - d) * (\<Sum>j<length ms. d ^ (length ms - 1 - j) * p_data (the (map_of (ms ! j) n)) ! i) \<and>
    d ^ length ms + (1 - d) * (\<Sum>j<length ms. d ^ (length ms - 1 - j)) = 1"
proof -
  have c: "\<forall>m \<in> set ms. covers (snapshot m0) m \<and> (\<exists>p. map_of m n = Some p \<and> requires_grad p)"
    using same_shape_covers [OF _ assms(1)] same_shape_get [OF _ assms(3)] assms(2,4) by fastforce
  have s: "map_of (snapshot m0) n = Some (p_data p)"
    using assms(3,4) by (simp add: snapshot_get [OF assms(1)])
  have l: "\<forall>q \<in> set (map (\<lambda>m. p_data (the (map_of m n))) ms). length q = length (p_data p)"
    using same_shape_get [OF _ assms(3)] assms(2) by fastforce
  obtain sh where sh: "ema_run d ms (snapshot m0) = Inr sh"
    "map_of sh n = Some (foldl (blend d) (p_data p) (map (\<lambda>m. p_data (the (map_of m n))) ms))"
    using ema_run_get [OF c s] by blast
  then show ?thesis
    using blend_closed_form [OF refl l assms(5), of d] geometric_weights [of d "length ms"] by simp
qed

theorem ema_closed_form_witness:
  "\<exists>sh v. ema_run (1/2) [[(''w'', \<lparr>requires_grad = True, p_data = [4]\<rparr>)], [(''w'', \<lparr>requires_grad = True, p_data = [8]\<rparr>)]]
      (snapshot [(''w'', \<lparr>requires_grad = True, p_data = [0]\<rparr>)]) = Inr sh \<and> map_of sh ''w'' = Some v \<and> v ! 0 = 5"
  using ema_closed_form [of "[(''w'', \<lparr>requires_grad = True, p_data = [0]\<rparr>)]"
      "[[(''w'', \<lparr>requires_grad = True, p_data = [4]\<rparr>)], [(''w'', \<lparr>requires_grad = True, p_data = [8]\<rparr>)]]" "''w''"
      "\<lparr>requires_grad = True, p_data = [0]\<rparr>" 0 "1/2"]
  by (auto simp: same_shape_def)

section \<open>The schedule\<close>

lemma cosine_factor: "0 \<le> r \<Longrightarrow> r \<le> 1 \<Longrightarrow> r \<le> r + (1 - r) * (1 / 2 * (1 + cos x)) \<and> r + (1 - r) * (1 / 2 * (1 + cos x)) \<le> (1 :: real)"
proof -
  assume r: "0 \<le> r" "r \<le> 1"
  have "0 \<le> 1 + cos x" using cos_ge_minus_one [of x] by linarith
  then have c: "0 \<le> 1 / 2 * (1 + cos x)" "1 / 2 * (1 + cos x) \<le> 1"
    using cos_le_one [of x] by simp_all
  have "0 \<le> (1 - r) * (1 / 2 * (1 + cos x))" using r c(1) by (intro mult_nonneg_nonneg) simp_all
  moreover have "(1 - r) * (1 / 2 * (1 + cos x)) \<le> (1 - r) * 1" using r c(2) by (intro mult_left_mono) simp_all
  ultimately show ?thesis by simp
qed

text \<open>
  The learning rate is always positive and at most \<open>base_lr\<close>, and at least
  \<open>base_lr * min_lr_ratio\<close> after the warmup. The warmup is linear, but starts at \<open>base_lr / warmup\<close>
  rather than 0 and reaches \<open>base_lr\<close> at its last step; then the rate never increases, and it is exactly
  \<open>base_lr * min_lr_ratio\<close> from the last step on.
\<close>

theorem cosine_lr_bounds:
  assumes "0 < base_lr" and "0 < r" and "r \<le> 1"
  shows "let lr = (\<lambda>step. cosine_lr step warmup n base_lr r) in
    (\<forall>step. 0 < lr step \<and> lr step \<le> base_lr) \<and>
    (\<forall>step \<ge> warmup. base_lr * r \<le> lr step) \<and>
    (0 < warmup \<longrightarrow> lr 0 = base_lr / real warmup \<and> lr (warmup - 1) = base_lr) \<and> lr warmup = base_lr \<and>
    (\<forall>s t. warmup \<le> s \<and> s \<le> t \<longrightarrow> lr t \<le> lr s) \<and>
    (\<forall>step. warmup < n \<and> n \<le> step \<longrightarrow> lr step = base_lr * r)"
proof -
  define lr where "lr step = cosine_lr step warmup n base_lr r" for step
  define prog where "prog step = min 1 (max 0 ((real step - real warmup) / max 1 (real n - real warmup)))" for step
  have after: "lr step = base_lr * (r + (1 - r) * (1 / 2 * (1 + cos (pi * prog step))))" if "warmup \<le> step" for step
    using that by (simp add: lr_def cosine_lr_def prog_def Let_def)
  have low: "base_lr * r \<le> lr step" and high: "lr step \<le> base_lr" if "warmup \<le> step" for step
    unfolding after [OF that]
    using cosine_factor [of r "pi * prog step"] assms mult_left_mono [of r "r + (1 - r) * (1 / 2 * (1 + cos (pi * prog step)))" base_lr]
      mult_left_mono [of "r + (1 - r) * (1 / 2 * (1 + cos (pi * prog step)))" 1 base_lr] by simp_all
  have pos: "0 < lr step \<and> lr step \<le> base_lr" for step
  proof (cases "step < warmup")
    case True
    then have "base_lr * (real step + 1) / real warmup \<le> base_lr"
      using assms(1) by (simp add: divide_le_eq)
    then show ?thesis using True assms(1) by (simp add: lr_def cosine_lr_def)
  next
    case False
    moreover have "0 < base_lr * r" using assms by simp
    ultimately show ?thesis using low [of step] high [of step] by linarith
  qed
  have mono: "lr t \<le> lr s" if "warmup \<le> s" "s \<le> t" for s t
  proof -
    have "(real s - real warmup) / max 1 (real n - real warmup) \<le> (real t - real warmup) / max 1 (real n - real warmup)"
      using that by (intro divide_right_mono) simp_all
    then have "prog s \<le> prog t" unfolding prog_def by (intro min.mono max.mono order_refl)
    then have p: "0 \<le> prog s" "prog s \<le> prog t" "prog t \<le> 1" by (simp_all add: prog_def)
    then have "cos (pi * prog t) \<le> cos (pi * prog s)"
      using cos_monotone_0_pi_le [of "pi * prog s" "pi * prog t"] mult_left_mono [of "prog s" "prog t" pi]
        mult_left_mono [of "prog t" 1 pi] by simp
    then show ?thesis
      using that assms by (simp add: after mult_left_mono)
  qed
  have last: "lr step = base_lr * r" if "warmup < n" "n \<le> step" for step
  proof -
    have "prog step = 1" using that by (simp add: prog_def min_def le_divide_eq)
    then show ?thesis using that by (simp add: after)
  qed
  have "lr warmup = base_lr" using after [of warmup] by (simp add: prog_def)
  then show ?thesis
    unfolding Let_def lr_def [symmetric] using pos low mono last by (auto simp: lr_def cosine_lr_def)
qed

theorem cosine_lr_bounds_witness:
  "let lr = (\<lambda>step. cosine_lr step 4 20 1 (1/20)) in
    (\<forall>step. 0 < lr step \<and> lr step \<le> 1) \<and> (\<forall>step \<ge> 4. 1 * (1/20) \<le> lr step) \<and>
    (0 < (4::nat) \<longrightarrow> lr 0 = 1 / real 4 \<and> lr (4 - 1) = 1) \<and> lr 4 = 1 \<and>
    (\<forall>s t. 4 \<le> s \<and> s \<le> t \<longrightarrow> lr t \<le> lr s) \<and> (\<forall>step. (4::nat) < 20 \<and> 20 \<le> step \<longrightarrow> lr step = 1 * (1/20))"
  by (rule cosine_lr_bounds) simp_all

section \<open>The validation loss is a mean over the rows\<close>

lemma loss_loop_mean:
  assumes "\<And>idx. idx \<in> set idxs \<Longrightarrow> loss (mk idx) = Inr (mean (map g idx)) \<and> length (b_cat (mk idx)) = length idx"
  shows "loss_loop loss (map mk idxs) acc cnt =
    Inr (acc + sum_list (map g (concat idxs)), cnt + length (concat idxs))"
  using assms
proof (induction idxs arbitrary: acc cnt)
  case (Cons idx idxs)
  have "loss (mk idx) = Inr (mean (map g idx))" "length (b_cat (mk idx)) = length idx"
    using Cons.prems by simp_all
  then show ?case
    using Cons.IH [of "acc + sum_list (map g idx)" "cnt + length idx"] Cons.prems mean_times_length [of "map g idx"]
    by simp
qed simp

lemma evaluate_loss_mean:
  assumes "0 < batch_size" and "df \<noteq> []"
    and "\<And>idx. idx \<noteq> [] \<Longrightarrow> set idx \<subseteq> {..<length df} \<Longrightarrow> loss (make_batch (BidDataset df) idx) = Inr (mean (map g idx))"
  shows "evaluate_loss loss (BidDataset df) batch_size = Some (Inr (mean (map g [0..<length df])))"
proof -
  let ?idxs = "batch_slices batch_size False [0..<length df]"
  have all: "concat ?idxs = [0..<length df]"
    using concat_batch_slices [OF assms(1), of False "[0..<length df]"] by simp
  have "loss (make_batch (BidDataset df) idx) = Inr (mean (map g idx)) \<and>
      length (b_cat (make_batch (BidDataset df) idx)) = length idx" if "idx \<in> set ?idxs" for idx
  proof
    have "idx \<noteq> []" using batch_slice_length [OF assms(1) that] by auto
    moreover have "set idx \<subseteq> set (concat ?idxs)" using that by auto
    ultimately show "loss (make_batch (BidDataset df) idx) = Inr (mean (map g idx))"
      unfolding all by (intro assms(3)) auto
  qed (simp add: make_batch_def gather_def)
  then have "loss_loop loss (map (make_batch (BidDataset df)) ?idxs) 0 0 =
      Inr (0 + sum_list (map g (concat ?idxs)), 0 + length (concat ?idxs))"
    by (rule loss_loop_mean)
  then have "loss_loop loss (map (make_batch (BidDataset df)) ?idxs) 0 0 = Inr (sum_list (map g [0..<length df]), length df)"
    unfolding all by simp
  moreover have "iter_batches (BidDataset df) batch_size None False = Some (map (make_batch (BidDataset df)) ?idxs)"
    using iter_batches_eq [OF assms(1), of "[0..<length df]" df False]
    by (simp add: iter_batches_unshuffled BidDataset_def)
  ultimately show ?thesis
    using assms(2) by (simp add: evaluate_loss_def mean_def)
qed

definition row_fits :: "('f \<times> nat) list \<Rightarrow> nat \<Rightarrow> out_row \<Rightarrow> bool" where
  "row_fits vs tv r \<longleftrightarrow> input_fits vs tv 9 (o_cat r) (pack_cont r) (pad_tags (o_tag_indices r))"

definition mdn_row_of :: "(real \<Rightarrow> real) \<Rightarrow> mdn_net \<Rightarrow> out_row \<Rightarrow> mdn_row" where
  "mdn_row_of erf n r =
     (case mdn_forward erf n (o_cat r) (pack_cont r) (pad_tags (o_tag_indices r)) of
        Inl _ \<Rightarrow> \<lparr>pi_logits = [], mu = [], sigma = []\<rparr> | Inr m \<Rightarrow> m)"

definition logits_of :: "(real \<Rightarrow> real) \<Rightarrow> network \<Rightarrow> out_row \<Rightarrow> real list" where
  "logits_of erf n r =
     (case bins_forward erf n (o_cat r) (pack_cont r) (pad_tags (o_tag_indices r)) of Inl _ \<Rightarrow> [] | Inr l \<Rightarrow> l)"

lemma batch_inputs_make:
  assumes "set idx \<subseteq> {..<length df}"
  shows "batch_inputs (make_batch (BidDataset df) idx) =
    map (\<lambda>i. (o_cat (df ! i), pack_cont (df ! i), pad_tags (o_tag_indices (df ! i)))) idx"
  using assms
  by (induction idx) (auto simp: batch_inputs_def make_batch_def gather_def BidDataset_def pack_tags_eq)

lemma mdn_rows_eq:
  assumes "net_shape vs dims tv td 9 (3 * net_K n) n" and "\<forall>r \<in> set df. row_fits vs tv r"
    and "set idx \<subseteq> {..<length df}"
  shows "res_map (\<lambda>(cat, cont, tags). mdn_forward erf n cat cont tags) (batch_inputs (make_batch (BidDataset df) idx)) =
    Inr (map (\<lambda>i. mdn_row_of erf n (df ! i)) idx)"
proof -
  have "mdn_forward erf n (o_cat (df ! i)) (pack_cont (df ! i)) (pad_tags (o_tag_indices (df ! i))) =
      Inr (mdn_row_of erf n (df ! i))" if "i \<in> set idx" for i
  proof -
    have "input_fits vs tv 9 (o_cat (df ! i)) (pack_cont (df ! i)) (pad_tags (o_tag_indices (df ! i)))"
      using assms(2,3) that by (auto simp: row_fits_def)
    from head_fwd_ok [OF assms(1) this, of erf] show ?thesis by (auto simp: mdn_row_of_def mdn_forward_def)
  qed
  then show ?thesis
    unfolding batch_inputs_make [OF assms(3)] by (simp add: res_map_Inr_iff list_all2_conv_all_nth)
qed

lemma batch_cols:
  assumes "set idx \<subseteq> {..<length df}"
  shows "b_log_pp (make_batch (BidDataset df) idx) = map (\<lambda>i. o_log_payprice (df ! i)) idx"
    and "b_pp (make_batch (BidDataset df) idx) = map (\<lambda>i. o_payprice (df ! i)) idx"
    and "b_bid (make_batch (BidDataset df) idx) = map (\<lambda>i. o_bidding_price (df ! i)) idx"
  using assms by (auto simp: make_batch_def gather_def BidDataset_def)

lemma map2_map_map: "map2 f (map a idx) (map b idx) = map (\<lambda>i. f (a i) (b i)) idx"
  by (induction idx) auto

lemma mean_uminus: "- mean (map h xs) = mean (map (\<lambda>i. - h i) xs)"
proof -
  have "- sum_list (map h xs) = sum_list (map (\<lambda>i. - h i) xs)" by (induction xs) auto
  then show ?thesis by (simp only: mean_def minus_divide_left length_map)
qed

lemma mdn_batch_loss_mean:
  assumes "net_shape vs dims tv td 9 (3 * net_K n) n" and "\<forall>r \<in> set df. row_fits vs tv r"
    and "set idx \<subseteq> {..<length df}"
  shows "mdn_batch_loss erf n (make_batch (BidDataset df) idx) =
    Inr (mean (map (\<lambda>i. - mdn_log_prob_row (mdn_row_of erf n (df ! i)) (o_log_payprice (df ! i))) idx))"
  by (simp only: mdn_batch_loss_def mdn_rows_eq [OF assms] batch_cols [OF assms(3)] res_bind.simps mdn_nll_def
      Let_def map2_map_map less_irrefl if_False) (simp only: mean_uminus)

lemma price_bin_less: "0 < num_bins \<Longrightarrow> price_bin num_bins pp < num_bins"
  by (simp add: price_bin_def)

lemma bins_rows_eq:
  assumes "net_shape vs dims tv td 9 num_bins n" and "\<forall>r \<in> set df. row_fits vs tv r" and "set idx \<subseteq> {..<length df}"
  shows "res_map (\<lambda>(cat, cont, tags). bins_forward erf n cat cont tags) (batch_inputs (make_batch (BidDataset df) idx)) =
      Inr (map (\<lambda>i. logits_of erf n (df ! i)) idx)"
    and "i \<in> set idx \<Longrightarrow> length (logits_of erf n (df ! i)) = num_bins"
proof -
  have l: "bins_forward erf n (o_cat (df ! i)) (pack_cont (df ! i)) (pad_tags (o_tag_indices (df ! i))) =
      Inr (logits_of erf n (df ! i)) \<and> length (logits_of erf n (df ! i)) = num_bins" if "i \<in> set idx" for i
  proof -
    have "input_fits vs tv 9 (o_cat (df ! i)) (pack_cont (df ! i)) (pad_tags (o_tag_indices (df ! i)))"
      using assms(2,3) that by (auto simp: row_fits_def)
    from head_fwd_ok [OF assms(1) this, of erf] show ?thesis by (auto simp: logits_of_def bins_forward_def)
  qed
  then show "res_map (\<lambda>(cat, cont, tags). bins_forward erf n cat cont tags) (batch_inputs (make_batch (BidDataset df) idx)) =
      Inr (map (\<lambda>i. logits_of erf n (df ! i)) idx)"
    unfolding batch_inputs_make [OF assms(3)] by (simp add: res_map_Inr_iff list_all2_conv_all_nth)
  show "i \<in> set idx \<Longrightarrow> length (logits_of erf n (df ! i)) = num_bins" using l by blast
qed

lemma bins_batch_loss_mean:
  assumes "net_shape vs dims tv td 9 num_bins n" and "\<forall>r \<in> set df. row_fits vs tv r" and "0 < num_bins"
    and "set idx \<subseteq> {..<length df}"
  shows "bins_batch_loss erf n num_bins (make_batch (BidDataset df) idx) =
    Inr (mean (map (\<lambda>i. - (log_softmax (logits_of erf n (df ! i)) ! price_bin num_bins (o_payprice (df ! i)))) idx))"
proof -
  note rows = bins_rows_eq [OF assms(1,2,4), where erf = erf]
  have ok: "list_all2 (\<lambda>row t. t < length row) (map (\<lambda>i. logits_of erf n (df ! i)) idx)
      (map (price_bin num_bins) (map (\<lambda>i. o_payprice (df ! i)) idx))"
    using rows(2) price_bin_less [OF assms(3)] by (simp add: list_all2_conv_all_nth)
  show ?thesis
    using ok by (simp add: bins_batch_loss_def rows(1) batch_cols [OF assms(4)] discrete_bins_nll_def map2_map_map)
qed

text \<open>
  C30: On a nonempty validation set whose rows fit the network, \<open>evaluate_loss\<close> returns the mean over
  the rows of the negative log density of the row's log price (mixture model), or of the cross entropy
  of its clamped price bin (bins model): the batch size, last partial batch included, does not matter.
\<close>

theorem val_loss_is_row_mean:
  assumes "0 < batch_size" and "df \<noteq> []" and "\<forall>r \<in> set df. row_fits vs tv r"
    and "net_shape vs dims tv td 9 (3 * net_K n) n" and "net_shape vs dims tv td 9 num_bins n'" and "0 < num_bins"
  shows "evaluate_loss (mdn_batch_loss erf n) (BidDataset df) batch_size =
      Some (Inr (mean (map (\<lambda>r. - mdn_log_prob_row (mdn_row_of erf n r) (o_log_payprice r)) df))) \<and>
    evaluate_loss (bins_batch_loss erf n' num_bins) (BidDataset df) batch_size =
      Some (Inr (mean (map (\<lambda>r. - (log_softmax (logits_of erf n' r) ! price_bin num_bins (o_payprice r))) df)))"
proof -
  have m: "map (\<lambda>i. f (df ! i)) [0..<length df] = map f df" for f :: "out_row \<Rightarrow> real"
    by (rule nth_equalityI) simp_all
  show ?thesis
    using evaluate_loss_mean [OF assms(1,2) mdn_batch_loss_mean [OF assms(4,3)], of erf]
      evaluate_loss_mean [OF assms(1,2) bins_batch_loss_mean [OF assms(5,3,6)], of erf]
      m [of "\<lambda>r. - mdn_log_prob_row (mdn_row_of erf n r) (o_log_payprice r)"]
      m [of "\<lambda>r. - (log_softmax (logits_of erf n' r) ! price_bin num_bins (o_payprice r))"]
    by simp
qed

lemma demo_out_fits: "c < 3 \<Longrightarrow> row_fits [(City, 3)] 5 (demo_out c [] p)"
  by (simp add: row_fits_def input_fits_def demo_out_def pack_cont_def pad_tags_eq list_all_iff)

theorem val_loss_is_row_mean_witness:
  "\<exists>n n'. evaluate_loss (mdn_batch_loss (\<lambda>_. 0) n) (BidDataset [demo_out 1 [] 5, demo_out 2 [] 9]) 1 =
      Some (Inr (mean (map (\<lambda>r. - mdn_log_prob_row (mdn_row_of (\<lambda>_. 0) n r) (o_log_payprice r)) [demo_out 1 [] 5, demo_out 2 [] 9]))) \<and>
    evaluate_loss (bins_batch_loss (\<lambda>_. 0) n' 4) (BidDataset [demo_out 1 [] 5, demo_out 2 [] 9]) 1 =
      Some (Inr (mean (map (\<lambda>r. - (log_softmax (logits_of (\<lambda>_. 0) n' r) ! price_bin 4 (o_payprice r))) [demo_out 1 [] 5, demo_out 2 [] 9])))"
proof -
  obtain n0 :: network where n0: "net_shape [(City, 3)] (\<lambda>_. Some 2) 5 2 9 6 n0"
    using build_network_shape [OF demo_init_matrix, of "[(City, 3)]" "\<lambda>_. Some 2" 5 2 9 "[]" 6] by auto
  obtain n' :: network where n': "net_shape [(City, 3)] (\<lambda>_. Some 2) 5 2 9 4 n'"
    using build_network_shape [OF demo_init_matrix, of "[(City, 3)]" "\<lambda>_. Some 2" 5 2 9 "[]" 4] by auto
  let ?n = "network.extend n0 (mdn_net.fields 2 (1/20))"
  have n: "net_shape [(City, 3)] (\<lambda>_. Some 2) 5 2 9 (3 * net_K ?n) ?n"
    using n0 by (simp add: net_shape_def network.defs mdn_net.defs)
  show ?thesis
    using val_loss_is_row_mean [OF _ _ _ n n', of 1 "[demo_out 1 [] 5, demo_out 2 [] 9]" "\<lambda>_. 0"]
      demo_out_fits [of 1 5] demo_out_fits [of 2 9] by fastforce
qed

section \<open>The end of an epoch\<close>

lemma finish_epoch_facts:
  assumes "covers (ts_ema st) (ts_w st)" and "finish_epoch val rc st = Inr (st', stop)"
  shows "ts_w st' = ts_w st \<and> ts_ema st' = ts_ema st \<and> ts_step st' = ts_step st \<and>
    (\<exists>raw ema. ts_log st' = ts_log st @ [(raw, ema)] \<and> val (ts_w st) = Inr raw \<and> val (with_data (ts_ema st) (ts_w st)) = Inr ema \<and>
      (if Fin (min raw ema) < ext_minus (ts_best st) (1/100000)
       then ts_best st' = Fin (min raw ema) \<and> ts_bad st' = 0 \<and> \<not> stop \<and>
         (\<exists>ck. ts_ckpt st' = Some ck \<and> ck_val_loss ck = min raw ema \<and> val (ck_full ck) = Inr (ck_val_loss ck) \<and>
           ck_ema ck = ts_ema st \<and> ck_full ck = (if ema \<le> raw then with_data (ts_ema st) (ts_w st) else ts_w st))
       else ts_best st' = ts_best st \<and> ts_ckpt st' = ts_ckpt st \<and> ts_bad st' = ts_bad st + 1 \<and>
         (stop \<longleftrightarrow> rc_patience rc \<le> ts_bad st')))"
proof -
  have d: "distinct (map fst (ts_w st))" using assms(1) by (simp add: covers_def)
  note s = copy_to_eq [OF assms(1)] copy_to_eq [of "snapshot (ts_w st)" "with_data (ts_ema st) (ts_w st)"]
    covers_with_data covers_snapshot [OF d] restore [OF d]
  obtain raw where raw: "val (ts_w st) = Inr raw"
    using assms(2) by (cases "val (ts_w st)") (simp_all add: finish_epoch_def)
  obtain ema where ema: "val (with_data (ts_ema st) (ts_w st)) = Inr ema"
    using assms(2) by (cases "val (with_data (ts_ema st) (ts_w st))") (simp_all add: finish_epoch_def raw s Let_def)
  show ?thesis
    using assms(2) by (cases "ema \<le> raw") (auto simp: finish_epoch_def raw ema s Let_def min_def split: if_splits)
qed

text \<open>
  At the end of an epoch the raw weights are back in the model and the averaged weights are
  untouched, whether a checkpoint was written or not. A checkpoint is written exactly when the smaller
  of the two validation losses beats the best one by more than 1e-5; it stores that loss together with
  weights that attain it: the averaged ones when they are at least as good, the raw ones otherwise.
\<close>

theorem finish_epoch_sound:
  assumes "covers (ts_ema st) (ts_w st)" and "finish_epoch val rc st = Inr (st', stop)"
  shows "ts_w st' = ts_w st \<and> ts_ema st' = ts_ema st \<and> ts_step st' = ts_step st \<and>
    (\<exists>raw ema. ts_log st' = ts_log st @ [(raw, ema)] \<and> val (ts_w st) = Inr raw \<and> val (with_data (ts_ema st) (ts_w st)) = Inr ema \<and>
      (if Fin (min raw ema) < ext_minus (ts_best st) (1/100000)
       then ts_best st' = Fin (min raw ema) \<and> ts_bad st' = 0 \<and> \<not> stop \<and>
         (\<exists>ck. ts_ckpt st' = Some ck \<and> ck_val_loss ck = min raw ema \<and> val (ck_full ck) = Inr (ck_val_loss ck) \<and>
           ck_ema ck = ts_ema st \<and> ck_full ck = (if ema \<le> raw then with_data (ts_ema st) (ts_w st) else ts_w st))
       else ts_best st' = ts_best st \<and> ts_ckpt st' = ts_ckpt st \<and> ts_bad st' = ts_bad st + 1 \<and>
         (stop \<longleftrightarrow> rc_patience rc \<le> ts_bad st')))"
  by (rule finish_epoch_facts [OF assms])

definition demo_state :: "unit train_state" where
  "demo_state = \<lparr>ts_w = [(''w'', \<lparr>requires_grad = True, p_data = [3]\<rparr>)], ts_opt = (), ts_ema = [(''w'', [2])],
     ts_best = Infty, ts_bad = 1, ts_step = 7, ts_ckpt = None, ts_log = []\<rparr>"

definition demo_rc :: run_cfg where
  "demo_rc = \<lparr>rc_bs = 2, rc_epochs = 3, rc_base_lr = 1, rc_ema_decay = 9/10, rc_warmup = 10, rc_patience = 2, rc_total_steps = 9,
     rc_config = \<lparr>c_is_mdn = True, c_K = Some 6, c_num_bins = None, c_hidden = [], c_sigma_floor = Some (1/20)\<rparr>\<rparr>"

definition demo_val :: "params \<Rightarrow> real res" where
  "demo_val w = Inr (sum_list (map (\<lambda>(n, p). sum_list (p_data p)) w))"

theorem finish_epoch_sound_witness:
  "\<exists>st' ck. finish_epoch demo_val demo_rc demo_state = Inr (st', False) \<and> ts_w st' = ts_w demo_state \<and>
    ts_best st' = Fin 2 \<and> ts_ckpt st' = Some ck \<and> demo_val (ck_full ck) = Inr 2"
proof -
  have c: "covers (ts_ema demo_state) (ts_w demo_state)" by (simp add: covers_def demo_state_def)
  obtain st' where st': "finish_epoch demo_val demo_rc demo_state = Inr (st', False)"
    by (simp add: finish_epoch_def demo_val_def demo_state_def copy_to_def snapshot_def Let_def)
  then show ?thesis
    using finish_epoch_sound [OF c st']
    by (auto simp: demo_val_def demo_state_def with_data_def)
qed

section \<open>Early stopping as a state machine\<close>

text \<open>
  The abstract machine consumes one validation loss per epoch. It keeps the best loss, the number of
  epochs since, and whether it has stopped.
\<close>

record es =
  es_best :: ext
  es_bad :: nat
  es_stopped :: bool

inductive es_step :: "nat \<Rightarrow> es \<Rightarrow> real \<Rightarrow> es \<Rightarrow> bool" for patience where
  improve: "\<not> es_stopped s \<Longrightarrow> Fin v < ext_minus (es_best s) (1/100000) \<Longrightarrow>
    es_step patience s v \<lparr>es_best = Fin v, es_bad = 0, es_stopped = False\<rparr>"
| no_improve: "\<not> es_stopped s \<Longrightarrow> \<not> Fin v < ext_minus (es_best s) (1/100000) \<Longrightarrow>
    es_step patience s v \<lparr>es_best = es_best s, es_bad = es_bad s + 1, es_stopped = (patience \<le> es_bad s + 1)\<rparr>"

inductive_cases es_stepE: "es_step patience s v s'"
inductive_simps es_step_stopped: "es_step patience \<lparr>es_best = b, es_bad = n, es_stopped = True\<rparr> v s'"

inductive es_run :: "nat \<Rightarrow> real list \<Rightarrow> es \<Rightarrow> bool" for patience where
  start: "es_run patience [] \<lparr>es_best = Infty, es_bad = 0, es_stopped = False\<rparr>"
| epoch: "es_run patience vs s \<Longrightarrow> es_step patience s v s' \<Longrightarrow> es_run patience (vs @ [v]) s'"

lemma es_run_inv:
  assumes "es_run patience vs s"
  shows "(vs = [] \<longrightarrow> es_best s = Infty \<and> es_bad s = 0) \<and> (vs \<noteq> [] \<longrightarrow> es_bad s < length vs \<and> es_best s = Fin (vs ! (length vs - 1 - es_bad s))) \<and>
    (\<forall>v \<in> set vs. ext_minus (es_best s) (1/100000) \<le> Fin v) \<and> (es_stopped s \<longleftrightarrow> 0 < es_bad s \<and> patience \<le> es_bad s)"
  using assms
proof induction
  case (epoch vs s v s')
  from epoch.hyps(2) show ?case
  proof (cases rule: es_step.cases)
    case improve
    have "ext_minus (Fin v) (1/100000) \<le> Fin w" if "w \<in> set vs" for w
    proof -
      have "ext_minus (es_best s) (1/100000) \<le> Fin w" using epoch.IH that by blast
      with improve have "Fin v < Fin w" by (meson less_le_trans)
      then show ?thesis by simp
    qed
    then show ?thesis using improve by (auto simp: nth_append)
  next
    case no_improve
    have "vs \<noteq> []" using no_improve epoch.IH by auto
    then have "es_bad s < length vs" "es_best s = Fin (vs ! (length vs - 1 - es_bad s))" using epoch.IH by auto
    moreover have "ext_minus (es_best s) (1/100000) \<le> Fin v" using no_improve by (simp add: not_less)
    ultimately show ?thesis
      using no_improve epoch.IH by (auto simp: nth_append Suc_diff_Suc)
  qed
qed simp

text \<open>
  A stopped machine takes no step: before each of its epochs the machine had not stopped. What it does is
  determined by the losses.
\<close>

lemma es_run_prefix:
  assumes "es_run patience vs s" and "j < length vs"
  shows "\<exists>s'. es_run patience (take j vs) s' \<and> \<not> es_stopped s'"
  using assms
proof induction
  case (epoch vs s v s')
  have "\<not> es_stopped s" using epoch.hyps(2) by (auto elim: es_stepE)
  then show ?case using epoch.hyps(1) epoch.IH epoch.prems by (cases "j = length vs") auto
qed simp

lemma es_run_det: "es_run patience vs s \<Longrightarrow> es_run patience vs s' \<Longrightarrow> s = s'"
proof (induction arbitrary: s' rule: es_run.induct)
  case start
  then show ?case by (auto elim: es_run.cases)
next
  case (epoch vs s v t)
  from epoch.prems obtain u where "es_run patience vs u" "es_step patience u v s'" by (auto elim: es_run.cases)
  then show ?case using epoch.IH [of u] epoch.hyps(2) by (auto elim!: es_stepE)
qed

text \<open>The concrete epoch refines one step of the machine.\<close>

definition es_of :: "'s train_state \<Rightarrow> bool \<Rightarrow> es" where
  "es_of st stop = \<lparr>es_best = ts_best st, es_bad = ts_bad st, es_stopped = stop\<rparr>"

definition logged_losses :: "'s train_state \<Rightarrow> real list" where
  "logged_losses st = map (\<lambda>(raw, ema). min raw ema) (ts_log st)"

definition ckpt_ok :: "(params \<Rightarrow> real res) \<Rightarrow> 's train_state \<Rightarrow> bool" where
  "ckpt_ok val st \<longleftrightarrow>
     (case ts_best st of
        Infty \<Rightarrow> ts_ckpt st = None
      | Fin v \<Rightarrow> (case ts_ckpt st of None \<Rightarrow> False | Some ck \<Rightarrow> ck_val_loss ck = v \<and> val (ck_full ck) = Inr v))"

definition keeps_shape :: "'s train_step \<Rightarrow> bool" where
  "keeps_shape train_step \<longleftrightarrow>
     (\<forall>lr b w s w' s' l. train_step lr b w s = Inr (w', s', l) \<longrightarrow> same_shape w' w)"

definition st_shape :: "params \<Rightarrow> 's train_state \<Rightarrow> bool" where
  "st_shape m0 st \<longleftrightarrow> same_shape (ts_w st) m0 \<and> fst ` set (ts_ema st) = fst ` set (snapshot m0)"

lemma st_shape_covers: "distinct (map fst m0) \<Longrightarrow> st_shape m0 st \<Longrightarrow> covers (ts_ema st) (ts_w st)"
  using same_shape_covers [of "ts_w st" m0] by (simp add: st_shape_def covers_def)

lemma train_batches_keeps:
  assumes "keeps_shape train_step" and "distinct (map fst m0)"
  shows "st_shape m0 st \<Longrightarrow> train_batches train_step rc bs st r n = Inr (st', r', n') \<Longrightarrow>
    st_shape m0 st' \<and> ts_best st' = ts_best st \<and> ts_bad st' = ts_bad st \<and> ts_ckpt st' = ts_ckpt st \<and>
    ts_log st' = ts_log st \<and> ts_step st' = ts_step st + length bs"
proof (induction bs arbitrary: st r n)
  case (Cons b bs)
  obtain w opt loss where step: "train_step (cosine_lr (ts_step st) (rc_warmup rc) (rc_total_steps rc) (rc_base_lr rc) (5/100)) b
      (ts_w st) (ts_opt st) = Inr (w, opt, loss)"
    using Cons.prems(2) by (auto simp: Let_def res_bind_Inr_iff)
  have w: "same_shape w m0"
  proof -
    have "same_shape w (ts_w st)" using assms(1) step unfolding keeps_shape_def by blast
    then show ?thesis using Cons.prems(1) by (simp add: st_shape_def same_shape_def)
  qed
  have c: "covers (ts_ema st) w"
    using same_shape_covers [OF w assms(2)] Cons.prems(1) by (simp add: st_shape_def covers_def)
  then obtain sh where sh: "ema_update (rc_ema_decay rc) w (ts_ema st) = Inr sh" "fst ` set sh = fst ` set (ts_ema st)"
    using ema_update_get [of w "ts_ema st"] unfolding covers_def by blast
  let ?st = "st\<lparr>ts_w := w, ts_opt := opt, ts_ema := sh, ts_step := ts_step st + 1\<rparr>"
  have "st_shape m0 ?st" using w sh(2) Cons.prems(1) by (simp add: st_shape_def)
  then show ?case
    using Cons.IH [of ?st] Cons.prems(2) step sh(1) by (fastforce simp: Let_def)
qed simp

lemma train_epoch_refines:
  assumes "keeps_shape train_step" and "distinct (map fst m0)" and "st_shape m0 st" and "ckpt_ok val st"
    and "train_epoch train_step val rc bs st = Inr (st', stop)"
  shows "st_shape m0 st' \<and> ckpt_ok val st' \<and> (\<exists>v. logged_losses st' = logged_losses st @ [v] \<and>
    es_step (rc_patience rc) (es_of st False) v (es_of st' stop))"
proof -
  obtain st1 r n where b: "train_batches train_step rc bs st 0 0 = Inr (st1, r, n)" and f: "finish_epoch val rc st1 = Inr (st', stop)"
    using assms(5) by (auto simp: train_epoch_def res_bind_Inr_iff split: if_splits)
  have k: "st_shape m0 st1" "ts_best st1 = ts_best st" "ts_bad st1 = ts_bad st" "ts_ckpt st1 = ts_ckpt st" "ts_log st1 = ts_log st"
    using train_batches_keeps [OF assms(1-3) b] by auto
  note fin = finish_epoch_facts [OF st_shape_covers [OF assms(2) k(1)] f]
  then obtain raw ema where e: "ts_log st' = ts_log st1 @ [(raw, ema)]"
    "if Fin (min raw ema) < ext_minus (ts_best st1) (1/100000)
     then ts_best st' = Fin (min raw ema) \<and> ts_bad st' = 0 \<and> \<not> stop \<and>
       (\<exists>ck. ts_ckpt st' = Some ck \<and> ck_val_loss ck = min raw ema \<and> val (ck_full ck) = Inr (ck_val_loss ck))
     else ts_best st' = ts_best st1 \<and> ts_ckpt st' = ts_ckpt st1 \<and> ts_bad st' = ts_bad st1 + 1 \<and>
       (stop \<longleftrightarrow> rc_patience rc \<le> ts_bad st')"
    by (auto split: if_splits)
  have "es_step (rc_patience rc) (es_of st False) (min raw ema) (es_of st' stop)"
    using e(2) k es_step.intros [of "es_of st False" "min raw ema" "rc_patience rc"]
    by (auto simp: es_of_def split: if_splits)
  moreover have "ckpt_ok val st'"
    using e(2) k assms(4) by (auto simp: ckpt_ok_def split: if_splits ext.splits option.splits)
  moreover have "st_shape m0 st'" using fin k(1) by (simp add: st_shape_def)
  ultimately show ?thesis using e(1) k(5) by (auto simp: logged_losses_def)
qed

lemma train_epochs_refines:
  assumes "keeps_shape train_step" and "distinct (map fst m0)"
  shows "st_shape m0 st \<Longrightarrow> ckpt_ok val st \<Longrightarrow> es_run (rc_patience rc) (logged_losses st) (es_of st False) \<Longrightarrow>
    train_epochs train_step val rc bss st = Inr st' \<Longrightarrow>
    \<exists>stop. es_run (rc_patience rc) (logged_losses st') (es_of st' stop) \<and> st_shape m0 st' \<and> ckpt_ok val st' \<and>
      length (logged_losses st') \<le> length (logged_losses st) + length bss \<and>
      (\<not> stop \<longrightarrow> length (logged_losses st') = length (logged_losses st) + length bss)"
proof (induction bss arbitrary: st)
  case Nil
  then show ?case by auto
next
  case (Cons bs bss)
  obtain st1 stop where e: "train_epoch train_step val rc bs st = Inr (st1, stop)"
    and r: "(if stop then Inr st1 else train_epochs train_step val rc bss st1) = Inr st'"
    using Cons.prems(4) by (auto simp: res_bind_Inr_iff)
  obtain v where v: "st_shape m0 st1" "ckpt_ok val st1" "logged_losses st1 = logged_losses st @ [v]"
    "es_step (rc_patience rc) (es_of st False) v (es_of st1 stop)"
    using train_epoch_refines [OF assms Cons.prems(1,2) e] by blast
  have run: "es_run (rc_patience rc) (logged_losses st1) (es_of st1 stop)"
    unfolding v(3) using Cons.prems(3) v(4) by (rule es_run.epoch)
  show ?case
  proof (cases stop)
    case True
    then show ?thesis using r run v by auto
  next
    case False
    then show ?thesis using Cons.IH [OF v(1,2)] run r v(3) by simp
  qed
qed

lemma train_epochs_sound:
  assumes "keeps_shape train_step" and "distinct (map fst model)"
    and "train_epochs train_step val rc bss
      \<lparr>ts_w = model, ts_opt = opt0, ts_ema = snapshot model, ts_best = Infty, ts_bad = 0,
       ts_step = 0, ts_ckpt = None, ts_log = []\<rparr> = Inr st"
  shows "(\<exists>stop. es_run (rc_patience rc) (logged_losses st) (es_of st stop) \<and>
      (if stop then 0 < ts_bad st \<and> rc_patience rc \<le> ts_bad st \<and> length (ts_log st) \<le> length bss
       else length (ts_log st) = length bss)) \<and>
    (\<forall>j < length (ts_log st). \<exists>s. es_run (rc_patience rc) (take j (logged_losses st)) s \<and> \<not> es_stopped s) \<and>
    (length (ts_log st) = length bss \<or> length (ts_log st) < length bss \<and> 0 < ts_bad st \<and> rc_patience rc \<le> ts_bad st) \<and>
    (ts_log st \<noteq> [] \<longrightarrow> (\<exists>ck. ts_ckpt st = Some ck \<and> val (ck_full ck) = Inr (ck_val_loss ck) \<and>
      ts_bad st < length (ts_log st) \<and> ck_val_loss ck = logged_losses st ! (length (ts_log st) - 1 - ts_bad st) \<and>
      (\<forall>v \<in> set (logged_losses st). ck_val_loss ck \<le> v + 1/100000)))"
proof -
  let ?st0 = "\<lparr>ts_w = model, ts_opt = opt0, ts_ema = snapshot model, ts_best = Infty, ts_bad = 0,
       ts_step = 0, ts_ckpt = None, ts_log = []\<rparr>"
  have "st_shape model ?st0" "ckpt_ok val ?st0" "logged_losses ?st0 = []"
    by (simp_all add: st_shape_def same_shape_def ckpt_ok_def logged_losses_def)
  moreover have "es_run (rc_patience rc) [] (es_of ?st0 False)"
    using es_run.start by (simp add: es_of_def)
  ultimately obtain stop where run: "es_run (rc_patience rc) (logged_losses st) (es_of st stop)" and ck: "ckpt_ok val st"
    and len: "length (logged_losses st) \<le> length bss" "\<not> stop \<longrightarrow> length (logged_losses st) = length bss"
    using train_epochs_refines [OF assms(1,2) _ _ _ assms(3)] by fastforce
  have l: "length (logged_losses st) = length (ts_log st)" by (simp add: logged_losses_def)
  note inv = es_run_inv [OF run, unfolded es_of_def es.simps l]
  show ?thesis
  proof (intro conjI impI)
    have "es_stopped (es_of st stop) = stop" by (simp add: es_of_def)
    then have "if stop then 0 < ts_bad st \<and> rc_patience rc \<le> ts_bad st \<and> length (ts_log st) \<le> length bss
        else length (ts_log st) = length bss"
      using len l inv by auto
    then show "\<exists>stop. es_run (rc_patience rc) (logged_losses st) (es_of st stop) \<and>
        (if stop then 0 < ts_bad st \<and> rc_patience rc \<le> ts_bad st \<and> length (ts_log st) \<le> length bss
         else length (ts_log st) = length bss)"
      using run by blast
    show "\<forall>j < length (ts_log st). \<exists>s. es_run (rc_patience rc) (take j (logged_losses st)) s \<and> \<not> es_stopped s"
      using es_run_prefix [OF run] l by simp
    show "length (ts_log st) = length bss \<or> length (ts_log st) < length bss \<and> 0 < ts_bad st \<and> rc_patience rc \<le> ts_bad st"
      using len inv l by (cases stop) auto
    assume "ts_log st \<noteq> []"
    then have ne: "logged_losses st \<noteq> []" by (simp add: logged_losses_def)
    then have b: "ts_best st = Fin (logged_losses st ! (length (ts_log st) - 1 - ts_bad st))" "ts_bad st < length (ts_log st)"
      using inv by simp_all
    then obtain ck where c: "ts_ckpt st = Some ck" "ck_val_loss ck = logged_losses st ! (length (ts_log st) - 1 - ts_bad st)"
      "val (ck_full ck) = Inr (ck_val_loss ck)"
      using ck by (auto simp: ckpt_ok_def split: option.splits)
    have "\<forall>v \<in> set (logged_losses st). ck_val_loss ck \<le> v + 1/100000"
      using inv b(1) c(2) by (auto simp: diff_le_eq)
    then show "\<exists>ck. ts_ckpt st = Some ck \<and> val (ck_full ck) = Inr (ck_val_loss ck) \<and>
      ts_bad st < length (ts_log st) \<and> ck_val_loss ck = logged_losses st ! (length (ts_log st) - 1 - ts_bad st) \<and>
      (\<forall>v \<in> set (logged_losses st). ck_val_loss ck \<le> v + 1/100000)"
      using b c by blast
  qed
qed

text \<open>
  C5: A completed run of \<open>main\<close> is a run of the early-stopping machine over its logged losses, ending in the
  state's best loss and number of bad epochs: no epoch was run by a stopped machine, and if the machine has
  not stopped at the end, every epoch was run. So it ran every epoch or stopped after \<open>patience\<close>
  consecutive epochs without improvement, and not later. After at least one epoch the file holds a
  checkpoint whose weights attain its stored validation loss; that loss was logged exactly \<open>bad\<close> epochs
  before the end, and no logged epoch was better by more than 1e-5.
\<close>

theorem early_stopping_sound:
  assumes "keeps_shape train_step" and "distinct (map fst model)"
    and "main_train train_step loss_of perms args cfg train_ds val_ds model opt0 = Inr st"
  shows "let epochs = arg_or (ta_epochs args) (tc_max_epochs cfg); k = length (ts_log st); bad = ts_bad st;
      val = (\<lambda>w. the (evaluate_loss (loss_of w) val_ds (arg_or (ta_batch_size args) (tc_batch_size cfg) * 2))) in
    (\<exists>stop. es_run (tc_patience cfg) (logged_losses st) (es_of st stop) \<and>
      (if stop then 0 < bad \<and> tc_patience cfg \<le> bad \<and> k \<le> epochs else k = epochs)) \<and>
    (\<forall>j < k. \<exists>s. es_run (tc_patience cfg) (take j (logged_losses st)) s \<and> \<not> es_stopped s) \<and>
    (k = epochs \<or> k < epochs \<and> 0 < bad \<and> tc_patience cfg \<le> bad) \<and>
    (0 < k \<longrightarrow> (\<exists>ck. ts_ckpt st = Some ck \<and> val (ck_full ck) = Inr (ck_val_loss ck) \<and>
      bad < k \<and> ck_val_loss ck = logged_losses st ! (k - 1 - bad) \<and>
      (\<forall>v \<in> set (logged_losses st). ck_val_loss ck \<le> v + 1/100000)))"
proof -
  obtain hidden n where "parse_hidden args cfg = Inr hidden"
    "num_batches train_ds (arg_or (ta_batch_size args) (tc_batch_size cfg)) True = Inr n"
    using assms(3) by (auto simp: main_train_def res_bind_Inr_iff Let_def)
  note run = assms(3) [unfolded main_train_def this res_bind.simps Let_def]
  show ?thesis
    using train_epochs_sound [OF assms(1,2) run]
    unfolding Let_def run_cfg.simps length_map length_upt minus_nat.diff_0 length_greater_0_conv .
qed

definition demo_step :: "unit train_step" where
  "demo_step lr b w s = Inr (map (\<lambda>(n, p). (n, p\<lparr>p_data := map (\<lambda>x. x + lr) (p_data p)\<rparr>)) w, s, 1)"

lemma demo_step_shape: "keeps_shape demo_step"
  by (auto simp: keeps_shape_def demo_step_def same_shape_def)

definition demo_args :: train_args where
  "demo_args = \<lparr>ta_is_mdn = True, ta_epochs = Some 2, ta_lr = None, ta_batch_size = Some 1, ta_K = None, ta_num_bins = None,
     ta_hidden = None, ta_ema_decay = None, ta_sigma_floor = Some (1/10)\<rparr>"

definition demo_cfg :: train_cfg where
  "demo_cfg = \<lparr>tc_batch_size = 8192, tc_max_epochs = 12, tc_learning_rate = 1/1000, tc_ema_decay = 99/100, tc_warmup_steps = 500,
     tc_patience = 3, tc_mdn_hidden = [512], tc_bins_hidden = [512], tc_n_components = 6, tc_sigma_floor = 1/20, tc_num_bins = 200\<rparr>"

definition demo_loss :: "params \<Rightarrow> batch \<Rightarrow> real res" where
  "demo_loss w b = Inr (sum_list (map (\<lambda>(n, p). sum_list (p_data p)) w))"

theorem early_stopping_sound_witness:
  "\<exists>st. main_train demo_step demo_loss (\<lambda>_. [0]) demo_args demo_cfg (BidDataset [demo_out 1 [] 5]) (BidDataset [demo_out 2 [] 7])
      [(''w'', \<lparr>requires_grad = True, p_data = [3]\<rparr>)] () = Inr st \<and> (length (ts_log st) = 2 \<or> length (ts_log st) < 2 \<and> 3 \<le> ts_bad st)"
proof -
  let ?m = "[(''w'', \<lparr>requires_grad = True, p_data = [3]\<rparr>)]"
  have n: "ds_n (BidDataset df) = length df" for df by (simp add: BidDataset_def)
  have it: "iter_batches (BidDataset [r]) b p d = Some (map (make_batch (BidDataset [r])) (batch_slices b d [0]))"
    if "0 < b" "p = None \<or> p = Some [0]" for r b p d
    using iter_batches_eq [OF that(1), of "[0]" "[r]" d] that(2) by (auto simp: iter_batches_unshuffled n)
  have l: "length (b_cat (make_batch ds idx)) = length idx" for ds idx by (simp add: make_batch_def gather_def)
  have "is_ok (main_train demo_step demo_loss (\<lambda>_. [0]) demo_args demo_cfg (BidDataset [demo_out 1 [] 5]) (BidDataset [demo_out 2 [] 7]) ?m ())"
    by (simp add: main_train_def parse_hidden_def demo_args_def demo_cfg_def arg_or_def num_batches_def n it evaluate_loss_def
        batch_slices_def batch_count_def train_epoch_def finish_epoch_def demo_step_def demo_loss_def copy_to_def snapshot_def
        blend_def l cosine_lr_def is_ok_def Let_def numeral_2_eq_2)
  then obtain st where st: "main_train demo_step demo_loss (\<lambda>_. [0]) demo_args demo_cfg (BidDataset [demo_out 1 [] 5])
      (BidDataset [demo_out 2 [] 7]) ?m () = Inr st"
    by (auto simp: is_ok_iff)
  then show ?thesis
    using early_stopping_sound [OF demo_step_shape _ st] by (auto simp: demo_args_def demo_cfg_def arg_or_def Let_def)
qed

text \<open>
  The deviations of the network rebuilt from a checkpoint of \<open>train.py\<close> differ from those of the
  trained network by the difference of the configured and the used floor: with \<open>--sigma_floor\<close> set, the
  checkpoint does not describe the model that was trained and validated.
\<close>

theorem ckpt_sigma_floor_differs:
  assumes "ta_is_mdn args"
  shows "\<exists>s. c_sigma_floor (ckpt_config args cfg hidden) = Some s \<and>
     sigma (split_head K s out) =
       map (\<lambda>d. d + (tc_sigma_floor cfg - used_sigma_floor args cfg)) (sigma (split_head K (used_sigma_floor args cfg) out)) \<and>
     (s = used_sigma_floor args cfg \<longleftrightarrow> ta_sigma_floor args = None \<or> ta_sigma_floor args = Some (tc_sigma_floor cfg))"
  using assms by (auto simp: split_head_def ckpt_config_def used_sigma_floor_def arg_or_def split: option.splits)

theorem ckpt_sigma_floor_differs_witness:
  "\<exists>s. c_sigma_floor (ckpt_config demo_args demo_cfg []) = Some s \<and> s \<noteq> used_sigma_floor demo_args demo_cfg"
proof -
  have "ta_is_mdn demo_args" by (simp add: demo_args_def)
  from ckpt_sigma_floor_differs [OF this, of demo_cfg "[]" 1 "[]"] show ?thesis
    by (auto simp: demo_args_def demo_cfg_def)
qed

section \<open>Averaged weights of the shapes of the model\<close>

text \<open>Shared by the proofs about the scripts that train: every trained tensor has an averaged one of its length.\<close>

lemma same_shape_refl [simp]: "same_shape m m"
  by (simp add: same_shape_def)

lemma same_shape_sym: "same_shape a b \<Longrightarrow> same_shape b a"
  by (simp add: same_shape_def)

lemma same_shape_trans: "same_shape a b \<Longrightarrow> same_shape b c \<Longrightarrow> same_shape a c"
  by (simp add: same_shape_def)

definition shadow_fits :: "shadow \<Rightarrow> params \<Rightarrow> bool" where
  "shadow_fits sh m \<longleftrightarrow>
     (\<forall>n p. map_of m n = Some p \<and> requires_grad p \<longrightarrow> map_option length (map_of sh n) = Some (length (p_data p)))"

lemma shadow_fits_same: "shadow_fits sh m \<Longrightarrow> same_shape m' m \<Longrightarrow> shadow_fits sh m'"
  unfolding shadow_fits_def using same_shape_get [of m m'] by (metis same_shape_sym)

lemma shadow_fits_snapshot: "distinct (map fst m) \<Longrightarrow> shadow_fits (snapshot m) m"
  unfolding shadow_fits_def by (auto simp: snapshot_get simp del: map_of_eq_Some_iff)

lemma shadow_fits_covers:
  assumes "shadow_fits sh m" and "distinct (map fst m)"
  shows "covers sh m"
  unfolding covers_def
proof (intro conjI ballI, rule assms(2))
  fix q assume q: "q \<in> set m"
  obtain n p where np: "q = (n, p)" by (cases q)
  have "map_of m n = Some p" using q assms(2) by (simp add: np)
  then have "requires_grad p \<longrightarrow> map_of sh n \<noteq> None" using assms(1) unfolding shadow_fits_def by fastforce
  then show "case q of (n, p) \<Rightarrow> requires_grad p \<longrightarrow> n \<in> fst ` set sh" by (simp add: np map_of_eq_None_iff)
qed

lemma with_data_shape:
  assumes "shadow_fits sh m" and "distinct (map fst m)"
  shows "same_shape (with_data sh m) m"
proof -
  have "requires_grad p \<longrightarrow> length (the (map_of sh n)) = length (p_data p)" if "(n, p) \<in> set m" for n p
  proof -
    have "map_of m n = Some p" using that assms(2) by simp
    then show ?thesis using assms(1) unfolding shadow_fits_def by fastforce
  qed
  then show ?thesis by (auto simp: same_shape_def with_data_def split: if_splits)
qed

lemma ema_update_fits:
  assumes "shadow_fits sh m" and "distinct (map fst m)"
  shows "\<exists>sh'. ema_update d m sh = Inr sh' \<and> shadow_fits sh' m"
proof -
  have c: "covers sh m" by (rule shadow_fits_covers [OF assms])
  obtain sh' where s: "ema_update d m sh = Inr sh'" "\<forall>n. map_of sh' n = (case map_of m n of
        Some p \<Rightarrow> if requires_grad p then map_option (\<lambda>s. blend d s (p_data p)) (map_of sh n) else map_of sh n
      | None \<Rightarrow> map_of sh n)"
    using ema_update_get [of m sh d] c unfolding covers_def by blast
  have "shadow_fits sh' m"
    unfolding shadow_fits_def
  proof (intro allI impI)
    fix n p assume p: "map_of m n = Some p \<and> requires_grad p"
    then obtain z where "map_of sh n = Some z" "length z = length (p_data p)"
      using assms(1) unfolding shadow_fits_def by fastforce
    then show "map_option length (map_of sh' n) = Some (length (p_data p))" using p by (simp add: s(2))
  qed
  then show ?thesis using s(1) by blast
qed

end
