(* ===== verification/BidOptimizer.thy ===== *)
theory BidOptimizer
  imports Loss
begin

text \<open>
  \<open>rtb-bid-model/src/bid_optimizer.py\<close>: from a predicted price distribution and the impression
  value \<open>V\<close>, the bid that maximises \<open>(V - b) * P(win at b)\<close>. Grid search for both heads, the
  damped Newton alternatives, the oracle profit and the regret.

  A batch is a list of rows. \<open>V\<close> is the documented "scalar or (B,)": a Python float, a
  zero-dimensional tensor or one value per row; another length is a \<open>RuntimeError\<close>. The broadcasting of
  one-element tensors (a \<open>V\<close> of one entry for many rows, or many values for one row), which no caller
  uses, is not modelled.
\<close>

section \<open>Impression values\<close>

datatype impression_value = VFloat real | VScalar real | VRows "real list"

fun expand_V :: "nat \<Rightarrow> impression_value \<Rightarrow> real list" where
  "expand_V B (VFloat v) = replicate B v"
| "expand_V B (VScalar v) = replicate B v"
| "expand_V B (VRows vs) = vs"

section \<open>Grid search\<close>

text \<open>
  The profit of every candidate, zero where the candidate exceeds \<open>V\<close>, and the selection with its
  no-bid mask.
\<close>

definition expected_profit :: "real \<Rightarrow> real list \<Rightarrow> real list \<Rightarrow> real list" where
  "expected_profit V cands cdf = map2 (\<lambda>b c. if V < b then 0 else (V - b) * c) cands cdf"

definition select_bid :: "real list \<Rightarrow> real list \<Rightarrow> real \<times> real" where
  "select_bid cands profit =
     (let best_idx = argmax profit; best_profit = profit ! best_idx; best_bid = cands ! best_idx
      in if best_profit < 0 then (0, 0) else (best_bid, best_profit))"

definition grid_row :: "real list \<Rightarrow> real list \<Rightarrow> real \<Rightarrow> real \<times> real" where
  "grid_row cands cdf V = select_bid cands (expected_profit V cands cdf)"

record grid_out =
  best_bid :: "real list"
  best_profit :: "real list"
  candidates :: "real list"
  profit_grid :: "real list list"

definition grid_optimize :: "real list \<Rightarrow> real list list \<Rightarrow> impression_value \<Rightarrow> grid_out res" where
  "grid_optimize cands cdfs V =
     (let Vs = expand_V (length cdfs) V
      in if length Vs \<noteq> length cdfs then Inl RuntimeError
         else if cands = [] then Inl IndexError
         else Inr \<lparr>best_bid = map2 (\<lambda>c v. fst (grid_row cands c v)) cdfs Vs,
                   best_profit = map2 (\<lambda>c v. snd (grid_row cands c v)) cdfs Vs,
                   candidates = cands,
                   profit_grid = map2 (\<lambda>c v. expected_profit v cands c) cdfs Vs\<rparr>)"

definition grid_optimize_bins :: "nat \<Rightarrow> real list list \<Rightarrow> impression_value \<Rightarrow> grid_out res" where
  "grid_optimize_bins num_bins probs V = grid_optimize (arange num_bins) (map cumsum probs) V"

text \<open>
  The candidates of the mixture search are prices, the mixture lives in log-price space:
  \<open>z = (log b - mu) / (sigma * sqrt 2)\<close>, \<open>0.5 * (1 + erf z)\<close>, weighted by the softmax of the logits.
\<close>

definition mdn_cands :: "nat \<Rightarrow> real \<Rightarrow> real list" where
  "mdn_cands n_candidates b_max = linspace (1 / 2) b_max n_candidates"

definition mdn_grid_cdf :: "(real \<Rightarrow> real) \<Rightarrow> real list \<Rightarrow> mdn_row \<Rightarrow> real list" where
  "mdn_grid_cdf erf cands r =
     map (\<lambda>log_b. sum_list (map2 (*) (softmax (pi_logits r))
            (map2 (\<lambda>m s. 1 / 2 * (1 + erf ((log_b - m) / (s * sqrt 2)))) (mu r) (sigma r))))
       (map ln cands)"

definition grid_optimize_mdn ::
  "(real \<Rightarrow> real) \<Rightarrow> mdn_row list \<Rightarrow> impression_value \<Rightarrow> nat \<Rightarrow> real \<Rightarrow> grid_out res" where
  "grid_optimize_mdn erf rs V n_candidates b_max =
     (let cands = mdn_cands n_candidates b_max
      in grid_optimize cands (map (mdn_grid_cdf erf cands) rs) V)"

section \<open>Damped Newton iteration, several starts\<close>

text \<open>
  One iteration of the loop body over a bid \<open>b\<close>: clamp, evaluate distribution function and density,
  average with the Newton target, clamp again. The NaN test of the source never fires over reals.
\<close>

definition newton_step ::
  "(real \<Rightarrow> real \<times> real) \<Rightarrow> real \<Rightarrow> real \<Rightarrow> real \<Rightarrow> real \<Rightarrow> real \<Rightarrow> real" where
  "newton_step cdf_pdf V lo1 lo2 b_max b =
     (let b1 = clamp lo1 b_max b; (cdf_v, pdf_v) = cdf_pdf b1;
          denom = max pdf_v (1 / 10 ^ 9);
          new_b = V - cdf_v / denom
      in clamp lo2 b_max (1 / 2 * b1 + 1 / 2 * new_b))"

text \<open>The converged bid of one start is cut at \<open>V\<close> and its profit compared with the best so far.\<close>

definition newton_bid ::
  "(real \<Rightarrow> real \<times> real) \<Rightarrow> real \<Rightarrow> real \<Rightarrow> real \<Rightarrow> real \<Rightarrow> nat \<Rightarrow> real \<Rightarrow> real" where
  "newton_bid cdf_pdf V lo1 lo2 b_max n_iters start_frac =
     (let b = (newton_step cdf_pdf V lo1 lo2 b_max ^^ n_iters) (max (V * start_frac) (1 / 2))
      in if V < b then V else b)"

definition newton_try ::
  "(real \<Rightarrow> real) \<Rightarrow> real \<Rightarrow> real \<Rightarrow> real \<times> real \<Rightarrow> real \<times> real" where
  "newton_try cdf V b best =
     (let profit = (V - b) * cdf b in if snd best < profit then (b, profit) else best)"

definition newton_row ::
  "(real \<Rightarrow> real \<times> real) \<Rightarrow> (real \<Rightarrow> real) \<Rightarrow> real \<Rightarrow> real \<Rightarrow> real \<Rightarrow> nat \<Rightarrow> nat \<Rightarrow> real \<Rightarrow> real \<times> real" where
  "newton_row cdf_pdf cdf lo1 lo2 b_max n_iters n_starts V0 =
     (let V = max V0 1;
          bids = map (newton_bid cdf_pdf V lo1 lo2 b_max n_iters) (linspace (5 / 100) (95 / 100) n_starts);
          best = fold (newton_try cdf V) bids (0, - (10 ^ 18))
      in if snd best < 0 then (0, 0) else best)"

definition mdn_cdf_pdf :: "(real \<Rightarrow> real) \<Rightarrow> mdn_row \<Rightarrow> real \<Rightarrow> real \<times> real" where
  "mdn_cdf_pdf erf r b =
     (let log_b = ln (max b (1 / 10 ^ 6));
          cdf_v = sum_list (map2 (*) (softmax (pi_logits r))
            (map2 (\<lambda>m s. 1 / 2 * (1 + erf ((log_b - m) / (s * sqrt 2)))) (mu r) (sigma r)));
          pdf_log = sum_list (map2 (*) (softmax (pi_logits r))
            (map2 (\<lambda>m s. let zz = (log_b - m) / s
                          in exp (- (1 / 2) * zz * zz) / (s * sqrt (2 * pi))) (mu r) (sigma r)))
      in (cdf_v, pdf_log / max b (1 / 10 ^ 6)))"

definition newton_optimize_mdn ::
  "(real \<Rightarrow> real) \<Rightarrow> mdn_row list \<Rightarrow> impression_value \<Rightarrow> nat \<Rightarrow> nat \<Rightarrow> real \<Rightarrow> (real \<times> real) list res" where
  "newton_optimize_mdn erf rs V n_iters n_starts b_max =
     (let Vs = expand_V (length rs) V
      in if length Vs \<noteq> length rs then Inl RuntimeError
         else Inr (map2 (\<lambda>r v. newton_row (mdn_cdf_pdf erf r)
                (\<lambda>b. fst (mdn_cdf_pdf erf r (max b (1 / 10 ^ 3))))
                (1 / 10 ^ 3) (1 / 2) b_max n_iters n_starts v) rs Vs))"

text \<open>
  The distribution function of the bins, interpolated linearly between integer prices. Without bins the
  first \<open>gather\<close> of a start has no entry to read.
\<close>

definition interp_cdf_pdf :: "real list \<Rightarrow> real \<Rightarrow> real \<Rightarrow> real \<times> real" where
  "interp_cdf_pdf cdf_full b_max b =
     (let num_bins = length cdf_full;
          b_c = clamp 0 b_max b;
          lo = clamp 0 (int num_bins - 1) \<lfloor>b_c\<rfloor>;
          hi = clamp 0 (int num_bins - 1) (lo + 1);
          w = clamp 0 1 (b_c - real_of_int lo);
          cdf_lo = cdf_full ! nat lo;
          cdf_hi = cdf_full ! nat hi
      in (cdf_lo + w * (cdf_hi - cdf_lo), max (cdf_hi - cdf_lo) (1 / 10 ^ 9)))"

definition newton_optimize_bins ::
  "nat \<Rightarrow> real list list \<Rightarrow> impression_value \<Rightarrow> nat \<Rightarrow> nat \<Rightarrow> real option \<Rightarrow> (real \<times> real) list res" where
  "newton_optimize_bins num_bins probs V n_iters n_starts b_max_arg =
     (let b_max = (case b_max_arg of None \<Rightarrow> real num_bins - 1 | Some m \<Rightarrow> m);
          Vs = expand_V (length probs) V
      in if length Vs \<noteq> length probs then Inl RuntimeError
         else if num_bins = 0 \<and> 0 < n_starts \<and> probs \<noteq> [] then Inl RuntimeError
         else Inr (map2 (\<lambda>p v. let cdf_full = cumsum p in
                newton_row (interp_cdf_pdf cdf_full b_max)
                  (\<lambda>b. fst (interp_cdf_pdf cdf_full b_max b))
                  0 0 b_max n_iters n_starts v) probs Vs))"

section \<open>Oracle profit and regret\<close>

definition perfect_profit1 :: "real \<Rightarrow> real \<Rightarrow> real" where
  "perfect_profit1 payprice V = (if payprice < V then 1 else 0) * (V - payprice)"

definition perfect_profit :: "real list \<Rightarrow> impression_value \<Rightarrow> real list" where
  "perfect_profit payprice V = map2 perfect_profit1 payprice (expand_V (length payprice) V)"

definition regret1 :: "real \<Rightarrow> real \<Rightarrow> real \<Rightarrow> real" where
  "regret1 actual_bid payprice V =
     (let win = (if payprice \<le> actual_bid then 1 else 0); realized = win * (V - actual_bid)
      in perfect_profit1 payprice V - realized)"

definition regret :: "real list \<Rightarrow> real list \<Rightarrow> impression_value \<Rightarrow> real list" where
  "regret actual_bid payprice V =
     map2 (\<lambda>(b, p) v. regret1 b p v) (zip actual_bid payprice) (expand_V (length payprice) V)"

section \<open>Grid search finds the best candidate\<close>

lemma length_expected_profit [simp, arr_simps]:
  "length (expected_profit V cands cdf) = min (length cands) (length cdf)"
  by (simp add: expected_profit_def)

lemma nth_expected_profit [arr_simps]:
  "i < length cands \<Longrightarrow> i < length cdf \<Longrightarrow>
   expected_profit V cands cdf ! i = (if V < cands ! i then 0 else (V - cands ! i) * cdf ! i)"
  by (simp add: expected_profit_def)

lemma expected_profit_nonneg:
  assumes "\<forall>c \<in> set cdf. 0 \<le> c" and "i < length cands" and "i < length cdf"
  shows "0 \<le> expected_profit V cands cdf ! i"
  using assms by (simp add: nth_expected_profit)

text \<open>A grid with nonnegative win probabilities: the no-bid branch is not taken.\<close>

lemma grid_row_eq:
  assumes "\<forall>c \<in> set cdf. 0 \<le> c" and "length cdf = length cands" and "cands \<noteq> []"
  shows "grid_row cands cdf V =
    (let i = argmax (expected_profit V cands cdf) in (cands ! i, expected_profit V cands cdf ! i))"
proof -
  have "argmax (expected_profit V cands cdf) < length cands"
    using am.pick_less [of "expected_profit V cands cdf"] assms(2,3) by force
  then have "0 \<le> expected_profit V cands cdf ! argmax (expected_profit V cands cdf)"
    using assms by (intro expected_profit_nonneg) auto
  then show ?thesis by (simp add: grid_row_def select_bid_def Let_def)
qed

lemma grid_row_spec:
  assumes nonneg: "\<forall>c \<in> set cdf. 0 \<le> c" and len: "length cdf = length cands" and ne: "cands \<noteq> []"
    and row: "grid_row cands cdf V = (b, p)"
  obtains i where "i < length cands" and "b = cands ! i" and "p = expected_profit V cands cdf ! i"
    and "0 \<le> p"
    and "\<And>k. k < length cands \<Longrightarrow> expected_profit V cands cdf ! k \<le> p"
    and "\<And>k. k < i \<Longrightarrow> expected_profit V cands cdf ! k < p"
proof -
  let ?e = "expected_profit V cands cdf" let ?i = "argmax ?e"
  have e: "?e \<noteq> []" using len ne by (cases cands; cases cdf) (auto simp: expected_profit_def)
  have i: "?i < length cands" using am.pick_less [OF e] len by simp
  have bp: "b = cands ! ?i" "p = ?e ! ?i"
    using row grid_row_eq [OF nonneg len ne, of V] by (simp_all add: Let_def)
  show ?thesis
  proof (rule that [of ?i])
    show "0 \<le> p" unfolding bp using nonneg len i by (intro expected_profit_nonneg) auto
    show "?e ! k \<le> p" if "k < length cands" for k
      unfolding bp using that len by (intro am.pick_max) simp
    show "?e ! k < p" if "k < ?i" for k
      unfolding bp using that e by (rule am.pick_first)
  qed (use i bp in auto)
qed

text \<open>The bid exceeds \<open>V\<close> only when every candidate is unprofitable; then it is the first one.\<close>

lemma grid_row_bid_le:
  assumes "\<forall>c \<in> set cdf. 0 \<le> c" and "length cdf = length cands" and "cands \<noteq> []"
    and "grid_row cands cdf V = (b, p)"
  shows "b \<le> V \<or> b = cands ! 0 \<and> p = 0"
  using assms
proof (rule grid_row_spec)
  fix i assume i: "i < length cands" and b: "b = cands ! i" and p: "p = expected_profit V cands cdf ! i"
    and first: "\<And>k. k < i \<Longrightarrow> expected_profit V cands cdf ! k < p"
  show ?thesis
  proof (cases "V < b")
    case True
    with i b p assms(2) have p0: "p = 0" by (simp add: nth_expected_profit)
    have "i = 0"
    proof (rule ccontr)
      assume "i \<noteq> 0"
      then have "expected_profit V cands cdf ! 0 < 0" using first [of 0] p0 by simp
      with assms(1-3) show False using expected_profit_nonneg [of cdf 0 cands V] by simp
    qed
    with b p0 show ?thesis by simp
  qed simp
qed

lemma grid_optimize_row:
  assumes "grid_optimize cands cdfs V = Inr out" and "i < length cdfs"
  shows "grid_row cands (cdfs ! i) (expand_V (length cdfs) V ! i) = (best_bid out ! i, best_profit out ! i)"
    and "cands \<noteq> []" and "length (best_bid out) = length cdfs" and "length (best_profit out) = length cdfs"
    and "length (expand_V (length cdfs) V) = length cdfs"
  using assms by (auto simp: grid_optimize_def Let_def split: if_splits)

section \<open>Bins: interpolation between integer prices\<close>

definition row_ok :: "real list \<Rightarrow> bool" where
  "row_ok p \<longleftrightarrow> p \<noteq> [] \<and> (\<forall>x \<in> set p. 0 \<le> x) \<and> sum_list p = 1"

lemma row_ok_cdf:
  assumes "row_ok p" and "i < length p"
  shows "0 \<le> cumsum p ! i" and "cumsum p ! i \<le> 1"
  using assms cumsum_nonneg [of p i] cumsum_le_total [of p i] by (auto simp: row_ok_def)

lemma row_ok_cdf_set: "row_ok p \<Longrightarrow> \<forall>c \<in> set (cumsum p). 0 \<le> c"
  using row_ok_cdf(1) by (auto simp: in_set_conv_nth)

text \<open>The two grid points around a bid and the weight between them.\<close>

lemma interp_cdf_pdf_cases:
  assumes "0 \<le> b" and "b \<le> b_max" and "b_max \<le> real (length cdf) - 1"
  obtains k where "k < length cdf" and "real k \<le> b" and "b - real k < 1"
    and "fst (interp_cdf_pdf cdf b_max b)
       = cdf ! k + (b - real k) * (cdf ! min (Suc k) (length cdf - 1) - cdf ! k)"
proof -
  define k where "k = nat \<lfloor>b\<rfloor>"
  have fl: "int k = \<lfloor>b\<rfloor>" using assms(1) by (simp add: k_def)
  have le: "real k \<le> b" and fr: "b - real k < 1"
    using fl by linarith+
  have k: "k < length cdf" using le assms by linarith
  have "clamp 0 b_max b = b" using assms by (simp add: clamp_id)
  moreover have "clamp 0 (int (length cdf) - 1) \<lfloor>b\<rfloor> = int k"
    using k by (simp add: fl [symmetric] clamp_id)
  moreover have "nat (clamp 0 (int (length cdf) - 1) (int k + 1)) = min (Suc k) (length cdf - 1)"
    using k by (auto simp: clamp_def)
  moreover have "clamp 0 1 (b - real_of_int (int k)) = b - real k"
    using le fr by (simp add: clamp_id)
  ultimately have "fst (interp_cdf_pdf cdf b_max b)
       = cdf ! k + (b - real k) * (cdf ! min (Suc k) (length cdf - 1) - cdf ! k)"
    by (simp add: interp_cdf_pdf_def Let_def)
  with k le fr show ?thesis by (intro that [of k]) auto
qed

lemma interp_cdf_at_grid:
  assumes "k < length cdf" and "b_max = real (length cdf) - 1"
  shows "fst (interp_cdf_pdf cdf b_max (real k)) = cdf ! k"
  by (rule interp_cdf_pdf_cases [of "real k" b_max cdf])
    (use assms in \<open>auto simp: le_less_Suc_eq dest!: order_antisym\<close>)

lemma interp_cdf_bounds:
  assumes "row_ok p" and "0 \<le> b" and "b \<le> b_max" and "b_max \<le> real (length p) - 1"
  shows "0 \<le> fst (interp_cdf_pdf (cumsum p) b_max b)" and "fst (interp_cdf_pdf (cumsum p) b_max b) \<le> 1"
proof -
  obtain k where k: "k < length p" and kb: "real k \<le> b" "b - real k < 1"
    and F: "fst (interp_cdf_pdf (cumsum p) b_max b)
       = cumsum p ! k + (b - real k) * (cumsum p ! min (Suc k) (length p - 1) - cumsum p ! k)"
    using interp_cdf_pdf_cases [of b b_max "cumsum p"] assms(2-4) by auto
  let ?c0 = "cumsum p ! k" and ?c1 = "cumsum p ! min (Suc k) (length p - 1)"
  have c: "0 \<le> ?c0" "?c0 \<le> ?c1" "?c1 \<le> 1"
    using k assms(1) by (auto simp: row_ok_cdf row_ok_def intro!: cumsum_mono)
  have up: "(b - real k) * (?c1 - ?c0) \<le> 1 * (?c1 - ?c0)"
    using c kb by (intro mult_right_mono) auto
  have low: "0 \<le> (b - real k) * (?c1 - ?c0)" using c kb by simp
  show "0 \<le> fst (interp_cdf_pdf (cumsum p) b_max b)" unfolding F using c low by linarith
  have "?c0 + (b - real k) * (?c1 - ?c0) \<le> ?c1" using up by simp
  then show "fst (interp_cdf_pdf (cumsum p) b_max b) \<le> 1" unfolding F using c(3) by (rule order.trans)
qed

text \<open>Between two grid points the interpolated profit gains less than one price unit.\<close>

lemma interp_profit_le_grid:
  assumes ok: "row_ok p" and b: "0 \<le> b" "b \<le> b_max" "b_max \<le> real (length p) - 1"
  shows "(V - b) * fst (interp_cdf_pdf (cumsum p) b_max b)
    \<le> snd (grid_row (arange (length p)) (cumsum p) V) + 1"
proof -
  let ?F = "fst (interp_cdf_pdf (cumsum p) b_max b)"
  let ?best = "snd (grid_row (arange (length p)) (cumsum p) V)"
  obtain k where k: "k < length p" and kb: "real k \<le> b" "b - real k < 1"
    and F: "?F = cumsum p ! k + (b - real k) * (cumsum p ! min (Suc k) (length p - 1) - cumsum p ! k)"
    using interp_cdf_pdf_cases [of b b_max "cumsum p"] b by auto
  let ?c1 = "cumsum p ! min (Suc k) (length p - 1)"
  have c: "0 \<le> cumsum p ! k" "cumsum p ! k \<le> ?c1" "?c1 \<le> 1"
    using k ok by (auto simp: row_ok_cdf row_ok_def intro!: cumsum_mono)
  have "(b - real k) * (?c1 - cumsum p ! k) \<le> 1 * (?c1 - cumsum p ! k)"
    using c kb by (intro mult_right_mono) auto
  then have F1: "0 \<le> ?F" "?F \<le> ?c1" using F c kb by auto
  obtain bid profit where row: "grid_row (arange (length p)) (cumsum p) V = (bid, profit)"
    by fastforce
  have best: "0 \<le> ?best" "\<And>j. j < length p \<Longrightarrow> (V - real j) * cumsum p ! j \<le> ?best"
  proof -
    have ne: "arange (length p) \<noteq> []" using k by (metis length_arange list.size(3) not_less_zero)
    note spec = grid_row_spec [OF row_ok_cdf_set [OF ok] _ ne row]
    show p0: "0 \<le> ?best" using spec row by auto
    show "(V - real j) * cumsum p ! j \<le> ?best" if j: "j < length p" for j
    proof (cases "V < real j")
      case True
      then have "(V - real j) * cumsum p ! j \<le> 0"
        using row_ok_cdf(1) [OF ok j] by (simp add: mult_nonpos_nonneg)
      with p0 show ?thesis by linarith
    next
      case False
      then have "expected_profit V (arange (length p)) (cumsum p) ! j = (V - real j) * cumsum p ! j"
        using j by (simp add: nth_expected_profit)
      with spec j row show ?thesis by (metis length_arange length_cumsum snd_conv)
    qed
  qed
  show ?thesis
  proof (cases "V < b")
    case True
    then have "(V - b) * ?F \<le> 0" using F1 by (simp add: mult_nonpos_nonneg)
    with best(1) show ?thesis by linarith
  next
    case False
    have "(V - b) * ?F \<le> (V - b) * ?c1" using False F1 by (intro mult_left_mono) auto
    also have "\<dots> \<le> (V - real k) * ?c1" using kb c by (intro mult_right_mono) auto
    also have "\<dots> \<le> ?best + 1"
    proof (cases "Suc k < length p")
      case True
      then have "min (Suc k) (length p - 1) = Suc k" by simp
      with True have "(V - real (Suc k)) * ?c1 \<le> ?best" using best(2) [of "Suc k"] by simp
      moreover have "(V - real k) * ?c1 = (V - real (Suc k)) * ?c1 + ?c1"
        by (simp add: algebra_simps)
      ultimately show ?thesis using c by linarith
    next
      case False
      with k have "min (Suc k) (length p - 1) = k" by simp
      then show ?thesis using best(2) [OF k] by simp
    qed
    finally show ?thesis .
  qed
qed

section \<open>Newton: the best of the starts\<close>

lemma newton_try_fold:
  assumes "fold (newton_try F V) bids best = (b, p)"
  shows "snd best \<le> p \<and> (\<forall>x \<in> set bids. (V - x) * F x \<le> p)
     \<and> ((b, p) = best \<or> b \<in> set bids \<and> p = (V - b) * F b)"
  using assms
proof (induction bids arbitrary: best)
  case (Cons x xs)
  from Cons.prems have "fold (newton_try F V) xs (newton_try F V x best) = (b, p)" by simp
  from Cons.IH [OF this] show ?case
    by (auto simp: newton_try_def Let_def split: if_splits)
qed auto

lemma newton_step_bounds:
  assumes "lo2 \<le> b_max"
  shows "lo2 \<le> newton_step cp V lo1 lo2 b_max b \<and> newton_step cp V lo1 lo2 b_max b \<le> b_max"
  using assms by (simp add: newton_step_def Let_def case_prod_unfold clamp_ge)

lemma newton_bid_bounds:
  assumes "lo2 \<le> b_max" and "0 < n_iters"
  shows "newton_bid cp V lo1 lo2 b_max n_iters fr \<le> V"
    and "min V lo2 \<le> newton_bid cp V lo1 lo2 b_max n_iters fr"
    and "newton_bid cp V lo1 lo2 b_max n_iters fr \<le> b_max"
proof -
  obtain m where "n_iters = Suc m" using assms(2) by (cases n_iters) auto
  then have "lo2 \<le> (newton_step cp V lo1 lo2 b_max ^^ n_iters) (max (V * fr) (1 / 2))
     \<and> (newton_step cp V lo1 lo2 b_max ^^ n_iters) (max (V * fr) (1 / 2)) \<le> b_max"
    using newton_step_bounds [OF assms(1)] by simp
  then show "newton_bid cp V lo1 lo2 b_max n_iters fr \<le> V"
    and "min V lo2 \<le> newton_bid cp V lo1 lo2 b_max n_iters fr"
    and "newton_bid cp V lo1 lo2 b_max n_iters fr \<le> b_max"
    by (auto simp: newton_bid_def Let_def)
qed

text \<open>
  With a nonnegative distribution function every start has a nonnegative profit, so the result is the
  converged bid of the best start and the initial \<open>-1e18\<close> never survives.
\<close>

lemma newton_row_spec:
  assumes lo: "0 \<le> lo2" "lo2 \<le> b_max" and iters: "0 < n_iters" and starts: "0 < n_starts"
    and F: "\<And>b. 0 \<le> b \<Longrightarrow> b \<le> b_max \<Longrightarrow> 0 \<le> F b"
    and row: "newton_row cp F lo1 lo2 b_max n_iters n_starts V0 = (b, p)"
  shows "0 \<le> b" and "b \<le> max V0 1" and "b \<le> b_max" and "p = (max V0 1 - b) * F b" and "0 \<le> p"
    and "\<forall>fr \<in> set (linspace (5 / 100) (95 / 100) n_starts).
      (let x = newton_bid cp (max V0 1) lo1 lo2 b_max n_iters fr in (max V0 1 - x) * F x) \<le> p"
proof -
  let ?V = "max V0 1"
  let ?bids = "map (newton_bid cp ?V lo1 lo2 b_max n_iters) (linspace (5 / 100) (95 / 100) n_starts)"
  obtain b' p' where f: "fold (newton_try F ?V) ?bids (0, - (10 ^ 18)) = (b', p')" by fastforce
  note res = newton_try_fold [OF f]
  have bid: "0 \<le> x \<and> x \<le> ?V \<and> x \<le> b_max" if "x \<in> set ?bids" for x
  proof -
    obtain fr where "x = newton_bid cp ?V lo1 lo2 b_max n_iters fr" using \<open>x \<in> set ?bids\<close> by auto
    moreover have "0 \<le> min ?V lo2" using lo(1) by simp
    ultimately show ?thesis
      by (metis newton_bid_bounds [OF lo(2) iters] order.trans)
  qed
  have ne: "?bids \<noteq> []" using starts by (auto simp: linspace_def)
  then obtain x where x: "x \<in> set ?bids" by (meson list.set_sel(1))
  have "0 \<le> (?V - x) * F x" using bid [OF x] F by simp
  also have "\<dots> \<le> p'" using res x by blast
  finally have p0: "0 \<le> p'" .
  have "(b', p') \<noteq> (0, - (10 ^ 18))" using p0 by auto
  with res have b': "b' \<in> set ?bids" "p' = (?V - b') * F b'" by auto
  have eq: "b = b'" "p = p'" using row f p0 by (simp_all add: newton_row_def Let_def)
  from bid [OF b'(1)] b'(2) p0 res show "0 \<le> b" "b \<le> ?V" "b \<le> b_max" "p = (?V - b) * F b" "0 \<le> p"
    "\<forall>fr \<in> set (linspace (5 / 100) (95 / 100) n_starts).
      (let x = newton_bid cp ?V lo1 lo2 b_max n_iters fr in (?V - x) * F x) \<le> p"
    unfolding eq by (auto simp: Let_def)
qed

section \<open>Regret\<close>

lemma perfect_profit1_eq: "perfect_profit1 pp V = max 0 (V - pp)"
  by (simp add: perfect_profit1_def)

lemma regret1_eq: "regret1 b pp V = max 0 (V - pp) - (if pp \<le> b then V - b else 0)"
  by (simp add: regret1_def perfect_profit1_eq Let_def)

lemma regret1_nonneg: "0 \<le> regret1 b pp V"
  by (auto simp: regret1_eq max_def)

lemma nth_regret:
  assumes "i < length bids" and "length pps = length bids" and "length (expand_V (length pps) V) = length pps"
  shows "regret bids pps V ! i = regret1 (bids ! i) (pps ! i) (expand_V (length pps) V ! i)"
  using assms by (simp add: regret_def)

text \<open>
  A constant bid against a list of observed prices: the realised profit is \<open>n * (V - b)\<close> times the
  empirical distribution function, so the bid the grid search picks for the empirical distribution
  has the least total regret of all integer bids.
\<close>

definition empirical_probs :: "nat \<Rightarrow> nat list \<Rightarrow> real list" where
  "empirical_probs num_bins pps =
     map (\<lambda>k. real (count_list pps k) / real (length pps)) [0..<num_bins]"

definition total_regret :: "real \<Rightarrow> nat list \<Rightarrow> real \<Rightarrow> real" where
  "total_regret b pps V = sum_list (map (\<lambda>pp. regret1 b (real pp) V) pps)"

lemma sum_count_list_le: "(\<Sum>k\<le>(m::nat). count_list pps k) = length (filter (\<lambda>pp. pp \<le> m) pps)"
proof (induction pps)
  case (Cons a pps)
  have "(\<Sum>k\<le>m. count_list (a # pps) k)
      = (\<Sum>k\<le>m. (if a = k then Suc 0 else 0) + count_list pps k)"
    by (rule sum.cong) auto
  also have "\<dots> = (\<Sum>k\<le>m. if a = k then Suc 0 else 0) + length (filter (\<lambda>pp. pp \<le> m) pps)"
    by (simp add: sum.distrib Cons.IH)
  also have "(\<Sum>k\<le>m. if a = k then Suc 0 else 0) = (if a \<in> {..m} then Suc 0 else 0)"
    by (rule sum.delta') simp
  finally show ?case by simp
qed simp

lemma cumsum_empirical:
  assumes "k < num_bins"
  shows "cumsum (empirical_probs num_bins pps) ! k
    = real (length (filter (\<lambda>pp. pp \<le> k) pps)) / real (length pps)"
proof -
  have "cumsum (empirical_probs num_bins pps) ! k
     = (\<Sum>i\<leftarrow>[0..<Suc k]. real (count_list pps i) / real (length pps))"
    using assms by (simp add: nth_cumsum empirical_probs_def take_map min_def del: upt_Suc)
  also have "\<dots> = (\<Sum>i\<le>k. real (count_list pps i)) / real (length pps)"
    by (simp add: sum_list_distinct_conv_sum_set sum_divide_distrib atLeast0LessThan
        lessThan_Suc_atMost del: upt_Suc)
  finally show ?thesis by (simp add: sum_count_list_le flip: of_nat_sum)
qed

lemma total_regret_eq:
  "total_regret b pps V = sum_list (map (\<lambda>pp. max 0 (V - real pp)) pps)
     - (V - b) * real (length (filter (\<lambda>pp. real pp \<le> b) pps))"
  by (induction pps) (auto simp: total_regret_def regret1_eq algebra_simps)

lemma row_ok_empirical:
  assumes "pps \<noteq> []" and "\<forall>pp \<in> set pps. pp < num_bins"
  shows "row_ok (empirical_probs num_bins pps)"
proof -
  obtain m where m: "num_bins = Suc m" using assms by (cases num_bins; cases pps) auto
  have "sum_list (empirical_probs num_bins pps) = cumsum (empirical_probs num_bins pps) ! m"
    using m by (simp add: nth_cumsum empirical_probs_def del: upt_Suc)
  also have "\<dots> = 1"
    using m assms by (simp add: cumsum_empirical less_Suc_eq_le)
  finally show ?thesis using m by (auto simp: row_ok_def empirical_probs_def)
qed

section \<open>Properties\<close>

lemma grid_optimize_Inr:
  assumes "length (expand_V (length cdfs) V) = length cdfs" and "cands \<noteq> []"
  obtains out where "grid_optimize cands cdfs V = Inr out"
  using assms by (simp add: grid_optimize_def Let_def)

lemma arange_nonempty: "0 < n \<Longrightarrow> arange n \<noteq> []"
  by (simp add: arange_def)

text \<open>
  C1: grid_optimize_bins succeeds on every batch of proper distributions with one value per row, and
  in each row with nonnegative value returns an integer bid not above the value whose expected profit
  is the largest over all affordable integer bids, the smallest such bid among ties.
\<close>

theorem grid_bins_optimal:
  assumes "0 < n" and "length (expand_V (length probs) V) = length probs"
    and "\<forall>p \<in> set probs. row_ok p \<and> length p = n" and "\<forall>v \<in> set (expand_V (length probs) V). 0 \<le> v"
  shows "\<exists>out. grid_optimize_bins n probs V = Inr out \<and> length (best_bid out) = length probs
    \<and> (\<forall>i<length probs. let v = expand_V (length probs) V ! i; F = cumsum (probs ! i) in
        \<exists>b<n. best_bid out ! i = real b \<and> real b \<le> v
          \<and> best_profit out ! i = (v - real b) * F ! b
          \<and> (\<forall>k<n. real k \<le> v \<longrightarrow> (v - real k) * F ! k \<le> best_profit out ! i)
          \<and> (\<forall>k<b. (v - real k) * F ! k < best_profit out ! i))"
proof -
  obtain out where out: "grid_optimize (arange n) (map cumsum probs) V = Inr out"
    by (rule grid_optimize_Inr [of "map cumsum probs" V "arange n"])
      (use assms arange_nonempty in auto)
  have "\<exists>b<n. best_bid out ! i = real b \<and> real b \<le> v
      \<and> best_profit out ! i = (v - real b) * F ! b
      \<and> (\<forall>k<n. real k \<le> v \<longrightarrow> (v - real k) * F ! k \<le> best_profit out ! i)
      \<and> (\<forall>k<b. (v - real k) * F ! k < best_profit out ! i)"
    if i: "i < length probs" and v: "v = expand_V (length probs) V ! i" and F: "F = cumsum (probs ! i)" for i v F
  proof -
    have ok: "row_ok (probs ! i)" "length (probs ! i) = n" using assms(3) i by auto
    have v0: "0 \<le> v" using assms(2,4) i v by simp
    have row: "grid_row (arange n) F v = (best_bid out ! i, best_profit out ! i)"
      using grid_optimize_row(1) [OF out, of i] i v F by simp
    have Fpos: "\<forall>c \<in> set F. 0 \<le> c" using ok(1) unfolding F by (rule row_ok_cdf_set)
    have e: "expected_profit v (arange n) F ! k = (if v < real k then 0 else (v - real k) * F ! k)"
      if "k < n" for k using that ok F by (simp add: nth_expected_profit)
    have le: "best_bid out ! i \<le> v"
      using grid_row_bid_le [OF Fpos _ _ row] v0 ok F arange_nonempty assms(1) by auto
    show ?thesis
    proof (rule grid_row_spec [OF Fpos _ arange_nonempty [OF assms(1)] row])
      fix b assume b: "b < length (arange n)" "best_bid out ! i = arange n ! b"
        and p: "best_profit out ! i = expected_profit v (arange n) F ! b"
        and all: "\<And>k. k < length (arange n) \<Longrightarrow> expected_profit v (arange n) F ! k \<le> best_profit out ! i"
        and less: "\<And>k. k < b \<Longrightarrow> expected_profit v (arange n) F ! k < best_profit out ! i"
      have "(v - real k) * F ! k \<le> best_profit out ! i" if "k < n" "real k \<le> v" for k
        using all [of k] that e [of k] by simp
      moreover have "(v - real k) * F ! k < best_profit out ! i" if "k < b" for k
        using less [OF that] that b le e [of k] by simp
      ultimately show ?thesis using b p e [of b] le by (intro exI [of _ b]) auto
    qed (use ok F in simp)
  qed
  moreover have "length (best_bid out) = length probs"
    using out assms(2) by (auto simp: grid_optimize_def Let_def split: if_splits)
  ultimately show ?thesis using out by (auto simp: grid_optimize_bins_def Let_def)
qed

theorem grid_bins_optimal_witness:
  "\<exists>out. grid_optimize_bins 3 [[1/2, 1/4, 1/4]] (VFloat 10) = Inr out
    \<and> best_bid out = [2] \<and> best_profit out = [8]
    \<and> (\<forall>k<3. (10 - real k) * cumsum [1/2, 1/4, 1/4] ! k \<le> best_profit out ! 0)"
proof -
  let ?p = "[1/2, 1/4, 1/4 :: real]"
  have val: "grid_optimize_bins 3 [?p] (VFloat 10)
      = Inr \<lparr>best_bid = [2], best_profit = [8], candidates = [0, 1, 2],
             profit_grid = [[5, 27/4, 8]]\<rparr>"
    by code_simp
  have "\<exists>out. grid_optimize_bins 3 [?p] (VFloat 10) = Inr out
     \<and> (\<forall>k<3. real k \<le> 10 \<longrightarrow> (10 - real k) * cumsum ?p ! k \<le> best_profit out ! 0)"
    using grid_bins_optimal [of 3 "[?p]" "VFloat 10"] by (auto simp: row_ok_def Let_def)
  then show ?thesis using val by auto
qed

text \<open>
  C11: grid_optimize_mdn succeeds on well-formed mixtures with one value per row; each row's profit is
  the largest of \<open>(V - b) * CDF(log b)\<close>, with the mixture distribution function of loss.py, over the
  candidate bids not above the value, and the bid is one of the candidates. It is at most the value
  unless no candidate is affordable.
\<close>

theorem grid_mdn_optimal:
  assumes "erf_like erf" and "\<forall>r \<in> set rs. mdn_wf r" and "0 < n_candidates" and "1 / 2 \<le> b_max"
    and "length (expand_V (length rs) V) = length rs"
  shows "\<exists>out. grid_optimize_mdn erf rs V n_candidates b_max = Inr out
    \<and> (\<forall>i<length rs. let v = expand_V (length rs) V ! i; cands = set (mdn_cands n_candidates b_max);
           F = (\<lambda>b. mdn_cdf_row erf (rs ! i) (ln b)) in
        best_bid out ! i \<in> cands
      \<and> (1 / 2 \<le> v \<longrightarrow> best_bid out ! i \<le> v \<and> best_profit out ! i = (v - best_bid out ! i) * F (best_bid out ! i))
      \<and> (\<forall>b \<in> cands. b \<le> v \<longrightarrow> (v - b) * F b \<le> best_profit out ! i))"
proof -
  let ?c = "mdn_cands n_candidates b_max"
  have ne: "?c \<noteq> []" using assms(3) by (simp add: mdn_cands_def linspace_def)
  have first: "?c ! 0 = 1 / 2" using assms(3) by (simp add: mdn_cands_def nth_linspace)
  obtain out where out: "grid_optimize ?c (map (mdn_grid_cdf erf ?c) rs) V = Inr out"
    by (rule grid_optimize_Inr [of "map (mdn_grid_cdf erf ?c) rs" V ?c]) (use assms(5) ne in auto)
  have "best_bid out ! i \<in> set ?c
      \<and> (1 / 2 \<le> v \<longrightarrow> best_bid out ! i \<le> v \<and> best_profit out ! i = (v - best_bid out ! i) * F (best_bid out ! i))
      \<and> (\<forall>b \<in> set ?c. b \<le> v \<longrightarrow> (v - b) * F b \<le> best_profit out ! i)"
    if i: "i < length rs" and v: "v = expand_V (length rs) V ! i"
      and F: "F = (\<lambda>b. mdn_cdf_row erf (rs ! i) (ln b))" for i v F
  proof -
    let ?F = "mdn_grid_cdf erf ?c (rs ! i)"
    have cdf: "?F = map F ?c" unfolding F by (simp add: mdn_grid_cdf_def mdn_cdf_row_def comp_cdf_def [abs_def])
    have row: "grid_row ?c ?F v = (best_bid out ! i, best_profit out ! i)"
      using grid_optimize_row(1) [OF out, of i] i v by simp
    have Fpos: "\<forall>c \<in> set ?F. 0 \<le> c" unfolding cdf F using mdn_cdf_row_bounds(1) [OF assms(1)] by auto
    have e: "expected_profit v ?c ?F ! k = (if v < ?c ! k then 0 else (v - ?c ! k) * F (?c ! k))"
      if "k < length ?c" for k using that by (simp add: nth_expected_profit cdf)
    have lenF: "length ?F = length ?c" by (simp add: cdf)
    have le: "best_bid out ! i \<le> v" if "1 / 2 \<le> v"
      using grid_row_bid_le [OF Fpos lenF ne row] that first by auto
    show ?thesis
    proof (rule grid_row_spec [OF Fpos lenF ne row])
      fix b assume b: "b < length ?c" "best_bid out ! i = ?c ! b"
        and p: "best_profit out ! i = expected_profit v ?c ?F ! b"
        and all: "\<And>k. k < length ?c \<Longrightarrow> expected_profit v ?c ?F ! k \<le> best_profit out ! i"
      have "(v - x) * F x \<le> best_profit out ! i" if "x \<in> set ?c" "x \<le> v" for x
        using all e that by (auto simp: in_set_conv_nth) (metis not_le)
      then show ?thesis using b p e [of b] le by auto
    qed
  qed
  then show ?thesis using out by (auto simp: grid_optimize_mdn_def Let_def)
qed

text \<open>A stand-in for the error function and a one-component row, for the witnesses.\<close>

definition erf_demo :: "real \<Rightarrow> real" where
  "erf_demo x = max (- 1) (min 1 x)"

definition mdn_demo :: mdn_row where
  "mdn_demo = \<lparr>pi_logits = [0], mu = [0], sigma = [1]\<rparr>"

lemma erf_demo_like: "erf_like erf_demo"
  by (auto simp: erf_like_def erf_demo_def intro!: monoI)

lemma mdn_demo_wf: "mdn_wf mdn_demo"
  by (simp add: mdn_wf_def mdn_demo_def)

theorem grid_mdn_optimal_witness:
  "\<exists>out. grid_optimize_mdn erf_demo [mdn_demo] (VFloat 2) 2 2 = Inr out
    \<and> best_bid out ! 0 \<in> {1 / 2, 2} \<and> best_bid out ! 0 \<le> 2
    \<and> (2 - 1 / 2) * mdn_cdf_row erf_demo mdn_demo (ln (1 / 2)) \<le> best_profit out ! 0"
proof -
  have c: "set (mdn_cands 2 2) = {1 / 2, 2}"
    by (simp add: mdn_cands_def linspace_def upt_rec)
  show ?thesis
    using grid_mdn_optimal [OF erf_demo_like, of "[mdn_demo]" 2 2 "VFloat 2"]
    by (auto simp: mdn_demo_wf c Let_def)
qed

text \<open>
  C40: when the value lies below the first candidate of the mixture search (half a fen), the no-bid
  test \<open>best_profit < 0\<close> does not fire and the row still gets the first candidate, a bid above its value,
  with a reported profit of zero.
\<close>

theorem grid_mdn_overbids:
  assumes "erf_like erf" and "0 < n_candidates" and "1 / 2 \<le> b_max"
    and "length (expand_V (length rs) V) = length rs"
    and "i < length rs" and "expand_V (length rs) V ! i < 1 / 2"
  shows "\<exists>out. grid_optimize_mdn erf rs V n_candidates b_max = Inr out
    \<and> best_bid out ! i = 1 / 2 \<and> expand_V (length rs) V ! i < best_bid out ! i \<and> best_profit out ! i = 0"
proof -
  let ?c = "mdn_cands n_candidates b_max" let ?v = "expand_V (length rs) V ! i"
  let ?F = "mdn_grid_cdf erf ?c (rs ! i)" let ?e = "expected_profit ?v ?c ?F"
  have ne: "?c \<noteq> []" using assms(2) by (simp add: mdn_cands_def linspace_def)
  have c0: "?c ! 0 = 1 / 2" using assms(2) by (simp add: mdn_cands_def nth_linspace)
  obtain out where out: "grid_optimize ?c (map (mdn_grid_cdf erf ?c) rs) V = Inr out"
    by (rule grid_optimize_Inr [of "map (mdn_grid_cdf erf ?c) rs" V ?c]) (use assms ne in auto)
  have zero: "?e ! k = 0" if "k < length ?c" for k
  proof -
    have "1 / 2 \<le> ?c ! k"
      using linspace_bounds [OF assms(3), of "?c ! k" n_candidates] that by (simp add: mdn_cands_def)
    then show ?thesis using assms(6) that by (simp add: nth_expected_profit mdn_grid_cdf_def)
  qed
  have "argmax ?e = 0"
    by (rule am.pick_eqI) (use ne zero in \<open>auto simp: mdn_grid_cdf_def\<close>)
  then have "grid_row ?c ?F ?v = (1 / 2, 0)"
    using zero [of 0] ne c0 by (simp add: grid_row_def select_bid_def Let_def)
  then have "best_bid out ! i = 1 / 2" "best_profit out ! i = 0"
    using grid_optimize_row(1) [OF out, of i] assms(5) by simp_all
  then show ?thesis using out assms(6) by (simp add: grid_optimize_mdn_def Let_def)
qed

theorem grid_mdn_overbids_witness:
  "\<exists>out. grid_optimize_mdn erf_demo [mdn_demo] (VFloat 0) 500 300 = Inr out
    \<and> best_bid out ! 0 = 1 / 2 \<and> 0 < best_bid out ! 0 \<and> best_profit out ! 0 = 0"
  using grid_mdn_overbids [OF erf_demo_like, of 500 300 "[mdn_demo]" "VFloat 0" 0] by simp

text \<open>
  C10: newton_optimize_bins succeeds on every batch of proper distributions with one value per row. In
  each row the bid lies between 0 and both the value (raised to at least 1) and the last bin, the
  profit is the interpolated one at that bid, no start converged to a better bid, and the integer grid
  search loses less than one fen against it.
\<close>

theorem newton_bins_sound:
  assumes "0 < n" and "0 < n_iters" and "0 < n_starts"
    and "length (expand_V (length probs) V) = length probs"
    and "\<forall>p \<in> set probs. row_ok p \<and> length p = n"
  shows "\<exists>res. newton_optimize_bins n probs V n_iters n_starts None = Inr res \<and> length res = length probs
    \<and> (\<forall>i<length probs. let v = max (expand_V (length probs) V ! i) 1; (b, p) = res ! i;
           F = (\<lambda>x. fst (interp_cdf_pdf (cumsum (probs ! i)) (real n - 1) x)) in
        0 \<le> b \<and> b \<le> v \<and> b \<le> real n - 1 \<and> 0 \<le> p \<and> p = (v - b) * F b
      \<and> (\<forall>fr \<in> set (linspace (5 / 100) (95 / 100) n_starts).
           let x = newton_bid (interp_cdf_pdf (cumsum (probs ! i)) (real n - 1)) v 0 0 (real n - 1) n_iters fr
           in (v - x) * F x \<le> p)
      \<and> p \<le> snd (grid_row (arange n) (cumsum (probs ! i)) v) + 1)"
proof -
  let ?bm = "real n - 1"
  let ?row = "\<lambda>p v. newton_row (interp_cdf_pdf (cumsum p) ?bm)
      (\<lambda>b. fst (interp_cdf_pdf (cumsum p) ?bm b)) 0 0 ?bm n_iters n_starts v"
  let ?Vs = "expand_V (length probs) V"
  have res: "newton_optimize_bins n probs V n_iters n_starts None = Inr (map2 ?row probs ?Vs)"
    using assms(1,4) by (simp add: newton_optimize_bins_def Let_def)
  have "0 \<le> b \<and> b \<le> v \<and> b \<le> ?bm \<and> 0 \<le> p \<and> p = (v - b) * F b
      \<and> (\<forall>fr \<in> set (linspace (5 / 100) (95 / 100) n_starts).
           let x = newton_bid (interp_cdf_pdf (cumsum (probs ! i)) ?bm) v 0 0 ?bm n_iters fr
           in (v - x) * F x \<le> p)
      \<and> p \<le> snd (grid_row (arange n) (cumsum (probs ! i)) v) + 1"
    if i: "i < length probs" and v: "v = max (?Vs ! i) 1"
      and bp: "(b, p) = map2 ?row probs ?Vs ! i"
      and F: "F = (\<lambda>x. fst (interp_cdf_pdf (cumsum (probs ! i)) ?bm x))" for i v b p F
  proof -
    have ok: "row_ok (probs ! i)" "length (probs ! i) = n" using assms(5) i by auto
    have row: "newton_row (interp_cdf_pdf (cumsum (probs ! i)) ?bm) F 0 0 ?bm n_iters n_starts (?Vs ! i) = (b, p)"
      using bp i assms(4) unfolding F by simp
    have Fpos: "0 \<le> F x" if "0 \<le> x" "x \<le> ?bm" for x
      unfolding F using ok that by (intro interp_cdf_bounds(1)) auto
    have bm: "0 \<le> ?bm" using assms(1) by simp
    note spec = newton_row_spec [OF order.refl bm assms(2,3) Fpos row, folded v]
    have "(v - b) * F b \<le> snd (grid_row (arange n) (cumsum (probs ! i)) v) + 1"
      using interp_profit_le_grid [OF ok(1), of b ?bm v] spec ok unfolding F by simp
    with spec show ?thesis by (simp add: Let_def)
  qed
  then show ?thesis using res assms(4) by (auto simp: Let_def split: prod.splits)
qed

theorem newton_bins_sound_witness:
  "\<exists>b p. newton_optimize_bins 2 [[1/2, 1/2]] (VFloat 4) 15 8 None = Inr [(b, p)]
    \<and> 0 \<le> b \<and> b \<le> 1 \<and> 0 \<le> p \<and> p \<le> snd (grid_row [0, 1] [1/2, 1] 4) + 1"
proof -
  have c: "cumsum [1/2, 1/2] = [1/2, 1]" "arange 2 = [0, 1]"
    by (simp_all add: cumsum_def arange_def upt_rec)
  obtain res where res: "newton_optimize_bins 2 [[1/2, 1/2]] (VFloat 4) 15 8 None = Inr res"
      "length res = 1"
    and b: "case res ! 0 of (b, p) \<Rightarrow> 0 \<le> b \<and> b \<le> 1 \<and> 0 \<le> p
      \<and> p \<le> snd (grid_row [0, 1] [1/2, 1] 4) + 1"
    using newton_bins_sound [of 2 15 8 "[[1/2, 1/2]]" "VFloat 4"]
    by (fastforce simp: row_ok_def Let_def c)
  then obtain b p where "res = [(b, p)]" by (cases res; cases "hd res") auto
  with res b show ?thesis by auto
qed

text \<open>
  for every bid, clearing price and value the regret of an impression is never negative, vanishes
  for a bid equal to an affordable clearing price, and is at most the oracle profit plus what the bid
  exceeds the value by.
\<close>

theorem regret_bounds:
  assumes "length payprice = length bids" and "length (expand_V (length payprice) V) = length payprice"
    and "i < length bids"
  shows "let r = regret bids payprice V ! i; v = expand_V (length payprice) V ! i;
             b = bids ! i; pp = payprice ! i in
    0 \<le> r \<and> r \<le> perfect_profit payprice V ! i + max 0 (b - v)
    \<and> (b = pp \<and> pp \<le> v \<longrightarrow> r = 0) \<and> (b < pp \<longrightarrow> r = perfect_profit payprice V ! i)"
proof -
  let ?v = "expand_V (length payprice) V ! i"
  have r: "regret bids payprice V ! i = regret1 (bids ! i) (payprice ! i) ?v"
    using assms by (intro nth_regret) auto
  have p: "perfect_profit payprice V ! i = max 0 (?v - payprice ! i)"
    using assms by (simp add: perfect_profit_def perfect_profit1_eq)
  show ?thesis by (auto simp: Let_def r p regret1_eq max_def)
qed

theorem regret_bounds_witness:
  "regret [60, 80, 200] [70, 70, 160] (VFloat 150) = [80, 10, 50]
    \<and> 0 \<le> regret [60, 80, 200] [70, 70, 160] (VFloat 150) ! 2
    \<and> regret [60, 80, 200] [70, 70, 160] (VFloat 150) ! 2
        \<le> perfect_profit [70, 70, 160] (VFloat 150) ! 2 + max 0 (200 - 150)"
proof -
  have val: "regret [60, 80, 200] [70, 70, 160] (VFloat 150) = [80, 10, 50]" by code_simp
  show ?thesis
    using val regret_bounds [of "[70, 70, 160]" "[60, 80, 200]" "VFloat 150" 2]
    by (simp add: Let_def)
qed

text \<open>
  for a constant value, the bid that grid_optimize_bins picks for the empirical distribution of a
  sample of integer clearing prices has the least total regret on that sample among all integer
  bids of the grid.
\<close>

theorem empirical_bid_least_regret:
  assumes "pps \<noteq> []" and "\<forall>pp \<in> set pps. pp < n" and "0 \<le> V"
  shows "\<exists>out. grid_optimize_bins n [empirical_probs n pps] (VFloat V) = Inr out
    \<and> (\<forall>k<n. total_regret (best_bid out ! 0) pps V \<le> total_regret (real k) pps V)"
proof -
  let ?p = "empirical_probs n pps" and ?N = "real (length pps)"
  have n: "0 < n" using assms by (cases pps) auto
  have N: "0 < ?N" using assms(1) by simp
  obtain out b where out: "grid_optimize_bins n [?p] (VFloat V) = Inr out"
    and b: "b < n" "best_bid out ! 0 = real b" "best_profit out ! 0 = (V - real b) * cumsum ?p ! b" "real b \<le> V"
    and best: "\<forall>k<n. real k \<le> V \<longrightarrow> (V - real k) * cumsum ?p ! k \<le> best_profit out ! 0"
    using grid_bins_optimal [of n "[?p]" "VFloat V"] n assms(3) row_ok_empirical [OF assms(1,2)]
    by (auto simp: Let_def empirical_probs_def)
  have cdf: "cumsum ?p ! k * ?N = real (length (filter (\<lambda>pp. real pp \<le> real k) pps))" if "k < n" for k
    using that N by (simp add: cumsum_empirical)
  have "total_regret (real b) pps V \<le> total_regret (real k) pps V" if k: "k < n" for k
  proof -
    have "(V - real k) * cumsum ?p ! k \<le> (V - real b) * cumsum ?p ! b"
    proof (cases "real k \<le> V")
      case True
      then show ?thesis using best b(3) k by simp
    next
      case False
      have "0 \<le> cumsum ?p ! j" if "j < n" for j
        using row_ok_cdf(1) [OF row_ok_empirical [OF assms(1,2)]] that by (simp add: empirical_probs_def)
      then have "(V - real k) * cumsum ?p ! k \<le> 0" and "0 \<le> (V - real b) * cumsum ?p ! b"
        using False k b by (auto intro: mult_nonpos_nonneg)
      then show ?thesis by linarith
    qed
    then have "(V - real k) * cumsum ?p ! k * ?N \<le> (V - real b) * cumsum ?p ! b * ?N"
      using N by (intro mult_right_mono) auto
    then show ?thesis using k b(1) by (simp add: total_regret_eq mult.assoc cdf)
  qed
  then show ?thesis using out b(2) by auto
qed

theorem empirical_bid_least_regret_witness:
  "\<exists>out. grid_optimize_bins 4 [empirical_probs 4 [0, 2, 2, 3]] (VFloat 6) = Inr out
    \<and> best_bid out = [2] \<and> (\<forall>k<4. total_regret 2 [0, 2, 2, 3] 6 \<le> total_regret (real k) [0, 2, 2, 3] 6)"
proof -
  have "case grid_optimize_bins 4 [empirical_probs 4 [0, 2, 2, 3]] (VFloat 6) of
      Inl e \<Rightarrow> False | Inr out \<Rightarrow> best_bid out = [2]"
    by code_simp
  then show ?thesis
    using empirical_bid_least_regret [of "[0, 2, 2, 3]" 4 6] by auto
qed

end
