(* ===== verification/Evaluate.thy ===== *)
theory Evaluate
  imports Train BidOptimizer "HOL-Library.List_Lexorder" "HOL-Library.Char_ord"
begin

text \<open>
  \<open>evaluate.py\<close>: collecting the predictions of a model over a dataset, calibration (PIT, the
  Kolmogorov-Smirnov statistic, coverage), the chunked regret drivers around the bid optimizers, and
  the metrics of \<open>main\<close> with its per-advertiser breakdown. The rebuilding of a network from a
  checkpoint is in \<open>Checkpoint\<close>, the whole script in \<open>Pipeline\<close>; printing is not modelled.
\<close>

section \<open>Collecting predictions\<close>

record 'h preds =
  pr_head :: "'h list"
  pr_log_prob :: "real list"
  pr_log_pp :: "real list"
  pr_pp :: "real list"
  pr_bid :: "real list"

text \<open>Head outputs and log probabilities of one batch: mixture rows, or the softmax of the bins.\<close>

definition mdn_batch_out :: "(real \<Rightarrow> real) \<Rightarrow> mdn_net \<Rightarrow> batch \<Rightarrow> (mdn_row list \<times> real list) res" where
  "mdn_batch_out erf n b =
     res_bind (res_map (\<lambda>(cat, cont, tags). mdn_forward erf n cat cont tags) (batch_inputs b)) (\<lambda>rows.
       Inr (rows, mdn_log_prob rows (b_log_pp b)))"

definition true_bin_log_prob :: "real list \<Rightarrow> nat \<Rightarrow> real" where
  "true_bin_log_prob p k = ln (max (p ! k) (1 / 10 ^ 30))"

definition bins_batch_out :: "(real \<Rightarrow> real) \<Rightarrow> network \<Rightarrow> nat \<Rightarrow> batch \<Rightarrow> (real list list \<times> real list) res" where
  "bins_batch_out erf n num_bins b =
     res_bind (res_map (\<lambda>(cat, cont, tags). bins_forward erf n cat cont tags) (batch_inputs b)) (\<lambda>logits.
       let probs = map softmax logits
       in Inr (probs, map2 (\<lambda>p x. true_bin_log_prob p (price_bin num_bins x)) probs (b_pp b)))"

text \<open>\<open>torch.cat\<close> of no tensors is a \<open>RuntimeError\<close>.\<close>

definition collect_predictions :: "(batch \<Rightarrow> ('h list \<times> real list) res) \<Rightarrow> bid_dataset \<Rightarrow> nat \<Rightarrow> 'h preds res option" where
  "collect_predictions out ds batch_size =
     map_option (\<lambda>bs. res_bind (res_map out bs) (\<lambda>outs.
         if outs = [] then Inl RuntimeError
         else Inr \<lparr>pr_head = concat (map fst outs), pr_log_prob = concat (map snd outs),
                   pr_log_pp = concat (map b_log_pp bs), pr_pp = concat (map b_pp bs), pr_bid = concat (map b_bid bs)\<rparr>))
       (iter_batches ds batch_size None False)"

section \<open>Calibration\<close>

definition compute_pit_mdn :: "(real \<Rightarrow> real) \<Rightarrow> mdn_row preds \<Rightarrow> real list" where
  "compute_pit_mdn erf preds =
     map2 (\<lambda>r t. let z = map2 (\<lambda>m s. (t - m) / (s * sqrt 2)) (mu r) (sigma r);
                     comp = map (\<lambda>z. 1 / 2 * (1 + erf z)) z
                 in sum_list (map2 (*) (softmax (pi_logits r)) comp)) (pr_head preds) (pr_log_pp preds)"

definition compute_pit_bins :: "real list preds \<Rightarrow> real list" where
  "compute_pit_bins preds =
     map2 (\<lambda>p x. cumsum p ! price_bin (length p) x) (pr_head preds) (pr_pp preds)"

text \<open>The maximum of an empty array is a \<open>ValueError\<close>.\<close>

definition list_max :: "real list \<Rightarrow> real" where
  "list_max xs = xs ! argmax xs"

definition ks_statistic :: "real list \<Rightarrow> real res" where
  "ks_statistic pit =
     (let n = length pit; s = sort pit;
          d_plus = map2 (\<lambda>i v. (real i + 1) / real n - v) [0..<n] s;
          d_minus = map2 (\<lambda>i v. v - real i / real n) [0..<n] s
      in if n = 0 then Inl ValueError else Inr (max (list_max d_plus) (list_max d_minus)))"

definition coverage_table :: "real list \<Rightarrow> real list \<Rightarrow> (real \<times> real) list" where
  "coverage_table pit pcts = map (\<lambda>p. (p, mean (map (\<lambda>v. b2r (v \<le> p / 100)) pit))) pcts"

section \<open>Regret drivers\<close>

text \<open>The impression value of an evaluation: a number, or the logged bidding price.\<close>

datatype value_spec = VNumber real | VBidding

definition spec_values :: "value_spec \<Rightarrow> 'h preds \<Rightarrow> real list" where
  "spec_values v preds = (case v of VNumber x \<Rightarrow> replicate (length (pr_pp preds)) x | VBidding \<Rightarrow> pr_bid preds)"

fun chunk_loop :: "('a list \<Rightarrow> 'b list res) \<Rightarrow> 'a list \<Rightarrow> (nat \<times> nat) list \<Rightarrow> 'b list list \<Rightarrow> 'b list list res" where
  "chunk_loop f xs [] bids = Inr bids"
| "chunk_loop f xs ((i, j) # spans) bids =
     res_bind (f (slice i j xs)) (\<lambda>bb. chunk_loop f xs spans (bids @ [bb]))"

definition chunk_bids :: "('a list \<Rightarrow> 'b list res) \<Rightarrow> nat \<Rightarrow> 'a list \<Rightarrow> 'b list res" where
  "chunk_bids f batch_size xs =
     (if batch_size = 0 then Inl ValueError
      else res_bind (chunk_loop f xs (chunk_spans_from 0 (length xs) batch_size) []) (\<lambda>bids.
        if bids = [] then Inl RuntimeError else Inr (concat bids)))"

text \<open>The optimizers on one chunk of (head, value) pairs.\<close>

definition grid_chunk_bins :: "nat \<Rightarrow> (real list \<times> real) list \<Rightarrow> real list res" where
  "grid_chunk_bins num_bins c =
     res_bind (grid_optimize_bins num_bins (map fst c) (VRows (map snd c))) (\<lambda>out. Inr (best_bid out))"

definition grid_chunk_mdn :: "(real \<Rightarrow> real) \<Rightarrow> nat \<Rightarrow> real \<Rightarrow> (mdn_row \<times> real) list \<Rightarrow> real list res" where
  "grid_chunk_mdn erf n_candidates b_max c =
     res_bind (grid_optimize_mdn erf (map fst c) (VRows (map snd c)) n_candidates b_max) (\<lambda>out. Inr (best_bid out))"

definition newton_chunk_bins :: "nat \<Rightarrow> (real list \<times> real) list \<Rightarrow> real list res" where
  "newton_chunk_bins num_bins c =
     res_bind (newton_optimize_bins num_bins (map fst c) (VRows (map snd c)) 15 8 None) (\<lambda>out. Inr (map fst out))"

definition newton_chunk_mdn :: "(real \<Rightarrow> real) \<Rightarrow> real \<Rightarrow> (mdn_row \<times> real) list \<Rightarrow> real list res" where
  "newton_chunk_mdn erf b_max c =
     res_bind (newton_optimize_mdn erf (map fst c) (VRows (map snd c)) 25 8 b_max) (\<lambda>out. Inr (map fst out))"

definition regret_of :: "(('h \<times> real) list \<Rightarrow> real list res) \<Rightarrow> 'h preds \<Rightarrow> value_spec \<Rightarrow> nat \<Rightarrow> (real list \<times> real list) res" where
  "regret_of opt preds v batch_size =
     (let V = spec_values v preds in
      res_bind (chunk_bids opt batch_size (zip (pr_head preds) V)) (\<lambda>bids.
        Inr (regret bids (pr_pp preds) (VRows V), bids)))"

definition regret_metrics_mdn_grid :: "(real \<Rightarrow> real) \<Rightarrow> mdn_row preds \<Rightarrow> value_spec \<Rightarrow> nat \<Rightarrow> real \<Rightarrow> nat \<Rightarrow> (real list \<times> real list) res" where
  "regret_metrics_mdn_grid erf preds v n_candidates b_max batch_size =
     regret_of (grid_chunk_mdn erf n_candidates b_max) preds v batch_size"

definition regret_metrics_bins_grid :: "nat \<Rightarrow> real list preds \<Rightarrow> value_spec \<Rightarrow> nat \<Rightarrow> (real list \<times> real list) res" where
  "regret_metrics_bins_grid num_bins preds v batch_size = regret_of (grid_chunk_bins num_bins) preds v batch_size"

definition regret_bins_newton :: "nat \<Rightarrow> real list preds \<Rightarrow> value_spec \<Rightarrow> nat \<Rightarrow> real list res" where
  "regret_bins_newton num_bins preds v batch_size =
     res_bind (regret_of (newton_chunk_bins num_bins) preds v batch_size) (\<lambda>(reg, _). Inr reg)"

definition regret_metrics_mdn_newton :: "(real \<Rightarrow> real) \<Rightarrow> mdn_row preds \<Rightarrow> value_spec \<Rightarrow> nat \<Rightarrow> real \<Rightarrow> (real list \<times> real list) res" where
  "regret_metrics_mdn_newton erf preds v batch_size b_max = regret_of (newton_chunk_mdn erf b_max) preds v batch_size"

section \<open>The metrics of the script\<close>

text \<open>Mean regret by advertiser, in sorted order of the identifiers.\<close>

definition per_advertiser :: "real list \<Rightarrow> string list \<Rightarrow> (string \<times> real) list" where
  "per_advertiser reg adv =
     map (\<lambda>a. (a, mean (map fst (filter (\<lambda>(r, b). b = a) (zip reg adv))))) (sorted_list_of_set (set adv))"

record eval_result =
  ev_nll :: real
  ev_anlp :: real
  ev_ks :: real
  ev_coverage :: "(real \<times> real) list"
  ev_regret_v150 :: real
  ev_regret_vbid :: real
  ev_newton_v150 :: real
  ev_newton_vbid :: real
  ev_per_adv :: "(string \<times> real) list"

definition eval_bins :: "nat \<Rightarrow> real list preds \<Rightarrow> string list \<Rightarrow> real list \<Rightarrow> eval_result res" where
  "eval_bins num_bins preds adv pcts =
     (let nll = - mean (pr_log_prob preds); pit = compute_pit_bins preds in
      res_bind (ks_statistic pit) (\<lambda>ks.
      res_bind (regret_metrics_bins_grid num_bins preds (VNumber 150) 8192) (\<lambda>(reg150, _).
      res_bind (regret_metrics_bins_grid num_bins preds VBidding 8192) (\<lambda>(reg_bid, _).
      res_bind (regret_bins_newton num_bins preds (VNumber 150) 8192) (\<lambda>reg_n150.
      res_bind (regret_bins_newton num_bins preds VBidding 8192) (\<lambda>reg_nbid.
        Inr \<lparr>ev_nll = nll, ev_anlp = nll, ev_ks = ks, ev_coverage = coverage_table pit pcts,
             ev_regret_v150 = mean reg150, ev_regret_vbid = mean reg_bid,
             ev_newton_v150 = mean reg_n150, ev_newton_vbid = mean reg_nbid,
             ev_per_adv = per_advertiser reg150 adv\<rparr>))))))"

definition eval_mdn :: "(real \<Rightarrow> real) \<Rightarrow> mdn_row preds \<Rightarrow> string list \<Rightarrow> real list \<Rightarrow> eval_result res" where
  "eval_mdn erf preds adv pcts =
     (let nll = - mean (pr_log_prob preds);
          anlp = - mean (map2 (-) (pr_log_prob preds) (pr_log_pp preds));
          pit = compute_pit_mdn erf preds in
      res_bind (ks_statistic pit) (\<lambda>ks.
      res_bind (regret_metrics_mdn_grid erf preds (VNumber 150) 500 300 8192) (\<lambda>(reg150, _).
      res_bind (regret_metrics_mdn_grid erf preds VBidding 500 300 8192) (\<lambda>(reg_bid, _).
      res_bind (regret_metrics_mdn_newton erf preds (VNumber 150) 8192 300) (\<lambda>(reg_n150, _).
      res_bind (regret_metrics_mdn_newton erf preds VBidding 8192 300) (\<lambda>(reg_nbid, _).
        Inr \<lparr>ev_nll = nll, ev_anlp = anlp, ev_ks = ks, ev_coverage = coverage_table pit pcts,
             ev_regret_v150 = mean reg150, ev_regret_vbid = mean reg_bid,
             ev_newton_v150 = mean reg_n150, ev_newton_vbid = mean reg_nbid,
             ev_per_adv = per_advertiser reg150 adv\<rparr>))))))"

section \<open>The Kolmogorov-Smirnov statistic bounds every gap\<close>

definition ecdf :: "real list \<Rightarrow> real \<Rightarrow> real" where
  "ecdf pit x = real (length (filter (\<lambda>v. v \<le> x) pit)) / real (length pit)"

lemma coverage_ecdf: "coverage_table pit pcts = map (\<lambda>p. (p, ecdf pit (p / 100))) pcts"
proof -
  have "sum_list (map (\<lambda>v. b2r (v \<le> x)) pit) = real (length (filter (\<lambda>v. v \<le> x) pit))" for x
    by (induction pit) (auto simp: b2r_def)
  then show ?thesis by (simp only: coverage_table_def ecdf_def mean_def length_map)
qed

lemma list_max_ge: "i < length xs \<Longrightarrow> xs ! i \<le> list_max xs"
  unfolding list_max_def by (rule am.pick_max)

lemma list_max_in: "xs \<noteq> [] \<Longrightarrow> list_max xs \<in> set xs"
  unfolding list_max_def by (intro nth_mem am.pick_less)

lemma filter_sorted_takeWhile: "sorted s \<Longrightarrow> filter (\<lambda>v. v \<le> x) s = takeWhile (\<lambda>v. v \<le> (x :: real)) s"
proof (induction s)
  case (Cons a s)
  show ?case
  proof (cases "a \<le> x")
    case False
    then have "filter (\<lambda>v. v \<le> x) (a # s) = []" using Cons.prems by (auto simp: filter_empty_conv)
    then show ?thesis using False by simp
  qed (use Cons in simp)
qed simp

lemma ecdf_sort: "ecdf (sort pit) x = ecdf pit x"
  by (simp add: ecdf_def filter_sort)

lemma map2_upt: "length s = n \<Longrightarrow> map2 f [0..<n] s = map (\<lambda>i. f i (s ! i)) [0..<n]"
  by (rule nth_equalityI) simp_all

lemma ks_facts:
  assumes "ks_statistic pit = Inr ks" and "i < length pit"
  shows "(real i + 1) / real (length pit) - sort pit ! i \<le> ks" and "sort pit ! i - real i / real (length pit) \<le> ks"
proof -
  let ?n = "length pit"
  let ?dp = "map2 (\<lambda>i v. (real i + 1) / real ?n - v) [0..<?n] (sort pit)"
  let ?dm = "map2 (\<lambda>i v. v - real i / real ?n) [0..<?n] (sort pit)"
  have ks: "ks = max (list_max ?dp) (list_max ?dm)"
    using assms by (simp add: ks_statistic_def Let_def split: if_splits)
  have "?dp ! i = (real i + 1) / real ?n - sort pit ! i" "?dm ! i = sort pit ! i - real i / real ?n"
    using assms(2) by simp_all
  then show "(real i + 1) / real ?n - sort pit ! i \<le> ks" "sort pit ! i - real i / real ?n \<le> ks"
    using list_max_ge [of i ?dp] list_max_ge [of i ?dm] assms(2) unfolding ks by simp_all
qed

lemma ks_upper:
  assumes "ks_statistic pit = Inr ks" and "\<forall>v \<in> set pit. 0 \<le> v \<and> v \<le> 1"
  shows "ks \<le> 1"
proof -
  let ?n = "length pit"
  let ?dp = "map2 (\<lambda>i v. (real i + 1) / real ?n - v) [0..<?n] (sort pit)"
  let ?dm = "map2 (\<lambda>i v. v - real i / real ?n) [0..<?n] (sort pit)"
  have n: "0 < ?n" and ks: "ks = max (list_max ?dp) (list_max ?dm)"
    using assms by (auto simp: ks_statistic_def Let_def split: if_splits)
  have s: "0 \<le> sort pit ! i \<and> sort pit ! i \<le> 1" if "i < ?n" for i
    using assms(2) nth_mem [of i "sort pit"] that by simp
  have sets: "set ?dp = (\<lambda>i. (real i + 1) / real ?n - sort pit ! i) ` {..<?n}"
    "set ?dm = (\<lambda>i. sort pit ! i - real i / real ?n) ` {..<?n}"
    by (simp_all only: map2_upt [OF length_sort] set_map set_upt atLeast0LessThan)
  have "d \<le> 1" if d: "d \<in> set ?dp \<union> set ?dm" for d
  proof -
    obtain i where i: "i < ?n" "d = (real i + 1) / real ?n - sort pit ! i \<or> d = sort pit ! i - real i / real ?n"
      using d unfolding sets by auto
    have "(real i + 1) / real ?n \<le> 1" "0 \<le> real i / real ?n"
      using i(1) of_nat_mono [of "Suc i" ?n, where ?'a = real] by (simp_all add: divide_le_eq)
    then show ?thesis using i(2) s [OF i(1)] by linarith
  qed
  moreover have "?dp \<noteq> []" "?dm \<noteq> []" using n by (simp_all add: map2_upt)
  ultimately show ?thesis using list_max_in [of ?dp] list_max_in [of ?dm] unfolding ks by simp
qed

lemma ks_gap:
  assumes ks: "ks_statistic pit = Inr ks" and ne: "pit \<noteq> []" and x: "0 \<le> x" "x \<le> 1"
  shows "\<bar>ecdf pit x - x\<bar> \<le> ks"
proof -
  let ?s = "sort pit" and ?n = "length pit"
  define k where "k = length (takeWhile (\<lambda>v. v \<le> x) ?s)"
  have F: "ecdf pit x = real k / real ?n"
    unfolding ecdf_sort [of pit x, symmetric] by (simp add: ecdf_def filter_sorted_takeWhile k_def)
  have k: "k \<le> ?n" unfolding k_def by (metis length_sort length_takeWhile_le)
  have n: "0 < ?n" using ne by simp
  have "0 \<le> ks"
  proof -
    have "1 / real ?n - ?s ! 0 \<le> ks" "?s ! 0 \<le> ks" using ks_facts [OF ks, of 0] n by simp_all
    moreover have "0 < 1 / real ?n" using n by simp
    ultimately show ?thesis by linarith
  qed
  have "real k / real ?n - x \<le> ks"
  proof (cases k)
    case 0
    then show ?thesis using x \<open>0 \<le> ks\<close> by simp
  next
    case (Suc j)
    then have "?s ! j \<le> x" using set_takeWhileD nth_mem [of j "takeWhile (\<lambda>v. v \<le> x) ?s"]
      by (metis k_def lessI takeWhile_nth)
    moreover have "real k / real ?n = (real j + 1) / real ?n" using Suc by (simp add: add.commute)
    moreover have "(real j + 1) / real ?n - ?s ! j \<le> ks" using ks_facts(1) [OF ks, of j] Suc k by simp
    ultimately show ?thesis by linarith
  qed
  moreover have "x - real k / real ?n \<le> ks"
  proof (cases "k = ?n")
    case True
    then show ?thesis using x n \<open>0 \<le> ks\<close> by simp
  next
    case False
    then have "k < ?n" using k by simp
    moreover have "x < ?s ! k"
      using nth_length_takeWhile [of "\<lambda>v. v \<le> x" ?s] \<open>k < ?n\<close> by (simp add: k_def)
    ultimately show ?thesis using ks_facts(2) [OF ks, of k] by linarith
  qed
  ultimately show ?thesis unfolding F by linarith
qed

lemma ks_lower:
  assumes "ks_statistic pit = Inr ks"
  shows "1 / (2 * real (length pit)) \<le> ks"
proof -
  have n: "0 < length pit" using assms by (auto simp: ks_statistic_def Let_def)
  define a where "a = 1 / real (length pit)"
  have "a - sort pit ! 0 \<le> ks" "sort pit ! 0 \<le> ks"
    using ks_facts [OF assms, of 0] n by (simp_all add: a_def)
  then have "a / 2 \<le> ks" by linarith
  then show ?thesis by (simp add: a_def mult.commute)
qed

text \<open>
  C29: On a nonempty list of PIT values in [0,1] the statistic exists, lies between \<open>1/(2n)\<close> (never 0,
  not even for a perfect model) and 1, does not depend on the order of the values, and bounds the gap
  between the empirical distribution of the PIT and the uniform one at every point, in particular every
  entry of the coverage table; on the empty list it is a \<open>ValueError\<close>.
\<close>

theorem ks_bounds_calibration:
  assumes "pit \<noteq> []" and "\<forall>v \<in> set pit. 0 \<le> v \<and> v \<le> 1"
  shows "\<exists>ks. ks_statistic pit = Inr ks \<and> 1 / (2 * real (length pit)) \<le> ks \<and> ks \<le> 1 \<and>
    (\<forall>x. 0 \<le> x \<and> x \<le> 1 \<longrightarrow> \<bar>ecdf pit x - x\<bar> \<le> ks) \<and>
    (\<forall>(p, c) \<in> set (coverage_table pit pcts). 0 \<le> p \<and> p \<le> 100 \<longrightarrow> \<bar>c - p / 100\<bar> \<le> ks) \<and>
    (\<forall>pit'. mset pit' = mset pit \<longrightarrow> ks_statistic pit' = Inr ks)"
proof -
  obtain ks where ks: "ks_statistic pit = Inr ks"
    using assms(1) by (simp add: ks_statistic_def Let_def)
  have "ks_statistic pit' = Inr ks" if "mset pit' = mset pit" for pit'
  proof -
    have "sort pit' = sort pit" using that by (intro properties_for_sort) simp_all
    moreover have "length pit' = length pit" using that by (rule mset_eq_length)
    ultimately show ?thesis using ks by (simp add: ks_statistic_def)
  qed
  then show ?thesis
    using ks ks_lower [OF ks] ks_upper [OF ks assms(2)] ks_gap [OF ks assms(1)] by (auto simp: coverage_ecdf)
qed

theorem ks_bounds_calibration_witness:
  "\<exists>ks. ks_statistic [3/4, 1/4] = Inr ks \<and> 1 / (2 * real (length [3/4, 1/4 :: real])) \<le> ks \<and> ks \<le> 1"
  using ks_bounds_calibration [of "[3/4, 1/4]" "[]"] by auto

section \<open>Evaluating in chunks changes nothing\<close>

context rowwise begin

lemma chunk_loop_eq:
  assumes "\<And>c. h c = Inr (f c)"
  shows "chunk_loop h xs spans acc = Inr (acc @ map (\<lambda>(i, j). f (slice i j xs)) spans)"
  by (induction spans arbitrary: acc) (auto simp: assms)

lemma chunk_bids_eq:
  assumes "\<And>c. h c = Inr (f c)" and "0 < batch" and "xs \<noteq> []"
  shows "chunk_bids h batch xs = Inr (f xs)"
proof -
  have "chunk_spans_from 0 (length xs) batch \<noteq> []"
    using assms(2,3) by (subst chunk_spans_from.simps) simp
  then show ?thesis
    using assms(2) chunked_eq [OF assms(2), of xs]
    by (simp add: chunk_bids_def chunk_loop_eq [OF assms(1)] chunked_def)
qed

end

interpretation grid_bins_rows: rowwise "map (\<lambda>(p, v). fst (grid_row (arange nb) (cumsum p) v))" for nb
  by unfold_locales simp_all

interpretation grid_mdn_rows: rowwise
  "map (\<lambda>(r, v). fst (grid_row (mdn_cands nc b_max) (mdn_grid_cdf erf (mdn_cands nc b_max) r) v))" for nc b_max erf
  by unfold_locales simp_all

interpretation newton_bins_rows: rowwise
  "map (\<lambda>(p, v). fst (newton_row (interp_cdf_pdf (cumsum p) (real nb - 1))
     (\<lambda>b. fst (interp_cdf_pdf (cumsum p) (real nb - 1) b)) 0 0 (real nb - 1) 15 8 v))" for nb
  by unfold_locales simp_all

interpretation newton_mdn_rows: rowwise
  "map (\<lambda>(r, v). fst (newton_row (mdn_cdf_pdf erf r) (\<lambda>b. fst (mdn_cdf_pdf erf r (max b (1 / 10 ^ 3))))
     (1 / 10 ^ 3) (1 / 2) b_max 25 8 v))" for erf b_max
  by unfold_locales simp_all

lemma map2_pairs: "map2 f (map fst c) (map snd c) = map (\<lambda>(a, b). f a b) c"
  by (induction c) auto

lemma grid_chunk_bins_eq:
  "0 < nb \<Longrightarrow> grid_chunk_bins nb c = Inr (map (\<lambda>(p, v). fst (grid_row (arange nb) (cumsum p) v)) c)"
  by (induction c)
    (auto simp: grid_chunk_bins_def grid_optimize_bins_def grid_optimize_def Let_def arange_nonempty split_def)

lemma grid_chunk_mdn_eq:
  assumes "0 < nc"
  shows "grid_chunk_mdn erf nc b_max c =
    Inr (map (\<lambda>(r, v). fst (grid_row (mdn_cands nc b_max) (mdn_grid_cdf erf (mdn_cands nc b_max) r) v)) c)"
proof -
  have "mdn_cands nc b_max \<noteq> []" using assms by (auto simp: mdn_cands_def linspace_def)
  then show ?thesis
    by (induction c) (auto simp: grid_chunk_mdn_def grid_optimize_mdn_def grid_optimize_def Let_def split_def)
qed

lemma newton_chunk_bins_eq:
  "0 < nb \<Longrightarrow> newton_chunk_bins nb c =
    Inr (map (\<lambda>(p, v). fst (newton_row (interp_cdf_pdf (cumsum p) (real nb - 1))
     (\<lambda>b. fst (interp_cdf_pdf (cumsum p) (real nb - 1) b)) 0 0 (real nb - 1) 15 8 v)) c)"
  by (induction c) (auto simp: newton_chunk_bins_def newton_optimize_bins_def Let_def split_def)

lemma newton_chunk_mdn_eq:
  "newton_chunk_mdn erf b_max c =
    Inr (map (\<lambda>(r, v). fst (newton_row (mdn_cdf_pdf erf r) (\<lambda>b. fst (mdn_cdf_pdf erf r (max b (1 / 10 ^ 3))))
     (1 / 10 ^ 3) (1 / 2) b_max 25 8 v)) c)"
  by (induction c) (auto simp: newton_chunk_mdn_def newton_optimize_mdn_def Let_def split_def)

definition preds_ok :: "'h preds \<Rightarrow> bool" where
  "preds_ok preds \<longleftrightarrow> pr_head preds \<noteq> [] \<and> length (pr_pp preds) = length (pr_head preds) \<and>
     length (pr_bid preds) = length (pr_head preds)"

lemma spec_values_length: "preds_ok preds \<Longrightarrow> length (spec_values v preds) = length (pr_head preds)"
  by (cases v) (simp_all add: spec_values_def preds_ok_def)

lemma preds_zip_nonempty: "preds_ok preds \<Longrightarrow> zip (pr_head preds) (spec_values v preds) \<noteq> []"
  using spec_values_length [of preds v] by (auto simp: preds_ok_def zip_eq_Nil_iff)

text \<open>The chunk loop of each driver is one call of its optimizer.\<close>

lemma unchunked_bins:
  assumes "0 < nb" and "0 < batch" and "xs \<noteq> []"
  shows "chunk_bids (grid_chunk_bins nb) batch xs = grid_chunk_bins nb xs"
    and "chunk_bids (newton_chunk_bins nb) batch xs = newton_chunk_bins nb xs"
  using grid_bins_rows.chunk_bids_eq [where h = "grid_chunk_bins nb", OF grid_chunk_bins_eq [OF assms(1)] assms(2,3)]
    newton_bins_rows.chunk_bids_eq [where h = "newton_chunk_bins nb", OF newton_chunk_bins_eq [OF assms(1)] assms(2,3)]
  by (simp_all only: grid_chunk_bins_eq [OF assms(1)] newton_chunk_bins_eq [OF assms(1)])

lemma unchunked_mdn:
  assumes "0 < nc" and "0 < batch" and "xs \<noteq> []"
  shows "chunk_bids (grid_chunk_mdn erf nc b_max) batch xs = grid_chunk_mdn erf nc b_max xs"
    and "chunk_bids (newton_chunk_mdn erf b_max) batch xs = newton_chunk_mdn erf b_max xs"
  using grid_mdn_rows.chunk_bids_eq [where h = "grid_chunk_mdn erf nc b_max", OF grid_chunk_mdn_eq [OF assms(1)] assms(2,3)]
    newton_mdn_rows.chunk_bids_eq [where h = "newton_chunk_mdn erf b_max", OF newton_chunk_mdn_eq assms(2,3)]
  by (simp_all only: grid_chunk_mdn_eq [OF assms(1)] newton_chunk_mdn_eq)

text \<open>
  The four regret drivers give the same bids and regrets for every positive batch size as one call
  of the optimizer on all rows.
\<close>

theorem regret_drivers_unbatched:
  assumes "preds_ok preds" and "preds_ok preds'" and "0 < batch" and "0 < nb" and "0 < nc"
  shows "regret_metrics_bins_grid nb preds v batch = (let V = spec_values v preds in
      res_bind (grid_optimize_bins nb (pr_head preds) (VRows V)) (\<lambda>out.
        Inr (regret (best_bid out) (pr_pp preds) (VRows V), best_bid out))) \<and>
    regret_bins_newton nb preds v batch = (let V = spec_values v preds in
      res_bind (newton_optimize_bins nb (pr_head preds) (VRows V) 15 8 None) (\<lambda>out.
        Inr (regret (map fst out) (pr_pp preds) (VRows V)))) \<and>
    regret_metrics_mdn_grid erf preds' v nc b_max batch = (let V = spec_values v preds' in
      res_bind (grid_optimize_mdn erf (pr_head preds') (VRows V) nc b_max) (\<lambda>out.
        Inr (regret (best_bid out) (pr_pp preds') (VRows V), best_bid out))) \<and>
    regret_metrics_mdn_newton erf preds' v batch b_max = (let V = spec_values v preds' in
      res_bind (newton_optimize_mdn erf (pr_head preds') (VRows V) 25 8 b_max) (\<lambda>out.
        Inr (regret (map fst out) (pr_pp preds') (VRows V), map fst out)))"
proof -
  let ?z = "zip (pr_head preds) (spec_values v preds)" and ?z' = "zip (pr_head preds') (spec_values v preds')"
  note ne = preds_zip_nonempty [OF assms(1), of v] preds_zip_nonempty [OF assms(2), of v]
  have z: "map fst ?z = pr_head preds" "map snd ?z = spec_values v preds"
    "map fst ?z' = pr_head preds'" "map snd ?z' = spec_values v preds'"
    using spec_values_length [OF assms(1), of v] spec_values_length [OF assms(2), of v] by simp_all
  note eqs = unchunked_bins [OF assms(4,3) ne(1)] unchunked_mdn [OF assms(5,3) ne(2)]
  show ?thesis
    unfolding regret_metrics_bins_grid_def regret_bins_newton_def regret_metrics_mdn_grid_def
      regret_metrics_mdn_newton_def regret_of_def Let_def
    by (simp only: eqs) (simp only: grid_chunk_bins_def newton_chunk_bins_def grid_chunk_mdn_def newton_chunk_mdn_def z,
      simp split: sum.splits add: res_bind_assoc)
qed

theorem regret_drivers_unbatched_witness:
  "let preds = \<lparr>pr_head = [[1/2, 1/2], [1, 0]], pr_log_prob = [0, 0], pr_log_pp = [0, 0], pr_pp = [1, 0], pr_bid = [3, 4]\<rparr>;
       V = spec_values VBidding preds in
    regret_metrics_bins_grid 2 preds VBidding 1 =
      res_bind (grid_optimize_bins 2 (pr_head preds) (VRows V)) (\<lambda>out.
        Inr (regret (best_bid out) (pr_pp preds) (VRows V), best_bid out))"
  using regret_drivers_unbatched [of
      "\<lparr>pr_head = [[1/2, 1/2], [1, 0]], pr_log_prob = [0, 0], pr_log_pp = [0, 0], pr_pp = [1, 0], pr_bid = [3, 4]\<rparr>"
      "\<lparr>pr_head = [mdn_demo], pr_log_prob = [0], pr_log_pp = [0], pr_pp = [1], pr_bid = [3]\<rparr>" 1 2 1 VBidding "\<lambda>_. 0" 300]
  by (simp add: preds_ok_def Let_def)

section \<open>The evaluation of a bins model\<close>

lemma res_map_make_batch:
  assumes "\<And>idx. idx \<in> set idxs \<Longrightarrow> out (mk idx) = Inr (map h idx, map g idx)"
  shows "res_map out (map mk idxs) = Inr (map (\<lambda>idx. (map h idx, map g idx)) idxs)"
  using assms by (induction idxs) auto

lemma collect_rows:
  assumes "0 < batch_size" and "df \<noteq> []"
    and "\<And>idx. set idx \<subseteq> {..<length df} \<Longrightarrow> out (make_batch (BidDataset df) idx) = Inr (map h idx, map g idx)"
  shows "collect_predictions out (BidDataset df) batch_size =
    Some (Inr \<lparr>pr_head = map h [0..<length df], pr_log_prob = map g [0..<length df],
      pr_log_pp = map o_log_payprice df, pr_pp = map o_payprice df, pr_bid = map o_bidding_price df\<rparr>)"
proof -
  let ?idxs = "batch_slices batch_size False [0..<length df]"
  have all: "concat ?idxs = [0..<length df]"
    using concat_batch_slices [OF assms(1), of False "[0..<length df]"] by simp
  have it: "iter_batches (BidDataset df) batch_size None False = Some (map (make_batch (BidDataset df)) ?idxs)"
    using iter_batches_eq [OF assms(1), of "[0..<length df]" df False]
    by (simp add: iter_batches_unshuffled BidDataset_def)
  have sub: "set idx \<subseteq> {..<length df}" if "idx \<in> set ?idxs" for idx
  proof -
    have "set idx \<subseteq> set (concat ?idxs)" using that by auto
    then show ?thesis unfolding all by auto
  qed
  have outs: "res_map out (map (make_batch (BidDataset df)) ?idxs) = Inr (map (\<lambda>idx. (map h idx, map g idx)) ?idxs)"
    by (rule res_map_make_batch) (rule assms(3), rule sub)
  have ne: "?idxs \<noteq> []"
  proof
    assume "?idxs = []"
    then have "concat ?idxs = []" by simp
    then show False using assms(2) unfolding all by simp
  qed
  have col: "concat (map sel (map (make_batch (BidDataset df)) ?idxs)) = map (\<lambda>i. f (df ! i)) [0..<length df]"
    if "\<And>idx. set idx \<subseteq> {..<length df} \<Longrightarrow> sel (make_batch (BidDataset df) idx) = map (\<lambda>i. f (df ! i)) idx"
    for sel :: "batch \<Rightarrow> real list" and f
  proof -
    have "map sel (map (make_batch (BidDataset df)) ?idxs) = map (map (\<lambda>i. f (df ! i))) ?idxs"
      using sub that by simp
    then show ?thesis by (simp only: map_concat [symmetric] all)
  qed
  have nth: "map (\<lambda>i. f (df ! i)) [0..<length df] = map f df" for f :: "out_row \<Rightarrow> real"
    by (rule nth_equalityI) simp_all
  have cols: "concat (map b_log_pp (map (make_batch (BidDataset df)) ?idxs)) = map o_log_payprice df"
    "concat (map b_pp (map (make_batch (BidDataset df)) ?idxs)) = map o_payprice df"
    "concat (map b_bid (map (make_batch (BidDataset df)) ?idxs)) = map o_bidding_price df"
    unfolding nth [symmetric] by (rule col, rule batch_cols, assumption)+
  have h: "concat (map (\<lambda>idx. map k idx) ?idxs) = map k [0..<length df]" for k :: "nat \<Rightarrow> 'z"
    by (simp only: map_concat [symmetric] all)
  show ?thesis
    using ne cols h [of h] h [of g] by (simp add: collect_predictions_def it outs comp_def)
qed

lemma bins_batch_out_rows:
  assumes "net_shape vs dims tv td 9 num_bins n" and "\<forall>r \<in> set df. row_fits vs tv r" and "set idx \<subseteq> {..<length df}"
  shows "bins_batch_out erf n num_bins (make_batch (BidDataset df) idx) =
    Inr (map (\<lambda>i. softmax (logits_of erf n (df ! i))) idx,
         map (\<lambda>i. true_bin_log_prob (softmax (logits_of erf n (df ! i))) (price_bin num_bins (o_payprice (df ! i)))) idx)"
  by (simp add: bins_batch_out_def bins_rows_eq(1) [OF assms] batch_cols [OF assms(3)] Let_def map2_map_map comp_def)

lemma per_advertiser_total:
  assumes "length reg = length adv"
  shows "sum_list (map (\<lambda>(a, m). real (length (filter (\<lambda>b. b = a) adv)) * m) (per_advertiser reg adv)) = sum_list reg"
proof -
  have len: "length (filter (\<lambda>(r, b). b = a) (zip reg adv)) = length (filter (\<lambda>b. b = a) adv)" for a
    using assms by (induction reg adv rule: list_induct2) auto
  have "sum_list (map (\<lambda>(a, m). real (length (filter (\<lambda>b. b = a) adv)) * m) (per_advertiser reg adv)) =
      sum_list (map (\<lambda>a. sum_list (map fst (filter (\<lambda>(r, b). b = a) (zip reg adv)))) (sorted_list_of_set (set adv)))"
    unfolding per_advertiser_def map_map comp_def prod.case
    by (intro arg_cong [where f = sum_list] map_cong refl)
      (metis (no_types, lifting) len length_map mean_times_length mult.commute)
  also have "\<dots> = (\<Sum>a \<in> set adv. sum_list (map fst (filter (\<lambda>(r, b). b = a) (zip reg adv))))"
    by (simp add: sum_list_distinct_conv_sum_set)
  also have "\<dots> = sum_list reg"
  proof -
    have "(\<Sum>a \<in> A. sum_list (map fst (filter (\<lambda>(r, b). b = a) (zip reg adv)))) = sum_list reg"
      if "finite A" "set adv \<subseteq> A" for A
      using assms that(2)
    proof (induction reg adv rule: list_induct2)
      case (Cons r reg b adv)
      have "(\<Sum>a \<in> A. sum_list (map fst (filter (\<lambda>(r, b). b = a) (zip (r # reg) (b # adv))))) =
          (\<Sum>a \<in> A. (if b = a then r else 0) + sum_list (map fst (filter (\<lambda>(r, b). b = a) (zip reg adv))))"
        by (rule sum.cong) auto
      then show ?case using Cons that(1) by (simp add: sum.distrib sum.delta)
    qed simp
    then show ?thesis by simp
  qed
  finally show ?thesis .
qed

lemma regret_nonneg: "r \<in> set (regret bids pp V) \<Longrightarrow> 0 \<le> r"
  by (auto simp: regret_def regret1_nonneg)

lemma mean_bounds:
  assumes "xs \<noteq> []" and "\<And>x. x \<in> set xs \<Longrightarrow> lo \<le> x \<and> x \<le> hi"
  shows "lo \<le> mean xs \<and> mean xs \<le> hi"
proof -
  have "sum_list (map (\<lambda>_. lo) xs) \<le> sum_list (map (\<lambda>x. x) xs)" "sum_list (map (\<lambda>x. x) xs) \<le> sum_list (map (\<lambda>_. hi) xs)"
    using assms(2) by (intro sum_list_mono; blast)+
  then show ?thesis using assms(1) by (simp add: mean_def sum_list_triv le_divide_eq divide_le_eq mult.commute)
qed

lemma softmax_nth:
  assumes "k < length xs"
  shows "0 < softmax xs ! k \<and> softmax xs ! k \<le> 1 \<and> 0 \<le> cumsum (softmax xs) ! k \<and> cumsum (softmax xs) ! k \<le> 1"
proof -
  have ne: "xs \<noteq> []" using assms by auto
  have m: "softmax xs ! k \<in> set (softmax xs)" using assms by simp
  show ?thesis
    using softmax_pos [OF m] softmax_dist.prob_le_1 [OF ne m] softmax_dist.cdf_bounds [OF ne, of k] assms by simp
qed

lemma bins_regrets_ok:
  assumes "preds_ok preds" and "0 < nb"
  shows "\<exists>reg bids. regret_metrics_bins_grid nb preds v 8192 = Inr (reg, bids) \<and> length reg = length (pr_head preds) \<and> (\<forall>r \<in> set reg. 0 \<le> r)"
    and "\<exists>reg. regret_bins_newton nb preds v 8192 = Inr reg \<and> (\<forall>r \<in> set reg. 0 \<le> r)"
proof -
  note ne = preds_zip_nonempty [OF assms(1), of v] and len = spec_values_length [OF assms(1), of v]
  have b: "(0 :: nat) < 8192" by simp
  note g = grid_bins_rows.chunk_bids_eq [where h = "grid_chunk_bins nb", OF grid_chunk_bins_eq [OF assms(2)] b ne]
  note w = newton_bins_rows.chunk_bids_eq [where h = "newton_chunk_bins nb", OF newton_chunk_bins_eq [OF assms(2)] b ne]
  show "\<exists>reg bids. regret_metrics_bins_grid nb preds v 8192 = Inr (reg, bids) \<and> length reg = length (pr_head preds) \<and> (\<forall>r \<in> set reg. 0 \<le> r)"
    using len assms(1) by (auto simp: regret_metrics_bins_grid_def regret_of_def Let_def g regret_nonneg preds_ok_def regret_def regret1_nonneg)
  show "\<exists>reg. regret_bins_newton nb preds v 8192 = Inr reg \<and> (\<forall>r \<in> set reg. 0 \<le> r)"
    by (auto simp: regret_bins_newton_def regret_of_def Let_def w dest: regret_nonneg)
qed

text \<open>Predictions of a bins model: one positive distribution for each row, scored at the bin of its price.\<close>

lemma true_bin_log_prob_bounds:
  assumes "0 < p ! k" and "p ! k \<le> 1"
  shows "- (30 * ln 10) \<le> true_bin_log_prob p k \<and> true_bin_log_prob p k \<le> 0"
proof -
  have "ln ((10 :: real) ^ 30) = real 30 * ln 10" by (rule ln_realpow)
  moreover have "ln (inverse ((10 :: real) ^ 30)) = - ln ((10 :: real) ^ 30)" by (simp only: ln_inverse)
  ultimately have e: "ln (1 / 10 ^ 30 :: real) = - (30 * ln 10)"
    by (simp only: inverse_eq_divide of_nat_numeral)
  have "ln (1 / 10 ^ 30) \<le> ln (max (p ! k) (1 / 10 ^ 30))" "ln (max (p ! k) (1 / 10 ^ 30)) \<le> 0"
    using assms by (auto simp: max_def)
  then show ?thesis unfolding true_bin_log_prob_def e [symmetric] by (rule conjI)
qed

definition bins_preds_ok :: "nat \<Rightarrow> real list preds \<Rightarrow> bool" where
  "bins_preds_ok nb preds \<longleftrightarrow> preds_ok preds \<and>
     (\<forall>p \<in> set (pr_head preds). length p = nb \<and> (\<forall>k < nb. 0 < p ! k \<and> p ! k \<le> 1 \<and> 0 \<le> cumsum p ! k \<and> cumsum p ! k \<le> 1)) \<and>
     pr_log_prob preds = map2 (\<lambda>p x. true_bin_log_prob p (price_bin nb x)) (pr_head preds) (pr_pp preds)"

lemma bins_pit:
  assumes "bins_preds_ok nb preds" and "0 < nb"
  shows "\<forall>v \<in> set (compute_pit_bins preds). 0 \<le> v \<and> v \<le> 1"
    and "length (compute_pit_bins preds) = length (pr_head preds)"
    and "\<forall>l \<in> set (pr_log_prob preds). - (30 * ln 10) \<le> l \<and> l \<le> 0"
proof -
  have p: "length p = nb \<and> price_bin nb x < nb \<and> (\<forall>k < nb. 0 < p ! k \<and> p ! k \<le> 1 \<and> 0 \<le> cumsum p ! k \<and> cumsum p ! k \<le> 1)"
    if "(p, x) \<in> set (zip (pr_head preds) (pr_pp preds))" for p x
    using assms set_zip_leftD [OF that] price_bin_less [OF assms(2)] by (simp add: bins_preds_ok_def)
  show "\<forall>v \<in> set (compute_pit_bins preds). 0 \<le> v \<and> v \<le> 1"
    using p by (force simp: compute_pit_bins_def)
  show "length (compute_pit_bins preds) = length (pr_head preds)"
    using assms(1) by (simp add: compute_pit_bins_def bins_preds_ok_def preds_ok_def)
  show "\<forall>l \<in> set (pr_log_prob preds). - (30 * ln 10) \<le> l \<and> l \<le> 0"
    using assms(1) p true_bin_log_prob_bounds by (fastforce simp: bins_preds_ok_def)
qed

lemma eval_bins_ok:
  assumes "bins_preds_ok nb preds" and "0 < nb" and "length adv = length (pr_head preds)"
  shows "\<exists>ev. eval_bins nb preds adv pcts = Inr ev \<and> 0 \<le> ev_nll ev \<and> ev_nll ev \<le> 30 * ln 10 \<and>
    1 / (2 * real (length (pr_head preds))) \<le> ev_ks ev \<and> ev_ks ev \<le> 1 \<and>
    0 \<le> ev_regret_v150 ev \<and> 0 \<le> ev_regret_vbid ev \<and> 0 \<le> ev_newton_v150 ev \<and> 0 \<le> ev_newton_vbid ev \<and>
    sum_list (map (\<lambda>(a, m). real (length (filter (\<lambda>b. b = a) adv)) * m) (ev_per_adv ev)) =
      real (length (pr_head preds)) * ev_regret_v150 ev"
proof -
  have ok: "preds_ok preds" using assms(1) by (simp add: bins_preds_ok_def)
  note pit = bins_pit [OF assms(1,2)]
  have n: "pr_head preds \<noteq> []" and lp: "length (pr_log_prob preds) = length (pr_head preds)"
    using ok assms(1) by (auto simp: preds_ok_def bins_preds_ok_def)
  obtain ks where ks: "ks_statistic (compute_pit_bins preds) = Inr ks"
    using n pit(2) by (simp add: ks_statistic_def Let_def)
  have nll: "- (30 * ln 10) \<le> mean (pr_log_prob preds) \<and> mean (pr_log_prob preds) \<le> 0"
    using pit(3) n lp by (intro mean_bounds) auto
  obtain reg150 b1 regb b2 n1 n2 where r: "regret_metrics_bins_grid nb preds (VNumber 150) 8192 = Inr (reg150, b1)"
    "regret_metrics_bins_grid nb preds VBidding 8192 = Inr (regb, b2)"
    "regret_bins_newton nb preds (VNumber 150) 8192 = Inr n1" "regret_bins_newton nb preds VBidding 8192 = Inr n2"
    and nn: "\<forall>r \<in> set reg150. 0 \<le> r" "\<forall>r \<in> set regb. 0 \<le> r" "\<forall>r \<in> set n1. 0 \<le> r" "\<forall>r \<in> set n2. 0 \<le> r"
    and len: "length reg150 = length (pr_head preds)"
    using bins_regrets_ok [OF ok assms(2)] by metis
  have "sum_list (map (\<lambda>(a, m). real (length (filter (\<lambda>b. b = a) adv)) * m) (per_advertiser reg150 adv)) =
      real (length (pr_head preds)) * mean reg150"
    using per_advertiser_total [of reg150 adv] mean_times_length [of reg150] len assms(3) by (simp add: mult.commute)
  then show ?thesis
    using nll ks_lower [OF ks, unfolded pit(2)] ks_upper [OF ks pit(1)] nn
      mean_nonneg [of reg150] mean_nonneg [of regb] mean_nonneg [of n1] mean_nonneg [of n2]
    by (simp add: eval_bins_def ks r Let_def)
qed

text \<open>
  C28: On a nonempty frame whose rows fit a bins network, the script's evaluation succeeds for every
  positive batch size: the predictions are those of the rows in order, the negative log likelihood lies
  between 0 and 30 ln 10, the KS statistic between 1/(2n) and 1, all mean regrets are nonnegative,
  and the per-advertiser regrets, weighted by the number of their rows, add up to the overall one.
\<close>

theorem eval_bins_sound:
  assumes "0 < batch_size" and "df \<noteq> []" and "\<forall>r \<in> set df. row_fits vs tv r"
    and "net_shape vs dims tv td 9 nb n" and "0 < nb"
  shows "\<exists>preds ev. collect_predictions (bins_batch_out erf n nb) (BidDataset df) batch_size = Some (Inr preds) \<and>
    pr_head preds = map (\<lambda>r. softmax (logits_of erf n r)) df \<and>
    eval_bins nb preds (ds_adv (BidDataset df)) pcts = Inr ev \<and>
    0 \<le> ev_nll ev \<and> ev_nll ev \<le> 30 * ln 10 \<and>
    1 / (2 * real (length df)) \<le> ev_ks ev \<and> ev_ks ev \<le> 1 \<and>
    0 \<le> ev_regret_v150 ev \<and> 0 \<le> ev_regret_vbid ev \<and> 0 \<le> ev_newton_v150 ev \<and> 0 \<le> ev_newton_vbid ev \<and>
    sum_list (map (\<lambda>(a, m). real (length (filter (\<lambda>b. b = a) (map o_advertiser_id df))) * m) (ev_per_adv ev)) =
      real (length df) * ev_regret_v150 ev"
proof -
  define h where "h i = softmax (logits_of erf n (df ! i))" for i
  let ?p = "\<lparr>pr_head = map h [0..<length df],
      pr_log_prob = map (\<lambda>i. true_bin_log_prob (h i) (price_bin nb (o_payprice (df ! i)))) [0..<length df],
      pr_log_pp = map o_log_payprice df, pr_pp = map o_payprice df, pr_bid = map o_bidding_price df\<rparr>"
  have len: "length (h i) = nb" if "i < length df" for i
    using bins_rows_eq(2) [OF assms(4,3), of "[i]" i erf] that by (simp add: h_def)
  have col: "collect_predictions (bins_batch_out erf n nb) (BidDataset df) batch_size = Some (Inr ?p)"
    using collect_rows [OF assms(1,2) bins_batch_out_rows [OF assms(4,3)]] by (simp add: h_def [abs_def])
  have head: "pr_head ?p = map (\<lambda>r. softmax (logits_of erf n r)) df"
    by (rule nth_equalityI) (simp_all add: h_def)
  have "0 < h i ! k \<and> h i ! k \<le> 1 \<and> 0 \<le> cumsum (h i) ! k \<and> cumsum (h i) ! k \<le> 1" if "i < length df" "k < nb" for i k
    using softmax_nth [of k "logits_of erf n (df ! i)"] len [OF that(1)] that by (simp add: h_def)
  moreover have "pr_log_prob ?p = map2 (\<lambda>p x. true_bin_log_prob p (price_bin nb x)) (pr_head ?p) (pr_pp ?p)"
    by (rule nth_equalityI) simp_all
  ultimately have "bins_preds_ok nb ?p"
    using assms(2) len by (auto simp: bins_preds_ok_def preds_ok_def)
  then show ?thesis
    using eval_bins_ok [of nb ?p "map o_advertiser_id df" pcts] assms(5) col head
    by (intro exI [of _ ?p]) (simp add: BidDataset_def)
qed

theorem eval_bins_sound_witness:
  "\<exists>n preds ev. collect_predictions (bins_batch_out (\<lambda>_. 0) n 4) (BidDataset [demo_out 1 [] 5, demo_out 2 [] 9]) 8192 = Some (Inr preds) \<and>
    eval_bins 4 preds (ds_adv (BidDataset [demo_out 1 [] 5, demo_out 2 [] 9])) [5, 50] = Inr ev \<and> ev_ks ev \<le> 1 \<and> 1 / 4 \<le> ev_ks ev"
proof -
  obtain n :: network where n: "net_shape [(City, 3)] (\<lambda>_. Some 2) 5 2 9 4 n"
    using build_network_shape [OF demo_init_matrix, of "[(City, 3)]" "\<lambda>_. Some 2" 5 2 9 "[]" 4] by auto
  show ?thesis
    using eval_bins_sound [OF _ _ _ n, of 8192 "[demo_out 1 [] 5, demo_out 2 [] 9]" "\<lambda>_. 0" "[5, 50]"]
      demo_out_fits [of 1 5] demo_out_fits [of 2 9] by fastforce
qed

end
