(* ===== verification/Backtest.thy ===== *)
theory Backtest
  imports Evaluate
begin

text \<open>
  \<open>rtb-bid-model/src/backtest.py\<close>: the exported network's bids on the test auctions, scaled by the
  multiplier of each bidding strategy and scored against the clearing prices. The inference session
  is a parameter \<open>run\<close> from the input rows of one chunk to their probability rows; the test frame is
  the list of its rows.
\<close>

section \<open>The profit-maximising bid\<close>

text \<open>
  One row: the first bin with the greatest profit, bins above \<open>V\<close> counting as 0. Rows of another
  width than the bins do not broadcast (unless one of them is 1, which the session never gives), and
  the argmax of no column raises: a \<open>ValueError\<close> both times.
\<close>

definition best_bid_row :: "nat \<Rightarrow> real \<Rightarrow> real list \<Rightarrow> real" where
  "best_bid_row num_bins V p = real (argmax (expected_profit V (arange num_bins) (cumsum p)))"

definition best_bids :: "real list list \<Rightarrow> real \<Rightarrow> nat \<Rightarrow> real list res" where
  "best_bids probs V num_bins =
     (if num_bins = 0 \<or> \<not> list_all (\<lambda>p. length p = num_bins) probs then Inl ValueError
      else Inr (map (best_bid_row num_bins V) probs))"

section \<open>Strategies and their accumulators\<close>

definition STRATEGIES :: "(string \<times> real) list" where
  "STRATEGIES = [(''profit_max (A)'', 1), (''aggressive (B)'', 12 / 10), (''conservative (C)'', 8 / 10)]"

record acc =
  a_profit :: real
  a_regret :: real
  a_wins :: nat
  a_bid_sum :: real

definition acc0 :: acc where
  "acc0 = \<lparr>a_profit = 0, a_regret = 0, a_wins = 0, a_bid_sum = 0\<rparr>"

definition oracle1 :: "real \<Rightarrow> real \<Rightarrow> real" where
  "oracle1 V payprice = (if payprice < V then V - payprice else 0)"

definition strategy_bid :: "nat \<Rightarrow> real \<Rightarrow> real \<Rightarrow> real" where
  "strategy_bid num_bins m bstar = clamp 0 (real num_bins - 1) (bstar * m)"

definition won_profit :: "real \<Rightarrow> real \<Rightarrow> real \<Rightarrow> real" where
  "won_profit V bid pp = (let profit = (if pp \<le> bid then V - bid else 0) in if profit < 0 then 0 else profit)"

definition strategy_regret :: "real \<Rightarrow> real \<Rightarrow> real \<Rightarrow> real" where
  "strategy_regret V bid pp =
     (let realized = (if pp \<le> bid then V - bid else 0)
      in oracle1 V pp - (if pp \<le> bid then realized else 0))"

definition update_acc :: "nat \<Rightarrow> real \<Rightarrow> real \<Rightarrow> (real \<times> real) list \<Rightarrow> acc \<Rightarrow> acc" where
  "update_acc num_bins V m rows a =
     (let bids = map (\<lambda>(bstar, pp). (strategy_bid num_bins m bstar, pp)) rows
      in \<lparr>a_profit = a_profit a + sum_list (map (\<lambda>(b, pp). won_profit V b pp) bids),
          a_regret = a_regret a + sum_list (map (\<lambda>(b, pp). strategy_regret V b pp) bids),
          a_wins = a_wins a + length (filter (\<lambda>(b, pp). pp \<le> b) bids),
          a_bid_sum = a_bid_sum a + sum_list (map fst bids)\<rparr>)"

section \<open>The loop over the chunks\<close>

definition model_inputs :: "out_row list \<Rightarrow> (nat list \<times> real list \<times> nat list) list" where
  "model_inputs df = map (\<lambda>r. (o_cat r, pack_cont r, o_tag_indices r)) df"

type_synonym session = "(nat list \<times> real list \<times> nat list) list \<Rightarrow> real list list"

fun backtest_loop :: "session \<Rightarrow> nat \<Rightarrow> real \<Rightarrow> out_row list \<Rightarrow> (nat \<times> nat) list \<Rightarrow> acc list \<Rightarrow> acc list res" where
  "backtest_loop run num_bins V df [] accs = Inr accs"
| "backtest_loop run num_bins V df ((s, e) # spans) accs =
     res_bind (best_bids (run (model_inputs (slice s e df))) V num_bins) (\<lambda>bstar.
       let rows = zip bstar (map o_payprice (slice s e df))
       in backtest_loop run num_bins V df spans
            (map2 (\<lambda>(name, m) a. update_acc num_bins V m rows a) STRATEGIES accs))"

record strategy_result =
  multiplier :: real
  win_rate :: real
  avg_profit_per_imp :: real
  mean_regret :: real
  avg_bid :: real
  total_profit :: real

definition strategy_result_of :: "nat \<Rightarrow> real \<Rightarrow> acc \<Rightarrow> strategy_result" where
  "strategy_result_of n m a =
     \<lparr>multiplier = m, win_rate = real (a_wins a) / real n, avg_profit_per_imp = a_profit a / real n,
      mean_regret = a_regret a / real n, avg_bid = a_bid_sum a / real n, total_profit = a_profit a\<rparr>"

text \<open>\<open>df.iloc[: limit]\<close> for a nonzero limit below the number of rows.\<close>

definition limit_rows :: "int \<Rightarrow> 'a list \<Rightarrow> 'a list" where
  "limit_rows limit df =
     (if limit \<noteq> 0 \<and> limit < int (length df)
      then take (nat (if limit < 0 then int (length df) + limit else limit)) df else df)"

definition main_backtest :: "session \<Rightarrow> nat \<Rightarrow> out_row list \<Rightarrow> real \<Rightarrow> int \<Rightarrow> int \<Rightarrow> ((string \<times> strategy_result) list \<times> real) res" where
  "main_backtest run num_bins frame V limit batch =
     (let df = limit_rows limit frame; n = length df;
          oracle_profit = map (oracle1 V) (map o_payprice df)
      in if batch = 0 then Inl ValueError
         else res_bind (backtest_loop run num_bins V df (if batch < 0 then [] else chunk_spans_from 0 n (nat batch))
                (map (\<lambda>_. acc0) STRATEGIES)) (\<lambda>accs.
           if n = 0 then Inl ZeroDivisionError
           else Inr (map2 (\<lambda>(name, m) a. (name, strategy_result_of n m a)) STRATEGIES accs, mean oracle_profit)))"

section \<open>The totals over all chunks\<close>

definition bstars :: "nat \<Rightarrow> real \<Rightarrow> (nat list \<times> real list \<times> nat list \<Rightarrow> real list) \<Rightarrow> out_row list \<Rightarrow> (real \<times> real) list" where
  "bstars num_bins V f df = map (\<lambda>r. (best_bid_row num_bins V (f (o_cat r, pack_cont r, o_tag_indices r)), o_payprice r)) df"

lemma update_acc_append: "update_acc nb V m (xs @ ys) a = update_acc nb V m ys (update_acc nb V m xs a)"
  by (simp add: update_acc_def Let_def)

lemma update_acc_Nil: "update_acc nb V m [] a = a"
  by (simp add: update_acc_def)

text \<open>A session that treats the rows one by one.\<close>

lemma best_bids_run:
  assumes "\<forall>rows. run rows = map f rows" and "\<forall>r. length (f r) = nb" and "0 < nb"
  shows "\<exists>bs. best_bids (run (model_inputs df)) V nb = Inr bs \<and> zip bs (map o_payprice df) = bstars nb V f df"
proof -
  have "zip (map g df) (map h df) = map (\<lambda>r. (g r, h r)) df" for g :: "out_row \<Rightarrow> real" and h :: "out_row \<Rightarrow> real"
    by (induction df) auto
  then show ?thesis
    using assms by (simp add: best_bids_def model_inputs_def bstars_def list_all_iff comp_def)
qed

lemma backtest_loop_eq:
  assumes "\<forall>rows. run rows = map f rows" and "\<forall>r. length (f r) = nb" and "0 < nb"
  shows "backtest_loop run nb V df spans (map (\<lambda>(name, m). update_acc nb V m xs acc0) STRATEGIES) =
    Inr (map (\<lambda>(name, m). update_acc nb V m (xs @ concat (map (\<lambda>(s, e). bstars nb V f (slice s e df)) spans)) acc0) STRATEGIES)"
proof (induction spans arbitrary: xs)
  case (Cons q spans)
  obtain s e where q: "q = (s, e)" by (cases q)
  obtain bs where bs: "best_bids (run (model_inputs (slice s e df))) V nb = Inr bs"
    "zip bs (map o_payprice (slice s e df)) = bstars nb V f (slice s e df)"
    using best_bids_run [OF assms] by blast
  have "map2 (\<lambda>(name, m) a. update_acc nb V m rows a) STRATEGIES (map (\<lambda>(name, m). update_acc nb V m xs acc0) STRATEGIES) =
      map (\<lambda>(name, m). update_acc nb V m (xs @ rows) acc0) STRATEGIES" for rows
    by (simp add: STRATEGIES_def update_acc_append)
  then show ?case
    using Cons.IH [of "xs @ bstars nb V f (slice s e df)"] by (simp add: q bs)
qed simp

interpretation bstars_rows: rowwise "bstars nb V f" for nb V f
  by unfold_locales (simp_all add: bstars_def)

text \<open>The totals of the auctions \<open>rows\<close>, in one go.\<close>

lemma main_backtest_eq:
  assumes "\<forall>rows. run rows = map f rows" and "\<forall>r. length (f r) = nb" and "0 < nb" and "0 < batch"
    and "limit_rows limit frame \<noteq> []"
  shows "main_backtest run nb frame V limit batch =
    (let df = limit_rows limit frame in
      Inr (map (\<lambda>(name, m). (name, strategy_result_of (length df) m (update_acc nb V m (bstars nb V f df) acc0))) STRATEGIES,
           mean (map (oracle1 V) (map o_payprice df))))"
proof -
  let ?df = "limit_rows limit frame"
  have a0: "map (\<lambda>_. acc0) STRATEGIES = map (\<lambda>(name, m). update_acc nb V m [] acc0) STRATEGIES"
    by (simp add: STRATEGIES_def update_acc_Nil)
  have "concat (map (\<lambda>(s, e). bstars nb V f (slice s e ?df)) (chunk_spans_from 0 (length ?df) (nat batch))) = bstars nb V f ?df"
    using bstars_rows.chunks_from [of "nat batch" nb V f ?df 0] assms(4) by simp
  then have "backtest_loop run nb V ?df (chunk_spans_from 0 (length ?df) (nat batch)) (map (\<lambda>_. acc0) STRATEGIES) =
      Inr (map (\<lambda>(name, m). update_acc nb V m (bstars nb V f ?df) acc0) STRATEGIES)"
    unfolding a0 backtest_loop_eq [OF assms(1-3)] by simp
  then show ?thesis
    using assms(4,5) by (simp add: main_backtest_def Let_def STRATEGIES_def)
qed

lemma accounts:
  "a_profit (update_acc nb V m rows acc0) = sum_list (map (\<lambda>(b, pp). won_profit V (strategy_bid nb m b) pp) rows)"
    "a_regret (update_acc nb V m rows acc0) = sum_list (map (\<lambda>(b, pp). strategy_regret V (strategy_bid nb m b) pp) rows)"
    "a_wins (update_acc nb V m rows acc0) = length (filter (\<lambda>(b, pp). pp \<le> strategy_bid nb m b) rows)"
    "a_bid_sum (update_acc nb V m rows acc0) = sum_list (map (\<lambda>(b, pp). strategy_bid nb m b) rows)"
  by (simp_all add: update_acc_def acc0_def comp_def split_def filter_map)

text \<open>Profit and regret of one auction against the oracle.\<close>

lemma profit_regret:
  "won_profit V b pp + strategy_regret V b pp = oracle1 V pp + (if pp \<le> b then max 0 (b - V) else 0)"
  by (auto simp: won_profit_def strategy_regret_def Let_def)

lemma strategy_regret_eq: "strategy_regret V b pp = regret1 b pp V"
  by (simp add: strategy_regret_def regret1_def oracle1_def perfect_profit1_def)

lemma best_bid_row_eq:
  assumes "row_ok p" and "length p = nb"
  shows "best_bid_row nb V p = fst (grid_row (arange nb) (cumsum p) V)" and "best_bid_row nb V p \<le> max 0 V"
    and "0 \<le> best_bid_row nb V p" and "best_bid_row nb V p \<le> real nb - 1"
proof -
  have ne: "arange nb \<noteq> []" using assms by (auto simp: row_ok_def arange_def)
  have "length (expected_profit V (arange nb) (cumsum p)) = nb" "0 < nb"
    using assms ne by (auto simp: row_ok_def)
  then have i: "argmax (expected_profit V (arange nb) (cumsum p)) < nb"
    using am.pick_less [of "expected_profit V (arange nb) (cumsum p)"] by force
  show e: "best_bid_row nb V p = fst (grid_row (arange nb) (cumsum p) V)"
    using i grid_row_eq [OF row_ok_cdf_set [OF assms(1)], of "arange nb" V] assms(2) ne
    by (simp add: best_bid_row_def Let_def)
  obtain b q where g: "grid_row (arange nb) (cumsum p) V = (b, q)" by (cases "grid_row (arange nb) (cumsum p) V")
  have "b \<le> V \<or> b = arange nb ! 0 \<and> q = 0"
    by (rule grid_row_bid_le [OF row_ok_cdf_set [OF assms(1)] _ ne g]) (simp add: assms(2))
  moreover have "arange nb ! 0 = 0" using nth_arange [of 0 nb] \<open>0 < nb\<close> by simp
  ultimately show "best_bid_row nb V p \<le> max 0 V" unfolding e g by auto
  show "0 \<le> best_bid_row nb V p" by (simp add: best_bid_row_def)
  show "best_bid_row nb V p \<le> real nb - 1" using i unfolding best_bid_row_def by linarith
qed

section \<open>What the report says\<close>

text \<open>The losses of auctions won above the value, which the clipped profit does not show.\<close>

definition hidden_loss :: "nat \<Rightarrow> real \<Rightarrow> real \<Rightarrow> (real \<times> real) list \<Rightarrow> real" where
  "hidden_loss nb V m rows =
     sum_list (map (\<lambda>(b, pp). if pp \<le> strategy_bid nb m b then max 0 (strategy_bid nb m b - V) else 0) rows)"

lemma profit_regret_total:
  "sum_list (map (\<lambda>(b, pp). won_profit V (strategy_bid nb m b) pp) rows) +
   sum_list (map (\<lambda>(b, pp). strategy_regret V (strategy_bid nb m b) pp) rows) =
   sum_list (map (oracle1 V) (map snd rows)) + hidden_loss nb V m rows"
proof (induction rows)
  case (Cons r rows)
  obtain b pp where r: "r = (b, pp)" by (cases r)
  show ?case
    using Cons.IH profit_regret [of V "strategy_bid nb m b" pp] unfolding hidden_loss_def
    by (simp only: r list.map prod.case snd_conv sum_list.Cons)
qed (simp add: hidden_loss_def)

lemma no_hidden_loss:
  assumes "\<forall>(b, pp) \<in> set rows. 0 \<le> b \<and> b \<le> V" and "0 \<le> m" and "m \<le> 1"
  shows "hidden_loss nb V m rows = 0"
proof -
  have "strategy_bid nb m b \<le> V" if "(b, pp) \<in> set rows" for b pp
  proof -
    have "0 \<le> b" "b \<le> V" using assms(1) that by auto
    then have "b * m \<le> V" "0 \<le> V" using assms(2,3) mult_left_le [of m b] by auto
    then show ?thesis by (simp add: strategy_bid_def clamp_def min_def max_def)
  qed
  then have "hidden_loss nb V m rows = sum_list (map (\<lambda>_. 0) rows)"
    unfolding hidden_loss_def by (intro arg_cong [where f = sum_list] map_cong) auto
  then show ?thesis by simp
qed

lemma sum_pair_nonneg: "(\<And>b pp. (b, pp) \<in> set rows \<Longrightarrow> 0 \<le> (g b pp :: real)) \<Longrightarrow> 0 \<le> sum_list (map (\<lambda>(b, pp). g b pp) rows)"
  by (intro sum_list_nonneg) auto

text \<open>What the result of one strategy says about the auctions \<open>rows\<close> of pairs of a bid and a clearing price.\<close>

definition result_ok :: "nat \<Rightarrow> real \<Rightarrow> (real \<times> real) list \<Rightarrow> real \<Rightarrow> strategy_result \<Rightarrow> bool" where
  "result_ok nb V rows oracle res \<longleftrightarrow>
     0 \<le> win_rate res \<and> win_rate res \<le> 1 \<and> 0 \<le> mean_regret res \<and> 0 \<le> avg_bid res \<and> avg_bid res \<le> real nb - 1 \<and>
     avg_profit_per_imp res + mean_regret res = oracle + hidden_loss nb V (multiplier res) rows / real (length rows) \<and>
     (multiplier res \<le> 1 \<longrightarrow> hidden_loss nb V (multiplier res) rows = 0)"

lemma strategy_bid_range: "0 < nb \<Longrightarrow> 0 \<le> strategy_bid nb m b \<and> strategy_bid nb m b \<le> real nb - 1"
  using clamp_ge [of 0 "real nb - 1"] by (simp add: strategy_bid_def)

lemma strategy_result_ok:
  assumes "rows \<noteq> []" and "\<forall>(b, pp) \<in> set rows. 0 \<le> b \<and> b \<le> V" and "0 < nb" and "0 \<le> m"
  shows "result_ok nb V rows (mean (map (oracle1 V) (map snd rows))) (strategy_result_of (length rows) m (update_acc nb V m rows acc0))"
    (is "result_ok nb V rows ?o ?res")
  unfolding result_ok_def
proof (intro conjI impI)
  note d = strategy_result_of_def accounts
  have n: "0 < real (length rows)" using assms(1) by simp
  note bid = strategy_bid_range [OF assms(3), of m]
  show "0 \<le> win_rate ?res" by (simp add: d)
  show "win_rate ?res \<le> 1"
    using n length_filter_le [of "\<lambda>(b, pp). pp \<le> strategy_bid nb m b" rows] by (simp add: d divide_le_eq)
  show "0 \<le> mean_regret ?res"
    by (auto simp: d strategy_regret_eq regret1_nonneg intro!: divide_nonneg_nonneg sum_pair_nonneg)
  show "0 \<le> avg_bid ?res" using bid by (auto simp: d intro!: divide_nonneg_nonneg sum_pair_nonneg)
  have "sum_list (map (\<lambda>(b, pp). strategy_bid nb m b) rows) \<le> sum_list (map (\<lambda>_. real nb - 1) rows)"
    using bid by (intro sum_list_mono) auto
  then show "avg_bid ?res \<le> real nb - 1" using n by (simp add: d sum_list_triv divide_le_eq mult.commute)
  show "avg_profit_per_imp ?res + mean_regret ?res = ?o + hidden_loss nb V (multiplier ?res) rows / real (length rows)"
    using profit_regret_total [of V nb m rows] by (simp add: d mean_def add_divide_distrib [symmetric])
  show "hidden_loss nb V (multiplier ?res) rows = 0" if "multiplier ?res \<le> 1"
    using no_hidden_loss [OF assms(2,4)] that by (simp add: d)
qed

text \<open>The profit-maximising strategy has the regret of the grid optimizer.\<close>

lemma profit_max_regret:
  assumes "\<forall>r. row_ok (f r) \<and> length (f r) = nb"
  shows "mean_regret (strategy_result_of (length df) 1 (update_acc nb V 1 (bstars nb V f df) acc0)) =
    mean (regret (map (\<lambda>r. fst (grid_row (arange nb) (cumsum (f (o_cat r, pack_cont r, o_tag_indices r))) V)) df) (map o_payprice df) (VScalar V))"
proof -
  let ?p = "\<lambda>r. f (o_cat r, pack_cont r, o_tag_indices r)"
  have ok: "row_ok (?p r)" "length (?p r) = nb" for r using assms by blast+
  have "strategy_bid nb 1 (best_bid_row nb V (?p r)) = fst (grid_row (arange nb) (cumsum (?p r)) V)" for r
    using best_bid_row_eq [OF ok, of V r] by (simp add: strategy_bid_def clamp_id)
  moreover have "regret (map g xs) (map h xs) (VScalar V) = map (\<lambda>r. regret1 (g r) (h r) V) xs" for g h and xs :: "out_row list"
    by (induction xs) (simp_all add: regret_def)
  ultimately show ?thesis
    by (simp add: strategy_result_of_def accounts mean_def bstars_def comp_def strategy_regret_eq)
qed

text \<open>
  C31: The backtest of a session that treats rows one by one and gives proper distributions, for every
  positive chunk size: each strategy reports a win rate between 0 and 1, a nonnegative mean regret and a
  mean bid within the bins; profit and regret add up to the oracle profit plus the hidden losses, the
  amounts by which won bids exceed the value, which are 0 for a multiplier of at most 1; and the
  regret of the profit-maximising strategy is the mean regret of the bids of the grid optimizer.
\<close>

theorem backtest_sound:
  assumes "\<forall>rows. run rows = map f rows" and "\<forall>r. row_ok (f r) \<and> length (f r) = nb" and "0 < batch" and "0 \<le> V"
    and "limit_rows limit frame \<noteq> []"
  shows "\<exists>results oracle. main_backtest run nb frame V limit batch = Inr (results, oracle) \<and>
    (let df = limit_rows limit frame; rows = bstars nb V f df in
      map (\<lambda>(name, res). (name, multiplier res)) results = STRATEGIES \<and>
      list_all (\<lambda>(name, res). 0 \<le> win_rate res \<and> win_rate res \<le> 1 \<and> 0 \<le> mean_regret res \<and>
        0 \<le> avg_bid res \<and> avg_bid res \<le> real nb - 1 \<and>
        avg_profit_per_imp res + mean_regret res = oracle + hidden_loss nb V (multiplier res) rows / real (length df) \<and>
        (multiplier res \<le> 1 \<longrightarrow> hidden_loss nb V (multiplier res) rows = 0)) results \<and>
      mean_regret (snd (results ! 0)) =
        mean (regret (map (\<lambda>r. fst (grid_row (arange nb) (cumsum (f (o_cat r, pack_cont r, o_tag_indices r))) V)) df)
               (map o_payprice df) (VScalar V)))"
proof -
  let ?df = "limit_rows limit frame"
  let ?rows = "bstars nb V f ?df"
  have nb: "0 < nb" and len: "\<forall>r. length (f r) = nb" using assms(2) by (metis length_greater_0_conv row_ok_def, blast)
  note run = main_backtest_eq [OF assms(1) len nb assms(3,5), of V, unfolded Let_def]
  let ?res = "map (\<lambda>(name, m). (name, strategy_result_of (length ?df) m (update_acc nb V m ?rows acc0))) STRATEGIES"
  have rows: "\<forall>(b, pp) \<in> set ?rows. 0 \<le> b \<and> b \<le> V"
    using best_bid_row_eq(2,3) [of "f _" nb V] assms(2,4) by (fastforce simp: bstars_def)
  have rlen: "length ?rows = length ?df" "map snd ?rows = map o_payprice ?df" by (simp_all add: bstars_def comp_def)
  then have "result_ok nb V ?rows (mean (map (oracle1 V) (map o_payprice ?df))) (strategy_result_of (length ?df) m (update_acc nb V m ?rows acc0))"
    if "0 \<le> m" for m
    using strategy_result_ok [OF _ rows nb that] assms(5) by (metis length_0_conv)
  then have "list_all (\<lambda>(name, res). result_ok nb V ?rows (mean (map (oracle1 V) (map o_payprice ?df))) res) ?res"
    by (simp add: STRATEGIES_def)
  moreover have "map (\<lambda>(name, res). (name, multiplier res)) ?res = STRATEGIES"
    "snd (?res ! 0) = strategy_result_of (length ?df) 1 (update_acc nb V 1 ?rows acc0)"
    by (simp_all add: STRATEGIES_def strategy_result_of_def)
  ultimately show ?thesis
    unfolding run Let_def using profit_max_regret [OF assms(2), of ?df V] rlen(1)
    by (intro exI [of _ ?res] exI conjI) (rule refl, simp_all add: result_ok_def)
qed

definition demo_probs :: "real list" where
  "demo_probs = [0, 0, 0, 0, 0, 0, 0, 0, 0, 1, 0, 0]"

lemma demo_probs_ok: "row_ok demo_probs \<and> length demo_probs = 12"
  by (simp add: row_ok_def demo_probs_def)

lemma demo_best: "best_bid_row 12 10 demo_probs = 9"
  by (simp add: best_bid_row_def demo_probs_def expected_profit_def arange_def upt_rec cumsum_def)

text \<open>The aggressive strategy bids 10.8 for a value of 10, wins, and reports a profit of 0.\<close>

theorem backtest_sound_witness:
  "\<exists>results oracle. main_backtest (map (\<lambda>_. demo_probs)) 12 [demo_out 1 [] 5, demo_out 2 [] 9] 10 0 1 = Inr (results, oracle) \<and>
    (\<forall>(name, res) \<in> set results. win_rate res \<le> 1 \<and>
      avg_profit_per_imp res + mean_regret res =
        oracle + hidden_loss 12 10 (multiplier res) (bstars 12 10 (\<lambda>_. demo_probs) [demo_out 1 [] 5, demo_out 2 [] 9]) / 2) \<and>
    hidden_loss 12 10 (12 / 10) (bstars 12 10 (\<lambda>_. demo_probs) [demo_out 1 [] 5, demo_out 2 [] 9]) = 8 / 5"
proof -
  let ?fr = "[demo_out 1 [] 5, demo_out 2 [] 9]"
  have l: "limit_rows 0 ?fr = ?fr" by (simp add: limit_rows_def)
  have h: "hidden_loss 12 10 (12 / 10) (bstars 12 10 (\<lambda>_. demo_probs) ?fr) = 8 / 5"
    by (simp add: hidden_loss_def bstars_def demo_best strategy_bid_def clamp_def demo_out_def)
  have "\<exists>results oracle. main_backtest (map (\<lambda>_. demo_probs)) 12 ?fr 10 0 1 = Inr (results, oracle) \<and>
      list_all (\<lambda>(name, res). win_rate res \<le> 1 \<and> avg_profit_per_imp res + mean_regret res =
        oracle + hidden_loss 12 10 (multiplier res) (bstars 12 10 (\<lambda>_. demo_probs) ?fr) / 2) results"
    using backtest_sound [of "map (\<lambda>_. demo_probs)" "\<lambda>_. demo_probs" 12 1 10 0 ?fr] demo_probs_ok
    unfolding l by (auto simp: Let_def elim!: list.pred_mono_strong)
  then show ?thesis using h by (auto simp: list_all_iff)
qed

end
