(* ===== verification/Binning.thy ===== *)
theory Binning
  imports Evaluate
begin

text \<open>
  The distributions over integer price bins that the experiments build from a prediction: a mixture
  integrated over the bins and a quantile curve inverted (\<open>experiments/budget_eval.py\<close>), a bins
  prediction cut or padded to the common width (\<open>ens_search.py\<close>), and bins with edges of their own
  (\<open>bins_v2.py\<close>) spread over the integer prices (\<open>eval_bins_v2.py\<close>). All are rows of one tensor; the
  chunking of the scripts is left to the theories that use them.
\<close>

section \<open>Normalising positive rows\<close>

definition normalise :: "real list \<Rightarrow> real list" where
  "normalise p = map (\<lambda>x. x / sum_list p) p"

lemma length_normalise [simp, arr_simps]: "length (normalise p) = length p"
  by (simp add: normalise_def)

lemma normalise_ok:
  assumes "\<forall>x \<in> set p. 0 \<le> x" and "0 < sum_list p"
  shows "row_ok (normalise p)"
proof -
  have "sum_list (normalise p) = 1" using assms(2) by (simp add: normalise_def sum_list_divide [of _ p, simplified])
  then show ?thesis using assms by (auto simp: row_ok_def normalise_def intro!: divide_nonneg_nonneg)
qed

lemma normalise_clipped_ok:
  assumes "0 < eps" and "p \<noteq> []"
  shows "row_ok (normalise (map (max eps) p))"
  using assms by (intro normalise_ok sum_list_pos_real) (auto simp: less_max_iff_disj le_max_iff_disj)

lemma normalise_id: "sum_list p = 1 \<Longrightarrow> normalise p = p"
  by (simp add: normalise_def)

section \<open>A mixture integrated over the bins\<close>

text \<open>
  \<open>mdn_to_bins_probs_np\<close>, one row: the mixture's mass between \<open>log (k - 0.5)\<close> and \<open>log (k + 0.5)\<close>, the
  first bin reaching down to \<open>-1e9\<close>.
\<close>

definition log_upper :: "nat \<Rightarrow> real" where
  "log_upper k = ln (max (real k + 1/2) (1/1000))"

definition log_lower :: "nat \<Rightarrow> real" where
  "log_lower k = (if k = 0 then - (10 ^ 9) else ln (max (real (k - 1) + 1/2) (1/1000)))"

definition mdn_bins_row :: "(real \<Rightarrow> real) \<Rightarrow> nat \<Rightarrow> mdn_row \<Rightarrow> real list" where
  "mdn_bins_row erf num_bins r =
     normalise (map (max (1 / 10 ^ 10))
       (map (\<lambda>k. mdn_cdf_row erf r (log_upper k) - mdn_cdf_row erf r (log_lower k)) [0..<num_bins]))"

section \<open>A quantile curve inverted at the bin boundaries\<close>

text \<open>
  \<open>quantiles_to_bins_np\<close>, one row of quantiles with one level for each: the piecewise linear
  distribution function at the boundaries \<open>0, 0.5, 1.5, ...\<close>, made monotone, and its differences.
\<close>

definition boundary :: "nat \<Rightarrow> real" where
  "boundary k = (if k = 0 then 0 else real k - 1/2)"

definition quantile_cdf :: "real list \<Rightarrow> real list \<Rightarrow> real \<Rightarrow> real" where
  "quantile_cdf alphas quants b =
     (let afull = 0 # alphas @ [1]; qfull = - (10 ^ 9) # quants @ [10 ^ 9]; A = length quants;
          idx = clamp 1 (A + 1) (length (filter (\<lambda>q. q \<le> b) qfull));
          left_q = qfull ! (idx - 1); right_q = qfull ! idx;
          left_a = afull ! (idx - 1); right_a = afull ! idx;
          denom = (if right_q - left_q \<le> 0 then 1 else right_q - left_q);
          frac = clamp 0 1 ((b - left_q) / denom)
      in clamp 0 1 (left_a + frac * (right_a - left_a)))"

fun max_accumulate :: "real \<Rightarrow> real list \<Rightarrow> real list" where
  "max_accumulate m [] = []"
| "max_accumulate m (x # xs) = max m x # max_accumulate (max m x) xs"

definition running_max :: "real list \<Rightarrow> real list" where
  "running_max xs = (case xs of [] \<Rightarrow> [] | x # ys \<Rightarrow> x # max_accumulate x ys)"

definition diffs :: "real list \<Rightarrow> real list" where
  "diffs xs = map2 (\<lambda>x y. y - x) xs (tl xs)"

definition quantile_bins_row :: "real list \<Rightarrow> nat \<Rightarrow> real list \<Rightarrow> real list" where
  "quantile_bins_row alphas num_bins quants =
     normalise (map (max (1 / 10 ^ 9))
       (diffs (running_max (map (\<lambda>k. quantile_cdf alphas quants (boundary k)) [0..<num_bins + 1]))))"

section \<open>Bins cut or padded to a width\<close>

definition to_bins :: "nat \<Rightarrow> real list \<Rightarrow> real list" where
  "to_bins num_bins probs =
     (let p = (if num_bins \<le> length probs then take num_bins probs
               else probs @ replicate (num_bins - length probs) 0)
      in map (\<lambda>x. x / max (1 / 10 ^ 30) (sum_list p)) p)"

section \<open>All of them are distributions\<close>

lemma running_max_length [simp]: "length (running_max xs) = length xs"
proof -
  have "length (max_accumulate m ys) = length ys" for m ys by (induction ys arbitrary: m) auto
  then show ?thesis by (simp add: running_max_def split: list.splits)
qed

lemma running_max_sorted: "sorted xs \<Longrightarrow> running_max xs = xs"
proof -
  have "max_accumulate m ys = ys" if "sorted (m # ys)" for m ys
    using that by (induction ys arbitrary: m) (auto simp: max_def)
  then show "sorted xs \<Longrightarrow> running_max xs = xs"
    by (cases xs) (simp_all add: running_max_def)
qed

lemma length_filter_le_eq:
  assumes "k \<le> length a" and "\<And>i. i < k \<Longrightarrow> a ! i \<le> x" and "\<And>i. k \<le> i \<Longrightarrow> i < length a \<Longrightarrow> x < a ! i"
  shows "length (filter (\<lambda>q. q \<le> (x :: real)) a) = k"
proof -
  have "{i. i < length a \<and> a ! i \<le> x} = {..<k}"
    using assms by (auto simp: not_le) (meson not_less)
  then show ?thesis by (simp add: length_filter_conv_card)
qed

lemma diffs_length [simp]: "length (diffs xs) = length xs - 1"
  by (simp add: diffs_def)

interpretation mdn_bins: price_dist "\<lambda>(nb, r). mdn_bins_row erf nb r" "\<lambda>(nb, r). 0 < nb" for erf
proof unfold_locales
  fix m :: "nat \<times> mdn_row" and p
  obtain nb r where m: "m = (nb, r)" by (cases m)
  assume "case m of (nb, r) \<Rightarrow> 0 < nb"
  then have "row_ok (mdn_bins_row erf nb r)"
    unfolding mdn_bins_row_def by (intro normalise_clipped_ok) (simp_all add: m)
  then show "p \<in> set (case m of (nb, r) \<Rightarrow> mdn_bins_row erf nb r) \<Longrightarrow> 0 \<le> p"
    and "sum_list (case m of (nb, r) \<Rightarrow> mdn_bins_row erf nb r) = 1" by (simp_all add: row_ok_def m)
qed

interpretation quantile_bins: price_dist "\<lambda>(alphas, nb, q). quantile_bins_row alphas nb q" "\<lambda>(alphas, nb, q). 0 < nb"
proof unfold_locales
  fix m :: "real list \<times> nat \<times> real list" and p
  obtain al nb q where m: "m = (al, nb, q)" by (cases m)
  assume nb: "case m of (alphas, nb, q) \<Rightarrow> 0 < nb"
  define d where "d = diffs (running_max (map (\<lambda>k. quantile_cdf al q (boundary k)) [0..<nb + 1]))"
  have "length d = nb" by (simp add: d_def del: upt_Suc)
  then have "d \<noteq> []" using nb by (auto simp: m)
  then have "row_ok (quantile_bins_row al nb q)"
    unfolding quantile_bins_row_def d_def [symmetric] by (intro normalise_clipped_ok) simp_all
  then show "p \<in> set (case m of (alphas, nb, q) \<Rightarrow> quantile_bins_row alphas nb q) \<Longrightarrow> 0 \<le> p"
    and "sum_list (case m of (alphas, nb, q) \<Rightarrow> quantile_bins_row alphas nb q) = 1" by (simp_all add: row_ok_def m)
qed

lemma length_mdn_bins_row [simp]: "length (mdn_bins_row erf nb r) = nb"
  by (simp add: mdn_bins_row_def)

lemma length_quantile_bins_row [simp]: "length (quantile_bins_row al nb q) = nb"
  by (simp add: quantile_bins_row_def del: upt_Suc)

lemma length_to_bins [simp]: "length (to_bins nb p) = nb"
  by (simp add: to_bins_def Let_def)

lemma to_bins_ok:
  assumes "\<forall>x \<in> set p. 0 \<le> x" and "1 / 10 ^ 30 \<le> sum_list (take nb p)"
  shows "row_ok (to_bins nb p)"
proof -
  define p' where "p' = (if nb \<le> length p then take nb p else p @ replicate (nb - length p) 0)"
  have s: "sum_list p' = sum_list (take nb p)" by (simp add: p'_def)
  have "to_bins nb p = normalise p'"
    using assms(2) by (simp add: to_bins_def Let_def p'_def [symmetric] normalise_def s max_def)
  moreover have "\<forall>x \<in> set p'. 0 \<le> x" using assms(1) by (auto simp: p'_def dest: in_set_takeD)
  moreover have "0 < sum_list p'"
    using assms(2) order.strict_trans2 [of 0 "1 / 10 ^ 30 :: real" "sum_list p'"] by (simp add: s)
  ultimately show ?thesis by (simp add: normalise_ok)
qed

text \<open>A distribution that fits into the width is only padded.\<close>

lemma to_bins_pad:
  assumes "row_ok p" and "length p \<le> nb"
  shows "to_bins nb p = p @ replicate (nb - length p) 0"
proof -
  have s: "sum_list (p @ replicate (nb - length p) 0) = 1" using assms(1) by (simp add: row_ok_def)
  have p: "(if nb \<le> length p then take nb p else p @ replicate (nb - length p) 0) = p @ replicate (nb - length p) 0"
    using assms(2) by auto
  have "max (1 / 10 ^ 30) (1 :: real) = 1" by (rule max_absorb2) (simp add: divide_le_eq)
  then show ?thesis unfolding to_bins_def p Let_def s by simp
qed

section \<open>The binned mixture follows the mixture\<close>

definition mdn_raw :: "(real \<Rightarrow> real) \<Rightarrow> nat \<Rightarrow> mdn_row \<Rightarrow> real list" where
  "mdn_raw erf nb r =
     map (max (1 / 10 ^ 10)) (map (\<lambda>k. mdn_cdf_row erf r (log_upper k) - mdn_cdf_row erf r (log_lower k)) [0..<nb])"

lemma log_lower_Suc: "log_lower (Suc k) = log_upper k"
  by (simp add: log_lower_def log_upper_def)

lemma log_upper_mono: "log_lower 0 \<le> log_upper 0" "log_upper k \<le> log_upper (Suc k)"
proof -
  have "ln (1/2 :: real) \<ge> - 1" using ln_2_less_1 by (simp add: ln_div)
  then show "log_lower 0 \<le> log_upper 0" by (simp add: log_lower_def log_upper_def max_def)
  show "log_upper k \<le> log_upper (Suc k)" by (simp add: log_upper_def)
qed

lemma clipped_step:
  assumes "a \<le> (b :: real)" and "C' = C + max e (b - a)" and "d' = d + e" and "a - z \<le> C \<and> C \<le> a - z + d" and "0 \<le> e"
  shows "b - z \<le> C' \<and> C' \<le> b - z + d'"
  using assms by (auto simp: max_def)

lemma mdn_raw_sums:
  assumes "erf_like erf" and "mdn_wf r" and "j < nb"
  shows "let F = mdn_cdf_row erf r in
    F (log_upper j) - F (log_lower 0) \<le> cumsum (mdn_raw erf nb r) ! j \<and>
    cumsum (mdn_raw erf nb r) ! j \<le> F (log_upper j) - F (log_lower 0) + real (Suc j) / 10 ^ 10"
  using assms(3)
proof (induction j)
  case 0
  have "mdn_cdf_row erf r (log_lower 0) \<le> mdn_cdf_row erf r (log_upper 0)"
    by (rule mdn_cdf_row_mono [OF assms(1,2) log_upper_mono(1)])
  then show ?case using 0 by (simp add: nth_cumsum mdn_raw_def take_map max_def Let_def)
next
  case (Suc j)
  have m: "mdn_cdf_row erf r (log_upper j) \<le> mdn_cdf_row erf r (log_upper (Suc j))"
    by (rule mdn_cdf_row_mono [OF assms(1,2) log_upper_mono(2)])
  have c: "cumsum (mdn_raw erf nb r) ! Suc j = cumsum (mdn_raw erf nb r) ! j +
      max (1 / 10 ^ 10) (mdn_cdf_row erf r (log_upper (Suc j)) - mdn_cdf_row erf r (log_upper j))"
    using Suc.prems by (simp add: nth_cumsum mdn_raw_def take_map log_lower_Suc)
  have d: "real (Suc (Suc j)) / 10 ^ 10 = real (Suc j) / 10 ^ 10 + 1 / (10 ^ 10 :: real)"
    by (simp add: field_simps)
  have ih: "mdn_cdf_row erf r (log_upper j) - mdn_cdf_row erf r (log_lower 0) \<le> cumsum (mdn_raw erf nb r) ! j \<and>
      cumsum (mdn_raw erf nb r) ! j \<le> mdn_cdf_row erf r (log_upper j) - mdn_cdf_row erf r (log_lower 0) + real (Suc j) / 10 ^ 10"
    using Suc by (simp add: Let_def)
  show ?case unfolding Let_def by (rule clipped_step [OF m c d ih]) simp
qed

section \<open>Bins with edges of their own\<close>

text \<open>\<open>np.quantile\<close>: linear interpolation between the order statistics.\<close>

definition quantile_at :: "real list \<Rightarrow> real \<Rightarrow> real" where
  "quantile_at s q =
     (let pos = q * real (length s - 1); i = nat \<lfloor>pos\<rfloor>; j = min (i + 1) (length s - 1)
      in s ! i + (pos - real i) * (s ! j - s ! i))"

text \<open>The loop that makes ties of the quantiles increase.\<close>

fun bump_ties :: "real \<Rightarrow> real list \<Rightarrow> real list" where
  "bump_ties prev [] = []"
| "bump_ties prev (x # xs) = (let y = (if x \<le> prev then prev + 1/1000 else x) in y # bump_ties y xs)"

definition make_edges :: "string \<Rightarrow> nat \<Rightarrow> real list \<Rightarrow> real \<Rightarrow> real list res" where
  "make_edges kind num_bins train_pp max_price =
     (if kind = ''uniform'' then Inr (linspace 0 max_price (num_bins + 1))
      else if kind = ''log'' then
        Inr ((map (\<lambda>x. exp x - 1) (linspace (ln 1) (ln (max_price + 1)) (num_bins + 1)))[0 := 0])
      else if kind = ''sqrt'' then Inr (map (\<lambda>u. u ^ 2) (linspace 0 (sqrt max_price) (num_bins + 1)))
      else if kind = ''quantile'' then
        (if train_pp = [] then Inl IndexError
         else let v = sort (map (clamp 0 max_price) train_pp);
                  e = (map (quantile_at v) (linspace 0 1 (num_bins + 1)))[0 := 0, num_bins := max_price]
              in Inr (hd e # bump_ties (hd e) (tl e)))
      else Inl ValueError)"

text \<open>
  \<open>np.digitize(pp, edges) - 1\<close>, clipped to the bins: the number of edges up to the price, less one.
  \<open>digitize\<close> rejects edges that are not monotone; those of \<open>make_edges\<close> increase.
\<close>

definition assign_bin :: "real list \<Rightarrow> real \<Rightarrow> nat" where
  "assign_bin edges x = nat (clamp 0 (int (length edges) - 2) (int (length (filter (\<lambda>e. e \<le> x) edges)) - 1))"

definition assign_bins :: "real list \<Rightarrow> real list \<Rightarrow> nat list res" where
  "assign_bins pp edges = (if sorted edges then Inr (map (assign_bin edges) pp) else Inl ValueError)"

definition edges_ok :: "nat \<Rightarrow> real list \<Rightarrow> bool" where
  "edges_ok nb e \<longleftrightarrow> length e = nb + 1 \<and> e ! 0 = 0 \<and> (\<forall>i < nb. e ! i < e ! Suc i)"

lemma edges_sorted: "edges_ok nb e \<Longrightarrow> sorted e"
  by (auto simp: edges_ok_def sorted_iff_nth_Suc less_imp_le)

lemma linspace_step:
  assumes "a < b" and "i < nb"
  shows "linspace a b (nb + 1) ! i < linspace a b (nb + 1) ! Suc i"
proof -
  have "0 < (b - a) / real nb" using assms by simp
  then have "real i * ((b - a) / real nb) < real (Suc i) * ((b - a) / real nb)"
    by (intro mult_strict_right_mono) simp_all
  then show ?thesis using assms(2) by (simp add: nth_linspace)
qed

lemma linspace_0: "linspace a b (nb + 1) ! 0 = a"
  by (simp add: nth_linspace)

lemma bump_ties_length [simp]: "length (bump_ties p xs) = length xs"
  by (induction xs arbitrary: p) (auto simp: Let_def)

lemma bump_ties_step: "i < length xs \<Longrightarrow> (p # bump_ties p xs) ! i < (p # bump_ties p xs) ! Suc i"
proof (induction xs arbitrary: p i)
  case (Cons x xs)
  then show ?case by (cases i) (auto simp: Let_def)
qed simp

lemma make_edges_ok:
  assumes "0 < nb" and "0 < mp" and "kind \<in> {''uniform'', ''log'', ''sqrt'', ''quantile''}"
    and "kind = ''quantile'' \<longrightarrow> train \<noteq> []"
  shows "\<exists>e. make_edges kind nb train mp = Inr e \<and> edges_ok nb e"
proof -
  note step = linspace_step [of _ _ _ nb]
  consider "kind = ''uniform''" | "kind = ''log''" | "kind = ''sqrt''" | "kind = ''quantile''" using assms(3) by auto
  then show ?thesis
  proof cases
    case 1
    then show ?thesis
      using step [OF assms(2)] linspace_0 [of 0 mp nb] by (auto simp: make_edges_def edges_ok_def)
  next
    case 2
    let ?l = "linspace (ln 1) (ln (mp + 1)) (nb + 1)"
    have pos: "ln 1 < ln (mp + 1)" using assms(2) by simp
    have z: "(map (\<lambda>x. exp x - 1) ?l)[0 := 0] = map (\<lambda>x. exp x - 1) ?l"
      using linspace_0 [of "ln 1" "ln (mp + 1)" nb] by (intro nth_equalityI) (auto simp: nth_list_update)
    then have e: "make_edges kind nb train mp = Inr (map (\<lambda>x. exp x - 1) ?l)"
      using 2 by (simp add: make_edges_def)
    show ?thesis
      unfolding e using step [OF pos] linspace_0 [of "ln 1" "ln (mp + 1)" nb] by (auto simp: edges_ok_def)
  next
    case 3
    let ?l = "linspace 0 (sqrt mp) (nb + 1)"
    have pos: "0 < sqrt mp" using assms(2) by simp
    have "0 \<le> ?l ! i" if "i < nb + 1" for i
      using linspace_bounds [of 0 "sqrt mp" "?l ! i" "nb + 1"] that pos nth_mem [of i ?l] by simp
    then have "(?l ! i) ^ 2 < (?l ! Suc i) ^ 2" if "i < nb" for i
      using step [OF pos that] that by (intro power_strict_mono) auto
    then show ?thesis using 3 linspace_0 [of 0 "sqrt mp" nb] by (auto simp: make_edges_def edges_ok_def)
  next
    case 4
    define e0 where "e0 = (map (quantile_at (sort (map (clamp 0 mp) train))) (linspace 0 1 (nb + 1)))[0 := 0, nb := mp]"
    have e0: "length e0 = nb + 1" "e0 ! 0 = 0" using assms(1) by (simp_all add: e0_def)
    then obtain xs where xs: "e0 = 0 # xs" "length xs = nb" by (cases e0) auto
    have "make_edges kind nb train mp = Inr (0 # bump_ties 0 xs)"
      using 4 assms(4) xs(1) by (simp add: make_edges_def Let_def e0_def)
    moreover have "edges_ok nb (0 # bump_ties 0 xs)"
      using bump_ties_step [of _ xs 0] xs(2) by (simp add: edges_ok_def)
    ultimately show ?thesis by blast
  qed
qed

lemma assign_bin_spec:
  assumes "edges_ok nb e" and "0 < nb" and "0 \<le> x"
  shows "assign_bin e x < nb \<and> e ! assign_bin e x \<le> x \<and> (x < e ! nb \<longrightarrow> x < e ! Suc (assign_bin e x))"
proof -
  let ?w = "takeWhile (\<lambda>y. y \<le> x) e"
  have len: "length e = nb + 1" using assms(1) by (simp add: edges_ok_def)
  have f: "filter (\<lambda>y. y \<le> x) e = ?w" by (rule filter_sorted_takeWhile [OF edges_sorted [OF assms(1)]])
  have le: "e ! i \<le> x" if "i < length ?w" for i
    using that takeWhile_nth [OF that] set_takeWhileD [OF nth_mem [OF that]] by simp
  have pos: "0 < length ?w" using assms(1,3) by (cases e) (auto simp: edges_ok_def)
  show ?thesis
  proof (cases "length ?w = nb + 1")
    case True
    then have "assign_bin e x = nb - 1" using assms(2) by (simp add: assign_bin_def f len clamp_def)
    moreover have "e ! nb \<le> x" using le [of nb] True by simp
    ultimately show ?thesis using le [of "nb - 1"] True assms(2) by simp
  next
    case False
    then have c: "length ?w \<le> nb" using length_takeWhile_le [of "\<lambda>y. y \<le> x" e] len by simp
    then have "assign_bin e x = length ?w - 1" using pos assms(2) by (simp add: assign_bin_def f len clamp_def nat_diff_distrib)
    moreover have "x < e ! length ?w" using nth_length_takeWhile [of "\<lambda>y. y \<le> x" e] c len by simp
    ultimately show ?thesis using le [of "length ?w - 1"] pos c by (cases "length ?w") auto
  qed
qed

text \<open>
  Every kind of edges gives \<open>num_bins\<close> adjacent intervals that start at 0 and increase strictly, ties of
  the training quantiles included, and every nonnegative price is assigned to the bin whose interval
  holds it, prices beyond the last edge to the last bin. Another kind is a \<open>ValueError\<close>.
\<close>

theorem edges_partition:
  assumes "0 < nb" and "0 < mp"
  shows "(if kind \<in> {''uniform'', ''log'', ''sqrt'', ''quantile''}
    then kind = ''quantile'' \<and> train = [] \<or>
      (\<exists>e. make_edges kind nb train mp = Inr e \<and> length e = nb + 1 \<and> e ! 0 = 0 \<and> (\<forall>i < nb. e ! i < e ! Suc i) \<and>
        (\<forall>pp. list_all (\<lambda>x. 0 \<le> x) pp \<longrightarrow> (\<exists>bins. assign_bins pp e = Inr bins \<and>
          list_all2 (\<lambda>x k. k < nb \<and> e ! k \<le> x \<and> (x < e ! nb \<longrightarrow> x < e ! Suc k)) pp bins)))
    else make_edges kind nb train mp = Inl ValueError)"
proof (cases "kind \<in> {''uniform'', ''log'', ''sqrt'', ''quantile''} \<and> \<not> (kind = ''quantile'' \<and> train = [])")
  case True
  then obtain e where e: "make_edges kind nb train mp = Inr e" "edges_ok nb e"
    using make_edges_ok [OF assms, of kind train] by auto
  have "\<exists>bins. assign_bins pp e = Inr bins \<and>
      list_all2 (\<lambda>x k. k < nb \<and> e ! k \<le> x \<and> (x < e ! nb \<longrightarrow> x < e ! Suc k)) pp bins"
    if "list_all (\<lambda>x. 0 \<le> x) pp" for pp
    using that edges_sorted [OF e(2)] assign_bin_spec [OF e(2) assms(1)]
    by (simp add: assign_bins_def list_all2_map2 list_all2_same list_all_iff)
  then show ?thesis using True e by (auto simp: edges_ok_def)
qed (auto simp: make_edges_def)

theorem edges_partition_witness:
  "\<exists>e. make_edges ''quantile'' 4 [70, 70, 70] 300 = Inr e \<and> length e = 5 \<and> (\<forall>i < 4. e ! i < e ! Suc i)"
  using edges_partition [of 4 300 "''quantile''" "[70, 70, 70]"] by auto

section \<open>The earth mover's distance\<close>

definition emd_row :: "real list \<Rightarrow> nat \<Rightarrow> real" where
  "emd_row p t = sum_list (map (\<lambda>k. \<bar>cumsum p ! k - (if t \<le> k then 1 else 0)\<bar>) [0..<length p])"

definition emd_loss :: "real list list \<Rightarrow> nat list \<Rightarrow> real" where
  "emd_loss logits target_bin = mean (map2 (\<lambda>l t. emd_row (softmax l) t) logits target_bin)"

lemma cumsum_split:
  assumes "sum_list p = 1" and "k < length p"
  shows "cumsum p ! k = (\<Sum>j < length p. if j \<le> k then p ! j else 0)"
    and "1 - cumsum p ! k = (\<Sum>j < length p. if k < j then p ! j else 0)"
proof -
  have "cumsum p ! k = (\<Sum>j < Suc k. p ! j)"
    using assms(2) by (simp add: nth_cumsum sum_list_map_nth)
  also have "\<dots> = (\<Sum>j \<in> {..<length p} \<inter> {j. j \<le> k}. p ! j)"
    using assms(2) by (intro sum.cong) auto
  finally show c: "cumsum p ! k = (\<Sum>j < length p. if j \<le> k then p ! j else 0)"
    by (simp add: sum.inter_restrict)
  have "(\<Sum>j < length p. if j \<le> k then p ! j else 0) + (\<Sum>j < length p. if k < j then p ! j else 0) = (\<Sum>j < length p. p ! j)"
    by (subst sum.distrib [symmetric]) (rule sum.cong, auto)
  then show "1 - cumsum p ! k = (\<Sum>j < length p. if k < j then p ! j else 0)"
    using assms(1) by (simp add: c sum_list_map_nth)
qed

lemma emd_row_eq:
  assumes "row_ok p" and "t < length p"
  shows "emd_row p t = (\<Sum>j < length p. p ! j * \<bar>real j - real t\<bar>)"
proof -
  let ?n = "length p"
  have s: "sum_list p = 1" using assms(1) by (simp add: row_ok_def)
  have trm: "\<bar>cumsum p ! k - (if t \<le> k then 1 else 0)\<bar> =
      (\<Sum>j < ?n. p ! j * (if j \<le> k \<and> k < t \<or> t \<le> k \<and> k < j then 1 else 0))" if k: "k < ?n" for k
  proof (cases "t \<le> k")
    case True
    then show ?thesis
      using row_ok_cdf(2) [OF assms(1) k] cumsum_split(2) [OF s k] by (auto intro!: sum.cong)
  next
    case False
    then show ?thesis
      using row_ok_cdf(1) [OF assms(1) k] cumsum_split(1) [OF s k] by (auto intro!: sum.cong)
  qed
  have count: "(\<Sum>k < ?n. if j \<le> k \<and> k < t \<or> t \<le> k \<and> k < j then 1 else 0 :: real) = \<bar>real j - real t\<bar>" if j: "j < ?n" for j
  proof -
    have "(\<Sum>k < ?n. if j \<le> k \<and> k < t \<or> t \<le> k \<and> k < j then 1 else 0 :: real) =
        (\<Sum>k \<in> {..<?n} \<inter> {k. j \<le> k \<and> k < t \<or> t \<le> k \<and> k < j}. 1)"
      by (subst sum.inter_restrict) simp_all
    also have "\<dots> = real (card ({..<?n} \<inter> {k. j \<le> k \<and> k < t \<or> t \<le> k \<and> k < j}))"
      by simp
    also have "{..<?n} \<inter> {k. j \<le> k \<and> k < t \<or> t \<le> k \<and> k < j} = {j..<t} \<union> {t..<j}"
      using j assms(2) by auto
    also have "real (card ({j..<t} \<union> {t..<j})) = \<bar>real j - real t\<bar>"
      by (cases "j \<le> t") auto
    finally show ?thesis .
  qed
  have "emd_row p t = (\<Sum>k < ?n. \<bar>cumsum p ! k - (if t \<le> k then 1 else 0)\<bar>)"
    by (simp add: emd_row_def interv_sum_list_conv_sum_set_nat atLeast0LessThan)
  also have "\<dots> = (\<Sum>k < ?n. \<Sum>j < ?n. p ! j * (if j \<le> k \<and> k < t \<or> t \<le> k \<and> k < j then 1 else 0))"
    by (rule sum.cong) (simp_all add: trm)
  also have "\<dots> = (\<Sum>j < ?n. \<Sum>k < ?n. p ! j * (if j \<le> k \<and> k < t \<or> t \<le> k \<and> k < j then 1 else 0))"
    by (rule sum.swap)
  also have "\<dots> = (\<Sum>j < ?n. p ! j * \<bar>real j - real t\<bar>)"
    unfolding sum_distrib_left [symmetric] by (rule sum.cong) (simp_all add: count)
  finally show ?thesis .
qed

text \<open>
  The loss \<open>emd_loss\<close> is the mean over the rows of the expected distance, in bins, between a bin drawn
  from the predicted distribution and the true bin.
\<close>

theorem emd_is_expected_distance:
  assumes "list_all2 (\<lambda>l t. t < length l) logits targets"
  shows "emd_loss logits targets =
    mean (map2 (\<lambda>l t. \<Sum>j < length l. softmax l ! j * \<bar>real j - real t\<bar>) logits targets)"
proof -
  have "map2 (\<lambda>l t. emd_row (softmax l) t) logits targets =
      map2 (\<lambda>l t. \<Sum>j < length l. softmax l ! j * \<bar>real j - real t\<bar>) logits targets"
    using assms
  proof (induction logits targets rule: list_all2_induct)
    case (Cons l ls t ts)
    have "l \<noteq> []" using Cons.hyps(1) by auto
    then have "row_ok (softmax l)"
      using softmax_dist.probs_nonneg softmax_dist.probs_sum softmax_dist.probs_nonempty by (auto simp: row_ok_def)
    then show ?case using Cons emd_row_eq [of "softmax l" t] by simp
  qed simp
  then show ?thesis unfolding emd_loss_def by (rule arg_cong)
qed

theorem emd_is_expected_distance_witness:
  "emd_loss [[0, 0, 0]] [0] = mean [(\<Sum>j < 3. softmax [0, 0, 0] ! j * \<bar>real j - 0\<bar>)]"
  using emd_is_expected_distance [of "[[0, 0, 0]]" "[0]"] by (simp add: numeral_3_eq_3)

section \<open>Spreading variable bins over the integer prices\<close>

text \<open>
  \<open>remap_to_integer_probs\<close>: bin \<open>k\<close> covers \<open>[edges[k], edges[k + 1])\<close>, the cell of price \<open>j\<close> is
  \<open>[j - 0.5, j + 0.5)\<close>, the first one starts at 0. \<open>W[k, j]\<close> is the share of bin \<open>k\<close> in cell \<open>j\<close>.
\<close>

definition cell_lo :: "nat \<Rightarrow> real" where "cell_lo j = (if j = 0 then 0 else real j - 1/2)"
definition cell_hi :: "nat \<Rightarrow> real" where "cell_hi j = real j + 1/2"

definition overlap :: "real \<Rightarrow> real \<Rightarrow> nat \<Rightarrow> real" where
  "overlap lo hi j = max 0 (min hi (cell_hi j) - max lo (cell_lo j))"

definition transfer :: "nat \<Rightarrow> real \<Rightarrow> real \<Rightarrow> nat \<Rightarrow> real" where
  "transfer num_int_bins lo hi j =
     (if hi \<le> lo then 0
      else let bin_w = hi - lo;
               j0 = max 0 \<lfloor>lo\<rfloor>; j1 = min (int num_int_bins - 1) \<lceil>hi\<rceil>
           in if j0 \<le> int j \<and> int j \<le> j1 \<and> 0 < overlap lo hi j then overlap lo hi j / bin_w else 0)"

definition spread :: "nat \<Rightarrow> real list \<Rightarrow> real list \<Rightarrow> real list" where
  "spread num_int_bins edges probs =
     map (\<lambda>j. \<Sum>k < length probs. probs ! k * transfer num_int_bins (edges ! k) (edges ! Suc k) j) [0..<num_int_bins]"

definition remap_to_integer_probs :: "real list list \<Rightarrow> real list \<Rightarrow> nat \<Rightarrow> real list list" where
  "remap_to_integer_probs probs edges num_int_bins =
     map (\<lambda>p. let ip = spread num_int_bins edges p; s = max (1 / 10 ^ 30) (sum_list ip) in map (\<lambda>x. x / s) ip) probs"

text \<open>The range of cells the loop visits leaves no overlap out.\<close>

lemma transfer_eq:
  assumes "j < nb" and "0 \<le> lo"
  shows "transfer nb lo hi j = (if hi \<le> lo then 0 else overlap lo hi j / (hi - lo))"
proof (cases "hi \<le> lo \<or> overlap lo hi j \<le> 0")
  case True
  moreover have "0 \<le> overlap lo hi j" by (simp add: overlap_def)
  ultimately show ?thesis by (auto simp: transfer_def)
next
  case False
  then have o: "0 < min hi (cell_hi j) - max lo (cell_lo j)" by (auto simp: overlap_def)
  have "\<lfloor>lo\<rfloor> \<le> int j" using o unfolding cell_hi_def by linarith
  moreover have "int j \<le> \<lceil>hi\<rceil>"
    using o False assms(2) unfolding cell_lo_def by (cases "j = 0") (simp_all, linarith+)
  ultimately show ?thesis using False assms by (simp add: transfer_def Let_def)
qed

lemma overlap_sum:
  assumes "0 \<le> lo"
  shows "(\<Sum>i \<le> j. overlap lo hi i) = max 0 (min hi (cell_hi j) - lo)"
proof (induction j)
  case 0
  then show ?case using assms by (simp add: overlap_def cell_lo_def)
next
  case (Suc j)
  have "cell_lo (Suc j) = cell_hi j" "cell_hi j \<le> cell_hi (Suc j)" by (simp_all add: cell_lo_def cell_hi_def)
  then show ?case using Suc by (auto simp: overlap_def max_def min_def)
qed

text \<open>The piecewise linear distribution function of bins with edges.\<close>

definition edge_cdf :: "real list \<Rightarrow> real list \<Rightarrow> real \<Rightarrow> real" where
  "edge_cdf edges p x = (\<Sum>k < length p. p ! k * clamp 0 1 ((x - edges ! k) / (edges ! Suc k - edges ! k)))"

lemma overlap_share:
  assumes "lo < (hi :: real)"
  shows "max 0 (min hi x - lo) / (hi - lo) = clamp 0 1 ((x - lo) / (hi - lo))"
proof -
  consider "x \<le> lo" | "lo < x" "x \<le> hi" | "hi < x" by linarith
  then show ?thesis
  proof cases
    case 1
    then have "(x - lo) / (hi - lo) \<le> 0" using assms by (simp add: divide_nonpos_pos)
    then show ?thesis using 1 assms by (simp add: clamp_def max_def min_def)
  next
    case 2
    define y where "y = (x - lo) / (hi - lo)"
    have "0 < y" "y \<le> 1" using 2 assms by (simp_all add: y_def divide_le_eq)
    then have "clamp 0 1 y = y" by (simp add: clamp_id)
    then show ?thesis using 2 by (simp add: y_def max_def min_def)
  next
    case 3
    define y where "y = (x - lo) / (hi - lo)"
    have "1 \<le> y" using 3 assms by (simp add: y_def le_divide_eq)
    then have "clamp 0 1 y = 1" by (simp add: clamp_def)
    then show ?thesis using 3 assms by (simp add: y_def max_def min_def)
  qed
qed

lemma share_full: "a < b \<Longrightarrow> b \<le> x \<Longrightarrow> clamp 0 1 ((x - a) / (b - a)) = (1 :: real)"
  using overlap_share [of a b x] by (simp add: max_def min_def split: if_splits)

lemma spread_cdf:
  assumes "edges_ok (length p) e" and "j < nb"
  shows "cumsum (spread nb e p) ! j = edge_cdf e p (cell_hi j)"
proof -
  have e: "0 \<le> e ! k" "e ! k < e ! Suc k" if "k < length p" for k
    using assms(1) that sorted_nth_mono [OF edges_sorted [OF assms(1)], of 0 k] by (auto simp: edges_ok_def)
  have "cumsum (spread nb e p) ! j = (\<Sum>i < Suc j. spread nb e p ! i)"
    using assms(2) by (simp add: nth_cumsum sum_list_map_nth spread_def)
  also have "\<dots> = (\<Sum>i \<le> j. \<Sum>k < length p. p ! k * transfer nb (e ! k) (e ! Suc k) i)"
    using assms(2) by (simp add: spread_def lessThan_Suc_atMost)
  also have "\<dots> = (\<Sum>k < length p. \<Sum>i \<le> j. p ! k * transfer nb (e ! k) (e ! Suc k) i)"
    by (rule sum.swap)
  also have "\<dots> = edge_cdf e p (cell_hi j)"
    unfolding edge_cdf_def
  proof (rule sum.cong)
    fix k assume "k \<in> {..<length p}"
    then have k: "k < length p" by simp
    have "(\<Sum>i \<le> j. p ! k * transfer nb (e ! k) (e ! Suc k) i) = (\<Sum>i \<le> j. p ! k * (overlap (e ! k) (e ! Suc k) i / (e ! Suc k - e ! k)))"
      using assms(2) e [OF k] by (intro sum.cong) (auto simp: transfer_eq)
    also have "\<dots> = p ! k * ((\<Sum>i \<le> j. overlap (e ! k) (e ! Suc k) i) / (e ! Suc k - e ! k))"
      by (simp add: sum_distrib_left sum_divide_distrib)
    also have "\<dots> = p ! k * clamp 0 1 ((cell_hi j - e ! k) / (e ! Suc k - e ! k))"
      using overlap_sum [OF e(1) [OF k]] overlap_share [OF e(2) [OF k]] by simp
    finally show "(\<Sum>i \<le> j. p ! k * transfer nb (e ! k) (e ! Suc k) i) =
        p ! k * clamp 0 1 ((cell_hi j - e ! k) / (e ! Suc k - e ! k))" .
  qed simp
  finally show ?thesis .
qed

lemma transfer_nonneg: "0 \<le> transfer nb lo hi j"
  by (simp add: transfer_def Let_def)

lemma spread_ok:
  assumes "edges_ok K e" and "0 < K" and "0 < nb" and "e ! K \<le> real nb - 1/2" and ok: "row_ok p" "length p = K"
  shows "row_ok (spread nb e p) \<and> sum_list (spread nb e p) = 1 \<and>
    (\<forall>j < nb. cumsum (spread nb e p) ! j = edge_cdf e p (real j + 1/2))"
proof -
  have len: "length (spread nb e p) = nb" by (simp add: spread_def)
  note cdf = spread_cdf [of p e _ nb, unfolded ok(2), OF assms(1)]
  have le: "e ! Suc k \<le> e ! K" if "k < K" for k
    using sorted_nth_mono [OF edges_sorted [OF assms(1)], of "Suc k" K] that assms(1) by (simp add: edges_ok_def)
  have full: "clamp 0 1 ((cell_hi (nb - 1) - e ! k) / (e ! Suc k - e ! k)) = 1" if "k < K" for k
  proof -
    have "e ! k < e ! Suc k" using assms(1) that by (simp add: edges_ok_def)
    moreover have "e ! Suc k \<le> cell_hi (nb - 1)"
      using le [OF that] assms(3,4) by (simp add: cell_hi_def of_nat_diff)
    ultimately show ?thesis by (rule share_full)
  qed
  have "cumsum (spread nb e p) ! (nb - 1) = edge_cdf e p (cell_hi (nb - 1))"
    using cdf [of "nb - 1"] assms(3) by simp
  also have "\<dots> = (\<Sum>k < K. p ! k)" using full by (simp add: edge_cdf_def ok(2))
  also have "\<dots> = 1" using ok by (simp add: row_ok_def sum_list_map_nth)
  finally have s: "sum_list (spread nb e p) = 1" using assms(3) len by (simp add: nth_cumsum)
  have "0 \<le> x" if "x \<in> set (spread nb e p)" for x
    using that ok(1) by (auto simp: spread_def row_ok_def intro!: sum_nonneg mult_nonneg_nonneg transfer_nonneg)
  then have "row_ok (spread nb e p)" using s len assms(3) by (auto simp: row_ok_def)
  then show ?thesis using s cdf by (simp add: cell_hi_def)
qed

lemma remap_rows:
  assumes "edges_ok K e" and "0 < K" and "0 < nb" and "e ! K \<le> real nb - 1/2"
    and "list_all (\<lambda>p. row_ok p \<and> length p = K) probs"
  shows "remap_to_integer_probs probs e nb = map (spread nb e) probs"
proof -
  have one: "max (1 / 10 ^ 30) (1 :: real) = 1" by (rule max_absorb2) (simp add: divide_le_eq)
  have "sum_list (spread nb e p) = 1" if "p \<in> set probs" for p
    using spread_ok [OF assms(1-4)] that assms(5) by (simp add: list_all_iff)
  then show ?thesis
    unfolding remap_to_integer_probs_def Let_def by (intro map_cong) (use one in simp_all)
qed

text \<open>
  C33: Remapping to integer prices keeps the distribution when its last edge is within the last cell: the
  result is a distribution over the prices, no mass is rescaled, and up to the upper end of each
  cell it holds the mass that the piecewise linear distribution function of the bins has there.
\<close>

theorem remap_keeps_distribution:
  assumes "edges_ok K e" and "0 < K" and "0 < nb" and "e ! K \<le> real nb - 1/2"
    and "list_all (\<lambda>p. row_ok p \<and> length p = K) probs"
  shows "remap_to_integer_probs probs e nb = map (spread nb e) probs \<and>
    list_all (\<lambda>p. row_ok (spread nb e p) \<and>
      (\<forall>j < nb. cumsum (spread nb e p) ! j = edge_cdf e p (real j + 1/2))) probs"
  using remap_rows [OF assms] spread_ok [OF assms(1-4)] assms(5) by (simp add: list_all_iff)

theorem remap_keeps_distribution_witness:
  "remap_to_integer_probs [[1/2, 1/2]] [0, 1, 3] 4 = [spread 4 [0, 1, 3] [1/2, 1/2]] \<and>
    row_ok (spread 4 [0, 1, 3] [1/2, 1/2]) \<and> cumsum (spread 4 [0, 1, 3] [1/2, 1/2]) ! 2 = edge_cdf [0, 1, 3] [1/2, 1/2] (5 / 2)"
  using remap_keeps_distribution [of 2 "[0, 1, 3]" 4 "[[1/2, 1/2]]"]
  by (auto simp: edges_ok_def less_2_cases_iff row_ok_def)

section \<open>Properties of the binned predictions\<close>

lemma mdn_bins_row_ok: "0 < nb \<Longrightarrow> row_ok (mdn_bins_row erf nb r)"
  using mdn_bins.probs_nonneg [of "(nb, r)" _ erf] mdn_bins.probs_sum [of "(nb, r)" erf] mdn_bins.probs_nonempty [of "(nb, r)" erf]
  by (simp add: row_ok_def)

lemma quantile_bins_row_ok: "0 < nb \<Longrightarrow> row_ok (quantile_bins_row al nb q)"
  using quantile_bins.probs_nonneg [of "(al, nb, q)"] quantile_bins.probs_sum [of "(al, nb, q)"] quantile_bins.probs_nonempty [of "(al, nb, q)"]
  by (simp add: row_ok_def)

text \<open>
  The binned prediction of a mixture and of a quantile curve is a distribution over the bins, whatever
  the prediction. For a proper mixture, the mass up to bin \<open>j\<close> before normalising is the mixture's
  distribution function at \<open>log (j + 0.5)\<close>, but for the mass below the first bin and at most
  \<open>1e-10\<close> per bin.
\<close>

theorem binned_predictions:
  assumes "0 < nb" and "erf_like erf" and "mdn_wf r"
  shows "row_ok (mdn_bins_row erf nb r) \<and> length (mdn_bins_row erf nb r) = nb \<and>
    row_ok (quantile_bins_row alphas nb q) \<and> length (quantile_bins_row alphas nb q) = nb \<and>
    mdn_bins_row erf nb r = normalise (mdn_raw erf nb r) \<and>
    (\<forall>j < nb. \<bar>cumsum (mdn_raw erf nb r) ! j - (mdn_cdf_row erf r (ln (real j + 1/2)) - mdn_cdf_row erf r (- (10 ^ 9)))\<bar>
      \<le> real (Suc j) / 10 ^ 10)"
proof (intro conjI allI impI)
  show "row_ok (mdn_bins_row erf nb r)" "row_ok (quantile_bins_row alphas nb q)"
    using assms(1) by (simp_all add: mdn_bins_row_ok quantile_bins_row_ok)
  show "mdn_bins_row erf nb r = normalise (mdn_raw erf nb r)" by (simp only: mdn_bins_row_def mdn_raw_def)
  fix j assume j: "j < nb"
  have "log_upper j = ln (real j + 1/2)" by (simp add: log_upper_def max_def)
  moreover have "log_lower 0 = - (10 ^ 9)" by (simp add: log_lower_def)
  ultimately show "\<bar>cumsum (mdn_raw erf nb r) ! j - (mdn_cdf_row erf r (ln (real j + 1/2)) - mdn_cdf_row erf r (- (10 ^ 9)))\<bar>
      \<le> real (Suc j) / 10 ^ 10"
    using mdn_raw_sums [OF assms(2,3) j] unfolding Let_def abs_le_iff by (simp only:) linarith
qed simp_all

theorem binned_predictions_witness:
  "row_ok (mdn_bins_row erf_demo 4 mdn_demo) \<and> row_ok (quantile_bins_row [1/2] 4 [2]) \<and>
    \<bar>cumsum (mdn_raw erf_demo 4 mdn_demo) ! 1 -
      (mdn_cdf_row erf_demo mdn_demo (ln (3 / 2)) - mdn_cdf_row erf_demo mdn_demo (- (10 ^ 9)))\<bar> \<le> 2 / 10 ^ 10"
proof -
  have "(0 :: nat) < 4" by simp
  note t = binned_predictions [OF this erf_demo_like mdn_demo_wf, of "[1/2]" "[2]"]
  have j: "(1 :: nat) < 4" by simp
  have "real 1 + 1/2 = 3/2" "real (Suc 1) = 2" by simp_all
  then show ?thesis using t j by metis
qed

end
