(* ===== verification/Budget.thy ===== *)
theory Budget
  imports Binning "HOL-Library.Sublist"
begin

text \<open>
  The budget experiments: \<open>experiments/budget_eval.py\<close> (one model), \<open>budget_ensemble.py\<close> (a weighted
  mean of models) and \<open>budget_naive.py\<close> (a constant bid). The bid of every auction is chosen first,
  then the auctions are played in order against a budget. Prediction files are already read: the
  distributions, quantiles or mixtures they hold, one row per auction.
\<close>

section \<open>Playing the auctions\<close>

text \<open>One auction: the bid, the clearing price, the value, and whether a click follows a win.\<close>

record auction =
  au_bid :: real
  au_pp :: real
  au_V :: real
  au_click :: bool

record sim =
  s_won :: nat
  s_spent :: real
  s_profit :: real
  s_clicks :: nat

definition sim0 :: sim where
  "sim0 = \<lparr>s_won = 0, s_spent = 0, s_profit = 0, s_clicks = 0\<rparr>"

definition win :: "auction \<Rightarrow> sim \<Rightarrow> sim" where
  "win a s = \<lparr>s_won = s_won s + 1, s_spent = s_spent s + au_bid a, s_profit = s_profit s + (au_V a - au_bid a),
     s_clicks = (if au_click a then s_clicks s + 1 else s_clicks s)\<rparr>"

fun simulate_loop :: "real \<Rightarrow> auction list \<Rightarrow> sim \<Rightarrow> sim" where
  "simulate_loop total_budget [] s = s"
| "simulate_loop total_budget (a # as) s =
     (if au_bid a \<le> 0 then simulate_loop total_budget as s
      else if total_budget < s_spent s + au_bid a then simulate_loop total_budget as s
      else if au_pp a \<le> au_bid a then simulate_loop total_budget as (win a s)
      else simulate_loop total_budget as s)"

text \<open>The arrays of a run; clicks are optional. Arrays shorter than the bids are an \<open>IndexError\<close>.\<close>

definition auctions :: "real list \<Rightarrow> real list \<Rightarrow> int list option \<Rightarrow> real list \<Rightarrow> auction list" where
  "auctions bids payprices click V_arr =
     map (\<lambda>i. \<lparr>au_bid = bids ! i, au_pp = payprices ! i, au_V = V_arr ! i,
               au_click = (case click of None \<Rightarrow> False | Some c \<Rightarrow> 0 < c ! i)\<rparr>) [0..<length bids]"

record sim_result =
  m_sim :: sim
  m_mean_cost :: real

definition simulate :: "real list \<Rightarrow> real list \<Rightarrow> int list option \<Rightarrow> real list \<Rightarrow> real \<Rightarrow> sim_result res" where
  "simulate bids payprices click V_arr total_budget =
     (if length payprices < length bids \<or> length V_arr < length bids \<or>
         (case click of None \<Rightarrow> False | Some c \<Rightarrow> length c < length bids) then Inl IndexError
      else let s = simulate_loop total_budget (auctions bids payprices click V_arr) sim0
           in Inr \<lparr>m_sim = s, m_mean_cost = s_spent s / real (max 1 (s_won s))\<rparr>)"

text \<open>The constant bid: the loop of \<open>budget_naive\<close> ends at the first auction it cannot afford.\<close>

fun naive_loop :: "real \<Rightarrow> real \<Rightarrow> (real \<times> real \<times> bool) list \<Rightarrow> sim \<Rightarrow> sim" where
  "naive_loop b budget [] s = s"
| "naive_loop b budget ((pp, V, click) # rest) s =
     (if budget < s_spent s + b then s
      else if pp \<le> b then naive_loop b budget rest (win \<lparr>au_bid = b, au_pp = pp, au_V = V, au_click = click\<rparr> s)
      else naive_loop b budget rest s)"

section \<open>The bids\<close>

definition grid_optimize_from_probs :: "real list list \<Rightarrow> real list \<Rightarrow> nat \<Rightarrow> real list" where
  "grid_optimize_from_probs probs_chunk V_chunk num_bins =
     map2 (\<lambda>p v. fst (grid_row (arange num_bins) (cumsum p) v)) probs_chunk V_chunk"

datatype pred_file = PQuantiles "real list" "real list list" | PBins "real list list" | PMdn "mdn_row list"

text \<open>A bins file of another width is cut or padded with zeros, and normalised; the expected width is kept as it is.\<close>

definition fix_width :: "nat \<Rightarrow> real list \<Rightarrow> real list" where
  "fix_width num_bins p =
     (if length p = num_bins then p
      else normalise (if num_bins < length p then take num_bins p else p @ replicate (num_bins - length p) 0))"

fun load_probs :: "(real \<Rightarrow> real) \<Rightarrow> nat \<Rightarrow> pred_file \<Rightarrow> real list list" where
  "load_probs erf num_bins (PQuantiles alphas quants) = map (quantile_bins_row alphas num_bins) quants"
| "load_probs erf num_bins (PBins probs) = map (fix_width num_bins) probs"
| "load_probs erf num_bins (PMdn rows) = map (mdn_bins_row erf num_bins) rows"

definition fractions :: "real list" where
  "fractions = [1/32, 1/8, 1/2, 1]"

definition budget_table :: "real list \<Rightarrow> real list \<Rightarrow> int list option \<Rightarrow> real list \<Rightarrow> (real \<times> real \<times> sim_result) list res" where
  "budget_table bids pp click V_arr =
     res_map (\<lambda>frac. let budget = frac * sum_list pp in
       res_bind (simulate bids pp click V_arr budget) (\<lambda>m. Inr (frac, budget, m))) fractions"

record budget_report =
  br_bid_count :: nat
  br_total_cost :: real
  br_budgets :: "(real \<times> real \<times> sim_result) list"

text \<open>\<open>main\<close> of \<open>budget_eval\<close> on a loaded file: bids in chunks of 50000 rows, then the four budgets.\<close>

definition main_budget_eval ::
  "(real \<Rightarrow> real) \<Rightarrow> nat \<Rightarrow> pred_file \<Rightarrow> real list \<Rightarrow> real list \<Rightarrow> int list option \<Rightarrow> bool \<Rightarrow> real \<Rightarrow> budget_report res" where
  "main_budget_eval erf num_bins file pp bid click use_bidding_V V =
     (let V_arr = (if use_bidding_V then bid else replicate (length pp) V);
          probs = load_probs erf num_bins file
      in res_bind (chunked (\<lambda>rows. grid_optimize_from_probs (map fst rows) (map snd rows) num_bins) 50000 (zip probs V_arr)) (\<lambda>bids.
         res_bind (budget_table bids pp click V_arr) (\<lambda>budgets.
           Inr \<lparr>br_bid_count = length (filter (\<lambda>b. 0 < b) bids), br_total_cost = sum_list pp, br_budgets = budgets\<rparr>)))"

text \<open>\<open>main\<close> of \<open>budget_naive\<close>: the mean training price, cut at \<open>V\<close>, as the bid of every auction.\<close>

definition naive_bid :: "real list \<Rightarrow> real \<Rightarrow> real" where
  "naive_bid train_pp V = (if V < mean train_pp then V else mean train_pp)"

definition main_budget_naive :: "real list \<Rightarrow> real list \<Rightarrow> int list option \<Rightarrow> real \<Rightarrow> (real \<times> real \<times> sim_result) list" where
  "main_budget_naive train_pp pp click V =
     (let b = naive_bid train_pp V;
          rows = map (\<lambda>i. (pp ! i, V, (case click of None \<Rightarrow> False | Some c \<Rightarrow> 0 < c ! i))) [0..<length pp]
      in map (\<lambda>frac. let budget = frac * sum_list pp; s = naive_loop b budget rows sim0
           in (frac, budget, \<lparr>m_sim = s, m_mean_cost = s_spent s / real (max 1 (s_won s))\<rparr>)) fractions)"

section \<open>The budget is kept\<close>

text \<open>The auctions the simulation wins, in order.\<close>

fun wins :: "real \<Rightarrow> auction list \<Rightarrow> real \<Rightarrow> auction list" where
  "wins budget [] spent = []"
| "wins budget (a # as) spent =
     (if 0 < au_bid a \<and> spent + au_bid a \<le> budget \<and> au_pp a \<le> au_bid a
      then a # wins budget as (spent + au_bid a) else wins budget as spent)"

lemma simulate_loop_wins:
  "simulate_loop budget as s =
     \<lparr>s_won = s_won s + length (wins budget as (s_spent s)),
      s_spent = s_spent s + sum_list (map au_bid (wins budget as (s_spent s))),
      s_profit = s_profit s + sum_list (map (\<lambda>a. au_V a - au_bid a) (wins budget as (s_spent s))),
      s_clicks = s_clicks s + length (filter au_click (wins budget as (s_spent s)))\<rparr>"
  by (induction as arbitrary: s) (auto simp: win_def not_le)

lemma wins_subseq: "subseq (wins budget as spent) as"
  by (induction as arbitrary: spent) auto

lemma wins_set: "set (wins budget as spent) \<subseteq> set as"
  by (induction as arbitrary: spent) auto

lemma wins_affordable: "spent \<le> budget \<Longrightarrow> spent + sum_list (map au_bid (wins budget as spent)) \<le> budget"
proof (induction as arbitrary: spent)
  case (Cons a as)
  show ?case using Cons.IH [of "spent + au_bid a"] Cons.IH [of spent] Cons.prems by (auto simp: add.assoc)
qed simp

lemma wins_won: "a \<in> set (wins budget as spent) \<Longrightarrow> 0 < au_bid a \<and> au_pp a \<le> au_bid a"
  by (induction as arbitrary: spent) (auto split: if_splits)

lemma simulate_ok:
  assumes "length bids \<le> length pp" and "length bids \<le> length V" and "\<forall>c. click = Some c \<longrightarrow> length bids \<le> length c"
  shows "simulate bids pp click V budget =
    (let s = simulate_loop budget (auctions bids pp click V) sim0
     in Inr \<lparr>m_sim = s, m_mean_cost = s_spent s / real (max 1 (s_won s))\<rparr>)"
  using assms by (auto simp: simulate_def Let_def split: option.splits)

text \<open>
  C27: A simulation within a nonnegative budget never spends more than the budget. What it reports are the
  counts and sums over a subsequence of the auctions: all of them were bid on with a positive bid that
  reaches the clearing price, and each was affordable after the ones before it; the mean cost is
  their mean bid.
\<close>

theorem simulate_keeps_budget:
  assumes "length bids \<le> length pp" and "length bids \<le> length V" and "\<forall>c. click = Some c \<longrightarrow> length bids \<le> length c"
    and "0 \<le> budget"
  shows "\<exists>m ws. simulate bids pp click V budget = Inr m \<and> subseq ws (auctions bids pp click V) \<and>
    list_all (\<lambda>a. 0 < au_bid a \<and> au_pp a \<le> au_bid a) ws \<and>
    m_sim m = \<lparr>s_won = length ws, s_spent = sum_list (map au_bid ws),
               s_profit = sum_list (map (\<lambda>a. au_V a - au_bid a) ws), s_clicks = length (filter au_click ws)\<rparr> \<and>
    s_spent (m_sim m) \<le> budget \<and> m_mean_cost m * real (length ws) = sum_list (map au_bid ws)"
proof -
  let ?ws = "wins budget (auctions bids pp click V) 0"
  have "list_all (\<lambda>a. 0 < au_bid a \<and> au_pp a \<le> au_bid a) ?ws"
    using wins_won by (auto simp: list_all_iff)
  moreover have "sum_list (map au_bid ?ws) \<le> budget"
    using wins_affordable [OF assms(4), of "auctions bids pp click V"] by simp
  moreover have "sum_list (map au_bid ?ws) / real (max 1 (length ?ws)) * real (length ?ws) = sum_list (map au_bid ?ws)"
    by (cases ?ws) (simp_all add: max_def)
  ultimately show ?thesis
    unfolding simulate_ok [OF assms(1-3)] Let_def simulate_loop_wins sim0_def
    using wins_subseq [of budget "auctions bids pp click V" 0]
    by (intro exI [of _ ?ws] exI conjI) (rule refl, simp_all)
qed

theorem simulate_keeps_budget_witness:
  "\<exists>m ws. simulate [60, 50, 40] [55, 10, 30] None [150, 150, 150] 100 = Inr m \<and> s_spent (m_sim m) \<le> 100 \<and>
    s_won (m_sim m) = length ws \<and> subseq ws (auctions [60, 50, 40] [55, 10, 30] None [150, 150, 150])"
  using simulate_keeps_budget [of "[60, 50, 40]" "[55, 10, 30]" "[150, 150, 150]" None 100] by force

section \<open>The constant bid\<close>

definition constant_bid :: "real \<Rightarrow> (real \<times> real \<times> bool) list \<Rightarrow> auction list" where
  "constant_bid b rows = map (\<lambda>(pp, V, click). \<lparr>au_bid = b, au_pp = pp, au_V = V, au_click = click\<rparr>) rows"

lemma simulate_broke: "budget < s_spent s + b \<Longrightarrow> simulate_loop budget (constant_bid b rows) s = s"
  by (induction rows) (auto simp: constant_bid_def)

lemma naive_loop_eq: "0 < b \<Longrightarrow> naive_loop b budget rows s = simulate_loop budget (constant_bid b rows) s"
proof (induction rows arbitrary: s)
  case (Cons r rows)
  obtain pp V c where r: "r = (pp, V, c)" by (cases r)
  show ?case
  proof (cases "budget < s_spent s + b")
    case True
    then show ?thesis using simulate_broke [of budget s b "r # rows"] by (simp add: r)
  next
    case False
    then show ?thesis using Cons by (simp add: r constant_bid_def)
  qed
qed (simp add: constant_bid_def)

text \<open>
  For a positive mean price the naive baseline, which stops at the first auction it cannot afford, is the
  simulation of \<open>budget_eval\<close>, which skips it and goes on, with the constant bid for every auction.
\<close>

theorem naive_is_simulation:
  assumes "0 < naive_bid train_pp V" and "\<forall>c. click = Some c \<longrightarrow> length pp \<le> length c"
  shows "budget_table (replicate (length pp) (naive_bid train_pp V)) pp click (replicate (length pp) V) =
    Inr (main_budget_naive train_pp pp click V)"
proof -
  let ?b = "naive_bid train_pp V"
  let ?rows = "map (\<lambda>i. (pp ! i, V, (case click of None \<Rightarrow> False | Some c \<Rightarrow> 0 < c ! i))) [0..<length pp]"
  have a: "auctions (replicate (length pp) ?b) pp click (replicate (length pp) V) = constant_bid ?b ?rows"
    by (simp add: auctions_def constant_bid_def)
  have "simulate (replicate (length pp) ?b) pp click (replicate (length pp) V) budget =
      (let s = naive_loop ?b budget ?rows sim0 in Inr \<lparr>m_sim = s, m_mean_cost = s_spent s / real (max 1 (s_won s))\<rparr>)" for budget
    using assms by (subst simulate_ok) (simp_all add: a naive_loop_eq Let_def)
  then show ?thesis
    by (simp add: budget_table_def main_budget_naive_def fractions_def Let_def)
qed

theorem naive_is_simulation_witness:
  "budget_table (replicate 3 50) [55, 10, 30] None (replicate 3 150) = Inr (main_budget_naive [40, 60] [55, 10, 30] None 150)"
  using naive_is_simulation [of "[40, 60]" 150 None "[55, 10, 30]"] by (simp add: naive_bid_def mean_def numeral_3_eq_3)

section \<open>The report\<close>

definition file_ok :: "nat \<Rightarrow> nat \<Rightarrow> pred_file \<Rightarrow> bool" where
  "file_ok nb n file =
     (case file of
        PQuantiles alphas quants \<Rightarrow> length quants = n
      | PBins probs \<Rightarrow> length probs = n \<and> (\<forall>p \<in> set probs. (\<forall>x \<in> set p. 0 \<le> x) \<and> 0 < sum_list (take nb p))
      | PMdn rows \<Rightarrow> length rows = n)"

lemma fix_width_ok:
  assumes "\<forall>x \<in> set p. 0 \<le> x" and "0 < sum_list (take nb p)"
  shows "length (fix_width nb p) = nb \<and> (\<forall>x \<in> set (fix_width nb p). 0 \<le> x)"
proof -
  let ?q = "if nb < length p then take nb p else p @ replicate (nb - length p) 0"
  have "\<forall>x \<in> set ?q. 0 \<le> x" using assms(1) by (auto dest: in_set_takeD)
  moreover have "0 < sum_list ?q" using assms(2) by (cases "nb < length p") simp_all
  ultimately have "row_ok (normalise ?q)" by (rule normalise_ok)
  then show ?thesis using assms(1) by (auto simp: fix_width_def row_ok_def)
qed

lemma load_probs_ok:
  assumes "file_ok nb n file" and "0 < nb"
  shows "length (load_probs erf nb file) = n \<and>
    (\<forall>p \<in> set (load_probs erf nb file). length p = nb \<and> (\<forall>x \<in> set p. 0 \<le> x))"
proof (cases "file")
  case (PBins probs)
  then show ?thesis using assms(1) fix_width_ok by (auto simp: file_ok_def)
qed (use assms mdn_bins_row_ok quantile_bins_row_ok in \<open>auto simp: file_ok_def row_ok_def\<close>)

text \<open>A positive bid of the grid search does not exceed the value.\<close>

lemma grid_bid_le:
  assumes "length p = nb" and "\<forall>x \<in> set p. 0 \<le> x" and "0 < nb"
  shows "fst (grid_row (arange nb) (cumsum p) v) \<le> max 0 v"
proof -
  have ne: "arange nb \<noteq> []" and z: "arange nb ! 0 = 0" using assms(3) nth_arange [of 0 nb] by (auto simp: arange_def)
  have "\<forall>c \<in> set (cumsum p). 0 \<le> c" using assms(2) cumsum_nonneg [of p] by (auto simp: in_set_conv_nth)
  moreover obtain b q where g: "grid_row (arange nb) (cumsum p) v = (b, q)" by (cases "grid_row (arange nb) (cumsum p) v")
  ultimately have "b \<le> v \<or> b = arange nb ! 0 \<and> q = 0"
    by (intro grid_row_bid_le [OF _ _ ne g]) (simp_all add: assms(1))
  then show ?thesis using g z by auto
qed

lemma grid_chunks:
  "chunked (\<lambda>rows. grid_optimize_from_probs (map fst rows) (map snd rows) nb) 50000 rows =
    Inr (map (\<lambda>(p, v). fst (grid_row (arange nb) (cumsum p) v)) rows)"
proof -
  have "grid_optimize_from_probs (map fst rows) (map snd rows) nb = map (\<lambda>(p, v). fst (grid_row (arange nb) (cumsum p) v)) rows" for rows
    by (simp add: grid_optimize_from_probs_def map2_pairs)
  then show ?thesis using grid_bins_rows.chunked_eq [of 50000 nb rows] by simp
qed

text \<open>
  What a table of budgets over bids that do not exceed their values looks like; the report of both
  evaluations rests on it.
\<close>

lemma won_margin:
  assumes "a \<in> set (wins budget (auctions bids pp click Vs) 0)" and "\<forall>i < length bids. bids ! i \<le> max 0 (Vs ! i)"
  shows "0 \<le> au_V a - au_bid a"
proof -
  have "a \<in> set (auctions bids pp click Vs)" using assms(1) wins_set by blast
  then obtain i where "i < length bids" "au_bid a = bids ! i" "au_V a = Vs ! i" by (auto simp: auctions_def)
  then show ?thesis using assms(2) wins_won [OF assms(1)] by (auto simp: max_def split: if_splits)
qed

lemma wins_bid_count: "length (wins budget (auctions bids pp click Vs) 0) \<le> length (filter (\<lambda>b. 0 < b) bids)"
proof -
  let ?as = "auctions bids pp click Vs"
  let ?ws = "wins budget ?as 0"
  have "subseq (filter (\<lambda>a. 0 < au_bid a) ?ws) (filter (\<lambda>a. 0 < au_bid a) ?as)"
    using wins_subseq by (rule subseq_filter)
  moreover have "filter (\<lambda>a. 0 < au_bid a) ?ws = ?ws" using wins_won by (auto simp: filter_id_conv)
  moreover have "length (filter (\<lambda>a. 0 < au_bid a) ?as) = length (filter (\<lambda>b. 0 < b) (map au_bid ?as))"
    by (simp add: filter_map comp_def)
  moreover have "map au_bid ?as = bids" by (simp add: auctions_def comp_def map_nth)
  ultimately show ?thesis using list_emb_length by fastforce
qed

lemma fixed_value_profit:
  assumes "\<forall>a \<in> set as. au_V a = V"
  shows "sum_list (map (\<lambda>a. au_V a - au_bid a) as) = V * real (length as) - sum_list (map au_bid as)"
  using assms by (induction as) (auto simp: algebra_simps)

definition table_ok :: "real list \<Rightarrow> real list \<Rightarrow> real list \<Rightarrow> real \<times> real \<times> sim_result \<Rightarrow> bool" where
  "table_ok bids pp Vs entry = (case entry of (q, budget, m) \<Rightarrow>
     budget = q * sum_list pp \<and> s_spent (m_sim m) \<le> budget \<and> 0 \<le> s_profit (m_sim m) \<and>
     s_won (m_sim m) \<le> length (filter (\<lambda>b. 0 < b) bids) \<and>
     (\<forall>V. set Vs \<subseteq> {V} \<longrightarrow> s_profit (m_sim m) = V * real (s_won (m_sim m)) - s_spent (m_sim m)))"

lemma simulate_table_ok:
  assumes "length bids = length pp" and "length Vs = length pp" and "\<forall>c. click = Some c \<longrightarrow> length c = length pp"
    and "\<forall>i < length bids. bids ! i \<le> max 0 (Vs ! i)" and "0 \<le> q * sum_list pp"
  shows "\<exists>m. simulate bids pp click Vs (q * sum_list pp) = Inr m \<and> table_ok bids pp Vs (q, q * sum_list pp, m)"
proof -
  let ?as = "auctions bids pp click Vs"
  let ?ws = "wins (q * sum_list pp) ?as 0"
  have "0 \<le> sum_list (map (\<lambda>a. au_V a - au_bid a) ?ws)"
    using won_margin [OF _ assms(4)] by (intro sum_list_nonneg) auto
  moreover have "sum_list (map (\<lambda>a. au_V a - au_bid a) ?ws) = V * real (length ?ws) - sum_list (map au_bid ?ws)"
    if "set Vs \<subseteq> {V}" for V
  proof (rule fixed_value_profit)
    have "Vs ! i = V" if "i < length bids" for i using that \<open>set Vs \<subseteq> {V}\<close> assms(1,2) by (metis nth_mem singletonD subsetD)
    then show "\<forall>a \<in> set ?ws. au_V a = V"
      using wins_set [of "q * sum_list pp" ?as 0] by (auto simp: auctions_def)
  qed
  ultimately show ?thesis
    using assms wins_affordable [OF assms(5), of ?as] wins_bid_count
    by (subst simulate_ok) (auto simp: table_ok_def Let_def simulate_loop_wins sim0_def)
qed

lemma budget_table_sound:
  assumes "length bids = length pp" and "length Vs = length pp" and "\<forall>c. click = Some c \<longrightarrow> length c = length pp"
    and "\<forall>i < length bids. bids ! i \<le> max 0 (Vs ! i)" and "list_all (\<lambda>x. 0 \<le> x) pp"
  shows "\<exists>budgets. budget_table bids pp click Vs = Inr budgets \<and> map fst budgets = fractions \<and> list_all (table_ok bids pp Vs) budgets"
proof -
  have "0 \<le> sum_list pp" using assms(5) by (intro sum_list_nonneg) (auto simp: list_all_iff)
  then have "0 \<le> q * sum_list pp" if "q \<in> set fractions" for q
    using that by (auto simp: fractions_def)
  then have "\<forall>q \<in> set fractions. \<exists>m. simulate bids pp click Vs (q * sum_list pp) = Inr m \<and>
      table_ok bids pp Vs (q, q * sum_list pp, m)"
    using simulate_table_ok [OF assms(1-4)] by blast
  then obtain f where f: "\<forall>q \<in> set fractions. simulate bids pp click Vs (q * sum_list pp) = Inr (f q) \<and>
      table_ok bids pp Vs (q, q * sum_list pp, f q)" by metis
  then have "budget_table bids pp click Vs = Inr (map (\<lambda>q. (q, q * sum_list pp, f q)) fractions)"
    unfolding budget_table_def by (intro res_map_total) (simp add: Let_def)
  then show ?thesis using f by (simp add: list_all_iff comp_def)
qed

lemma grid_bids_le:
  assumes "i < length rows" and "\<forall>(p, v) \<in> set rows. length p = nb \<and> (\<forall>x \<in> set p. 0 \<le> x)" and "0 < nb"
  shows "map (\<lambda>(p, v). fst (grid_row (arange nb) (cumsum p) v)) rows ! i \<le> max 0 (snd (rows ! i))"
proof -
  obtain p v where r: "rows ! i = (p, v)" by (cases "rows ! i")
  then have "(p, v) \<in> set rows" using assms(1) nth_mem by metis
  then have "fst (grid_row (arange nb) (cumsum p) v) \<le> max 0 v"
    using assms(2,3) by (intro grid_bid_le) auto
  then show ?thesis using assms(1) r by simp
qed

text \<open>
  On nonnegative prices the budget evaluation succeeds for every kind of prediction file. At each of the
  four fractions of the oracle cost the spend stays within the budget and the profit is nonnegative,
  since no bid above its value is ever placed; with a fixed value the profit is the value of the won
  auctions less the spend.
\<close>

theorem budget_eval_sound:
  assumes "file_ok nb (length pp) file" and "0 < nb" and "list_all (\<lambda>x. 0 \<le> x) pp" and "length bid = length pp"
    and "\<forall>c. click = Some c \<longrightarrow> length c = length pp"
  shows "\<exists>rep. main_budget_eval erf nb file pp bid click use_bid V = Inr rep \<and> map fst (br_budgets rep) = fractions \<and>
    list_all (\<lambda>(frac, budget, m). budget = frac * br_total_cost rep \<and>
      s_spent (m_sim m) \<le> budget \<and> 0 \<le> s_profit (m_sim m) \<and> s_won (m_sim m) \<le> br_bid_count rep \<and>
      (\<not> use_bid \<longrightarrow> s_profit (m_sim m) = V * real (s_won (m_sim m)) - s_spent (m_sim m))) (br_budgets rep)"
proof -
  define Vs where "Vs = (if use_bid then bid else replicate (length pp) V)"
  define rows where "rows = zip (load_probs erf nb file) Vs"
  define bids where "bids = map (\<lambda>(p, v). fst (grid_row (arange nb) (cumsum p) v)) rows"
  note load = load_probs_ok [OF assms(1,2), of erf]
  have len: "length Vs = length pp" "length bids = length pp"
    using load assms(4) by (simp_all add: Vs_def bids_def rows_def)
  have "\<forall>(p, v) \<in> set rows. length p = nb \<and> (\<forall>x \<in> set p. 0 \<le> x)"
    using load by (auto simp: rows_def dest: set_zip_leftD)
  then have le: "\<forall>i < length bids. bids ! i \<le> max 0 (Vs ! i)"
    using grid_bids_le [of _ rows nb] load len assms(2) by (simp add: bids_def rows_def)
  obtain budgets where b: "budget_table bids pp click Vs = Inr budgets" "map fst budgets = fractions"
    "list_all (table_ok bids pp Vs) budgets"
    using budget_table_sound [OF len(2,1) assms(5) le assms(3)] by blast
  have "main_budget_eval erf nb file pp bid click use_bid V =
      Inr \<lparr>br_bid_count = length (filter (\<lambda>b. 0 < b) bids), br_total_cost = sum_list pp, br_budgets = budgets\<rparr>"
    unfolding main_budget_eval_def Let_def Vs_def [symmetric] rows_def [symmetric] grid_chunks bids_def [symmetric]
    by (simp add: b(1))
  moreover have "\<not> use_bid \<Longrightarrow> set Vs \<subseteq> {V}" by (auto simp: Vs_def)
  ultimately show ?thesis
    using b(2,3) by (auto simp: table_ok_def elim!: list.pred_mono_strong)
qed

theorem budget_eval_sound_witness:
  "\<exists>rep. main_budget_eval erf_demo 4 (PMdn [mdn_demo, mdn_demo]) [1, 2] [3, 3] None False 3 = Inr rep \<and>
    (\<forall>(frac, budget, m) \<in> set (br_budgets rep). s_spent (m_sim m) \<le> budget \<and> 0 \<le> s_profit (m_sim m))"
  using budget_eval_sound [of 4 "[1, 2]" "PMdn [mdn_demo, mdn_demo]" "[3, 3]" None erf_demo False 3]
  by (fastforce simp: file_ok_def list_all_iff)

end
