(* ===== verification/Ensemble.thy ===== *)
theory Ensemble
  imports Budget Backtest Outcome
begin

text \<open>
  Weighted means of predictions: the streaming evaluation of \<open>experiments/ensemble.py\<close> and the budget
  evaluation of \<open>experiments/budget_ensemble.py\<close>. A member is the content of its prediction file, the
  metadata of the auctions are those of the first member; every file covers the same auctions, so
  NumPy's errors and broadcasts for arrays of other lengths are not modelled.
\<close>

section \<open>Members and their weights\<close>

datatype member = MMdn "mdn_row list" | MBins "real list list" | MLgbm "real list" "real list list"

fun member_slice :: "nat \<Rightarrow> nat \<Rightarrow> member \<Rightarrow> member" where
  "member_slice s e (MMdn rows) = MMdn (slice s e rows)"
| "member_slice s e (MBins probs) = MBins (slice s e probs)"
| "member_slice s e (MLgbm alphas quants) = MLgbm alphas (slice s e quants)"

definition cut_pad :: "nat \<Rightarrow> real list \<Rightarrow> real list" where
  "cut_pad num_bins p = (if num_bins \<le> length p then take num_bins p else p @ replicate (num_bins - length p) 0)"

text \<open>The chunk converters treat their rows one by one.\<close>

definition mdn_chunk_probs :: "(real \<Rightarrow> real) \<Rightarrow> nat \<Rightarrow> mdn_row list \<Rightarrow> real list list" where
  "mdn_chunk_probs erf num_bins rows = map (mdn_bins_row erf num_bins) rows"

definition quantile_chunk_probs :: "real list list \<Rightarrow> real list \<Rightarrow> nat \<Rightarrow> real list list" where
  "quantile_chunk_probs quants alphas num_bins = map (quantile_bins_row alphas num_bins) quants"

declare mdn_chunk_probs_def [simp] quantile_chunk_probs_def [simp]

fun member_probs :: "(real \<Rightarrow> real) \<Rightarrow> nat \<Rightarrow> member \<Rightarrow> real list list" where
  "member_probs erf num_bins (MMdn rows) = mdn_chunk_probs erf num_bins rows"
| "member_probs erf num_bins (MBins probs) = map (\<lambda>p. normalise (cut_pad num_bins p)) probs"
| "member_probs erf num_bins (MLgbm alphas quants) = quantile_chunk_probs quants alphas num_bins"

text \<open>Equal weights by default; given weights are divided by their sum.\<close>

definition ens_weights :: "real list option \<Rightarrow> nat \<Rightarrow> real list res" where
  "ens_weights weights M =
     (case weights of
        None \<Rightarrow> if M = 0 then Inl ZeroDivisionError else Inr (replicate M (1 / real M))
      | Some ws \<Rightarrow> if ws \<noteq> [] \<and> sum_list ws = 0 then Inl ZeroDivisionError
                   else Inr (map (\<lambda>w. w / sum_list ws) ws))"

definition scale_rows :: "real \<Rightarrow> real list list \<Rightarrow> real list list" where
  "scale_rows w p = map (map (\<lambda>x. w * x)) p"

definition add_rows :: "real list list \<Rightarrow> real list list \<Rightarrow> real list list" where
  "add_rows a b = map2 (map2 (+)) a b"

text \<open>The loop over the members: \<open>avg\<close> starts as \<open>None\<close>, a missing weight is an \<open>IndexError\<close>.\<close>

fun avg_loop :: "real list \<Rightarrow> real list list list \<Rightarrow> real list list option \<Rightarrow> real list list option res" where
  "avg_loop ws [] avg = Inr avg"
| "avg_loop [] (p # ps) avg = Inl IndexError"
| "avg_loop (w # ws) (p # ps) None = avg_loop ws ps (Some (scale_rows w p))"
| "avg_loop (w # ws) (p # ps) (Some a) = avg_loop ws ps (Some (add_rows a (scale_rows w p)))"

definition chunk_avg :: "(real \<Rightarrow> real) \<Rightarrow> nat \<Rightarrow> real list \<Rightarrow> member list \<Rightarrow> nat \<Rightarrow> nat \<Rightarrow> real list list res" where
  "chunk_avg erf num_bins ws members s e =
     res_bind (avg_loop ws (map (\<lambda>m. member_probs erf num_bins (member_slice s e m)) members) None) (\<lambda>avg.
       case avg of None \<Rightarrow> Inl AttributeError | Some a \<Rightarrow> Inr (map normalise a))"

section \<open>Streaming evaluation\<close>

record meta =
  me_pp :: real
  me_bid :: real
  me_adv :: string

text \<open>The scores of one auction under the averaged row \<open>p\<close>.\<close>

definition log_score :: "nat \<Rightarrow> real list \<Rightarrow> meta \<Rightarrow> real" where
  "log_score num_bins p m = ln (max (1 / 10 ^ 30) (p ! nat (price_label num_bins (me_pp m))))"

definition pit_score :: "nat \<Rightarrow> real list \<Rightarrow> meta \<Rightarrow> real" where
  "pit_score num_bins p m = cumsum p ! nat (price_label num_bins (me_pp m))"

definition regret_fixed :: "nat \<Rightarrow> real \<Rightarrow> real list \<Rightarrow> meta \<Rightarrow> real" where
  "regret_fixed num_bins V p m = regret1 (best_bid_row num_bins V p) (me_pp m) V"

definition regret_bidding :: "nat \<Rightarrow> real list \<Rightarrow> meta \<Rightarrow> real" where
  "regret_bidding num_bins p m = regret1 (best_bid_row num_bins (me_bid m) p) (me_pp m) (me_bid m)"

text \<open>
  The accumulators; those of the advertisers in the sorted order of \<open>advs_set\<close>. The sums of the perfect
  profits, which nothing reads, are left out.
\<close>

record ens_acc =
  ea_log_p :: real
  ea_pit :: "real list"
  ea_reg150 :: real
  ea_reg_v :: real
  ea_adv :: "(string \<times> real \<times> real \<times> nat) list"

definition ens_acc0 :: "string list \<Rightarrow> ens_acc" where
  "ens_acc0 advs = \<lparr>ea_log_p = 0, ea_pit = [], ea_reg150 = 0, ea_reg_v = 0,
     ea_adv = map (\<lambda>a. (a, 0, 0, 0)) (sorted_list_of_set (set advs))\<rparr>"

definition adv_add :: "string \<Rightarrow> real \<Rightarrow> real \<Rightarrow> (string \<times> real \<times> real \<times> nat) list \<Rightarrow> (string \<times> real \<times> real \<times> nat) list" where
  "adv_add a r v table = map (\<lambda>(b, x, y, n). if b = a then (b, x + r, y + v, n + 1) else (b, x, y, n)) table"

definition update_ens :: "nat \<Rightarrow> real \<Rightarrow> (real list \<times> meta) list \<Rightarrow> ens_acc \<Rightarrow> ens_acc" where
  "update_ens num_bins V rows acc =
     \<lparr>ea_log_p = ea_log_p acc + sum_list (map (\<lambda>(p, m). log_score num_bins p m) rows),
      ea_pit = ea_pit acc @ map (\<lambda>(p, m). pit_score num_bins p m) rows,
      ea_reg150 = ea_reg150 acc + sum_list (map (\<lambda>(p, m). regret_fixed num_bins V p m) rows),
      ea_reg_v = ea_reg_v acc + sum_list (map (\<lambda>(p, m). regret_bidding num_bins p m) rows),
      ea_adv = foldl (\<lambda>t (p, m). adv_add (me_adv m) (regret_fixed num_bins V p m) (regret_bidding num_bins p m) t) (ea_adv acc) rows\<rparr>"

fun ens_loop :: "(real \<Rightarrow> real) \<Rightarrow> nat \<Rightarrow> real \<Rightarrow> real list \<Rightarrow> member list \<Rightarrow> meta list \<Rightarrow> (nat \<times> nat) list \<Rightarrow> ens_acc \<Rightarrow> ens_acc res" where
  "ens_loop erf num_bins V ws members metas [] acc = Inr acc"
| "ens_loop erf num_bins V ws members metas ((s, e) # spans) acc =
     res_bind (chunk_avg erf num_bins ws members s e) (\<lambda>avg.
       ens_loop erf num_bins V ws members metas spans (update_ens num_bins V (zip avg (slice s e metas)) acc))"

record ens_result =
  en_anlp :: real
  en_ks :: real
  en_coverage :: "(real \<times> real) list"
  en_regret_v150 :: real
  en_regret_vbid :: real
  en_per_adv :: "(string \<times> real) list"

definition pcts :: "real list" where
  "pcts = [5, 10, 15, 20, 25, 30, 35, 40, 45, 50, 55, 60, 65, 70, 75, 80, 85, 90, 95]"

definition evaluate_ensemble ::
  "(real \<Rightarrow> real) \<Rightarrow> member list \<Rightarrow> meta list \<Rightarrow> nat \<Rightarrow> real \<Rightarrow> real list option \<Rightarrow> nat \<Rightarrow> ens_result res" where
  "evaluate_ensemble erf members metas num_bins V_fixed weights chunk =
     res_bind (ens_weights weights (length members)) (\<lambda>ws.
       if members = [] then Inl TypeError
       else if chunk = 0 then Inl ValueError
       else let N = length metas in
         res_bind (ens_loop erf num_bins V_fixed ws members metas (chunk_spans_from 0 N chunk) (ens_acc0 (map me_adv metas))) (\<lambda>acc.
           if N = 0 then Inl ZeroDivisionError
           else res_bind (ks_statistic (ea_pit acc)) (\<lambda>ks.
             Inr \<lparr>en_anlp = - ea_log_p acc / real N, en_ks = ks, en_coverage = coverage_table (ea_pit acc) pcts,
                  en_regret_v150 = ea_reg150 acc / real N, en_regret_vbid = ea_reg_v acc / real N,
                  en_per_adv = map (\<lambda>(a, x, y, n). (a, x / real (max 1 n))) (ea_adv acc)\<rparr>)))"

section \<open>Budget evaluation of an ensemble\<close>

fun budget_bids :: "(real \<Rightarrow> real) \<Rightarrow> nat \<Rightarrow> real list \<Rightarrow> member list \<Rightarrow> real list \<Rightarrow> (nat \<times> nat) list \<Rightarrow> real list res" where
  "budget_bids erf num_bins ws members V_arr [] = Inr []"
| "budget_bids erf num_bins ws members V_arr ((s, e) # spans) =
     res_bind (chunk_avg erf num_bins ws members s e) (\<lambda>avg.
     res_bind (budget_bids erf num_bins ws members V_arr spans) (\<lambda>bids.
       Inr (grid_optimize_from_probs avg (slice s e V_arr) num_bins @ bids)))"

definition main_budget_ensemble ::
  "(real \<Rightarrow> real) \<Rightarrow> nat \<Rightarrow> member list \<Rightarrow> real list option \<Rightarrow> real list \<Rightarrow> real list \<Rightarrow> int list option \<Rightarrow> bool \<Rightarrow> real \<Rightarrow> budget_report res" where
  "main_budget_ensemble erf num_bins members weights pp bid click use_bidding_V V =
     res_bind (ens_weights weights (length members)) (\<lambda>ws.
       if members = [] then Inl TypeError
       else let V_arr = (if use_bidding_V then bid else replicate (length pp) V) in
         res_bind (budget_bids erf num_bins ws members V_arr (chunk_spans_from 0 (length pp) 10000)) (\<lambda>bids.
         res_bind (budget_table bids pp click V_arr) (\<lambda>budgets.
           Inr \<lparr>br_bid_count = length (filter (\<lambda>b. 0 < b) bids), br_total_cost = sum_list pp, br_budgets = budgets\<rparr>)))"

section \<open>The averaged rows\<close>

text \<open>Reference: the weighted mean of the members' rows, bin by bin.\<close>

definition mixed_row :: "nat \<Rightarrow> real list \<Rightarrow> real list list list \<Rightarrow> nat \<Rightarrow> real list" where
  "mixed_row nb ws ps i = map (\<lambda>k. sum_list (map2 (\<lambda>w p. w * p ! i ! k) ws ps)) [0..<nb]"

definition shaped :: "nat \<Rightarrow> nat \<Rightarrow> real list list \<Rightarrow> bool" where
  "shaped n nb p \<longleftrightarrow> length p = n \<and> (\<forall>r \<in> set p. length r = nb)"

lemma length_mixed_row [simp]: "length (mixed_row nb ws ps i) = nb"
  by (simp add: mixed_row_def)

lemma shaped_rows: "shaped n nb p \<Longrightarrow> i < n \<Longrightarrow> length (p ! i) = nb"
  by (simp add: shaped_def)

lemma matrix_eqI:
  assumes "shaped n nb a" and "shaped n nb b" and "\<And>i k. i < n \<Longrightarrow> k < nb \<Longrightarrow> a ! i ! k = b ! i ! k"
  shows "a = b"
  using assms by (intro nth_equalityI) (auto simp: shaped_def intro!: nth_equalityI)

lemma shaped_scale [simp]: "shaped n nb p \<Longrightarrow> shaped n nb (scale_rows w p)"
  by (auto simp: shaped_def scale_rows_def)

lemma shaped_add [simp]: "shaped n nb a \<Longrightarrow> shaped n nb b \<Longrightarrow> shaped n nb (add_rows a b)"
  by (auto simp: shaped_def add_rows_def set_zip)

lemma shaped_map_upt [simp]: "(\<And>i. i < n \<Longrightarrow> length (f i) = nb) \<Longrightarrow> shaped n nb (map f [0..<n])"
  by (auto simp: shaped_def)

lemma nth_scale: "shaped n nb p \<Longrightarrow> i < n \<Longrightarrow> k < nb \<Longrightarrow> scale_rows w p ! i ! k = w * p ! i ! k"
  by (simp add: shaped_def scale_rows_def)

lemma nth_add: "shaped n nb a \<Longrightarrow> shaped n nb b \<Longrightarrow> i < n \<Longrightarrow> k < nb \<Longrightarrow> add_rows a b ! i ! k = a ! i ! k + b ! i ! k"
  by (simp add: shaped_def add_rows_def)

lemma avg_loop_Some:
  assumes "shaped n nb a" and "\<forall>p \<in> set ps. shaped n nb p" and "length ps \<le> length ws"
  shows "\<exists>b. avg_loop ws ps (Some a) = Inr (Some b) \<and> shaped n nb b \<and>
    (\<forall>i < n. \<forall>k < nb. b ! i ! k = a ! i ! k + sum_list (map2 (\<lambda>w p. w * p ! i ! k) ws ps))"
  using assms
proof (induction ps arbitrary: ws a)
  case (Cons p ps)
  obtain w ws' where ws: "ws = w # ws'" using Cons.prems(3) by (cases ws) auto
  have "shaped n nb (add_rows a (scale_rows w p))" using Cons.prems by simp
  then obtain b where "avg_loop ws' ps (Some (add_rows a (scale_rows w p))) = Inr (Some b)" "shaped n nb b"
    "\<forall>i < n. \<forall>k < nb. b ! i ! k = add_rows a (scale_rows w p) ! i ! k + sum_list (map2 (\<lambda>w p. w * p ! i ! k) ws' ps)"
    using Cons.IH [of "add_rows a (scale_rows w p)" ws'] Cons.prems by (auto simp: ws)
  then show ?case
    using Cons.prems nth_add [of n nb a "scale_rows w p"] nth_scale [of n nb p] by (simp add: ws add.assoc)
qed simp

lemma avg_loop_mixed:
  assumes "ps \<noteq> []" and "\<forall>p \<in> set ps. shaped n nb p" and "length ps \<le> length ws"
  shows "avg_loop ws ps None = Inr (Some (map (mixed_row nb ws ps) [0..<n]))"
proof -
  obtain p ps' w ws' where e: "ps = p # ps'" "ws = w # ws'"
    using assms(1,3) by (cases ps; cases ws) auto
  have "shaped n nb (scale_rows w p)" using assms(2) by (simp add: e)
  then obtain b where b: "avg_loop ws' ps' (Some (scale_rows w p)) = Inr (Some b)" "shaped n nb b"
    "\<forall>i < n. \<forall>k < nb. b ! i ! k = scale_rows w p ! i ! k + sum_list (map2 (\<lambda>w p. w * p ! i ! k) ws' ps')"
    using avg_loop_Some [of n nb "scale_rows w p" ps' ws'] assms(2,3) by (auto simp: e)
  have "b = map (mixed_row nb ws ps) [0..<n]"
    by (rule matrix_eqI [OF b(2)]) (use b(3) assms(2) nth_scale [of n nb p] in \<open>simp_all add: mixed_row_def e\<close>)
  then show ?thesis using b(1) by (simp add: e)
qed

definition member_ok :: "nat \<Rightarrow> nat \<Rightarrow> member \<Rightarrow> bool" where
  "member_ok nb n m =
     (case m of
        MMdn rows \<Rightarrow> length rows = n
      | MBins probs \<Rightarrow> length probs = n \<and> (\<forall>p \<in> set probs. (\<forall>x \<in> set p. 0 \<le> x) \<and> 0 < sum_list (take nb p))
      | MLgbm alphas quants \<Rightarrow> length quants = n)"

lemma cut_pad_ok:
  assumes "\<forall>x \<in> set p. 0 \<le> x" and "0 < sum_list (take nb p)"
  shows "row_ok (normalise (cut_pad nb p))" and "length (cut_pad nb p) = nb"
proof -
  show "row_ok (normalise (cut_pad nb p))"
    using assms by (intro normalise_ok) (auto simp: cut_pad_def dest: in_set_takeD)
  show "length (cut_pad nb p) = nb" by (simp add: cut_pad_def)
qed

text \<open>A slice of a member predicts the slice of its rows, each of them a distribution.\<close>

lemma slice_map: "slice s e (map f xs) = map f (slice s e xs)"
  by (simp add: slice_def take_map drop_map)

lemma member_probs_slice: "member_probs erf nb (member_slice s e m) = slice s e (member_probs erf nb m)"
  by (cases m) (simp_all add: slice_map)

lemma member_rows:
  assumes "member_ok nb n m" and "0 < nb"
  shows "shaped n nb (member_probs erf nb m)" and "\<forall>p \<in> set (member_probs erf nb m). row_ok p"
proof -
  show "shaped n nb (member_probs erf nb m)"
    using assms cut_pad_ok(2) by (cases m) (auto simp: member_ok_def shaped_def)
  show "\<forall>p \<in> set (member_probs erf nb m). row_ok p"
    using assms cut_pad_ok(1) mdn_bins_row_ok quantile_bins_row_ok by (cases m) (auto simp: member_ok_def)
qed

text \<open>Weights that are nonnegative and add up to 1 over the members.\<close>

definition simplex :: "nat \<Rightarrow> real list \<Rightarrow> bool" where
  "simplex M ws \<longleftrightarrow> length ws = M \<and> (\<forall>w \<in> set ws. 0 \<le> w) \<and> sum_list ws = 1"

lemma sum_list_swap:
  "(\<Sum>k < n. sum_list (map2 (\<lambda>w p. w * f p k) ws ps)) = sum_list (map2 (\<lambda>w p. w * (\<Sum>k < (n :: nat). f p k)) ws (ps :: 'b list))" for ws :: "real list"
proof (induction ws arbitrary: ps)
  case (Cons w ws)
  then show ?case by (cases ps) (simp_all add: sum.distrib sum_distrib_left)
qed simp

lemma mixed_row_ok:
  assumes "simplex (length ps) ws" and "\<forall>p \<in> set ps. shaped n nb p \<and> (\<forall>r \<in> set p. row_ok r)" and "i < n" and "0 < nb"
  shows "row_ok (mixed_row nb ws ps i)"
proof -
  have r: "row_ok (p ! i) \<and> length (p ! i) = nb" if "p \<in> set ps" for p
    using assms(2,3) that by (auto simp: shaped_def)
  have "sum_list (map2 (\<lambda>w p. w * (\<Sum>k < nb. p ! i ! k)) ws ps) = sum_list (map2 (\<lambda>w p. w) ws ps)"
  proof (intro arg_cong [where f = sum_list] map_cong refl)
    fix q assume "q \<in> set (zip ws ps)"
    moreover obtain w p where "q = (w, p)" by (cases q)
    ultimately have "q = (w, p)" "row_ok (p ! i)" "length (p ! i) = nb" using r set_zip_rightD by fastforce+
    then show "(case q of (w, p) \<Rightarrow> w * (\<Sum>k < nb. p ! i ! k)) = (case q of (w, p) \<Rightarrow> w)"
      by (simp add: row_ok_def sum_list_map_nth)
  qed
  also have "\<dots> = 1" using assms(1) by (simp add: simplex_def map_fst_zip [unfolded fst_def])
  finally have "(\<Sum>k < nb. sum_list (map2 (\<lambda>w p. w * p ! i ! k) ws ps)) = 1"
    using sum_list_swap [of "\<lambda>p k. p ! i ! k" ws ps nb] by simp
  then have "sum_list (mixed_row nb ws ps i) = 1" by (simp add: mixed_row_def sum_list_map_nth)
  moreover have "0 \<le> sum_list (map2 (\<lambda>w p. w * p ! i ! k) ws ps)" if "k < nb" for k
  proof (intro sum_list_nonneg)
    fix x assume "x \<in> set (map2 (\<lambda>w p. w * p ! i ! k) ws ps)"
    then obtain w p where x: "x = w * p ! i ! k" "w \<in> set ws" "p \<in> set ps" by (auto dest: set_zip_leftD set_zip_rightD)
    then have "0 \<le> w" "p ! i ! k \<in> set (p ! i)" using assms(1) r that by (auto simp: simplex_def)
    then show "0 \<le> x" using r [OF x(3)] by (simp add: x(1) row_ok_def)
  qed
  ultimately show ?thesis using assms(4) by (auto simp: row_ok_def mixed_row_def)
qed

lemma slice_upt: "slice s e (map f [0..<n]) = map f [s..<min e n]"
  by (simp add: slice_map) (simp add: slice_def take_upt drop_upt min_def)

lemma mixed_row_slice:
  assumes "i < length (slice s e [0..<n])" and "\<forall>p \<in> set ps. shaped n nb p"
  shows "mixed_row nb ws (map (slice s e) ps) i = mixed_row nb ws ps (s + i)"
proof -
  have "slice s e p ! i = p ! (s + i)" if "p \<in> set ps" for p
    using assms that by (auto simp: slice_def shaped_def min_def nth_take split: if_splits)
  then have "map2 (\<lambda>w p. w * p ! i ! k) ws (map (slice s e) ps) = map2 (\<lambda>w p. w * p ! (s + i) ! k) ws ps" for k
    by (auto simp: zip_map2 dest: set_zip_rightD)
  then show ?thesis by (simp add: mixed_row_def)
qed

lemma mixed_slice:
  assumes "\<forall>p \<in> set ps. shaped n nb p"
  shows "map (mixed_row nb ws (map (slice s e) ps)) [0..<length (slice s e [0..<n])] = slice s e (map (mixed_row nb ws ps) [0..<n])"
proof (rule nth_equalityI)
  fix i assume "i < length (map (mixed_row nb ws (map (slice s e) ps)) [0..<length (slice s e [0..<n])])"
  then have i: "i < length (slice s e [0..<n])" by simp
  then have "slice s e (map (mixed_row nb ws ps) [0..<n]) ! i = mixed_row nb ws ps (s + i)"
    by (simp add: slice_def min_def split: if_splits)
  then show "map (mixed_row nb ws (map (slice s e) ps)) [0..<length (slice s e [0..<n])] ! i = slice s e (map (mixed_row nb ws ps) [0..<n]) ! i"
    using mixed_row_slice [OF i assms] i by simp
qed (simp add: slice_def)

lemma shaped_slice: "shaped n nb p \<Longrightarrow> shaped (length (slice s e [0..<n])) nb (slice s e p)"
  by (auto simp: shaped_def slice_def dest!: in_set_dropD in_set_takeD)

text \<open>All averaged rows, and a chunk of them.\<close>

definition ens_rows :: "(real \<Rightarrow> real) \<Rightarrow> nat \<Rightarrow> real list \<Rightarrow> member list \<Rightarrow> nat \<Rightarrow> real list list" where
  "ens_rows erf nb ws members n = map (mixed_row nb ws (map (member_probs erf nb) members)) [0..<n]"

definition ensemble_ok :: "nat \<Rightarrow> nat \<Rightarrow> member list \<Rightarrow> real list \<Rightarrow> bool" where
  "ensemble_ok nb n members ws \<longleftrightarrow>
     0 < nb \<and> members \<noteq> [] \<and> (\<forall>m \<in> set members. member_ok nb n m) \<and> simplex (length members) ws"

lemma length_ens_rows [simp]: "length (ens_rows erf nb ws members n) = n"
  by (simp add: ens_rows_def)

lemma ens_rows_ok:
  assumes "ensemble_ok nb n members ws" and "p \<in> set (ens_rows erf nb ws members n)"
  shows "row_ok p" and "length p = nb"
proof -
  have "\<forall>p \<in> set (map (member_probs erf nb) members). shaped n nb p \<and> (\<forall>r \<in> set p. row_ok r)"
    using assms(1) member_rows by (fastforce simp: ensemble_ok_def)
  moreover obtain i where "i < n" "p = mixed_row nb ws (map (member_probs erf nb) members) i"
    using assms(2) by (auto simp: ens_rows_def)
  ultimately show "row_ok p" "length p = nb"
    using assms(1) mixed_row_ok [of "map (member_probs erf nb) members" ws n nb i] by (simp_all add: ensemble_ok_def)
qed

lemma chunk_avg_eq:
  assumes "ensemble_ok nb n members ws"
  shows "chunk_avg erf nb ws members s e = Inr (slice s e (ens_rows erf nb ws members n))"
proof -
  let ?ps = "map (member_probs erf nb) members"
  let ?n = "length (slice s e [0..<n])"
  have sh: "\<forall>p \<in> set ?ps. shaped n nb p" using assms member_rows by (fastforce simp: ensemble_ok_def)
  then have "\<forall>p \<in> set (map (slice s e) ?ps). shaped ?n nb p"
    using shaped_slice by auto
  then have "avg_loop ws (map (slice s e) ?ps) None = Inr (Some (map (mixed_row nb ws (map (slice s e) ?ps)) [0..<?n]))"
    using assms by (intro avg_loop_mixed) (simp_all add: ensemble_ok_def simplex_def)
  moreover have "map (mixed_row nb ws (map (slice s e) ?ps)) [0..<?n] = slice s e (ens_rows erf nb ws members n)"
    unfolding ens_rows_def by (rule mixed_slice [OF sh])
  moreover have "map normalise (slice s e (ens_rows erf nb ws members n)) = slice s e (ens_rows erf nb ws members n)"
    using ens_rows_ok(1) [OF assms, of _ erf]
    by (intro map_idI normalise_id) (auto simp: row_ok_def slice_def dest!: in_set_dropD in_set_takeD)
  ultimately show ?thesis unfolding chunk_avg_def member_probs_slice by (simp add: comp_def)
qed

section \<open>Chunks do not matter\<close>

lemma update_ens_append: "update_ens nb V (xs @ ys) acc = update_ens nb V ys (update_ens nb V xs acc)"
  by (simp add: update_ens_def)

lemma update_ens_Nil: "update_ens nb V [] acc = acc"
  by (simp add: update_ens_def)

interpretation all_rows: rowwise "\<lambda>rows. rows"
  by unfold_locales simp_all

lemma ens_loop_eq:
  assumes "ensemble_ok nb n members ws"
  shows "ens_loop erf nb V ws members metas spans acc =
    Inr (update_ens nb V (concat (map (\<lambda>(s, e). slice s e (zip (ens_rows erf nb ws members n) metas)) spans)) acc)"
proof (induction spans arbitrary: acc)
  case (Cons q spans)
  obtain s e where q: "q = (s, e)" by (cases q)
  show ?case by (simp add: q Cons.IH chunk_avg_eq [OF assms] zip_slice update_ens_append)
qed (simp add: update_ens_Nil)

text \<open>The table of the advertisers holds the sums and counts over their auctions.\<close>

lemma adv_table:
  "foldl (\<lambda>t r. adv_add (a r) (f r) (g r) t) (map (\<lambda>b. (b, x b, y b, n b)) bs) rows =
    map (\<lambda>b. let mine = filter (\<lambda>r. a r = b) rows in
      (b, x b + sum_list (map f mine), y b + sum_list (map g mine), n b + length mine)) bs"
proof (induction rows arbitrary: x y n)
  case (Cons r rows)
  have "adv_add (a r) (f r) (g r) (map (\<lambda>b. (b, x b, y b, n b)) bs) =
      map (\<lambda>b. (b, x b + (if a r = b then f r else 0), y b + (if a r = b then g r else 0), n b + (if a r = b then 1 else 0))) bs"
    by (auto simp: adv_add_def)
  then show ?case
    using Cons.IH [of "\<lambda>b. x b + (if a r = b then f r else 0)" "\<lambda>b. y b + (if a r = b then g r else 0)" "\<lambda>b. n b + (if a r = b then 1 else 0)"]
    by (auto simp: Let_def)
qed (simp add: Let_def)

lemma adv_means:
  "map (\<lambda>(a, x, y, n). (a, x / real (max 1 n)))
     (foldl (\<lambda>t r. adv_add (adv r) (f r) (g r) t) (map (\<lambda>a. (a, 0, 0, 0)) (sorted_list_of_set (set (map adv rows)))) rows) =
   per_advertiser (map f rows) (map adv rows)"
proof -
  have z: "map fst (filter (\<lambda>(r, b). b = a) (zip (map f rows) (map adv rows))) = map f (filter (\<lambda>r. adv r = a) rows)" for a
    by (induction rows) auto
  have "filter (\<lambda>r. adv r = a) rows \<noteq> []" if "a \<in> set (map adv rows)" for a
    using that by (auto simp: filter_empty_conv)
  then have "max 1 (length (filter (\<lambda>r. adv r = a) rows)) = length (filter (\<lambda>r. adv r = a) rows)" if "a \<in> set (map adv rows)" for a
    using that by (simp add: max_absorb2 Suc_le_eq)
  then show ?thesis
    unfolding adv_table [of adv f g "\<lambda>_. 0" "\<lambda>_. 0" "\<lambda>_. 0"] per_advertiser_def z
    by (simp add: Let_def mean_def)
qed

definition ens_report :: "nat \<Rightarrow> real \<Rightarrow> real list list \<Rightarrow> meta list \<Rightarrow> real \<Rightarrow> ens_result" where
  "ens_report nb V avg metas ks =
     (let pit = map2 (pit_score nb) avg metas; reg = map2 (regret_fixed nb V) avg metas in
      \<lparr>en_anlp = - mean (map2 (log_score nb) avg metas), en_ks = ks, en_coverage = coverage_table pit pcts,
       en_regret_v150 = mean reg, en_regret_vbid = mean (map2 (regret_bidding nb) avg metas),
       en_per_adv = per_advertiser reg (map me_adv metas)\<rparr>)"

lemma evaluate_ensemble_eq:
  assumes "ens_weights weights (length members) = Inr ws" and "ensemble_ok nb (length metas) members ws" and "0 < chunk"
    and "metas \<noteq> []"
  shows "evaluate_ensemble erf members metas nb V weights chunk =
    (let avg = ens_rows erf nb ws members (length metas) in
      res_bind (ks_statistic (map2 (pit_score nb) avg metas)) (\<lambda>ks. Inr (ens_report nb V avg metas ks)))"
proof -
  let ?avg = "ens_rows erf nb ws members (length metas)"
  let ?rows = "zip ?avg metas"
  have "concat (map (\<lambda>(s, e). slice s e ?rows) (chunk_spans_from 0 (length metas) chunk)) = ?rows"
    using all_rows.chunks_from [OF assms(3), of ?rows 0] by simp
  then have loop: "ens_loop erf nb V ws members metas (chunk_spans_from 0 (length metas) chunk) (ens_acc0 (map me_adv metas)) =
      Inr (update_ens nb V ?rows (ens_acc0 (map me_adv metas)))"
    by (simp add: ens_loop_eq [OF assms(2)])
  have advs: "map (\<lambda>r. me_adv (snd r)) ?rows = map me_adv metas"
    by (simp add: map_snd_zip [unfolded snd_def] comp_def flip: map_map [of me_adv snd, unfolded comp_def])
  have adv: "map (\<lambda>(a, x, y, n). (a, x / real (max 1 n))) (ea_adv (update_ens nb V ?rows (ens_acc0 (map me_adv metas)))) =
      per_advertiser (map2 (regret_fixed nb V) ?avg metas) (map me_adv metas)"
    using adv_means [of "\<lambda>r. me_adv (snd r)" "\<lambda>(p, m). regret_fixed nb V p m" "\<lambda>(p, m). regret_bidding nb p m" ?rows]
    unfolding advs by (simp add: update_ens_def ens_acc0_def split_def)
  show ?thesis
    using assms loop adv
    by (simp add: evaluate_ensemble_def ensemble_ok_def Let_def ens_report_def)
      (simp add: update_ens_def ens_acc0_def mean_def)
qed

text \<open>The scores of a distribution are in their ranges.\<close>

lemma row_ok_le_1: "row_ok p \<Longrightarrow> x \<in> set p \<Longrightarrow> x \<le> 1"
  using member_le_sum_list [of x p] by (auto simp: row_ok_def)

lemma score_bounds:
  assumes "row_ok p" and "length p = nb"
  shows "log_score nb p m \<le> 0" and "0 \<le> pit_score nb p m \<and> pit_score nb p m \<le> 1"
proof -
  have k: "nat (price_label nb (me_pp m)) < length p"
    using price_label_range [of nb "me_pp m"] assms by (cases nb) (auto simp: row_ok_def)
  then have "p ! nat (price_label nb (me_pp m)) \<le> 1" using row_ok_le_1 [OF assms(1)] by simp
  then show "log_score nb p m \<le> 0" by (simp add: log_score_def ln_le_zero_iff less_max_iff_disj)
  show "0 \<le> pit_score nb p m \<and> pit_score nb p m \<le> 1"
    using assms(1) k cumsum_nonneg [of p] cumsum_le_total [of p] by (auto simp: pit_score_def row_ok_def)
qed

lemma map2_rows:
  assumes "list_all P avg" and "\<And>p m. P p \<Longrightarrow> Q (f p m)" and "x \<in> set (map2 f avg metas)"
  shows "Q x"
  using assms by (auto simp: list_all_iff dest: set_zip_leftD)

text \<open>
  C19: The evaluation of an ensemble whose weights normalise to a point of the simplex succeeds for every
  positive chunk size with the same result: the averaged rows are distributions over the bins, and the
  report holds the mean log score, the KS statistic and coverage of the PIT values, the mean regrets
  of the grid search and the mean regret by advertiser over all rows at once. The likelihood term and the
  regrets are nonnegative and the KS statistic lies in its range.
\<close>

theorem ensemble_streaming:
  assumes "ens_weights weights (length members) = Inr ws" and "ensemble_ok nb (length metas) members ws" and "0 < chunk"
    and "metas \<noteq> []"
  shows "\<exists>rep. evaluate_ensemble erf members metas nb V weights chunk = Inr rep \<and>
    (let avg = ens_rows erf nb ws members (length metas); pit = map2 (pit_score nb) avg metas in
      list_all (\<lambda>p. row_ok p \<and> length p = nb) avg \<and>
      en_anlp rep = - mean (map2 (log_score nb) avg metas) \<and> ks_statistic pit = Inr (en_ks rep) \<and>
      en_coverage rep = coverage_table pit pcts \<and>
      en_regret_v150 rep = mean (map2 (regret_fixed nb V) avg metas) \<and>
      en_regret_vbid rep = mean (map2 (regret_bidding nb) avg metas) \<and>
      en_per_adv rep = per_advertiser (map2 (regret_fixed nb V) avg metas) (map me_adv metas)) \<and>
    0 \<le> en_anlp rep \<and> 0 \<le> en_regret_v150 rep \<and> 0 \<le> en_regret_vbid rep \<and> en_ks rep \<le> 1"
proof -
  let ?n = "length metas"
  let ?avg = "ens_rows erf nb ws members ?n"
  have rows: "list_all (\<lambda>p. row_ok p \<and> length p = nb) ?avg"
    using ens_rows_ok [OF assms(2), of _ erf] by (simp add: list_all_iff)
  note each = map2_rows [OF rows]
  obtain ks where ks: "ks_statistic (map2 (pit_score nb) ?avg metas) = Inr ks"
    using assms(4) by (simp add: ks_statistic_def Let_def)
  have "ks \<le> 1" using ks_upper [OF ks] each [of "\<lambda>x. 0 \<le> x \<and> x \<le> 1"] score_bounds(2) by blast
  moreover have "mean (map2 (log_score nb) ?avg metas) \<le> 0"
    using each [of "\<lambda>x. x \<le> 0" "log_score nb"] score_bounds(1) by (auto simp: mean_def divide_nonpos_nonneg intro!: divide_nonpos_nonneg sum_list_nonpos)
  moreover have "0 \<le> mean (map2 (regret_fixed nb V) ?avg metas)" "0 \<le> mean (map2 (regret_bidding nb) ?avg metas)"
    using each [of "\<lambda>x. 0 \<le> x"] by (auto intro!: mean_nonneg simp: regret_fixed_def regret_bidding_def regret1_nonneg)
  ultimately show ?thesis
    using rows ks by (simp add: evaluate_ensemble_eq [OF assms] ens_report_def Let_def)
qed

theorem ensemble_streaming_witness:
  "\<exists>rep. evaluate_ensemble erf_demo [MMdn [mdn_demo, mdn_demo], MBins [[1, 2], [0, 5]]]
      [\<lparr>me_pp = 1, me_bid = 3, me_adv = ''a''\<rparr>, \<lparr>me_pp = 2, me_bid = 1, me_adv = ''b''\<rparr>] 4 3 (Some [1, 3]) 1 = Inr rep \<and>
    0 \<le> en_anlp rep \<and> en_ks rep \<le> 1 \<and> 0 \<le> en_regret_v150 rep"
proof -
  have "ensemble_ok 4 (Suc (Suc 0)) [MMdn [mdn_demo, mdn_demo], MBins [[1, 2], [0, 5]]] [1 / 4, 3 / 4]"
    by (simp add: ensemble_ok_def member_ok_def simplex_def)
  moreover have "ens_weights (Some [1, 3]) (Suc (Suc 0)) = Inr [1 / 4, 3 / 4]" by (simp add: ens_weights_def)
  ultimately show ?thesis
    using ensemble_streaming [of "Some [1, 3]" "[MMdn [mdn_demo, mdn_demo], MBins [[1, 2], [0, 5]]]" "[1 / 4, 3 / 4]" 4
      "[\<lparr>me_pp = 1, me_bid = 3, me_adv = ''a''\<rparr>, \<lparr>me_pp = 2, me_bid = 1, me_adv = ''b''\<rparr>]" 1 erf_demo 3]
    by (simp add: Let_def) blast
qed

section \<open>The budget report of an ensemble\<close>

definition grid_bids :: "nat \<Rightarrow> real list list \<Rightarrow> real list \<Rightarrow> real list" where
  "grid_bids nb avg Vs = map (\<lambda>(p, v). fst (grid_row (arange nb) (cumsum p) v)) (zip avg Vs)"

lemma budget_bids_eq:
  assumes "ensemble_ok nb n members ws"
  shows "budget_bids erf nb ws members Vs spans =
    Inr (concat (map (\<lambda>(s, e). map (\<lambda>(p, v). fst (grid_row (arange nb) (cumsum p) v))
      (slice s e (zip (ens_rows erf nb ws members n) Vs))) spans))"
proof (induction spans)
  case (Cons q spans)
  obtain s e where q: "q = (s, e)" by (cases q)
  show ?case
    using Cons by (simp add: q chunk_avg_eq [OF assms] grid_optimize_from_probs_def flip: zip_slice)
qed simp

lemma budget_bids_all:
  assumes "ensemble_ok nb n members ws" and "length Vs = n"
  shows "budget_bids erf nb ws members Vs (chunk_spans_from 0 n 10000) = Inr (grid_bids nb (ens_rows erf nb ws members n) Vs)"
proof -
  have "length (zip (ens_rows erf nb ws members n) Vs) = n" using assms(2) by simp
  then show ?thesis
    unfolding budget_bids_eq [OF assms(1)] grid_bids_def
    using grid_bins_rows.chunks_from [of 10000 nb "zip (ens_rows erf nb ws members n) Vs" 0] by simp
qed

text \<open>
  The budget evaluation of an ensemble reports the budgets of the grid search's bids for its averaged
  rows: at each fraction of the oracle cost the spend stays within the budget, the profit is
  nonnegative, and with a fixed value it is the value of the won auctions less the spend.
\<close>

theorem budget_ensemble_sound:
  assumes "ens_weights weights (length members) = Inr ws" and "ensemble_ok nb (length pp) members ws"
    and "list_all (\<lambda>x. 0 \<le> x) pp" and "length bid = length pp" and "\<forall>c. click = Some c \<longrightarrow> length c = length pp"
  shows "\<exists>rep. main_budget_ensemble erf nb members weights pp bid click use_bid V = Inr rep \<and>
    (let Vs = (if use_bid then bid else replicate (length pp) V); bids = grid_bids nb (ens_rows erf nb ws members (length pp)) Vs in
      budget_table bids pp click Vs = Inr (br_budgets rep) \<and> map fst (br_budgets rep) = fractions \<and>
      list_all (table_ok bids pp Vs) (br_budgets rep))"
proof -
  define Vs where "Vs = (if use_bid then bid else replicate (length pp) V)"
  let ?avg = "ens_rows erf nb ws members (length pp)"
  have len: "length Vs = length pp" "length (grid_bids nb ?avg Vs) = length pp"
    using assms(4) by (simp_all add: Vs_def grid_bids_def)
  have "\<forall>(p, v) \<in> set (zip ?avg Vs). length p = nb \<and> (\<forall>x \<in> set p. 0 \<le> x)"
    using ens_rows_ok [OF assms(2), of _ erf] by (auto simp: row_ok_def dest: set_zip_leftD)
  then have "\<forall>i < length (grid_bids nb ?avg Vs). grid_bids nb ?avg Vs ! i \<le> max 0 (Vs ! i)"
    using grid_bids_le [of _ "zip ?avg Vs" nb] len assms(2) by (simp add: grid_bids_def ensemble_ok_def)
  then obtain budgets where b: "budget_table (grid_bids nb ?avg Vs) pp click Vs = Inr budgets" "map fst budgets = fractions"
    "list_all (table_ok (grid_bids nb ?avg Vs) pp Vs) budgets"
    using budget_table_sound [OF len(2,1) assms(5) _ assms(3)] by blast
  have "main_budget_ensemble erf nb members weights pp bid click use_bid V =
      Inr \<lparr>br_bid_count = length (filter (\<lambda>b. 0 < b) (grid_bids nb ?avg Vs)), br_total_cost = sum_list pp, br_budgets = budgets\<rparr>"
    unfolding main_budget_ensemble_def Let_def Vs_def [symmetric]
    using assms(1,2) budget_bids_all [OF assms(2) len(1), of erf] b(1) by (simp add: ensemble_ok_def)
  then show ?thesis using b by (simp add: Let_def flip: Vs_def)
qed

theorem budget_ensemble_sound_witness:
  "\<exists>rep. main_budget_ensemble erf_demo 4 [MMdn [mdn_demo, mdn_demo], MLgbm [1 / 2] [[1], [2]]] None [1, 2] [3, 3] None False 3 = Inr rep \<and>
    map fst (br_budgets rep) = fractions"
proof -
  have "ensemble_ok 4 (length [1, 2 :: real]) [MMdn [mdn_demo, mdn_demo], MLgbm [1 / 2] [[1], [2]]] [1 / 2, 1 / 2]"
    by (simp add: ensemble_ok_def member_ok_def simplex_def)
  moreover have "ens_weights None (length [MMdn [mdn_demo, mdn_demo], MLgbm [1 / 2] [[1], [2]]]) = Inr [1 / 2, 1 / 2]"
    by (simp add: ens_weights_def)
  ultimately show ?thesis
    using budget_ensemble_sound [of None "[MMdn [mdn_demo, mdn_demo], MLgbm [1 / 2] [[1], [2]]]" "[1 / 2, 1 / 2]" 4 "[1, 2]"
      "[3, 3]" None erf_demo False 3] by (simp add: Let_def) blast
qed

text \<open>
  An ensemble of one mixture or one quantile file, with the default weight, has the budget report of
  that file.
\<close>

theorem budget_ensemble_single:
  assumes "0 < nb" and "length bid = length pp" and "length rows = length pp" and "length quants = length pp"
  shows "main_budget_ensemble erf nb [MMdn rows] None pp bid click use_bid V =
      main_budget_eval erf nb (PMdn rows) pp bid click use_bid V \<and>
    main_budget_ensemble erf nb [MLgbm al quants] None pp bid click use_bid V =
      main_budget_eval erf nb (PQuantiles al quants) pp bid click use_bid V"
proof -
  define Vs where "Vs = (if use_bid then bid else replicate (length pp) V)"
  have len: "length Vs = length pp" using assms(2) by (simp add: Vs_def)
  have one: "main_budget_ensemble erf nb [m] None pp bid click use_bid V = main_budget_eval erf nb file pp bid click use_bid V"
    if m: "member_ok nb (length pp) m" "member_probs erf nb m = load_probs erf nb file" for m "file"
  proof -
    have ok: "ensemble_ok nb (length pp) [m] [1]" using m(1) assms(1) by (simp add: ensemble_ok_def simplex_def)
    have "shaped (length pp) nb (member_probs erf nb m)" using member_rows(1) [OF m(1) assms(1)] .
    then have "ens_rows erf nb [1] [m] (length pp) = load_probs erf nb file"
      unfolding m(2) [symmetric] ens_rows_def by (intro matrix_eqI [of "length pp" nb]) (simp_all add: mixed_row_def)
    then show ?thesis
      unfolding main_budget_ensemble_def main_budget_eval_def Let_def Vs_def [symmetric] grid_chunks
      using budget_bids_all [OF ok len, of erf] by (simp add: ens_weights_def grid_bids_def)
  qed
  show ?thesis using assms(3,4) by (intro conjI one) (simp_all add: member_ok_def)
qed

theorem budget_ensemble_single_witness:
  "main_budget_ensemble erf_demo 4 [MMdn [mdn_demo]] None [2] [3] None True 0 = main_budget_eval erf_demo 4 (PMdn [mdn_demo]) [2] [3] None True 0"
  using budget_ensemble_single [of 4 "[3]" "[2]" "[mdn_demo]" "[[1]]" erf_demo None True 0] by simp

end
