(* ===== verification/Search.thy ===== *)
theory Search
  imports Ensemble
begin

text \<open>
  The searches for ensemble weights: \<open>experiments/ens_search.py\<close>, its streaming variant with cached
  arrays \<open>ens_search2.py\<close>, and \<open>ens_search3.py\<close>, which searches on a subset of the rows and validates the
  best candidates on all of them. The Dirichlet draws and the drawn subset are parameters.
\<close>

section \<open>Objectives\<close>

text \<open>\<open>profit[:, c:] = 0.0\<close>, with Python's reading of a negative start.\<close>

definition zero_from :: "int \<Rightarrow> real list \<Rightarrow> real list" where
  "zero_from c xs =
     (let k = nat (if c < 0 then max 0 (int (length xs) + c) else c) in take k xs @ map (\<lambda>_. 0) (drop k xs))"

definition v150_bid :: "nat \<Rightarrow> real \<Rightarrow> real list \<Rightarrow> real" where
  "v150_bid num_bins V p =
     real (argmax (zero_from \<lceil>V\<rceil> (map2 (\<lambda>b c. (V - b) * c) (arange num_bins) (cumsum p))))"

definition regret_v150_grid :: "nat \<Rightarrow> real list list \<Rightarrow> real list \<Rightarrow> real \<Rightarrow> real" where
  "regret_v150_grid num_bins probs pp V =
     (let bids = concat (map (\<lambda>(s, e). map (v150_bid num_bins V) (slice s e probs)) (chunk_spans_from 0 (length probs) 200000))
      in mean (map2 (\<lambda>b x. regret1 b x V) bids pp))"

definition regret_vbid_grid :: "nat \<Rightarrow> real list list \<Rightarrow> real list \<Rightarrow> real list \<Rightarrow> real" where
  "regret_vbid_grid num_bins probs pp bid =
     (let bids = map2 (\<lambda>p v. best_bid_row num_bins v p) probs bid
      in mean (map2 (\<lambda>(b, x) v. regret1 b x v) (zip bids pp) bid))"

text \<open>
  The weighted mean of the members: from zeros, member by member, each row divided by its sum
  (\<open>ens_search\<close>), the sum clipped from below (\<open>ens_search2\<close>), and only positive weights
  (\<open>ens_search3\<close>).
\<close>

definition zeros_like :: "real list list \<Rightarrow> real list list" where
  "zeros_like p = map (map (\<lambda>_. 0)) p"

definition mix :: "real list \<Rightarrow> real list list list \<Rightarrow> real list list" where
  "mix w probs = map normalise (foldl (\<lambda>avg (v, p). add_rows avg (scale_rows v p)) (zeros_like (hd probs)) (zip w probs))"

definition normalise_clip :: "real list \<Rightarrow> real list" where
  "normalise_clip p = (let s = max (1 / 10 ^ 30) (sum_list p) in map (\<lambda>x. x / s) p)"

definition avg_probs :: "real list \<Rightarrow> real list list list \<Rightarrow> real list list" where
  "avg_probs w probs =
     map normalise_clip (foldl (\<lambda>avg (v, p). if 0 < v then add_rows avg (scale_rows v p) else avg)
       (zeros_like (hd probs)) (zip w probs))"

text \<open>\<open>regret_v150_streaming\<close>: mean, bid and regret chunk by chunk over the cached arrays.\<close>

definition stream_chunk :: "real list \<Rightarrow> real list list list \<Rightarrow> nat \<Rightarrow> nat \<Rightarrow> nat \<Rightarrow> real list list" where
  "stream_chunk w probs num_bins s e =
     map normalise_clip (foldl (\<lambda>avg (v, p). add_rows avg (scale_rows v (slice s e p)))
       (replicate (e - s) (replicate num_bins 0)) (zip w probs))"

definition regret_v150_streaming :: "real list list list \<Rightarrow> real list \<Rightarrow> real list \<Rightarrow> nat \<Rightarrow> real \<Rightarrow> nat \<Rightarrow> real" where
  "regret_v150_streaming probs w pp num_bins V chunk =
     (let bids = concat (map (\<lambda>(s, e). map (v150_bid num_bins V) (stream_chunk w probs num_bins s e)) (chunk_spans_from 0 (length pp) chunk))
      in mean (map2 (\<lambda>b x. regret1 b x V) bids pp))"

definition regret_vbid_streaming :: "real list list list \<Rightarrow> real list \<Rightarrow> real list \<Rightarrow> real list \<Rightarrow> nat \<Rightarrow> nat \<Rightarrow> real" where
  "regret_vbid_streaming probs w pp bid num_bins chunk =
     (let bids = concat (map (\<lambda>(s, e). map2 (\<lambda>p v. best_bid_row num_bins v p) (stream_chunk w probs num_bins s e) (slice s e bid))
                   (chunk_spans_from 0 (length pp) chunk))
      in mean (map2 (\<lambda>(b, x) v. regret1 b x v) (zip bids pp) bid))"

section \<open>Random trials and greedy refinement\<close>

text \<open>
  \<open>best_r\<close> and \<open>best_w\<close> are assigned together: \<open>None\<close> stands for \<open>(inf, None)\<close>. Each trial is appended to
  the results.
\<close>

type_synonym best = "(real \<times> real list) option"

fun trial_loop :: "(real list \<Rightarrow> real) \<Rightarrow> real list list \<Rightarrow> best \<Rightarrow> (real list \<times> real) list \<Rightarrow> best \<times> (real list \<times> real) list" where
  "trial_loop obj [] best results = (best, results)"
| "trial_loop obj (w # ws) best results =
     (let r = obj w; better = (case best of None \<Rightarrow> True | Some (best_r, _) \<Rightarrow> r < best_r)
      in trial_loop obj ws (if better then Some (r, w) else best) (results @ [(w, r)]))"

definition bump :: "nat \<Rightarrow> real \<Rightarrow> real list \<Rightarrow> real list" where
  "bump i delta w = w[i := max 0 (w ! i + delta)]"

definition greedy_step :: "(real list \<Rightarrow> real) \<Rightarrow> real \<times> real list \<times> bool \<Rightarrow> nat \<times> real \<Rightarrow> real \<times> real list \<times> bool" where
  "greedy_step obj st mv =
     (case st of (best_r, best_w, improved) \<Rightarrow> case mv of (i, delta) \<Rightarrow>
        let w = bump i delta best_w in
        if sum_list w \<le> 0 then st
        else let w = normalise w; r = obj w
             in if r < best_r - 1 / 10 ^ 4 then (r, w, True) else st)"

fun greedy :: "(real list \<Rightarrow> real) \<Rightarrow> real list \<Rightarrow> nat \<Rightarrow> nat \<Rightarrow> real \<times> real list \<Rightarrow> real \<times> real list" where
  "greedy obj deltas M 0 best = best"
| "greedy obj deltas M (Suc sweeps) (best_r, best_w) =
     (case foldl (greedy_step obj) (best_r, best_w, False) (List.product [0..<M] deltas) of
        (r, w, improved) \<Rightarrow> if improved then greedy obj deltas M sweeps (r, w) else (r, w))"

definition deltas6 :: "real list" where
  "deltas6 = [- 1/10, - 5/100, - 2/100, 2/100, 5/100, 1/10]"

definition deltas8 :: "real list" where
  "deltas8 = [- 15/100, - 1/10, - 5/100, - 2/100, 2/100, 5/100, 1/10, 15/100]"

section \<open>The scripts\<close>

text \<open>A saved prediction file, and the array a search makes of it.\<close>

datatype saved = SavedMdn "mdn_row list" | SavedBins "real list list"

definition mdn_to_bins_chunked :: "(real \<Rightarrow> real) \<Rightarrow> nat \<Rightarrow> nat \<Rightarrow> mdn_row list \<Rightarrow> real list list" where
  "mdn_to_bins_chunked erf num_bins chunk rows =
     concat (map (\<lambda>(s, e). map (mdn_bins_row erf num_bins) (slice s e rows)) (chunk_spans_from 0 (length rows) chunk))"

fun load_member :: "(real \<Rightarrow> real) \<Rightarrow> nat \<Rightarrow> saved \<Rightarrow> real list list" where
  "load_member erf num_bins (SavedMdn rows) = mdn_to_bins_chunked erf num_bins 10000 rows"
| "load_member erf num_bins (SavedBins probs) = map (to_bins num_bins) probs"

record search_out =
  so_alone :: "(real \<times> real) list"
  so_r150 :: real
  so_rvbid :: real
  so_w :: "real list"
  so_results :: "(real list \<times> real) list"

text \<open>\<open>best_w.copy()\<close> of a search without trials is an \<open>AttributeError\<close> of \<open>None\<close>.\<close>

definition main_search ::
  "(real \<Rightarrow> real) \<Rightarrow> nat \<Rightarrow> saved list \<Rightarrow> real list \<Rightarrow> real list \<Rightarrow> real list list \<Rightarrow> real list list \<Rightarrow> search_out res" where
  "main_search erf num_bins files pp bid uniform biased =
     (let probs = map (load_member erf num_bins) files; M = length probs;
          alone = map (\<lambda>p. (regret_v150_grid num_bins p pp 150, regret_vbid_grid num_bins p pp bid)) probs;
          obj = (\<lambda>w. regret_v150_grid num_bins (mix w probs) pp 150);
          (best, results) = trial_loop obj uniform None [];
          (best, results) = trial_loop obj biased best results
      in case best of None \<Rightarrow> Inl AttributeError
         | Some start \<Rightarrow>
             let (best_r, best_w) = greedy obj deltas6 M 3 start
             in Inr \<lparr>so_alone = alone, so_r150 = best_r, so_rvbid = regret_vbid_grid num_bins (mix best_w probs) pp bid,
                     so_w = best_w, so_results = results\<rparr>)"

text \<open>
  \<open>ens_search2\<close>: the array of a member is cached under the name of its directory; a cached array is used
  again unless \<open>--rebuild_cache\<close> is given. What is written is the array \<open>load_member\<close> makes, and cached
  arrays have the shape the search reads.
\<close>

definition path_cut :: "string \<Rightarrow> nat" where
  "path_cut p = length p - length (takeWhile (\<lambda>c. c \<noteq> CHR ''/'') (rev p))"

definition basename :: "string \<Rightarrow> string" where
  "basename p = drop (path_cut p) p"

definition dirname :: "string \<Rightarrow> string" where
  "dirname p =
     (let head = take (path_cut p) p
      in if list_all (\<lambda>c. c = CHR ''/'') head then head else rstrip (CHR ''/'') head)"

definition cache_name :: "string \<Rightarrow> string" where
  "cache_name path = basename (dirname path) @ ''.f32''"

type_synonym cache = "string \<rightharpoonup> real list list"

fun build_cache :: "(real \<Rightarrow> real) \<Rightarrow> nat \<Rightarrow> bool \<Rightarrow> (string \<times> saved) list \<Rightarrow> cache \<Rightarrow> string list \<times> cache" where
  "build_cache erf num_bins rebuild [] fs = ([], fs)"
| "build_cache erf num_bins rebuild ((path, d) # ms) fs =
     (let c = cache_name path;
          fs = (if fs c = None \<or> rebuild then fs(c \<mapsto> load_member erf num_bins d) else fs);
          (paths, fs) = build_cache erf num_bins rebuild ms fs
      in (c # paths, fs))"

definition main_search2 ::
  "(real \<Rightarrow> real) \<Rightarrow> nat \<Rightarrow> bool \<Rightarrow> (string \<times> saved) list \<Rightarrow> cache \<Rightarrow> real list \<Rightarrow> real list \<Rightarrow>
     real list list \<Rightarrow> real list list list \<Rightarrow> search_out res" where
  "main_search2 erf num_bins rebuild members fs pp bid uniform biased =
     (let (paths, fs) = build_cache erf num_bins rebuild members fs;
          arrays = map (\<lambda>c. the (fs c)) paths; M = length paths;
          one_hot = (\<lambda>i. (replicate M 0)[i := 1]);
          alone = map (\<lambda>i. (regret_v150_streaming arrays (one_hot i) pp num_bins 150 200000,
                           regret_vbid_streaming arrays (one_hot i) pp bid num_bins 200000)) [0..<M];
          obj = (\<lambda>w. regret_v150_streaming arrays w pp num_bins 150 200000);
          (best, results) = trial_loop obj uniform None [];
          (best, results) = trial_loop obj (concat biased) best results
      in case best of None \<Rightarrow> Inl AttributeError
         | Some start \<Rightarrow>
             let (best_r, best_w) = greedy obj deltas6 M 3 start
             in Inr \<lparr>so_alone = alone, so_r150 = best_r, so_rvbid = regret_vbid_streaming arrays best_w pp bid num_bins 200000,
                     so_w = best_w, so_results = results\<rparr>)"

text \<open>\<open>ens_search3\<close>: search on the rows \<open>idx\<close>, then the best candidates on all rows.\<close>

definition regret_v150 :: "nat \<Rightarrow> real list list \<Rightarrow> real list \<Rightarrow> real \<Rightarrow> real" where
  "regret_v150 num_bins probs pp V = mean (map2 (\<lambda>p x. regret1 (v150_bid num_bins V p) x V) probs pp)"

record candidate =
  ca_w :: "real list"
  ca_sub :: real
  ca_full :: real
  ca_rvbid :: real

record search3_out =
  s3_best :: candidate
  s3_top :: "candidate list"
  s3_results :: "(real list \<times> real) list"
  s3_alone :: "real list"

definition validate :: "nat \<Rightarrow> real list list list \<Rightarrow> real list \<Rightarrow> real list \<Rightarrow> real list \<times> real \<Rightarrow> candidate" where
  "validate num_bins probs pp bid c =
     (case c of (w, r) \<Rightarrow> \<lparr>ca_w = w, ca_sub = r, ca_full = regret_v150 num_bins (avg_probs w probs) pp 150,
        ca_rvbid = regret_vbid_grid num_bins (avg_probs w probs) pp bid\<rparr>)"

definition main_search3 ::
  "(real \<Rightarrow> real) \<Rightarrow> nat \<Rightarrow> saved list \<Rightarrow> real list \<Rightarrow> real list \<Rightarrow> nat list \<Rightarrow>
     real list list \<Rightarrow> real list list list \<Rightarrow> nat \<Rightarrow> search3_out res" where
  "main_search3 erf num_bins files pp bid idx uniform biased top_k =
     (let probs = map (load_member erf num_bins) files; M = length probs;
          sub_probs = map (\<lambda>p. map (\<lambda>i. p ! i) idx) probs; sub_pp = map (\<lambda>i. pp ! i) idx;
          alone = map (\<lambda>p. regret_v150 num_bins p sub_pp 150) sub_probs;
          obj = (\<lambda>w. regret_v150 num_bins (avg_probs w sub_probs) sub_pp 150);
          (best, results) = trial_loop obj uniform None [];
          (best, results) = trial_loop obj (concat biased) best results
      in case best of None \<Rightarrow> Inl AttributeError
         | Some start \<Rightarrow>
             let (best_r, best_w) = greedy obj deltas8 M 4 start;
                 results = sort_key snd results;
                 candidates = take top_k results @ [(best_w, best_r)];
                 full_results = sort_key ca_full (map (validate num_bins probs pp bid) candidates)
             in Inr \<lparr>s3_best = full_results ! 0, s3_top = full_results, s3_results = results, s3_alone = alone\<rparr>)"

section \<open>The refinement\<close>

lemma trial_loop_results: "snd (trial_loop obj ws best results) = results @ map (\<lambda>w. (w, obj w)) ws"
  by (induction ws arbitrary: best results) (simp_all add: Let_def)

definition best_val :: "best \<Rightarrow> ext" where
  "best_val best = (case best of None \<Rightarrow> Infty | Some (r, w) \<Rightarrow> Fin r)"

lemma best_val_simps [simp]: "best_val None = Infty" "best_val (Some (r, w)) = Fin r"
  by (simp_all add: best_val_def)

lemma ext_le_Infty [simp]: "x \<le> Infty"
  by (cases x) simp_all

lemma trial_loop_best:
  "let best' = fst (trial_loop obj ws best results) in
    best_val best' \<le> best_val best \<and> (\<forall>w \<in> set ws. best_val best' \<le> Fin (obj w)) \<and>
    (best' = best \<or> best' \<in> (\<lambda>w. Some (obj w, w)) ` set ws)"
proof (induction ws arbitrary: best results)
  case (Cons w ws)
  let ?better = "case best of None \<Rightarrow> True | Some (best_r, _) \<Rightarrow> obj w < best_r"
  let ?b = "if ?better then Some (obj w, w) else best"
  have b: "best_val ?b \<le> best_val best" "best_val ?b \<le> Fin (obj w)" by (auto split: option.splits)
  show ?case
    using Cons [of ?b "results @ [(w, obj w)]"] order_trans [OF _ b(1)] order_trans [OF _ b(2)]
    by (auto simp: Let_def simp del: best_val_simps split: if_splits)
qed simp

text \<open>A move is rejected when it leaves no weight or does not improve by more than \<open>1e-4\<close>.\<close>

definition rejected :: "(real list \<Rightarrow> real) \<Rightarrow> real \<Rightarrow> real list \<Rightarrow> nat \<times> real \<Rightarrow> bool" where
  "rejected obj r w mv \<longleftrightarrow>
     (let v = bump (fst mv) (snd mv) w in 0 < sum_list v \<longrightarrow> r - 1 / 10 ^ 4 \<le> obj (normalise v))"

lemma greedy_step_cases:
  "rejected obj r w mv \<Longrightarrow> greedy_step obj (r, w, b) mv = (r, w, b)"
  "\<not> rejected obj r w mv \<Longrightarrow> 0 < sum_list (bump (fst mv) (snd mv) w) \<and>
     (let v = normalise (bump (fst mv) (snd mv) w) in greedy_step obj (r, w, b) mv = (obj v, v, True) \<and> obj v < r - 1 / 10 ^ 4)"
  by (auto simp: greedy_step_def rejected_def Let_def split_def)

lemma bump_simplex:
  assumes "simplex M w" and "0 < sum_list (bump i d w)"
  shows "simplex M (normalise (bump i d w))"
proof -
  have "\<forall>x \<in> set (bump i d w). 0 \<le> x"
    using assms(1) set_update_subsetI [of w "{x. 0 \<le> x}" "max 0 (w ! i + d)" i] by (auto simp: bump_def simplex_def)
  then have "row_ok (normalise (bump i d w))" using assms(2) by (rule normalise_ok)
  moreover have "length (bump i d w) = M" using assms(1) by (simp add: simplex_def bump_def)
  ultimately show ?thesis by (simp add: simplex_def row_ok_def)
qed

lemma greedy_pass:
  assumes "foldl (greedy_step obj) (r, w, b) mvs = (r', w', b')" and "simplex M w" and "r = obj w"
  shows "simplex M w' \<and> r' = obj w' \<and>
    (r' = r \<and> w' = w \<and> b' = b \<and> list_all (rejected obj r w) mvs \<or> b' \<and> r' < r - 1 / 10 ^ 4)"
  using assms
proof (induction mvs arbitrary: r w b)
  case (Cons mv mvs)
  show ?case
  proof (cases "rejected obj r w mv")
    case True
    then show ?thesis using Cons greedy_step_cases(1) [OF True, of b] by auto
  next
    case False
    define v where "v = normalise (bump (fst mv) (snd mv) w)"
    have v: "v = normalise (bump (fst mv) (snd mv) w)" "0 < sum_list (bump (fst mv) (snd mv) w)"
      "greedy_step obj (r, w, b) mv = (obj v, v, True)" "obj v < r - 1 / 10 ^ 4"
      using greedy_step_cases(2) [OF False, of b] by (simp_all add: v_def Let_def)
    have "foldl (greedy_step obj) (obj v, v, True) mvs = (r', w', b')" using Cons.prems(1) v(3) by simp
    then show ?thesis
      using Cons.IH [of "obj v" v True] bump_simplex [OF Cons.prems(2) v(2)] v(1,4) by auto
  qed
qed simp

text \<open>
  The weights before, between and after sweeps that each improved the objective: one sweep of the moves
  leads from each of them to the next and gains more than \<open>1e-4\<close>.
\<close>

fun improving_sweeps :: "(real list \<Rightarrow> real) \<Rightarrow> (nat \<times> real) list \<Rightarrow> real list list \<Rightarrow> bool" where
  "improving_sweeps obj mvs [] = False"
| "improving_sweeps obj mvs [w] = True"
| "improving_sweeps obj mvs (w # w' # ws) =
     (foldl (greedy_step obj) (obj w, w, False) mvs = (obj w', w', True) \<and> obj w' < obj w - 1 / 10 ^ 4 \<and>
      improving_sweeps obj mvs (w' # ws))"

lemma improving_sweeps_total:
  "improving_sweeps obj mvs (w # ws) \<Longrightarrow> obj (last (w # ws)) \<le> obj w - real (length ws) / 10 ^ 4"
  by (induction ws arbitrary: w) (fastforce simp: add_divide_distrib)+

lemma greedy_sound:
  assumes "greedy obj ds M n (r, w) = (r', w')" and "simplex M w" and "r = obj w"
  shows "simplex M w' \<and> r' = obj w' \<and>
    (\<exists>ws. improving_sweeps obj (List.product [0..<M] ds) (w # ws) \<and> last (w # ws) = w' \<and>
      (length ws = n \<or> length ws < n \<and> list_all (rejected obj r' w') (List.product [0..<M] ds)))"
  using assms
proof (induction n arbitrary: r w)
  case (Suc n)
  let ?mvs = "List.product [0..<M] ds"
  obtain r1 w1 b where p: "foldl (greedy_step obj) (r, w, False) ?mvs = (r1, w1, b)"
    by (metis prod_cases3)
  note pass = greedy_pass [OF p Suc.prems(2,3)]
  show ?case
  proof (cases b)
    case True
    then have "greedy obj ds M n (r1, w1) = (r', w')" using Suc.prems(1) p by simp
    then obtain ws where ws: "simplex M w'" "r' = obj w'" "improving_sweeps obj ?mvs (w1 # ws)" "last (w1 # ws) = w'"
      "length ws = n \<or> length ws < n \<and> list_all (rejected obj r' w') ?mvs"
      using Suc.IH [of r1 w1] pass by blast
    have "improving_sweeps obj ?mvs (w # w1 # ws)" using ws(3) pass p True Suc.prems(3) by auto
    then show ?thesis using ws by (intro conjI exI [of _ "w1 # ws"]) auto
  next
    case False
    then have "r' = r \<and> w' = w \<and> list_all (rejected obj r w) ?mvs" using Suc.prems(1) p pass by auto
    then show ?thesis using Suc.prems(2,3) by (intro conjI exI [of _ "[]"]) simp_all
  qed
qed (auto intro: exI [of _ "[]"])

section \<open>One objective\<close>

lemma v150_bid_eq:
  assumes "0 \<le> V" and "length p = nb"
  shows "v150_bid nb V p = best_bid_row nb V p"
proof -
  have c: "\<not> \<lceil>V\<rceil> < 0" using assms(1) by simp
  have z: "zero_from \<lceil>V\<rceil> xs = map (\<lambda>i. if i < nat \<lceil>V\<rceil> then xs ! i else 0) [0..<length xs]" for xs
    unfolding zero_from_def Let_def using c by (intro nth_equalityI) (auto simp: nth_append min_def)
  have "zero_from \<lceil>V\<rceil> (map2 (\<lambda>b c. (V - b) * c) (arange nb) (cumsum p)) = expected_profit V (arange nb) (cumsum p)"
    unfolding z
  proof (rule nth_equalityI, goal_cases)
    case (2 i)
    then have "i < nb" using assms(2) by simp
    moreover have "i < nat \<lceil>V\<rceil> \<longrightarrow> \<not> V < real i" "\<not> i < nat \<lceil>V\<rceil> \<longrightarrow> V \<le> real i" by linarith+
    ultimately show ?case using assms(2) by (auto simp: nth_expected_profit)
  qed (simp add: assms(2))
  then show ?thesis by (simp add: v150_bid_def best_bid_row_def)
qed

interpretation map_rows: rowwise "map f" for f
  by unfold_locales simp_all

lemma mdn_to_bins_chunked_eq [simp]: "0 < chunk \<Longrightarrow> mdn_to_bins_chunked erf nb chunk rows = map (mdn_bins_row erf nb) rows"
  using map_rows.chunks_from [of chunk "mdn_bins_row erf nb" rows 0] by (simp add: mdn_to_bins_chunked_def)

lemma regret_v150_grid_eq: "regret_v150_grid nb probs pp V = regret_v150 nb probs pp V"
proof -
  have "map2 f (map g xs) ys = map2 (\<lambda>x y. f (g x) y) xs ys" for f :: "real \<Rightarrow> real \<Rightarrow> real" and g :: "real list \<Rightarrow> real" and xs and ys :: "real list"
    by (simp add: zip_map1 comp_def split_def)
  then show ?thesis
    using map_rows.chunks_from [of 200000 "v150_bid nb V" probs 0] by (simp add: regret_v150_grid_def regret_v150_def)
qed

lemma avg_loop_foldl:
  "length ps \<le> length ws \<Longrightarrow>
    avg_loop ws ps (Some a) = Inr (Some (foldl (\<lambda>avg (v, p). add_rows avg (scale_rows v p)) a (zip ws ps)))"
proof (induction ps arbitrary: ws a)
  case (Cons p ps)
  then show ?case by (cases ws) auto
qed simp

lemma fold_mixed:
  assumes "shaped n nb z" and "\<forall>i < n. \<forall>k < nb. z ! i ! k = 0" and "\<forall>p \<in> set ps. shaped n nb p" and "length ps \<le> length ws"
  shows "foldl (\<lambda>avg (v, p). add_rows avg (scale_rows v p)) z (zip ws ps) = map (mixed_row nb ws ps) [0..<n]"
proof -
  obtain b where b: "avg_loop ws ps (Some z) = Inr (Some b)" "shaped n nb b"
    "\<forall>i < n. \<forall>k < nb. b ! i ! k = z ! i ! k + sum_list (map2 (\<lambda>w p. w * p ! i ! k) ws ps)"
    using avg_loop_Some [OF assms(1,3,4)] by blast
  have "b = map (mixed_row nb ws ps) [0..<n]"
    by (rule matrix_eqI [OF b(2)]) (use b(3) assms(2) in \<open>simp_all add: mixed_row_def\<close>)
  then show ?thesis using b(1) avg_loop_foldl [OF assms(4), of z] by simp
qed

text \<open>Adding a member with weight 0 changes nothing.\<close>

lemma add_zero: "shaped n nb a \<Longrightarrow> shaped n nb p \<Longrightarrow> add_rows a (scale_rows 0 p) = a"
  by (intro matrix_eqI [of n nb]) (simp_all add: nth_add nth_scale)

lemma fold_positive:
  assumes "shaped n nb a" and "\<forall>(v, p) \<in> set vps. 0 \<le> v \<and> shaped n nb p"
  shows "foldl (\<lambda>avg (v, p). if 0 < v then add_rows avg (scale_rows v p) else avg) a vps =
    foldl (\<lambda>avg (v, p). add_rows avg (scale_rows v p)) a vps"
  using assms
proof (induction vps arbitrary: a)
  case (Cons q vps)
  obtain v p where q: "q = (v, p)" by (cases q)
  then have "0 < v \<or> v = 0" "shaped n nb p" using Cons.prems(2) by auto
  then show ?case using Cons by (auto simp: q add_zero)
qed simp

lemma zeros_like_ok:
  assumes "shaped n nb p"
  shows "shaped n nb (zeros_like p)" and "\<forall>i < n. \<forall>k < nb. zeros_like p ! i ! k = 0"
  using assms by (auto simp: zeros_like_def shaped_def)

lemma normalise_clip_id: "sum_list p = 1 \<Longrightarrow> normalise_clip p = p"
proof -
  have "max (1 / 10 ^ 30) (1 :: real) = 1" by (rule max_absorb2) (simp add: divide_le_eq)
  then show "sum_list p = 1 \<Longrightarrow> normalise_clip p = p" by (simp only: normalise_clip_def Let_def div_by_1) simp
qed

text \<open>Members of a search: arrays of \<open>n\<close> distributions.\<close>

definition arrays_ok :: "nat \<Rightarrow> nat \<Rightarrow> real list list list \<Rightarrow> bool" where
  "arrays_ok nb n probs \<longleftrightarrow> 0 < nb \<and> probs \<noteq> [] \<and> (\<forall>p \<in> set probs. shaped n nb p \<and> (\<forall>r \<in> set p. row_ok r))"

definition mixed :: "nat \<Rightarrow> nat \<Rightarrow> real list \<Rightarrow> real list list list \<Rightarrow> real list list" where
  "mixed nb n w probs = map (mixed_row nb w probs) [0..<n]"

lemma mixed_ok:
  assumes "arrays_ok nb n probs" and "simplex (length probs) w" and "p \<in> set (mixed nb n w probs)"
  shows "row_ok p \<and> length p = nb"
  using assms mixed_row_ok [of probs w n nb] by (auto simp: mixed_def arrays_ok_def)

lemma mix_eq:
  assumes "arrays_ok nb n probs" and "simplex (length probs) w"
  shows "mix w probs = mixed nb n w probs" and "avg_probs w probs = mixed nb n w probs"
proof -
  have hd: "shaped n nb (hd probs)" using assms(1) by (simp add: arrays_ok_def)
  note z = zeros_like_ok [OF hd]
  have f: "foldl (\<lambda>avg (v, p). add_rows avg (scale_rows v p)) (zeros_like (hd probs)) (zip w probs) = mixed nb n w probs"
    unfolding mixed_def by (rule fold_mixed [OF z]) (use assms in \<open>auto simp: arrays_ok_def simplex_def\<close>)
  have one: "sum_list p = 1" if "p \<in> set (mixed nb n w probs)" for p
    using mixed_ok [OF assms that] by (simp add: row_ok_def)
  show "mix w probs = mixed nb n w probs"
    unfolding mix_def f using one by (intro map_idI normalise_id)
  have "\<forall>(v, p) \<in> set (zip w probs). 0 \<le> v \<and> shaped n nb p"
    using assms by (auto simp: arrays_ok_def simplex_def dest: set_zip_leftD set_zip_rightD)
  then show "avg_probs w probs = mixed nb n w probs"
    unfolding avg_probs_def fold_positive [OF z(1)] f using one by (simp add: fold_positive [OF z(1)] f map_idI normalise_clip_id)
qed

lemma stream_chunk_eq:
  assumes "arrays_ok nb n probs" and "simplex (length probs) w" and "s < e" and "e \<le> n"
  shows "stream_chunk w probs nb s e = slice s e (mixed nb n w probs)"
proof -
  have len: "length (slice s e [0..<n]) = e - s" using assms(4) by (simp add: slice_def)
  have sh: "\<forall>p \<in> set probs. shaped n nb p" using assms(1) by (simp add: arrays_ok_def)
  have "foldl (\<lambda>avg (v, p). add_rows avg (scale_rows v (slice s e p))) a (zip w probs) =
      foldl (\<lambda>avg (v, p). add_rows avg (scale_rows v p)) a (zip w (map (slice s e) probs))" for a
    by (simp add: zip_map2 foldl_map split_def)
  also have "foldl (\<lambda>avg (v, p). add_rows avg (scale_rows v p)) (replicate (e - s) (replicate nb 0)) (zip w (map (slice s e) probs)) =
      map (mixed_row nb w (map (slice s e) probs)) [0..<e - s]"
    by (rule fold_mixed) (use assms(2) shaped_slice [of n nb _ s e] sh in \<open>auto simp: len simplex_def shaped_def\<close>)
  also have "\<dots> = slice s e (mixed nb n w probs)"
    using mixed_slice [OF sh, of w s e] by (simp add: len mixed_def)
  finally show ?thesis
    unfolding stream_chunk_def using mixed_ok [OF assms(1,2)]
    by (auto simp: slice_def row_ok_def intro!: map_idI normalise_clip_id dest!: in_set_dropD in_set_takeD)
qed

lemma map2_map1: "map2 f (map g xs) ys = map2 (\<lambda>x y. f (g x) y) xs ys"
  by (simp add: zip_map1 comp_def split_def)

lemma streaming_eq:
  assumes "arrays_ok nb n probs" and "simplex (length probs) w" and "length pp = n" and "length bid = n" and "0 < chunk"
  shows "regret_v150_streaming probs w pp nb V chunk = regret_v150 nb (mixed nb n w probs) pp V"
    and "regret_vbid_streaming probs w pp bid nb chunk = regret_vbid_grid nb (mixed nb n w probs) pp bid"
proof -
  let ?m = "mixed nb n w probs"
  have len: "length ?m = n" by (simp add: mixed_def)
  have chunk: "stream_chunk w probs nb s e = slice s e ?m" if "(s, e) \<in> set (chunk_spans_from 0 n chunk)" for s e
    using chunk_spans_bounds [OF that] by (intro stream_chunk_eq [OF assms(1,2)]) auto
  have "concat (map (\<lambda>(s, e). map (v150_bid nb V) (stream_chunk w probs nb s e)) (chunk_spans_from 0 n chunk)) =
      concat (map (\<lambda>(s, e). map (v150_bid nb V) (slice s e ?m)) (chunk_spans_from 0 n chunk))"
    using chunk by (intro arg_cong [where f = concat] map_cong) auto
  then show "regret_v150_streaming probs w pp nb V chunk = regret_v150 nb ?m pp V"
    using map_rows.chunks_from [OF assms(5), of "v150_bid nb V" ?m 0]
    by (simp add: regret_v150_streaming_def regret_v150_def len assms(3) map2_map1)
  let ?f = "\<lambda>(p, v). best_bid_row nb v p"
  have "concat (map (\<lambda>(s, e). map ?f (zip (stream_chunk w probs nb s e) (slice s e bid))) (chunk_spans_from 0 n chunk)) =
      concat (map (\<lambda>(s, e). map ?f (slice s e (zip ?m bid))) (chunk_spans_from 0 n chunk))"
    using chunk by (intro arg_cong [where f = concat] map_cong) (auto simp: zip_slice)
  then show "regret_vbid_streaming probs w pp bid nb chunk = regret_vbid_grid nb ?m pp bid"
    using map_rows.chunks_from [OF assms(5), of ?f "zip ?m bid" 0]
    by (simp add: regret_vbid_streaming_def regret_vbid_grid_def len assms(3,4))
qed

definition saved_ok :: "nat \<Rightarrow> nat \<Rightarrow> saved \<Rightarrow> bool" where
  "saved_ok nb n d =
     (case d of
        SavedMdn rows \<Rightarrow> length rows = n
      | SavedBins probs \<Rightarrow> length probs = n \<and> (\<forall>p \<in> set probs. (\<forall>x \<in> set p. 0 \<le> x) \<and> 1 / 10 ^ 30 \<le> sum_list (take nb p)))"

lemma load_member_ok:
  assumes "0 < nb" and "saved_ok nb n d"
  shows "shaped n nb (load_member erf nb d) \<and> (\<forall>r \<in> set (load_member erf nb d). row_ok r)"
  using assms mdn_bins_row_ok to_bins_ok by (cases d) (auto simp: saved_ok_def shaped_def)

lemma arrays_ok_load:
  assumes "0 < nb" and "files \<noteq> []" and "\<forall>d \<in> set files. saved_ok nb n d"
  shows "arrays_ok nb n (map (load_member erf nb) files)"
  using assms load_member_ok by (auto simp: arrays_ok_def)

lemma map2_pp: "map2 (\<lambda>p x. regret1 (f p) x V) ps pp = regret (map f ps) pp (VScalar V)" if "length pp = length ps"
  using that by (simp add: regret_def map2_map1 zip_map1 comp_def split_def zip_replicate2)

text \<open>
  The three searches minimise the same objective. For weights on the simplex the mean rows of
  \<open>ens_search\<close>, of \<open>ens_search3\<close> and, for every positive chunk size, of \<open>ens_search2\<close> are the weighted
  means of the members' distributions, again distributions, and the regrets computed from them are the
  mean regret of the grid optimizer's bids for the value 150 and for the bidding prices.
\<close>

theorem objectives_agree:
  assumes "0 < nb" and "files \<noteq> []" and "\<forall>d \<in> set files. saved_ok nb (length pp) d" and "simplex (length files) w"
    and "length bid = length pp" and "0 < chunk"
  shows "let probs = map (load_member erf nb) files; m = mixed nb (length pp) w probs in
    list_all (\<lambda>p. row_ok p \<and> length p = nb) m \<and> mix w probs = m \<and> avg_probs w probs = m \<and>
    regret_v150_grid nb m pp 150 = mean (regret (map (\<lambda>p. fst (grid_row (arange nb) (cumsum p) 150)) m) pp (VScalar 150)) \<and>
    regret_v150 nb m pp 150 = regret_v150_grid nb m pp 150 \<and>
    regret_v150_streaming probs w pp nb 150 chunk = regret_v150_grid nb m pp 150 \<and>
    regret_vbid_streaming probs w pp bid nb chunk = regret_vbid_grid nb m pp bid"
proof -
  define probs where "probs = map (load_member erf nb) files"
  let ?m = "mixed nb (length pp) w probs"
  have ok: "arrays_ok nb (length pp) probs" and w: "simplex (length probs) w"
    using arrays_ok_load [OF assms(1-3)] assms(4) by (simp_all add: probs_def)
  have rows: "row_ok p \<and> length p = nb" if "p \<in> set ?m" for p using mixed_ok [OF ok w that] .
  have "v150_bid nb 150 p = fst (grid_row (arange nb) (cumsum p) 150)" if "p \<in> set ?m" for p
    using rows [OF that] v150_bid_eq [of 150 p nb] best_bid_row_eq(1) [of p nb 150] by simp
  then have "map (v150_bid nb 150) ?m = map (\<lambda>p. fst (grid_row (arange nb) (cumsum p) 150)) ?m" by (rule map_cong [OF refl])
  moreover have "regret_v150 nb ?m pp 150 = mean (regret (map (v150_bid nb 150) ?m) pp (VScalar 150))"
    unfolding regret_v150_def by (subst map2_pp) (simp_all add: mixed_def)
  ultimately have "regret_v150 nb ?m pp 150 = mean (regret (map (\<lambda>p. fst (grid_row (arange nb) (cumsum p) 150)) ?m) pp (VScalar 150))"
    by (simp only:)
  then show ?thesis
    using rows mix_eq [OF ok w] streaming_eq [OF ok w refl assms(5,6)]
    by (simp add: Let_def regret_v150_grid_eq list_all_iff flip: probs_def)
qed

theorem objectives_agree_witness:
  "avg_probs [1 / 4, 3 / 4] (map (load_member erf_demo 4) [SavedMdn [mdn_demo], SavedBins [[1, 2]]]) =
    mix [1 / 4, 3 / 4] (map (load_member erf_demo 4) [SavedMdn [mdn_demo], SavedBins [[1, 2]]])"
proof -
  have "simplex (length [SavedMdn [mdn_demo], SavedBins [[1, 2]]]) [1 / 4, 3 / 4]" by (simp add: simplex_def)
  moreover have "\<forall>d \<in> set [SavedMdn [mdn_demo], SavedBins [[1, 2]]]. saved_ok 4 (length [2 :: real]) d"
    by (simp add: saved_ok_def divide_le_eq)
  ultimately show ?thesis
    using objectives_agree [of 4 "[SavedMdn [mdn_demo], SavedBins [[1, 2]]]" "[2]" "[1 / 4, 3 / 4]" "[3]" 1 erf_demo]
    by (simp add: Let_def)
qed

section \<open>What a search finds\<close>

lemma trial_loop_append:
  "trial_loop obj (us @ bs) best results = (case trial_loop obj us best results of (best', results') \<Rightarrow> trial_loop obj bs best' results')"
  by (induction us arbitrary: best results) (simp_all add: Let_def)

text \<open>
  The outcome of a search: weights on the simplex with their regret, not above that of any trial. They are
  reached from a best trial by sweeps that each improved the regret by more than \<open>1e-4\<close>; either these
  were all the sweeps there are, or one more sweep found that no move of a weight improves it by more than
  that.
\<close>

definition search_good :: "(real list \<Rightarrow> real) \<Rightarrow> nat \<Rightarrow> real list \<Rightarrow> nat \<Rightarrow> real list list \<Rightarrow> real \<Rightarrow> real list \<Rightarrow> bool" where
  "search_good obj M deltas sweeps draws r w \<longleftrightarrow>
     simplex M w \<and> r = obj w \<and> (\<forall>v \<in> set draws. r \<le> obj v) \<and>
     (\<exists>w0 \<in> set draws. \<exists>ws. (\<forall>v \<in> set draws. obj w0 \<le> obj v) \<and>
       improving_sweeps obj (List.product [0..<M] deltas) (w0 # ws) \<and> last (w0 # ws) = w \<and>
       (length ws = sweeps \<or> length ws < sweeps \<and> list_all (rejected obj r w) (List.product [0..<M] deltas)))"

lemma search_run:
  assumes "us @ bs \<noteq> []" and "\<forall>w \<in> set (us @ bs). simplex M w"
  obtains b res start r w where "trial_loop obj us None [] = (b, res)"
    and "trial_loop obj bs b res = (Some start, map (\<lambda>w. (w, obj w)) (us @ bs))"
    and "greedy obj ds M n start = (r, w)" and "search_good obj M ds n (us @ bs) r w"
proof -
  obtain b res where b: "trial_loop obj us None [] = (b, res)" by fastforce
  obtain b' res' where b': "trial_loop obj bs b res = (b', res')" by fastforce
  have all: "trial_loop obj (us @ bs) None [] = (b', res')" by (simp add: trial_loop_append b b')
  have res': "res' = map (\<lambda>w. (w, obj w)) (us @ bs)" using trial_loop_results [of obj "us @ bs" None "[]"] by (simp add: all)
  have t: "\<forall>w \<in> set (us @ bs). best_val b' \<le> Fin (obj w)" "b' = None \<or> b' \<in> (\<lambda>w. Some (obj w, w)) ` set (us @ bs)"
    using trial_loop_best [of obj "us @ bs" None "[]"] by (simp_all add: all Let_def)
  obtain v where "v \<in> set (us @ bs)" using assms(1) by (cases "us @ bs") auto
  then have "best_val b' \<le> Fin (obj v)" using t(1) by blast
  then have "b' \<noteq> None" by (cases b') auto
  then obtain w0 where w0: "b' = Some (obj w0, w0)" "simplex M w0" "w0 \<in> set (us @ bs)" using t(2) assms(2) by auto
  obtain r w where g: "greedy obj ds M n (obj w0, w0) = (r, w)" by fastforce
  have le: "obj w0 \<le> obj v" if "v \<in> set (us @ bs)" for v using t(1) that w0(1) by auto
  from greedy_sound [OF g w0(2) refl] obtain ws where ws: "simplex M w" "r = obj w"
    "improving_sweeps obj (List.product [0..<M] ds) (w0 # ws)" "last (w0 # ws) = w"
    "length ws = n \<or> length ws < n \<and> list_all (rejected obj r w) (List.product [0..<M] ds)"
    by blast
  have "r \<le> obj w0" using improving_sweeps_total [OF ws(3)] unfolding ws(4) ws(2) by (rule order_trans) simp
  then have "\<forall>v \<in> set (us @ bs). r \<le> obj v" using le by fastforce
  then have "search_good obj M ds n (us @ bs) r w" unfolding search_good_def using ws le w0(3) by blast
  then show thesis using that b b' res' w0(1) g by blast
qed

text \<open>
  C9: A search of \<open>ens_search\<close> with at least one trial succeeds. It records the regret of every trial; the
  reported weights lie on the simplex, the reported regret is theirs and not above that of any trial. They
  are reached from a trial of least regret by at most three sweeps over the weights and steps that each
  lower the regret by more than \<open>1e-4\<close>, and if fewer than three did, no change of one weight by one of the
  steps lowers it by more than \<open>1e-4\<close>. The second regret is that of the same weights.
\<close>

theorem search_sound:
  assumes "uniform @ biased \<noteq> []" and "\<forall>w \<in> set (uniform @ biased). simplex (length files) w"
  shows "\<exists>out. main_search erf nb files pp bid uniform biased = Inr out \<and>
    (let probs = map (load_member erf nb) files; obj = (\<lambda>w. regret_v150_grid nb (mix w probs) pp 150) in
      so_results out = map (\<lambda>w. (w, obj w)) (uniform @ biased) \<and>
      search_good obj (length files) deltas6 3 (uniform @ biased) (so_r150 out) (so_w out) \<and>
      so_rvbid out = regret_vbid_grid nb (mix (so_w out) probs) pp bid)"
proof -
  define probs where "probs = map (load_member erf nb) files"
  define obj where "obj = (\<lambda>w. regret_v150_grid nb (mix w probs) pp 150)"
  obtain b res start r w where s: "trial_loop obj uniform None [] = (b, res)"
    "trial_loop obj biased b res = (Some start, map (\<lambda>w. (w, obj w)) (uniform @ biased))"
    "greedy obj deltas6 (length files) 3 start = (r, w)" "search_good obj (length files) deltas6 3 (uniform @ biased) r w"
    using search_run [OF assms, of obj deltas6] by blast
  have len: "length probs = length files" by (simp add: probs_def)
  show ?thesis
    unfolding main_search_def Let_def probs_def [symmetric] obj_def [symmetric] len s(1) prod.case s(2) option.case s(3)
    using s(4) by (simp add: obj_def)
qed

theorem search_sound_witness:
  "\<exists>out. main_search erf_demo 4 [SavedMdn [mdn_demo], SavedBins [[1, 2]]] [2] [3] [[1 / 4, 3 / 4]] [] = Inr out \<and> simplex 2 (so_w out)"
proof -
  have "\<forall>w \<in> set ([[1 / 4, 3 / 4]] @ []). simplex (length [SavedMdn [mdn_demo], SavedBins [[1, 2]]]) w" by (simp add: simplex_def)
  then show ?thesis
    using search_sound [of "[[1 / 4, 3 / 4]]" "[]" "[SavedMdn [mdn_demo], SavedBins [[1, 2]]]" erf_demo 4 "[2]" "[3]"]
    by (auto simp: Let_def search_good_def numeral_2_eq_2)
qed

section \<open>The cached search\<close>

lemma trial_loop_cong: "(\<And>w. w \<in> set ws \<Longrightarrow> f w = g w) \<Longrightarrow> trial_loop f ws b r = trial_loop g ws b r"
  by (induction ws arbitrary: b r) (simp_all add: Let_def)

lemma greedy_step_simplex:
  assumes "simplex M w" and "greedy_step f (r, w, b) mv = (r', w', b')"
  shows "simplex M w'"
  using assms bump_simplex [OF assms(1)] by (auto simp: greedy_step_def Let_def not_le split: prod.splits if_splits)

lemma greedy_step_cong:
  assumes "simplex M w" and "\<And>v. simplex M v \<Longrightarrow> f v = g v"
  shows "greedy_step f (r, w, b) mv = greedy_step g (r, w, b) mv"
proof (cases "sum_list (bump (fst mv) (snd mv) w) \<le> 0")
  case False
  then have "f (normalise (bump (fst mv) (snd mv) w)) = g (normalise (bump (fst mv) (snd mv) w))"
    using bump_simplex [OF assms(1)] assms(2) by simp
  then show ?thesis by (simp add: greedy_step_def split_def Let_def)
qed (simp add: greedy_step_def split_def Let_def)

lemma greedy_pass_cong:
  assumes "simplex M w" and "\<And>v. simplex M v \<Longrightarrow> f v = g v"
  shows "foldl (greedy_step f) (r, w, b) mvs = foldl (greedy_step g) (r, w, b) mvs \<and>
    simplex M (fst (snd (foldl (greedy_step f) (r, w, b) mvs)))"
  using assms(1)
proof (induction mvs arbitrary: r w b)
  case (Cons mv mvs)
  obtain r' w' b' where st: "greedy_step f (r, w, b) mv = (r', w', b')" by (metis prod_cases3)
  then have e: "greedy_step g (r, w, b) mv = (r', w', b')"
    using greedy_step_cong [of M w f g r b mv, OF Cons.prems assms(2)] by simp
  show ?case unfolding foldl_Cons st e by (rule Cons.IH [OF greedy_step_simplex [OF Cons.prems st]])
qed simp

lemma greedy_cong:
  assumes "\<And>v. simplex M v \<Longrightarrow> f v = g v" and "simplex M w"
  shows "greedy f ds M n (r, w) = greedy g ds M n (r, w)"
  using assms(2)
proof (induction n arbitrary: r w)
  case (Suc n)
  obtain r' w' b' where p: "foldl (greedy_step f) (r, w, False) (List.product [0..<M] ds) = (r', w', b')" by (metis prod_cases3)
  have "foldl (greedy_step g) (r, w, False) (List.product [0..<M] ds) = (r', w', b') \<and> simplex M w'"
    using greedy_pass_cong [of M w f g r False "List.product [0..<M] ds", OF Suc.prems assms(1)] p by simp
  then show ?case using Suc.IH [of w' r'] p by simp
qed simp

lemma build_cache_paths: "fst (build_cache erf nb rebuild ms fs) = map (\<lambda>(p, d). cache_name p) ms"
  by (induction ms arbitrary: fs) (auto simp: Let_def split_def)

lemma build_cache_other:
  "c \<notin> (\<lambda>(p, d). cache_name p) ` set ms \<Longrightarrow> snd (build_cache erf nb rebuild ms fs) c = fs c"
  by (induction ms arbitrary: fs) (auto simp: Let_def split_def)

lemma build_cache_get:
  assumes "distinct (map (\<lambda>(p, d). cache_name p) ms)" and "rebuild \<or> (\<forall>(p, d) \<in> set ms. fs (cache_name p) = None)"
    and "(p, d) \<in> set ms"
  shows "snd (build_cache erf nb rebuild ms fs) (cache_name p) = Some (load_member erf nb d)"
  using assms
proof (induction ms arbitrary: fs)
  case (Cons q ms)
  obtain p' d' where q: "q = (p', d')" by (cases q)
  let ?fs = "if fs (cache_name p') = None \<or> rebuild then fs(cache_name p' \<mapsto> load_member erf nb d') else fs"
  have new: "cache_name p' \<notin> (\<lambda>(p, d). cache_name p) ` set ms" using Cons.prems(1) by (simp add: q)
  have "snd (build_cache erf nb rebuild (q # ms) fs) = snd (build_cache erf nb rebuild ms ?fs)"
    by (simp add: q Let_def split_def)
  moreover have "?fs (cache_name p') = Some (load_member erf nb d')" using Cons.prems(2) by (auto simp: q)
  moreover have "?fs (cache_name p) = None" if "\<not> rebuild" "(p, d) \<in> set ms" for p d
  proof -
    have "cache_name p \<noteq> cache_name p'" using new that(2) by force
    then show ?thesis using Cons.prems(2) that by (auto simp: q)
  qed
  then have "rebuild \<or> (\<forall>(p, d) \<in> set ms. ?fs (cache_name p) = None)" by blast
  ultimately show ?case
    using Cons.IH [of ?fs] Cons.prems(1,3) build_cache_other [OF new, of erf nb rebuild ?fs] by (auto simp: q)
qed simp

text \<open>The weights that pick one member.\<close>

lemma one_hot:
  assumes "arrays_ok nb n probs" and "i < length probs"
  shows "simplex (length probs) ((replicate (length probs) 0)[i := 1])"
    and "mixed nb n ((replicate (length probs) 0)[i := 1]) probs = probs ! i"
proof -
  let ?w = "(replicate (length probs) 0)[i := 1] :: real list"
  have e: "?w ! m = (if m = i then 1 else 0)" if "m < length probs" for m
    using that assms(2) by (simp add: nth_list_update)
  have pick: "sum_list (map2 (\<lambda>w p. w * f p) ?w probs) = f (probs ! i)" for f :: "real list list \<Rightarrow> real"
  proof -
    have "sum_list (map2 (\<lambda>w p. w * f p) ?w probs) = (\<Sum>m < length probs. ?w ! m * f (probs ! m))"
      by (subst sum_list_map2_nth) simp_all
    also have "\<dots> = (\<Sum>m < length probs. if m = i then f (probs ! m) else 0)" by (rule sum.cong) (simp_all add: e)
    finally show ?thesis using assms(2) by simp
  qed
  have "sum_list ?w = (\<Sum>m < length probs. if m = i then 1 else 0)"
    unfolding sum_list_map_nth by (rule sum.cong) (simp_all add: e)
  then show "simplex (length probs) ?w"
    using assms(2) e by (auto simp: simplex_def in_set_conv_nth)
  have "shaped n nb (probs ! i)" using assms by (simp add: arrays_ok_def)
  then show "mixed nb n ?w probs = probs ! i"
    unfolding mixed_def by (intro matrix_eqI [of n nb]) (simp_all add: mixed_row_def pick)
qed

lemma search_same:
  assumes "arrays_ok nb n (map (load_member erf nb) files)" and "length pp = n" and "length bid = n"
    and "\<forall>w \<in> set (uniform @ concat biased). simplex (length files) w"
    and "map (\<lambda>c. the (snd (build_cache erf nb rebuild ms fs) c)) (fst (build_cache erf nb rebuild ms fs)) = map (load_member erf nb) files"
  shows "main_search2 erf nb rebuild ms fs pp bid uniform biased = main_search erf nb files pp bid uniform (concat biased)"
proof -
  define probs where "probs = map (load_member erf nb) files"
  let ?M = "length probs"
  let ?f = "\<lambda>w. regret_v150_streaming probs w pp nb 150 200000"
  let ?g = "\<lambda>w. regret_v150_grid nb (mix w probs) pp 150"
  note ok = assms(1) [folded probs_def]
  have chunk: "0 < (200000 :: nat)" by simp
  have v: "?f w = ?g w" "regret_vbid_streaming probs w pp bid nb 200000 = regret_vbid_grid nb (mix w probs) pp bid"
    if "simplex ?M w" for w
    using streaming_eq [OF ok that assms(2,3) chunk] mix_eq(1) [OF ok that] by (simp_all add: regret_v150_grid_eq)
  have M: "length (fst (build_cache erf nb rebuild ms fs)) = ?M"
    using arg_cong [OF assms(5), of length] by (simp add: probs_def)
  have alone: "map (\<lambda>i. (?f ((replicate ?M 0)[i := 1]), regret_vbid_streaming probs ((replicate ?M 0)[i := 1]) pp bid nb 200000)) [0..<?M] =
      map (\<lambda>p. (regret_v150_grid nb p pp 150, regret_vbid_grid nb p pp bid)) probs"
  proof (rule nth_equalityI)
    fix i assume "i < length (map (\<lambda>i. (?f ((replicate ?M 0)[i := 1]), regret_vbid_streaming probs ((replicate ?M 0)[i := 1]) pp bid nb 200000)) [0..<?M])"
    then have i: "i < ?M" by simp
    then show "map (\<lambda>i. (?f ((replicate ?M 0)[i := 1]), regret_vbid_streaming probs ((replicate ?M 0)[i := 1]) pp bid nb 200000)) [0..<?M] ! i =
        map (\<lambda>p. (regret_v150_grid nb p pp 150, regret_vbid_grid nb p pp bid)) probs ! i"
      using v [OF one_hot(1) [OF ok i]] mix_eq(1) [OF ok one_hot(1) [OF ok i]] one_hot(2) [OF ok i] by simp
  qed simp
  have draws: "\<forall>w \<in> set (uniform @ concat biased). simplex ?M w" using assms(4) by (simp add: probs_def)
  then have trials: "trial_loop ?f uniform None [] = trial_loop ?g uniform None []"
      "trial_loop ?f (concat biased) b r = trial_loop ?g (concat biased) b r" for b r
    using v(1) by (intro trial_loop_cong; simp)+
  show ?thesis
  proof (cases "uniform @ concat biased = []")
    case True
    then have "uniform = []" and c: "concat biased = []" by auto
    then show ?thesis
      by (simp add: main_search2_def main_search_def Let_def split_def c del: concat_eq_Nil_conv)
  next
    case False
      obtain b res start r w where s: "trial_loop ?g uniform None [] = (b, res)"
      "trial_loop ?g (concat biased) b res = (Some start, map (\<lambda>w. (w, ?g w)) (uniform @ concat biased))"
      "greedy ?g deltas6 ?M 3 start = (r, w)" "search_good ?g ?M deltas6 3 (uniform @ concat biased) r w"
      using search_run [OF False draws, of ?g deltas6] by blast
    have t: "trial_loop ?g (uniform @ concat biased) None [] = (Some start, map (\<lambda>w. (w, ?g w)) (uniform @ concat biased))"
      by (simp add: trial_loop_append s(1,2))
    have "simplex ?M (snd start)"
      using trial_loop_best [of ?g "uniform @ concat biased" None "[]"] draws unfolding t by (auto simp: Let_def)
    then have g: "greedy ?f deltas6 ?M 3 start = (r, w)"
      using greedy_cong [of ?M ?f ?g "snd start" deltas6 3 "fst start"] v(1) s(3) by simp
    have w: "simplex ?M w" using s(4) by (simp add: search_good_def)
    show ?thesis
      unfolding main_search2_def main_search_def Let_def split_def assms(5) M probs_def [symmetric] alone trials
      by (simp add: s(1,2) g s(3) v(2) [OF w])
  qed
qed

text \<open>
  With the same draws \<open>ens_search2\<close> reports exactly what \<open>ens_search\<close> reports - the members alone, the
  trials, the refined weights and both regrets - when the members' directories have different names and
  their arrays are not in the cache or are rebuilt.
\<close>

theorem cached_search_agrees:
  assumes "0 < nb" and "ms \<noteq> []" and "\<forall>(p, d) \<in> set ms. saved_ok nb (length pp) d" and "length bid = length pp"
    and "\<forall>w \<in> set (uniform @ concat biased). simplex (length ms) w"
    and "distinct (map (\<lambda>(p, d). cache_name p) ms)" and "rebuild \<or> (\<forall>(p, d) \<in> set ms. fs (cache_name p) = None)"
  shows "main_search2 erf nb rebuild ms fs pp bid uniform biased =
    main_search erf nb (map snd ms) pp bid uniform (concat biased)"
proof (rule search_same)
  show "arrays_ok nb (length pp) (map (load_member erf nb) (map snd ms))"
    using assms(1-3) by (intro arrays_ok_load) auto
  show "map (\<lambda>c. the (snd (build_cache erf nb rebuild ms fs) c)) (fst (build_cache erf nb rebuild ms fs)) =
      map (load_member erf nb) (map snd ms)"
    unfolding build_cache_paths using build_cache_get [OF assms(6,7), of _ _ erf nb] by auto
qed (use assms(4,5) in simp_all)

theorem cached_search_agrees_witness:
  "main_search2 erf_demo 4 False [(''p/a/x.pt'', SavedMdn [mdn_demo]), (''p/b/x.pt'', SavedBins [[1, 2]])] (\<lambda>_. None) [2] [3] [[1 / 4, 3 / 4]] [] =
    main_search erf_demo 4 [SavedMdn [mdn_demo], SavedBins [[1, 2]]] [2] [3] [[1 / 4, 3 / 4]] []"
proof -
  have "\<forall>(p, d) \<in> set [(''p/a/x.pt'', SavedMdn [mdn_demo]), (''p/b/x.pt'', SavedBins [[1, 2]])]. saved_ok 4 (length [2 :: real]) d"
    by (simp add: saved_ok_def divide_le_eq)
  moreover have "distinct (map (\<lambda>(p, d). cache_name p) [(''p/a/x.pt'', SavedMdn [mdn_demo]), (''p/b/x.pt'', SavedBins [[1, 2]])])"
    by (simp add: cache_name_def basename_def dirname_def path_cut_def Let_def rstrip_def)
  ultimately show ?thesis
    using cached_search_agrees [of 4 "[(''p/a/x.pt'', SavedMdn [mdn_demo]), (''p/b/x.pt'', SavedBins [[1, 2]])]" "[2]" "[3]"
      "[[1 / 4, 3 / 4]]" "[]" False "\<lambda>_. None" erf_demo] by (simp add: simplex_def numeral_2_eq_2)
qed

text \<open>
  Two members whose files lie in directories of the same name share one cached array: a search over both,
  started on an empty cache, is silently the search over the first member taken twice.
\<close>

theorem cache_collision:
  assumes "cache_name p1 = cache_name p2" and "0 < nb" and "saved_ok nb (length pp) d1" and "length bid = length pp"
    and "\<forall>w \<in> set (uniform @ concat biased). simplex 2 w"
  shows "main_search2 erf nb False [(p1, d1), (p2, d2)] (\<lambda>_. None) pp bid uniform biased =
    main_search erf nb [d1, d1] pp bid uniform (concat biased)"
  by (rule search_same)
    (use assms arrays_ok_load [of nb "[d1, d1]" "length pp" erf] in \<open>simp_all add: numeral_2_eq_2 Let_def\<close>)

theorem cache_collision_witness:
  "main_search2 erf_demo 4 False [(''p/a/x.pt'', SavedMdn [mdn_demo]), (''q/a/x.pt'', SavedBins [[1, 2]])] (\<lambda>_. None) [2] [3] [[1 / 4, 3 / 4]] [] =
    main_search erf_demo 4 [SavedMdn [mdn_demo], SavedMdn [mdn_demo]] [2] [3] [[1 / 4, 3 / 4]] []"
proof -
  have "cache_name ''p/a/x.pt'' = cache_name ''q/a/x.pt''"
    by (simp add: cache_name_def basename_def dirname_def path_cut_def Let_def rstrip_def)
  then show ?thesis
    using cache_collision [of "''p/a/x.pt''" "''q/a/x.pt''" 4 "[2]" "SavedMdn [mdn_demo]" "[3]" "[[1 / 4, 3 / 4]]" "[]" erf_demo "SavedBins [[1, 2]]"]
    by (simp add: saved_ok_def simplex_def)
qed

section \<open>The search on a subset\<close>

text \<open>
  A search of \<open>ens_search3\<close> with at least one trial succeeds. Its refined weights are as good on the
  subset as those of the other searches, with four sweeps and eight steps; the validated candidates are
  the \<open>top_k\<close> trials with the least subset regret and the refined weights; and the reported weights have
  the least regret of them on all rows.
\<close>

theorem search3_sound:
  assumes "uniform @ concat biased \<noteq> []" and "\<forall>w \<in> set (uniform @ concat biased). simplex (length files) w"
  shows "\<exists>out r w. main_search3 erf nb files pp bid idx uniform biased top_k = Inr out \<and>
    (let probs = map (load_member erf nb) files; sub = map (\<lambda>p. map (\<lambda>i. p ! i) idx) probs;
         obj = (\<lambda>w. regret_v150 nb (avg_probs w sub) (map (\<lambda>i. pp ! i) idx) 150);
         trials = sort_key snd (map (\<lambda>w. (w, obj w)) (uniform @ concat biased)) in
      search_good obj (length files) deltas8 4 (uniform @ concat biased) r w \<and> s3_results out = trials \<and>
      mset (s3_top out) = image_mset (validate nb probs pp bid) (mset (take top_k trials @ [(w, r)])) \<and>
      s3_best out \<in> set (s3_top out) \<and> list_all (\<lambda>c. ca_full (s3_best out) \<le> ca_full c) (s3_top out))"
proof -
  define probs where "probs = map (load_member erf nb) files"
  define obj where "obj = (\<lambda>w. regret_v150 nb (avg_probs w (map (\<lambda>p. map (\<lambda>i. p ! i) idx) probs)) (map (\<lambda>i. pp ! i) idx) 150)"
  obtain b res start r w where s: "trial_loop obj uniform None [] = (b, res)"
    "trial_loop obj (concat biased) b res = (Some start, map (\<lambda>w. (w, obj w)) (uniform @ concat biased))"
    "greedy obj deltas8 (length files) 4 start = (r, w)" "search_good obj (length files) deltas8 4 (uniform @ concat biased) r w"
    using search_run [OF assms, of obj deltas8] by blast
  have len: "length probs = length files" by (simp add: probs_def)
  define trials where "trials = sort_key snd (map (\<lambda>w. (w, obj w)) (uniform @ concat biased))"
  define top where "top = sort_key ca_full (map (validate nb probs pp bid) (take top_k trials @ [(w, r)]))"
  have "main_search3 erf nb files pp bid idx uniform biased top_k =
      Inr \<lparr>s3_best = top ! 0, s3_top = top, s3_results = trials,
           s3_alone = map (\<lambda>p. regret_v150 nb p (map (\<lambda>i. pp ! i) idx) 150) (map (\<lambda>p. map (\<lambda>i. p ! i) idx) probs)\<rparr>"
    unfolding main_search3_def Let_def probs_def [symmetric] obj_def [symmetric] len s(1) prod.case s(2) option.case s(3)
    by (simp add: top_def trials_def obj_def)
  moreover have "mset top = image_mset (validate nb probs pp bid) (mset (take top_k trials @ [(w, r)]))"
    by (simp add: top_def)
  moreover have ne: "top \<noteq> []" by (simp add: top_def flip: length_0_conv)
  then have "top ! 0 \<in> set top" by simp
  moreover have "ca_full (top ! 0) \<le> ca_full c" if "c \<in> set top" for c
  proof -
    have "sorted (map ca_full top)" by (simp add: top_def)
    moreover obtain k where "k < length top" "c = top ! k" using \<open>c \<in> set top\<close> by (auto simp: in_set_conv_nth)
    ultimately show ?thesis using sorted_nth_mono [of "map ca_full top" 0 k] ne by simp
  qed
  moreover have "regret_v150 nb (avg_probs w (map (\<lambda>p. map (\<lambda>i. p ! i) idx) probs)) (map (\<lambda>i. pp ! i) idx) 150 = obj w" for w
    by (simp add: obj_def)
  moreover have "sort_key snd (map (\<lambda>w. (w, obj w)) uniform @ map (\<lambda>w. (w, obj w)) (concat biased)) = trials"
    by (simp add: trials_def)
  ultimately show ?thesis
    using s(4) unfolding Let_def probs_def [symmetric] obj_def [symmetric]
    by (intro exI conjI) (assumption, simp_all add: list_all_iff)
qed

theorem search3_sound_witness:
  "\<exists>out. main_search3 erf_demo 4 [SavedMdn [mdn_demo], SavedBins [[1, 2]]] [2] [3] [0] [[1 / 4, 3 / 4]] [[[1, 0]]] 1 = Inr out \<and>
    list_all (\<lambda>c. ca_full (s3_best out) \<le> ca_full c) (s3_top out)"
proof -
  have "\<forall>w \<in> set ([[1 / 4, 3 / 4]] @ concat [[[1, 0]]]). simplex (length [SavedMdn [mdn_demo], SavedBins [[1, 2]]]) w"
    by (simp add: simplex_def)
  then show ?thesis
    using search3_sound [of "[[1 / 4, 3 / 4]]" "[[[1, 0]]]" "[SavedMdn [mdn_demo], SavedBins [[1, 2]]]" erf_demo 4 "[2]" "[3]" "[0]" 1]
    unfolding Let_def by blast
qed

end
