(* ===== verification/Reports.thy ===== *)
theory Reports
  imports Binning Outcome
begin

text \<open>
  The scripts that score predictions that were saved or come from another model: \<open>experiments/eval_preds.py\<close>
  and \<open>eval_ckpts_batch.py\<close> (predictions of the networks), \<open>eval_bins_v2.py\<close> (bins with edges of their own),
  \<open>lgbm_eval.py\<close> and \<open>evaluate_lgbm.py\<close> (quantiles of gradient boosting). The columns of one file have one
  row for each auction.
\<close>

section \<open>Saved predictions of a network\<close>

text \<open>The report of \<open>eval_preds\<close>; a file without advertisers gives an empty table.\<close>

record preds_report =
  pv_anlp :: real
  pv_ks :: real
  pv_coverage :: "(real \<times> real) list"
  pv_v150_grid :: real
  pv_v150_newton :: real
  pv_vbid_grid :: real
  pv_vbid_newton :: real
  pv_per_adv :: "(string \<times> real) list"

definition eval_pcts :: "real list" where
  "eval_pcts = [5, 10, 15, 20, 25, 30, 35, 40, 45, 50, 55, 60, 65, 70, 75, 80, 85, 90, 95]"

definition mean_regret_of :: "real list \<Rightarrow> real list \<Rightarrow> real list \<Rightarrow> real" where
  "mean_regret_of bids pp V = mean (regret bids pp (VRows V))"

definition preds_scores ::
  "real \<Rightarrow> real list \<Rightarrow> (real list \<Rightarrow> real list res) \<Rightarrow> (real list \<Rightarrow> real list res) \<Rightarrow> real list \<Rightarrow> real list \<Rightarrow> string list option \<Rightarrow> preds_report res" where
  "preds_scores anlp pit bids_grid bids_newton pp bid adv =
     res_bind (ks_statistic pit) (\<lambda>ks.
     let V150 = replicate (length pp) 150 in
     res_bind (bids_grid V150) (\<lambda>bg150.
     res_bind (bids_newton V150) (\<lambda>bn150.
     res_bind (bids_grid bid) (\<lambda>bg_b.
     res_bind (bids_newton bid) (\<lambda>bn_b.
       Inr \<lparr>pv_anlp = anlp, pv_ks = ks, pv_coverage = coverage_table pit eval_pcts,
            pv_v150_grid = mean_regret_of bg150 pp V150, pv_v150_newton = mean_regret_of bn150 pp V150,
            pv_vbid_grid = mean_regret_of bg_b pp bid, pv_vbid_newton = mean_regret_of bn_b pp bid,
            pv_per_adv = (case adv of None \<Rightarrow> [] | Some a \<Rightarrow> per_advertiser (regret bg150 pp (VRows V150)) a)\<rparr>)))))"

definition eval_preds_bins :: "nat \<Rightarrow> real list preds \<Rightarrow> string list option \<Rightarrow> preds_report res" where
  "eval_preds_bins num_bins d adv =
     preds_scores (- mean (pr_log_prob d)) (map2 (\<lambda>p x. cumsum p ! price_bin (length p) x) (pr_head d) (pr_pp d))
       (\<lambda>V. chunk_bids (grid_chunk_bins num_bins) 16384 (zip (pr_head d) V))
       (\<lambda>V. chunk_bids (newton_chunk_bins num_bins) 16384 (zip (pr_head d) V)) (pr_pp d) (pr_bid d) adv"

definition eval_preds_mdn :: "(real \<Rightarrow> real) \<Rightarrow> mdn_row preds \<Rightarrow> string list option \<Rightarrow> preds_report res" where
  "eval_preds_mdn erf d adv =
     preds_scores (- mean (map2 (-) (pr_log_prob d) (pr_log_pp d)))
       (map2 (\<lambda>r t. let z = map2 (\<lambda>m s. (t - m) / (s * sqrt 2)) (mu r) (sigma r)
                    in sum_list (map2 (*) (softmax (pi_logits r)) (map (\<lambda>z. 1 / 2 * (1 + erf z)) z))) (pr_head d) (pr_log_pp d))
       (\<lambda>V. chunk_bids (grid_chunk_mdn erf 500 300) 16384 (zip (pr_head d) V))
       (\<lambda>V. chunk_bids (newton_chunk_mdn erf 300) 16384 (zip (pr_head d) V)) (pr_pp d) (pr_bid d) adv"

text \<open>The report of \<open>evaluate.py\<close> seen as one of \<open>eval_preds.py\<close>.\<close>

definition report_of :: "eval_result \<Rightarrow> preds_report" where
  "report_of ev = \<lparr>pv_anlp = ev_anlp ev, pv_ks = ev_ks ev, pv_coverage = ev_coverage ev,
     pv_v150_grid = ev_regret_v150 ev, pv_v150_newton = ev_newton_v150 ev, pv_vbid_grid = ev_regret_vbid ev,
     pv_vbid_newton = ev_newton_vbid ev, pv_per_adv = ev_per_adv ev\<rparr>"

lemma eval_preds_alt:
  "eval_preds_bins nb d adv = preds_scores (- mean (pr_log_prob d)) (compute_pit_bins d)
     (\<lambda>V. chunk_bids (grid_chunk_bins nb) 16384 (zip (pr_head d) V))
     (\<lambda>V. chunk_bids (newton_chunk_bins nb) 16384 (zip (pr_head d) V)) (pr_pp d) (pr_bid d) adv"
  "eval_preds_mdn erf d' adv = preds_scores (- mean (map2 (-) (pr_log_prob d') (pr_log_pp d'))) (compute_pit_mdn erf d')
     (\<lambda>V. chunk_bids (grid_chunk_mdn erf 500 300) 16384 (zip (pr_head d') V))
     (\<lambda>V. chunk_bids (newton_chunk_mdn erf 300) 16384 (zip (pr_head d') V)) (pr_pp d') (pr_bid d') adv"
  by (simp_all only: eval_preds_bins_def eval_preds_mdn_def compute_pit_bins_def compute_pit_mdn_def Let_def)

text \<open>
  C26: Scoring saved predictions gives what \<open>evaluate.py\<close> reports for the same predictions, for both kinds of
  networks: likelihood, KS statistic, the four mean regrets and the regrets by advertiser agree, although
  the scripts use other batch sizes.
\<close>

theorem saved_predictions_agree:
  assumes "preds_ok d" and "preds_ok d'" and "0 < nb"
  shows "res_bind (eval_bins nb d adv eval_pcts) (\<lambda>ev. Inr (report_of ev)) = eval_preds_bins nb d (Some adv) \<and>
    res_bind (eval_mdn erf d' adv eval_pcts) (\<lambda>ev. Inr (report_of ev)) = eval_preds_mdn erf d' (Some adv)"
proof -
  have bins: "chunk_bids (grid_chunk_bins nb) b (zip (pr_head d) (spec_values v d)) = grid_chunk_bins nb (zip (pr_head d) (spec_values v d))"
      "chunk_bids (newton_chunk_bins nb) b (zip (pr_head d) (spec_values v d)) = newton_chunk_bins nb (zip (pr_head d) (spec_values v d))"
    if "0 < b" for b v
    by (rule unchunked_bins [OF assms(3) that preds_zip_nonempty [OF assms(1)]])+
  have mdn: "chunk_bids (grid_chunk_mdn erf 500 300) b (zip (pr_head d') (spec_values v d')) =
        grid_chunk_mdn erf 500 300 (zip (pr_head d') (spec_values v d'))"
      "chunk_bids (newton_chunk_mdn erf 300) b (zip (pr_head d') (spec_values v d')) = newton_chunk_mdn erf 300 (zip (pr_head d') (spec_values v d'))"
    if "0 < b" for b v
    by (rule unchunked_mdn [of 500, OF _ that preds_zip_nonempty [OF assms(2)]], simp)+
  have sv: "replicate (length (pr_pp p)) 150 = spec_values (VNumber 150) p" "pr_bid p = spec_values VBidding p" for p :: "'h preds"
    by (simp_all add: spec_values_def)
  define g n where "g v = projr (grid_chunk_bins nb (zip (pr_head d) (spec_values v d)))"
    and "n v = projr (newton_chunk_bins nb (zip (pr_head d) (spec_values v d)))" for v
  then have gb: "grid_chunk_bins nb (zip (pr_head d) (spec_values v d)) = Inr (g v)"
      "newton_chunk_bins nb (zip (pr_head d) (spec_values v d)) = Inr (n v)" for v
    by (simp_all add: grid_chunk_bins_eq newton_chunk_bins_eq assms(3))
  define h m where "h v = projr (grid_chunk_mdn erf 500 300 (zip (pr_head d') (spec_values v d')))"
    and "m v = projr (newton_chunk_mdn erf 300 (zip (pr_head d') (spec_values v d')))" for v
  then have gm: "grid_chunk_mdn erf 500 300 (zip (pr_head d') (spec_values v d')) = Inr (h v)"
      "newton_chunk_mdn erf 300 (zip (pr_head d') (spec_values v d')) = Inr (m v)" for v
    by (simp_all add: grid_chunk_mdn_eq newton_chunk_mdn_eq)
  show ?thesis
  proof (rule conjI)
    show "res_bind (eval_bins nb d adv eval_pcts) (\<lambda>ev. Inr (report_of ev)) = eval_preds_bins nb d (Some adv)"
      unfolding eval_preds_alt
      by (cases "ks_statistic (compute_pit_bins d)")
        (simp_all add: eval_bins_def preds_scores_def report_of_def regret_of_def mean_regret_of_def
          regret_metrics_bins_grid_def regret_bins_newton_def sv bins gb Let_def)
    show "res_bind (eval_mdn erf d' adv eval_pcts) (\<lambda>ev. Inr (report_of ev)) = eval_preds_mdn erf d' (Some adv)"
      unfolding eval_preds_alt
      by (cases "ks_statistic (compute_pit_mdn erf d')")
        (simp_all add: eval_mdn_def preds_scores_def report_of_def regret_of_def mean_regret_of_def
          regret_metrics_mdn_grid_def regret_metrics_mdn_newton_def sv mdn gm Let_def)
  qed
qed

definition demo_bins_preds :: "real list preds" where
  "demo_bins_preds = \<lparr>pr_head = [[1/2, 1/2]], pr_log_prob = [- 1], pr_log_pp = [0], pr_pp = [1], pr_bid = [2]\<rparr>"

definition demo_mdn_preds :: "mdn_row preds" where
  "demo_mdn_preds = \<lparr>pr_head = [mdn_demo], pr_log_prob = [- 1], pr_log_pp = [0], pr_pp = [1], pr_bid = [2]\<rparr>"

theorem saved_predictions_agree_witness:
  "res_bind (eval_bins 2 demo_bins_preds [''a''] eval_pcts) (\<lambda>ev. Inr (report_of ev)) =
      eval_preds_bins 2 demo_bins_preds (Some [''a'']) \<and>
    res_bind (eval_mdn erf_demo demo_mdn_preds [''a''] eval_pcts) (\<lambda>ev. Inr (report_of ev)) =
      eval_preds_mdn erf_demo demo_mdn_preds (Some [''a''])"
  by (rule saved_predictions_agree) (simp_all add: preds_ok_def demo_bins_preds_def demo_mdn_preds_def)

section \<open>Scoring many checkpoints\<close>

text \<open>
  \<open>eval_ckpts_batch.py\<close>. A checkpoint is a network with its kind; the loader is a
  parameter here and added in \<open>Scoring\<close>. The outputs are collected over the test set, the prices come from the
  dataset itself.
\<close>

datatype scored_net = MdnNet mdn_net | BinsNet network nat

datatype saved_preds = SavedMdn "mdn_row preds" "string list" | SavedBins "real list preds" "string list"

definition collect_heads :: "(batch \<Rightarrow> ('h list \<times> real list) res) \<Rightarrow> bid_dataset \<Rightarrow> nat \<Rightarrow> ('h list \<times> real list) res option" where
  "collect_heads out ds bs =
     map_option (\<lambda>batches. res_bind (res_map out batches) (\<lambda>outs.
         if outs = [] then Inl RuntimeError else Inr (concat (map fst outs), concat (map snd outs))))
       (iter_batches ds bs None False)"

record batch_metrics =
  bm_name :: string
  bm_anlp :: real
  bm_ks :: real
  bm_r150 :: real
  bm_rvb :: real

text \<open>Both regrets are computed in one loop over the chunks.\<close>

fun both_loop :: "(('h \<times> real) list \<Rightarrow> real list res) \<Rightarrow> 'h list \<Rightarrow> real list \<Rightarrow> (nat \<times> nat) list
    \<Rightarrow> real list list \<Rightarrow> real list list \<Rightarrow> (real list list \<times> real list list) res" where
  "both_loop opt heads bid [] bids150 bidsvb = Inr (bids150, bidsvb)"
| "both_loop opt heads bid ((i, j) # spans) bids150 bidsvb =
     (let h_b = slice i j heads in
      res_bind (opt (zip h_b (replicate (j - i) 150))) (\<lambda>bb.
      res_bind (opt (zip h_b (slice i j bid))) (\<lambda>bb2.
        both_loop opt heads bid spans (bids150 @ [bb]) (bidsvb @ [bb2]))))"

definition metrics_of :: "string \<Rightarrow> real \<Rightarrow> real list \<Rightarrow> (('h \<times> real) list \<Rightarrow> real list res) \<Rightarrow> 'h list \<Rightarrow> real list \<Rightarrow> real list
    \<Rightarrow> batch_metrics res" where
  "metrics_of name anlp pit opt heads pp bid =
     res_bind (ks_statistic pit) (\<lambda>ks.
     res_bind (both_loop opt heads bid (chunk_spans_from 0 (length pp) 16384) [] []) (\<lambda>(b150, bvb).
       if b150 = [] then Inl RuntimeError
       else Inr \<lparr>bm_name = name, bm_anlp = anlp, bm_ks = ks,
          bm_r150 = mean (regret (concat b150) pp (VRows (replicate (length pp) 150))),
          bm_rvb = mean (regret (concat bvb) pp (VRows bid))\<rparr>))"

text \<open>\<open>compute_metrics\<close> with the predictions it saves; \<open>num_bins\<close> is the width of the tensor.\<close>

definition metrics_mdn :: "(real \<Rightarrow> real) \<Rightarrow> string \<Rightarrow> mdn_row list \<times> real list \<Rightarrow> bid_dataset \<Rightarrow> (batch_metrics \<times> saved_preds) res" where
  "metrics_mdn erf name preds ds =
     (let (rows, log_prob) = preds;
          d = \<lparr>pr_head = rows, pr_log_prob = log_prob, pr_log_pp = ds_log_pp ds, pr_pp = ds_pp ds, pr_bid = ds_bid ds\<rparr> in
      res_bind (metrics_of name (- mean (map2 (-) log_prob (ds_log_pp ds))) (compute_pit_mdn erf d)
          (grid_chunk_mdn erf 500 300) rows (ds_pp ds) (ds_bid ds)) (\<lambda>m. Inr (m, SavedMdn d (ds_adv ds))))"

definition metrics_bins :: "nat \<Rightarrow> string \<Rightarrow> real list list \<times> real list \<Rightarrow> bid_dataset \<Rightarrow> (batch_metrics \<times> saved_preds) res" where
  "metrics_bins num_bins name preds ds =
     (let (probs, log_prob) = preds;
          d = \<lparr>pr_head = probs, pr_log_prob = log_prob, pr_log_pp = ds_log_pp ds, pr_pp = ds_pp ds, pr_bid = ds_bid ds\<rparr> in
      res_bind (metrics_of name (- mean log_prob) (compute_pit_bins d) (grid_chunk_bins num_bins) probs (ds_pp ds) (ds_bid ds))
        (\<lambda>m. Inr (m, SavedBins d (ds_adv ds))))"

text \<open>\<open>os.path\<close>: the part after the last slash, the part before it, and \<open>join\<close>.\<close>

definition path_basename :: "string \<Rightarrow> string" where
  "path_basename p = rev (takeWhile (\<lambda>c. c \<noteq> CHR ''/'') (rev p))"

definition path_dirname :: "string \<Rightarrow> string" where
  "path_dirname p =
     (let h = rev (dropWhile (\<lambda>c. c \<noteq> CHR ''/'') (rev p))
      in if list_all (\<lambda>c. c = CHR ''/'') h then h else rstrip CHR ''/'' h)"

definition path_join :: "string \<Rightarrow> string \<Rightarrow> string" where
  "path_join d f = (if d = [] \<or> last d = CHR ''/'' then d @ f else d @ CHR ''/'' # f)"

text \<open>One checkpoint of the loop of \<open>main\<close>; \<open>None\<close>: the iteration over the batches does not end.\<close>

definition score_ckpt :: "(real \<Rightarrow> real) \<Rightarrow> bid_dataset \<Rightarrow> string \<Rightarrow> scored_net \<Rightarrow> (batch_metrics \<times> saved_preds) res option" where
  "score_ckpt erf ds ck_path m =
     (let name = path_basename (path_dirname ck_path) in
      case m of
        MdnNet n \<Rightarrow> map_option (\<lambda>r. res_bind r (\<lambda>preds. metrics_mdn erf name preds ds)) (collect_heads (mdn_batch_out erf n) ds 8192)
      | BinsNet n nb \<Rightarrow>
          map_option (\<lambda>r. res_bind r (\<lambda>preds. metrics_bins nb name preds ds)) (collect_heads (bins_batch_out erf n nb) ds 8192))"

datatype batch_line = Missing string | Scored batch_metrics

text \<open>The lines printed and the files saved; an exception ends the script.\<close>

fun eval_batch :: "(string \<Rightarrow> scored_net option) \<Rightarrow> (real \<Rightarrow> real) \<Rightarrow> bid_dataset \<Rightarrow> bool \<Rightarrow> string list
    \<Rightarrow> batch_line list \<Rightarrow> (string \<rightharpoonup> saved_preds) \<Rightarrow> (batch_line list \<times> (string \<rightharpoonup> saved_preds)) res option" where
  "eval_batch load erf ds save_preds [] lines files = Some (Inr (lines, files))"
| "eval_batch load erf ds save_preds (ck_path # rest) lines files =
     (case load ck_path of
        None \<Rightarrow> eval_batch load erf ds save_preds rest (lines @ [Missing ck_path]) files
      | Some m \<Rightarrow>
          (case score_ckpt erf ds ck_path m of
             None \<Rightarrow> None
           | Some (Inl e) \<Rightarrow> Some (Inl e)
           | Some (Inr (res, preds)) \<Rightarrow>
               eval_batch load erf ds save_preds rest (lines @ [Scored res])
                 (if save_preds then files(path_join (path_dirname ck_path) ''preds_test.pt'' \<mapsto> preds) else files)))"

text \<open>\<open>eval_preds.py\<close> on a file that the batch saved.\<close>

definition eval_saved :: "(real \<Rightarrow> real) \<Rightarrow> nat \<Rightarrow> saved_preds \<Rightarrow> preds_report res" where
  "eval_saved erf num_bins f = (case f of SavedMdn d adv \<Rightarrow> eval_preds_mdn erf d (Some adv) | SavedBins d adv \<Rightarrow> eval_preds_bins num_bins d (Some adv))"

lemma zip_slice_replicate:
  "i \<le> j \<Longrightarrow> j \<le> length xs \<Longrightarrow> zip (slice i j xs) (replicate (j - i) c) = slice i j (zip xs (replicate (length xs) c))"
  by (simp add: slice_def take_zip drop_zip)

lemma both_loop_eq:
  assumes "\<And>c. opt c = Inr (f c)" and "\<forall>(i, j) \<in> set spans. i \<le> j \<and> j \<le> length heads"
  shows "both_loop opt heads bid spans as bs =
    Inr (as @ map (\<lambda>(i, j). f (slice i j (zip heads (replicate (length heads) 150)))) spans,
         bs @ map (\<lambda>(i, j). f (slice i j (zip heads bid))) spans)"
  using assms(2)
proof (induction spans arbitrary: as bs)
  case (Cons s spans)
  then show ?case
    by (cases s) (simp add: assms(1) zip_slice zip_slice_replicate Let_def)
qed simp

lemma metrics_of_eq:
  assumes "rowwise f" and "\<And>c. opt c = Inr (f c)"
    and "heads \<noteq> []" and "length pp = length heads" and "length bid = length heads"
  shows "metrics_of name anlp pit opt heads pp bid = res_bind (ks_statistic pit) (\<lambda>ks.
    Inr \<lparr>bm_name = name, bm_anlp = anlp, bm_ks = ks,
      bm_r150 = mean_regret_of (f (zip heads (replicate (length pp) 150))) pp (replicate (length pp) 150),
      bm_rvb = mean_regret_of (f (zip heads bid)) pp bid\<rparr>)"
proof -
  let ?sp = "chunk_spans_from 0 (length heads) 16384"
  have ne: "?sp \<noteq> []" using assms(3) by (subst chunk_spans_from.simps) simp
  have sp: "\<forall>(i, j) \<in> set ?sp. i \<le> j \<and> j \<le> length heads"
    using chunk_spans_bounds by (fastforce intro: less_imp_le)
  have b: "both_loop opt heads bid ?sp [] [] =
      Inr (map (\<lambda>(i, j). f (slice i j (zip heads (replicate (length heads) 150)))) ?sp,
           map (\<lambda>(i, j). f (slice i j (zip heads bid))) ?sp)"
    using both_loop_eq [where opt = opt and f = f and as = "[]" and bs = "[]", OF assms(2) sp] by simp
  have c: "concat (map (\<lambda>(i, j). f (slice i j (zip heads V))) ?sp) = f (zip heads V)" if "length V = length heads" for V
    using rowwise.chunks_from [OF assms(1), of 16384 "zip heads V" 0] that by simp
  show ?thesis
    using ne by (simp add: metrics_of_def assms(4) b c assms(5) mean_regret_of_def)
qed

text \<open>The saved file scores like the printed line.\<close>

definition scores_agree :: "batch_metrics \<Rightarrow> preds_report \<Rightarrow> bool" where
  "scores_agree m r \<longleftrightarrow> bm_anlp m = pv_anlp r \<and> bm_ks m = pv_ks r \<and> bm_r150 m = pv_v150_grid r \<and> bm_rvb m = pv_vbid_grid r"

lemma scores_agree_bins:
  assumes "preds_ok d" and "0 < nb" and "pr_pp d = ds_pp ds" "pr_bid d = ds_bid ds" "pr_log_pp d = ds_log_pp ds"
  shows "\<exists>m r. metrics_bins nb name (pr_head d, pr_log_prob d) ds = Inr (m, SavedBins d (ds_adv ds)) \<and>
    bm_name m = name \<and> eval_saved erf nb (SavedBins d (ds_adv ds)) = Inr r \<and> scores_agree m r"
proof -
  have d: "\<lparr>pr_head = pr_head d, pr_log_prob = pr_log_prob d, pr_log_pp = ds_log_pp ds, pr_pp = ds_pp ds, pr_bid = ds_bid ds\<rparr> = d"
    using assms(3-5) by simp
  have len: "length (ds_pp ds) = length (pr_head d)" "length (ds_bid ds) = length (pr_head d)" and ne: "pr_head d \<noteq> []"
    using assms by (simp_all add: preds_ok_def)
  obtain ks where ks: "ks_statistic (compute_pit_bins d) = Inr ks"
    using ne len(1) assms(3) by (auto simp: ks_statistic_def compute_pit_bins_def Let_def)
  have b: "(0 :: nat) < 16384" by simp
  note z = preds_zip_nonempty [OF assms(1)]
  note g = grid_bins_rows.chunk_bids_eq [where h = "grid_chunk_bins nb", OF grid_chunk_bins_eq [OF assms(2)] b z]
  note w = newton_bins_rows.chunk_bids_eq [where h = "newton_chunk_bins nb", OF newton_chunk_bins_eq [OF assms(2)] b z]
  note g150 = g [of "VNumber 150"] and gb = g [of VBidding] and w150 = w [of "VNumber 150"] and wb = w [of VBidding]
  note m = metrics_of_eq [OF grid_bins_rows.rowwise_axioms grid_chunk_bins_eq [OF assms(2)] ne len]
  show ?thesis
    unfolding metrics_bins_def eval_saved_def prod.case Let_def d m eval_preds_alt saved_preds.case preds_scores_def ks
    using g150 gb w150 wb by (simp add: spec_values_def assms(3,4) scores_agree_def)
qed

lemma scores_agree_mdn:
  assumes "preds_ok d" and "pr_pp d = ds_pp ds" "pr_bid d = ds_bid ds" "pr_log_pp d = ds_log_pp ds"
    and "length (pr_log_pp d) = length (pr_head d)"
  shows "\<exists>m r. metrics_mdn erf name (pr_head d, pr_log_prob d) ds = Inr (m, SavedMdn d (ds_adv ds)) \<and>
    bm_name m = name \<and> eval_saved erf nb (SavedMdn d (ds_adv ds)) = Inr r \<and> scores_agree m r"
proof -
  have d: "\<lparr>pr_head = pr_head d, pr_log_prob = pr_log_prob d, pr_log_pp = ds_log_pp ds, pr_pp = ds_pp ds, pr_bid = ds_bid ds\<rparr> = d"
    using assms(2-4) by simp
  have len: "length (ds_pp ds) = length (pr_head d)" "length (ds_bid ds) = length (pr_head d)" and ne: "pr_head d \<noteq> []"
    using assms by (simp_all add: preds_ok_def)
  obtain ks where ks: "ks_statistic (compute_pit_mdn erf d) = Inr ks"
    using ne assms(5) by (auto simp: ks_statistic_def compute_pit_mdn_def Let_def)
  have b: "(0 :: nat) < 16384" "(0 :: nat) < 500" by simp_all
  note z = preds_zip_nonempty [OF assms(1)]
  note g = grid_mdn_rows.chunk_bids_eq [where h = "grid_chunk_mdn erf 500 300", OF grid_chunk_mdn_eq [OF b(2)] b(1) z]
  note w = newton_mdn_rows.chunk_bids_eq [where h = "newton_chunk_mdn erf 300", OF newton_chunk_mdn_eq b(1) z]
  note g150 = g [of "VNumber 150"] and gb = g [of VBidding] and w150 = w [of "VNumber 150"] and wb = w [of VBidding]
  note m = metrics_of_eq [OF grid_mdn_rows.rowwise_axioms grid_chunk_mdn_eq [OF b(2)] ne len]
  show ?thesis
    unfolding metrics_mdn_def eval_saved_def prod.case Let_def d m eval_preds_alt saved_preds.case preds_scores_def ks
    using g150 gb w150 wb by (simp add: spec_values_def assms(2-4) scores_agree_def)
qed

lemma collect_heads_eq:
  "collect_predictions out ds bs = Some (Inr p) \<Longrightarrow> collect_heads out ds bs = Some (Inr (pr_head p, pr_log_prob p))"
proof -
  assume c: "collect_predictions out ds bs = Some (Inr p)"
  then obtain b where b: "iter_batches ds bs None False = Some b" by (auto simp: collect_predictions_def)
  with c obtain outs where o: "res_map out b = Inr outs" by (cases "res_map out b") (auto simp: collect_predictions_def)
  show ?thesis using c by (auto simp: collect_predictions_def collect_heads_def b o split: if_splits)
qed

lemma mdn_batch_out_rows:
  assumes "net_shape vs dims tv td 9 (3 * net_K n) n" and "\<forall>r \<in> set df. row_fits vs tv r" and "set idx \<subseteq> {..<length df}"
  shows "mdn_batch_out erf n (make_batch (BidDataset df) idx) =
    Inr (map (\<lambda>i. mdn_row_of erf n (df ! i)) idx,
         map (\<lambda>i. mdn_log_prob_row (mdn_row_of erf n (df ! i)) (o_log_payprice (df ! i))) idx)"
  by (simp add: mdn_batch_out_def mdn_rows_eq [OF assms] batch_cols [OF assms(3)] mdn_log_prob_def map2_map_map)

definition scored_net_ok :: "('f \<times> nat) list \<Rightarrow> nat \<Rightarrow> scored_net \<Rightarrow> bool" where
  "scored_net_ok vs tv m = (case m of
     MdnNet n \<Rightarrow> \<exists>dims td. net_shape vs dims tv td 9 (3 * net_K n) n
   | BinsNet n nb \<Rightarrow> 0 < nb \<and> (\<exists>dims td. net_shape vs dims tv td 9 nb n))"

fun net_bins :: "scored_net \<Rightarrow> nat" where
  "net_bins (MdnNet n) = 0"
| "net_bins (BinsNet n nb) = nb"

lemma score_ckpt_ok:
  assumes "df \<noteq> []" and "\<forall>r \<in> set df. row_fits vs tv r" and "scored_net_ok vs tv m"
  shows "\<exists>res preds r. score_ckpt erf (BidDataset df) p m = Some (Inr (res, preds)) \<and>
    bm_name res = path_basename (path_dirname p) \<and> eval_saved erf (net_bins m) preds = Inr r \<and> scores_agree res r"
proof (cases m)
  case (MdnNet n)
  then obtain dims td where n: "net_shape vs dims tv td 9 (3 * net_K n) n" using assms(3) by (auto simp: scored_net_ok_def)
  have b: "(0 :: nat) < 8192" by simp
  define d where "d = \<lparr>pr_head = map (\<lambda>i. mdn_row_of erf n (df ! i)) [0..<length df],
      pr_log_prob = map (\<lambda>i. mdn_log_prob_row (mdn_row_of erf n (df ! i)) (o_log_payprice (df ! i))) [0..<length df],
      pr_log_pp = map o_log_payprice df, pr_pp = map o_payprice df, pr_bid = map o_bidding_price df\<rparr>"
  have c: "collect_heads (mdn_batch_out erf n) (BidDataset df) 8192 = Some (Inr (pr_head d, pr_log_prob d))"
    unfolding d_def by (rule collect_heads_eq [OF collect_rows [OF b assms(1) mdn_batch_out_rows [OF n assms(2)]]])
  have "preds_ok d" "length (pr_log_pp d) = length (pr_head d)" using assms(1) by (simp_all add: d_def preds_ok_def)
  moreover have "pr_pp d = ds_pp (BidDataset df)" "pr_bid d = ds_bid (BidDataset df)" "pr_log_pp d = ds_log_pp (BidDataset df)"
    by (simp_all add: d_def BidDataset_def)
  ultimately show ?thesis
    using scores_agree_mdn [of d "BidDataset df" erf "path_basename (path_dirname p)" 0]
    by (auto simp: score_ckpt_def MdnNet c)
next
  case (BinsNet n nb)
  then obtain dims td where n: "net_shape vs dims tv td 9 nb n" and nb: "0 < nb" using assms(3) by (auto simp: scored_net_ok_def)
  have b: "(0 :: nat) < 8192" by simp
  define d where "d = \<lparr>pr_head = map (\<lambda>i. softmax (logits_of erf n (df ! i))) [0..<length df],
      pr_log_prob = map (\<lambda>i. true_bin_log_prob (softmax (logits_of erf n (df ! i))) (price_bin nb (o_payprice (df ! i)))) [0..<length df],
      pr_log_pp = map o_log_payprice df, pr_pp = map o_payprice df, pr_bid = map o_bidding_price df\<rparr>"
  have c: "collect_heads (bins_batch_out erf n nb) (BidDataset df) 8192 = Some (Inr (pr_head d, pr_log_prob d))"
    unfolding d_def by (rule collect_heads_eq [OF collect_rows [OF b assms(1) bins_batch_out_rows [OF n assms(2)]]])
  have "preds_ok d" using assms(1) by (simp add: d_def preds_ok_def)
  moreover have "pr_pp d = ds_pp (BidDataset df)" "pr_bid d = ds_bid (BidDataset df)" "pr_log_pp d = ds_log_pp (BidDataset df)"
    by (simp_all add: d_def BidDataset_def)
  ultimately show ?thesis
    using scores_agree_bins [of d nb "BidDataset df" "path_basename (path_dirname p)" erf] nb
    by (auto simp: score_ckpt_def BinsNet c)
qed

definition saved_path :: "string \<Rightarrow> string" where
  "saved_path p = path_join (path_dirname p) ''preds_test.pt''"

text \<open>What the line of one path must be; \<open>P\<close> tells where its predictions were saved.\<close>

definition line_ok :: "(real \<Rightarrow> real) \<Rightarrow> (string \<Rightarrow> scored_net option) \<Rightarrow> (saved_preds \<Rightarrow> bool) \<Rightarrow> string \<Rightarrow> batch_line \<Rightarrow> bool" where
  "line_ok erf load P p l = (case load p of
     None \<Rightarrow> l = Missing p
   | Some m \<Rightarrow> (\<exists>res preds r. l = Scored res \<and> bm_name res = path_basename (path_dirname p) \<and> P preds \<and>
        eval_saved erf (net_bins m) preds = Inr r \<and> scores_agree res r))"

lemma eval_batch_lines:
  assumes "df \<noteq> []" and "\<forall>r \<in> set df. row_fits vs tv r"
    and "\<forall>p \<in> set paths. \<forall>m. load p = Some m \<longrightarrow> scored_net_ok vs tv m" and "distinct (map saved_path paths)"
  shows "\<exists>ls files'. eval_batch load erf (BidDataset df) sv paths lines files = Some (Inr (lines @ ls, files')) \<and>
    list_all2 (\<lambda>p. line_ok erf load (\<lambda>preds. sv \<longrightarrow> files' (saved_path p) = Some preds) p) paths ls \<and>
    (\<forall>k. k \<notin> set (map saved_path paths) \<longrightarrow> files' k = files k)"
  using assms(3,4)
proof (induction paths arbitrary: lines files)
  case (Cons p paths)
  show ?case
  proof (cases "load p")
    case None
    obtain ls files' where IH: "eval_batch load erf (BidDataset df) sv paths (lines @ [Missing p]) files = Some (Inr ((lines @ [Missing p]) @ ls, files'))"
      "list_all2 (\<lambda>p. line_ok erf load (\<lambda>preds. sv \<longrightarrow> files' (saved_path p) = Some preds) p) paths ls"
      "\<forall>k. k \<notin> set (map saved_path paths) \<longrightarrow> files' k = files k"
      using Cons.IH [of "lines @ [Missing p]" files] Cons.prems by auto
    moreover have "line_ok erf load P p (Missing p)" for P using None by (simp add: line_ok_def)
    ultimately show ?thesis
      using None by (intro exI [of _ "Missing p # ls"] exI [of _ files']) simp
  next
    case (Some m)
    then obtain res preds r where m: "score_ckpt erf (BidDataset df) p m = Some (Inr (res, preds))"
      "bm_name res = path_basename (path_dirname p)" "eval_saved erf (net_bins m) preds = Inr r" "scores_agree res r"
      using score_ckpt_ok [OF assms(1,2), of m erf p] Cons.prems(1) by auto
    let ?f = "if sv then files(saved_path p \<mapsto> preds) else files"
    obtain ls files' where IH: "eval_batch load erf (BidDataset df) sv paths (lines @ [Scored res]) ?f = Some (Inr ((lines @ [Scored res]) @ ls, files'))"
      "list_all2 (\<lambda>p. line_ok erf load (\<lambda>preds. sv \<longrightarrow> files' (saved_path p) = Some preds) p) paths ls"
      "\<forall>k. k \<notin> set (map saved_path paths) \<longrightarrow> files' k = ?f k"
      using Cons.IH [of "lines @ [Scored res]" ?f] Cons.prems by auto
    have "files' (saved_path p) = ?f (saved_path p)" using IH(3) Cons.prems(2) by simp
    then have "line_ok erf load (\<lambda>preds. sv \<longrightarrow> files' (saved_path p) = Some preds) p (Scored res)"
      using m Some by (auto simp: line_ok_def)
    moreover have "eval_batch load erf (BidDataset df) sv (p # paths) lines files = Some (Inr (lines @ (Scored res # ls), files'))"
      using IH(1) Some m(1) by (cases sv) (simp_all add: saved_path_def)
    ultimately show ?thesis
      using IH(2,3) by (intro exI [of _ "Scored res # ls"] exI [of _ files']) auto
  qed
qed auto

text \<open>
  Scoring many checkpoints: on a test set whose rows fit the networks, the batch prints one line for
  each path in order, the missing ones marked and skipped. Each other line is named after the
  directory of its checkpoint, and the predictions saved beside it (if they are saved, and no two
  checkpoints share a directory) score exactly like the printed line when \<open>eval_preds.py\<close> reads them.
\<close>

theorem batch_scores_agree:
  assumes "df \<noteq> []" and "\<forall>r \<in> set df. row_fits vs tv r"
    and "\<forall>p \<in> set paths. \<forall>m. load p = Some m \<longrightarrow> scored_net_ok vs tv m" and "distinct (map saved_path paths)"
  shows "\<exists>lines files. eval_batch load erf (BidDataset df) sv paths [] Map.empty = Some (Inr (lines, files)) \<and>
    list_all2 (\<lambda>p. line_ok erf load (\<lambda>preds. sv \<longrightarrow> files (saved_path p) = Some preds) p) paths lines"
  using eval_batch_lines [OF assms, of erf sv "[]" Map.empty] by auto

theorem batch_scores_agree_witness:
  "\<exists>n lines files. eval_batch (\<lambda>p. if p = ''a/best.pt'' then Some (BinsNet n 4) else None) erf_demo
      (BidDataset [demo_out 1 [] 5]) True [''a/best.pt'', ''b/best.pt''] [] Map.empty = Some (Inr (lines, files)) \<and>
    (\<exists>res preds r. lines = [Scored res, Missing ''b/best.pt''] \<and> bm_name res = ''a'' \<and> files ''a/preds_test.pt'' = Some preds \<and>
      eval_saved erf_demo 4 preds = Inr r \<and> scores_agree res r)"
proof -
  obtain n :: network where n: "net_shape [(City, 3)] (\<lambda>_. Some 2) 5 2 9 4 n"
    using build_network_shape [OF demo_init_matrix, of "[(City, 3)]" "\<lambda>_. Some 2" 5 2 9 "[]" 4] by auto
  let ?load = "\<lambda>p. if p = ''a/best.pt'' then Some (BinsNet n 4) else None"
  have names: "path_basename (path_dirname ''a/best.pt'') = ''a''" "saved_path ''a/best.pt'' = ''a/preds_test.pt''"
    "saved_path ''b/best.pt'' = ''b/preds_test.pt''"
    by (simp_all add: path_basename_def path_dirname_def saved_path_def path_join_def rstrip_def)
  have ok: "scored_net_ok [(City, 3)] 5 (BinsNet n 4)" using n by (auto simp: scored_net_ok_def)
  show ?thesis
    using batch_scores_agree [of "[demo_out 1 [] 5]" "[(City, 3)]" 5 "[''a/best.pt'', ''b/best.pt'']" ?load erf_demo True]
      demo_out_fits [of 1 5] ok
    by (fastforce simp: names line_ok_def list_all2_Cons1)
qed

end
