(* ===== verification/Quantiles.thy ===== *)
theory Quantiles
  imports Reports
begin

text \<open>
  Reports computed from tables of distribution functions on a grid of integer bids: the remapped bins
  of \<open>experiments/eval_bins_v2.py\<close>, and the quantile curves of gradient boosting in
  \<open>evaluate_lgbm.py\<close> and \<open>lgbm_eval.py\<close>, with the inversion of a quantile curve in its looped and its
  vectorised form. Rows of a table are lists, one for each auction.
\<close>

section \<open>Scoring a table\<close>

text \<open>\<open>np.clip(np.round(y).astype(np.int64), 0, num_bins - 1)\<close>.\<close>

definition price_index :: "nat \<Rightarrow> real \<Rightarrow> nat" where
  "price_index num_bins y = nat (clamp 0 (int num_bins - 1) (round_even y))"

text \<open>The bid with the largest profit on the grid, and its regret.\<close>

definition table_bid :: "nat \<Rightarrow> real \<Rightarrow> real list \<Rightarrow> real" where
  "table_bid num_bins V cdf =
     (let bins_arr = arange num_bins;
          profit = map2 (\<lambda>b c. if V < b then 0 else (V - b) * c) bins_arr cdf
      in bins_arr ! argmax profit)"

definition table_regret :: "real \<Rightarrow> real \<Rightarrow> real \<Rightarrow> real" where
  "table_regret best_b V pp =
     (let win = b2r (pp \<le> best_b); realized = win * (V - best_b); perfect = b2r (pp < V) * (V - pp)
      in perfect - realized)"

definition table_regrets :: "nat \<Rightarrow> real list list \<Rightarrow> real list \<Rightarrow> real list \<Rightarrow> real list" where
  "table_regrets num_bins cdf V pp =
     map2 (\<lambda>(c, v) y. table_regret (table_bid num_bins v c) v y) (zip cdf V) pp"

record table_report =
  tb_anlp :: real
  tb_ks :: real
  tb_coverage :: "(real \<times> real) list"
  tb_v150 :: real
  tb_vbid :: real
  tb_per_adv :: "(string \<times> real) list"

definition table_log_prob :: "nat \<Rightarrow> real list list \<Rightarrow> real list \<Rightarrow> real list" where
  "table_log_prob num_bins pdf pp = map2 (\<lambda>p y. ln (max (p ! price_index num_bins y) (1 / 10 ^ 30))) pdf pp"

definition table_pit :: "nat \<Rightarrow> real list list \<Rightarrow> real list \<Rightarrow> real list" where
  "table_pit num_bins cdf pp = map2 (\<lambda>c y. c ! price_index num_bins y) cdf pp"

definition score_table :: "nat \<Rightarrow> real list list \<Rightarrow> real list list \<Rightarrow> real list \<Rightarrow> real list \<Rightarrow> string list \<Rightarrow> real list \<Rightarrow> real
    \<Rightarrow> table_report res" where
  "score_table num_bins cdf pdf pp bid adv pcts V_fixed =
     (let anlp = - mean (table_log_prob num_bins pdf pp); pit = table_pit num_bins cdf pp;
          reg150 = table_regrets num_bins cdf (replicate (length pp) V_fixed) pp;
          reg_b = table_regrets num_bins cdf bid pp
      in res_bind (ks_statistic pit) (\<lambda>ks.
         Inr \<lparr>tb_anlp = anlp, tb_ks = ks, tb_coverage = coverage_table pit pcts, tb_v150 = mean reg150,
              tb_vbid = mean reg_b, tb_per_adv = per_advertiser reg150 adv\<rparr>))"

section \<open>Bins with edges of their own\<close>

text \<open>
  \<open>main\<close> of \<open>eval_bins_v2.py\<close> from the collected probabilities on: the report, and the predictions it
  saves so that the other scripts can use them. Its report has no coverage table.
\<close>

definition eval_bins_v2 :: "real list \<Rightarrow> real list preds \<Rightarrow> string list \<Rightarrow> (table_report \<times> saved_preds) res" where
  "eval_bins_v2 edges d adv =
     (let int_probs = remap_to_integer_probs (pr_head d) edges 301; cdf = map cumsum int_probs in
      res_bind (score_table 301 cdf int_probs (pr_pp d) (pr_bid d) adv [] 150) (\<lambda>r.
        Inr (r, SavedBins (d\<lparr>pr_head := int_probs, pr_log_prob := table_log_prob 301 int_probs (pr_pp d)\<rparr>) adv)))"

section \<open>The table agrees with the optimizer\<close>

lemma table_regret_eq: "table_regret b V pp = regret1 b pp V"
  by (simp add: table_regret_def regret1_def perfect_profit1_def b2r_def Let_def)

lemma table_bid_eq:
  assumes "\<forall>c \<in> set cdf. 0 \<le> c" and "length cdf = nb" and "0 < nb"
  shows "table_bid nb V cdf = fst (grid_row (arange nb) cdf V)"
proof -
  have "arange nb \<noteq> []" using assms(3) by (auto simp: arange_def)
  then show ?thesis
    using grid_row_eq [OF assms(1), of "arange nb" V] assms(2)
    by (simp add: table_bid_def expected_profit_def Let_def)
qed

lemma table_regrets_nonneg: "r \<in> set (table_regrets nb cdf V pp) \<Longrightarrow> 0 \<le> r"
  by (auto simp: table_regrets_def table_regret_eq regret1_nonneg)

lemma price_index_int: "price_index nb (real_of_int k) = price_bin nb (real_of_int k)"
  by (simp add: price_index_def price_bin_def clamp_def trunc_int_def min.commute max.commute)

lemma price_index_less: "0 < nb \<Longrightarrow> price_index nb y < nb"
  by (simp add: price_index_def clamp_def)

lemma cumsum_row_nonneg: "row_ok p \<Longrightarrow> \<forall>c \<in> set (cumsum p). 0 \<le> c"
  using cumsum_nonneg [of p] by (auto simp: row_ok_def in_set_conv_nth)

lemma table_regrets_bins:
  assumes "list_all (\<lambda>p. row_ok p \<and> length p = nb) probs" and "0 < nb" and "length V = length probs" and "length pp = length probs"
  shows "table_regrets nb (map cumsum probs) V pp =
    regret (map (\<lambda>(p, v). fst (grid_row (arange nb) (cumsum p) v)) (zip probs V)) pp (VRows V)"
proof (rule nth_equalityI)
  fix i assume i: "i < length (table_regrets nb (map cumsum probs) V pp)"
  then have n: "i < length probs" using assms(3,4) by (simp add: table_regrets_def)
  have "row_ok (probs ! i)" "length (probs ! i) = nb" using assms(1) n by (simp_all add: list_all_length)
  then show "table_regrets nb (map cumsum probs) V pp ! i =
      regret (map (\<lambda>(p, v). fst (grid_row (arange nb) (cumsum p) v)) (zip probs V)) pp (VRows V) ! i"
    using n assms(2-4) by (simp add: table_regrets_def regret_def table_regret_eq table_bid_eq [OF cumsum_row_nonneg])
qed (use assms(3,4) in \<open>simp add: table_regrets_def regret_def\<close>)

lemma table_pit_bins:
  assumes "list_all (\<lambda>p. length p = nb) (pr_head d)" and "\<forall>y \<in> set (pr_pp d). y \<in> \<int>"
  shows "table_pit nb (map cumsum (pr_head d)) (pr_pp d) = compute_pit_bins d"
proof (rule nth_equalityI)
  fix i assume i: "i < length (table_pit nb (map cumsum (pr_head d)) (pr_pp d))"
  then have n: "i < length (pr_head d)" "i < length (pr_pp d)" by (simp_all add: table_pit_def)
  obtain k where "pr_pp d ! i = real_of_int k" using assms(2) n(2) by (meson Ints_cases nth_mem)
  then show "table_pit nb (map cumsum (pr_head d)) (pr_pp d) ! i = compute_pit_bins d ! i"
    using assms(1) n by (simp add: table_pit_def compute_pit_bins_def list_all_length price_index_int)
qed (simp add: table_pit_def compute_pit_bins_def)

text \<open>
  Evaluating a bins model with edges of its own: when the last edge is within the last price cell and
  prices are whole numbers, the script's own report over the remapped rows (likelihood, KS statistic,
  both grid regrets, regrets by advertiser) is what \<open>eval_preds.py\<close> reports for the predictions it saves.
\<close>

theorem bins_v2_saved_agree:
  assumes "edges_ok K e" and "0 < K" and "e ! K \<le> 601 / 2" and "preds_ok d"
    and "list_all (\<lambda>p. row_ok p \<and> length p = K) (pr_head d)" and "\<forall>y \<in> set (pr_pp d). y \<in> \<int>"
  shows "\<exists>r f rep. eval_bins_v2 e d adv = Inr (r, f) \<and> eval_saved erf 301 f = Inr rep \<and>
    tb_anlp r = pv_anlp rep \<and> tb_ks r = pv_ks rep \<and> tb_v150 r = pv_v150_grid rep \<and> tb_vbid r = pv_vbid_grid rep \<and>
    tb_per_adv r = pv_per_adv rep"
proof -
  define P where "P = map (spread 301 e) (pr_head d)"
  let ?d = "d\<lparr>pr_head := P, pr_log_prob := table_log_prob 301 P (pr_pp d)\<rparr>"
  have rows: "list_all (\<lambda>p. row_ok p \<and> length p = 301) P"
    using spread_ok [OF assms(1,2), of 301] assms(3,5) by (simp add: P_def list_all_iff spread_def)
  have remap: "remap_to_integer_probs (pr_head d) e 301 = P"
    using remap_rows [OF assms(1,2) _ _ assms(5), of 301] assms(3) by (simp add: P_def)
  have len: "length (pr_pp d) = length P" "length (pr_bid d) = length P" and ok: "preds_ok ?d"
    using assms(4) by (simp_all add: P_def preds_ok_def)
  have pit: "table_pit 301 (map cumsum P) (pr_pp d) = compute_pit_bins ?d"
    using table_pit_bins [of 301 ?d] rows assms(6) by (simp add: list_all_iff)
  obtain ks where ks: "ks_statistic (compute_pit_bins ?d) = Inr ks"
    using ok by (auto simp: ks_statistic_def compute_pit_bins_def preds_ok_def Let_def)
  have b: "(0 :: nat) < 16384" "(0 :: nat) < 301" by simp_all
  note z = preds_zip_nonempty [OF ok]
  note g = grid_bins_rows.chunk_bids_eq [where h = "grid_chunk_bins 301", OF grid_chunk_bins_eq [OF b(2)] b(1) z]
  note w = newton_bins_rows.chunk_bids_eq [where h = "newton_chunk_bins 301", OF newton_chunk_bins_eq [OF b(2)] b(1) z]
  note opt = g [of "VNumber 150"] g [of VBidding] w [of "VNumber 150"] w [of VBidding]
  note reg = table_regrets_bins [OF rows b(2)]
  show ?thesis
    unfolding eval_bins_v2_def remap Let_def score_table_def pit ks res_bind.simps eval_saved_def saved_preds.case
      eval_preds_alt preds_scores_def
    using opt reg [of "replicate (length (pr_pp d)) 150" "pr_pp d"] reg [of "pr_bid d" "pr_pp d"] len
    by (simp add: spec_values_def mean_regret_of_def ks)
qed

theorem bins_v2_saved_agree_witness:
  "\<exists>r f rep. eval_bins_v2 [0, 1, 3] demo_bins_preds [''a''] = Inr (r, f) \<and> eval_saved erf_demo 301 f = Inr rep \<and>
    tb_anlp r = pv_anlp rep \<and> tb_ks r = pv_ks rep \<and> tb_v150 r = pv_v150_grid rep \<and> tb_vbid r = pv_vbid_grid rep \<and>
    tb_per_adv r = pv_per_adv rep"
  by (rule bins_v2_saved_agree [of 2]) (simp_all add: edges_ok_def less_2_cases_iff row_ok_def demo_bins_preds_def preds_ok_def)

section \<open>Inverting quantile curves\<close>

text \<open>\<open>np.searchsorted(a, x, side='right')\<close>: binary search for the first entry above \<open>x\<close>.\<close>

function bisect_right :: "real list \<Rightarrow> real \<Rightarrow> nat \<Rightarrow> nat \<Rightarrow> nat" where
  "bisect_right a x lo hi =
     (if lo < hi then
        (let mid = (lo + hi) div 2
         in if x < a ! mid then bisect_right a x lo mid else bisect_right a x (mid + 1) hi)
      else lo)"
  by pat_completeness auto
termination
  by (relation "measure (\<lambda>(a, x, lo, hi). hi - lo)") auto

declare bisect_right.simps [simp del]

definition pad_curve :: "real list \<Rightarrow> real list" where
  "pad_curve quants = - (10 ^ 9) # quants @ [10 ^ 9]"

definition pad_levels :: "real list \<Rightarrow> real list" where
  "pad_levels alphas = 0 # alphas @ [1]"

text \<open>The interpolation at the price \<open>p\<close>, given the number of padded quantiles up to \<open>p\<close>.\<close>

definition curve_level :: "real list \<Rightarrow> real list \<Rightarrow> nat \<Rightarrow> real \<Rightarrow> real" where
  "curve_level alphas quants cnt p =
     (let afull = pad_levels alphas; qfull = pad_curve quants; A = length quants;
          idx = clamp 1 (A + 1) cnt;
          left_q = qfull ! (idx - 1); right_q = qfull ! idx;
          left_a = afull ! (idx - 1); right_a = afull ! idx;
          denom = (if right_q - left_q \<le> 0 then 1 else right_q - left_q);
          frac = clamp 0 1 ((p - left_q) / denom)
      in left_a + frac * (right_a - left_a))"

text \<open>Both versions end alike: clip, make monotone, take differences from 0, clip again.\<close>

definition finish_table :: "real list \<Rightarrow> real list \<times> real list" where
  "finish_table raw =
     (let cdf = running_max (map (clamp 0 1) raw) in (cdf, map (max (1 / 10 ^ 9)) (diffs (0 # cdf))))"

definition quantile_to_cdf_pdf :: "real list \<Rightarrow> real list \<Rightarrow> real list list \<Rightarrow> (real list \<times> real list) list" where
  "quantile_to_cdf_pdf alphas prices_grid quants =
     map (\<lambda>q. finish_table (map (\<lambda>p. curve_level alphas q (bisect_right (pad_curve q) p 0 (length q + 2)) p) prices_grid)) quants"

definition quantile_to_cdf_pdf_vec :: "real list \<Rightarrow> real list \<Rightarrow> real list list \<Rightarrow> (real list \<times> real list) list res" where
  "quantile_to_cdf_pdf_vec alphas prices_grid quants =
     res_bind (chunked (map (\<lambda>q. map (\<lambda>p. curve_level alphas q (length (filter (\<lambda>x. x \<le> p) (pad_curve q))) p) prices_grid)) 50000 quants)
       (\<lambda>cdf. Inr (map finish_table cdf))"

lemma bisect_right_count:
  assumes "sorted a" and "lo \<le> hi" and "hi \<le> length a"
    and "\<And>i. i < lo \<Longrightarrow> a ! i \<le> x" and "\<And>i. hi \<le> i \<Longrightarrow> i < length a \<Longrightarrow> x < a ! i"
  shows "bisect_right a x lo hi = length (filter (\<lambda>q. q \<le> x) a)"
  using assms(2-5)
proof (induction "hi - lo" arbitrary: lo hi rule: less_induct)
  case less
  let ?mid = "(lo + hi) div 2"
  show ?case
  proof (cases "lo < hi")
    case True
    then have mid: "lo \<le> ?mid" "?mid < hi" by simp_all
    show ?thesis
    proof (cases "x < a ! ?mid")
      case lt: True
      have "x < a ! i" if "?mid \<le> i" "i < length a" for i
        using sorted_nth_mono [OF assms(1) that] lt by linarith
      then have "bisect_right a x lo ?mid = length (filter (\<lambda>q. q \<le> x) a)"
        using less.hyps [of ?mid lo] less.prems mid by simp
      then show ?thesis using True lt by (subst bisect_right.simps) (simp add: Let_def)
    next
      case False
      have "a ! i \<le> x" if "i < ?mid + 1" for i
        using sorted_nth_mono [OF assms(1), of i ?mid] that mid less.prems(2) False by simp
      then have "bisect_right a x (?mid + 1) hi = length (filter (\<lambda>q. q \<le> x) a)"
        using less.hyps [of hi "?mid + 1"] less.prems mid by simp
      then show ?thesis using True False by (subst bisect_right.simps) (simp add: Let_def)
    qed
  next
    case False
    then have "lo = hi" using less.prems(1) by simp
    then have "length (filter (\<lambda>q. q \<le> x) a) = lo"
      using less.prems by (intro length_filter_le_eq) simp_all
    then show ?thesis using False by (subst bisect_right.simps) simp
  qed
qed

interpretation level_rows: rowwise "map (\<lambda>q. map (\<lambda>p. curve_level alphas q (length (filter (\<lambda>x. x \<le> p) (pad_curve q))) p) prices)"
  for alphas prices
  by unfold_locales simp_all

text \<open>
  C13: The looped and the vectorised inversion of quantile curves give the same tables, on rows sorted
  within the padding, as both callers provide them: the binary search finds the number of quantiles
  up to the price that the vectorised code counts, and its chunks change nothing.
\<close>

theorem quantile_tables_agree:
  assumes "\<forall>q \<in> set quants. sorted (pad_curve q)"
  shows "quantile_to_cdf_pdf_vec alphas prices quants = Inr (quantile_to_cdf_pdf alphas prices quants)"
proof -
  have "bisect_right (pad_curve q) p 0 (length q + 2) = length (filter (\<lambda>x. x \<le> p) (pad_curve q))" if "q \<in> set quants" for q p
    by (rule bisect_right_count) (use assms that in \<open>auto simp: pad_curve_def\<close>)
  then show ?thesis
    by (simp add: quantile_to_cdf_pdf_vec_def quantile_to_cdf_pdf_def level_rows.chunked_eq)
qed

theorem quantile_tables_agree_witness:
  "quantile_to_cdf_pdf_vec [1/4, 1/2] [0, 5] [[1, 7], [2, 2]] = Inr (quantile_to_cdf_pdf [1/4, 1/2] [0, 5] [[1, 7], [2, 2]])"
  by (rule quantile_tables_agree) (simp add: pad_curve_def)

section \<open>What a proper curve gives\<close>

text \<open>
  Strictly increasing quantiles and levels within the padding. Then the table is the polygon through the
  points (quantile, level), and its cleaning has nothing to do.
\<close>

definition proper_curve :: "real list \<Rightarrow> real list \<Rightarrow> bool" where
  "proper_curve alphas q \<longleftrightarrow> length alphas = length q \<and> sorted_wrt (<) (pad_levels alphas) \<and> sorted_wrt (<) (pad_curve q)"

definition curve_at :: "real list \<Rightarrow> real list \<Rightarrow> real \<Rightarrow> real" where
  "curve_at alphas q p = curve_level alphas q (length (filter (\<lambda>x. x \<le> p) (pad_curve q))) p"

definition segment :: "real list \<Rightarrow> nat \<Rightarrow> real \<Rightarrow> real" where
  "segment xs i t = xs ! i + t * (xs ! Suc i - xs ! i)"

lemma pad_length [simp]: "length (pad_curve q) = length q + 2" "length (pad_levels al) = length al + 2"
  by (simp_all add: pad_curve_def pad_levels_def)

lemma segment_bounds:
  assumes "sorted_wrt (<) xs" and "Suc i < length xs" and "0 \<le> t"
  shows "xs ! i \<le> segment xs i t" and "t < 1 \<Longrightarrow> segment xs i t < xs ! Suc i"
proof -
  have d: "0 < xs ! Suc i - xs ! i" using assms(1,2) by (simp add: sorted_wrt_nth_less)
  then show "xs ! i \<le> segment xs i t" using assms(3) by (simp add: segment_def)
  show "segment xs i t < xs ! Suc i" if "t < 1"
    using mult_strict_right_mono [OF that d] by (simp add: segment_def)
qed

lemma count_segment:
  fixes xs :: "real list"
  assumes "sorted_wrt (<) xs" and "Suc i < length xs" and "xs ! i \<le> p" and "p < xs ! Suc i"
  shows "length (filter (\<lambda>x. x \<le> p) xs) = Suc i"
proof (rule length_filter_le_eq)
  have s: "sorted xs" using assms(1) by (rule strict_sorted_imp_sorted)
  show "xs ! k \<le> p" if "k < Suc i" for k
    using sorted_nth_mono [OF s, of k i] that assms(2,3) by simp
  show "p < xs ! k" if "Suc i \<le> k" "k < length xs" for k
    using sorted_nth_mono [OF s that] assms(4) by linarith
qed (use assms(2) in simp)

lemma curve_at_segment:
  assumes "proper_curve alphas q" and "i \<le> length q" and "0 \<le> t" and "t < 1"
  shows "curve_at alphas q (segment (pad_curve q) i t) = segment (pad_levels alphas) i t"
proof -
  let ?Q = "pad_curve q" and ?L = "pad_levels alphas"
  define p where "p = segment ?Q i t"
  have Q: "sorted_wrt (<) ?Q" and i: "Suc i < length ?Q" using assms(1,2) by (simp_all add: proper_curve_def)
  have cnt: "length (filter (\<lambda>x. x \<le> p) ?Q) = Suc i"
    unfolding p_def using segment_bounds [OF Q i assms(3)] assms(4) by (intro count_segment [OF Q i]) simp_all
  have d: "0 < ?Q ! Suc i - ?Q ! i" using Q i by (simp add: sorted_wrt_nth_less)
  have t: "(p - ?Q ! i) / (?Q ! Suc i - ?Q ! i) = t" using d by (simp add: p_def segment_def)
  have c: "clamp 1 (length q + 1) (Suc i) = Suc i" using assms(2) by (simp add: clamp_def)
  have "curve_at alphas q p = ?L ! i + t * (?L ! Suc i - ?L ! i)"
    unfolding curve_at_def cnt curve_level_def Let_def c diff_Suc_1 using d assms(3,4) by (simp add: t clamp_id)
  then show ?thesis by (simp add: p_def segment_def)
qed

lemma on_segment:
  assumes "sorted_wrt (<) xs" and "xs \<noteq> []" and "hd xs \<le> p" and "p < last xs"
  shows "\<exists>i t. Suc i < length xs \<and> 0 \<le> t \<and> t < 1 \<and> p = segment xs i t"
proof -
  have ex: "p < xs ! (length xs - 1)" using assms by (simp add: last_conv_nth)
  define k where "k = (LEAST k. p < xs ! k)"
  have k: "p < xs ! k" "k \<le> length xs - 1"
    unfolding k_def using ex by (rule LeastI, rule Least_le)
  have "k \<noteq> 0" using k(1) assms(2,3) by (metis hd_conv_nth leD)
  then obtain i where i: "k = Suc i" by (cases k) auto
  have lo: "xs ! i \<le> p" using not_less_Least [of i "\<lambda>k. p < xs ! k"] by (simp add: k_def [symmetric] i)
  define t where "t = (p - xs ! i) / (xs ! Suc i - xs ! i)"
  have "0 < xs ! Suc i - xs ! i" using lo k(1) i by simp
  then have "p = segment xs i t" "0 \<le> t" "t < 1"
    using lo k(1) i by (simp_all add: t_def segment_def)
  moreover have "Suc i < length xs" using k(2) i assms(2) by (cases xs) auto
  ultimately show ?thesis by blast
qed

lemma segment_mono:
  assumes "sorted_wrt (<) xs" and "sorted_wrt (<) ys" and "length ys = length xs" and "Suc i < length xs" and "Suc j < length xs"
    and "0 \<le> s" "s < 1" "0 \<le> t" "t < 1" and "segment xs i s \<le> segment xs j t"
  shows "segment ys i s \<le> segment ys j t"
proof -
  have sx: "sorted xs" and sy: "sorted ys" using assms(1,2) by (simp_all add: strict_sorted_imp_sorted)
  consider "i < j" | "i = j" | "j < i" by linarith
  then show ?thesis
  proof cases
    case 1
    have "segment ys i s \<le> ys ! Suc i" using segment_bounds(2) [OF assms(2), of i s] assms by simp
    also have "\<dots> \<le> ys ! j" using sorted_nth_mono [OF sy, of "Suc i" j] 1 assms by simp
    also have "\<dots> \<le> segment ys j t" using segment_bounds(1) [OF assms(2), of j t] assms by simp
    finally show ?thesis .
  next
    case 2
    have "0 < xs ! Suc i - xs ! i" "0 < ys ! Suc i - ys ! i" using assms by (simp_all add: sorted_wrt_nth_less)
    then show ?thesis using assms(10) 2 by (simp add: segment_def mult_right_mono)
  next
    case 3
    have "segment xs j t < xs ! Suc j" using segment_bounds(2) [OF assms(1), of j t] assms by simp
    also have "\<dots> \<le> xs ! i" using sorted_nth_mono [OF sx, of "Suc j" i] 3 assms by simp
    also have "\<dots> \<le> segment xs i s" using segment_bounds(1) [OF assms(1), of i s] assms by simp
    finally show ?thesis using assms(10) by simp
  qed
qed

lemma curve_polygon:
  assumes "proper_curve alphas q" and "- (10 ^ 9) \<le> p" and "p < 10 ^ 9"
  shows "\<exists>k t. k \<le> length q \<and> 0 \<le> t \<and> t < 1 \<and> p = segment (pad_curve q) k t \<and>
    curve_at alphas q p = segment (pad_levels alphas) k t"
proof -
  obtain k t where kt: "Suc k < length (pad_curve q)" "0 \<le> t" "t < 1" "p = segment (pad_curve q) k t"
    using on_segment [of "pad_curve q" p] assms by (auto simp: proper_curve_def pad_curve_def)
  then have "k \<le> length q" by simp
  then show ?thesis using kt(2-4) curve_at_segment [OF assms(1) _ kt(2,3)] by blast
qed

lemma curve_at_bounds:
  assumes "proper_curve alphas q" and "- (10 ^ 9) \<le> p" and "p < 10 ^ 9"
  shows "0 \<le> curve_at alphas q p \<and> curve_at alphas q p < 1"
proof -
  have L: "sorted_wrt (<) (pad_levels alphas)" and len: "length alphas = length q" using assms(1) by (simp_all add: proper_curve_def)
  obtain k t where kt: "k \<le> length q" "0 \<le> t" "t < 1" "curve_at alphas q p = segment (pad_levels alphas) k t"
    using curve_polygon [OF assms] by blast
  have "pad_levels alphas ! 0 \<le> pad_levels alphas ! k" "pad_levels alphas ! Suc k \<le> pad_levels alphas ! (length alphas + 1)"
    using kt(1) len by (intro sorted_nth_mono [OF strict_sorted_imp_sorted [OF L]]; simp)+
  then have "0 \<le> pad_levels alphas ! k" "pad_levels alphas ! Suc k \<le> 1"
    by (simp_all add: pad_levels_def nth_append)
  then show ?thesis
    using segment_bounds [OF L, of k t] kt len by simp
qed

lemma curve_at_mono:
  assumes "proper_curve alphas q" and "- (10 ^ 9) \<le> p" and "p \<le> p'" and "p' < 10 ^ 9"
  shows "curve_at alphas q p \<le> curve_at alphas q p'"
proof -
  obtain k t where kt: "k \<le> length q" "0 \<le> t" "t < 1" "p = segment (pad_curve q) k t"
    "curve_at alphas q p = segment (pad_levels alphas) k t" using curve_polygon [OF assms(1,2)] assms(3,4) by auto
  obtain k' t' where kt': "k' \<le> length q" "0 \<le> t'" "t' < 1" "p' = segment (pad_curve q) k' t'"
    "curve_at alphas q p' = segment (pad_levels alphas) k' t'" using curve_polygon [OF assms(1), of p'] assms(2-4) by auto
  show ?thesis
    unfolding kt(5) kt'(5)
    by (rule segment_mono [of "pad_curve q"]) (use assms(1,3) kt kt' in \<open>simp_all add: proper_curve_def\<close>)
qed

definition prices_ok :: "real list \<Rightarrow> bool" where
  "prices_ok prices \<longleftrightarrow> sorted prices \<and> (\<forall>p \<in> set prices. - (10 ^ 9) \<le> p \<and> p < 10 ^ 9)"

lemma finish_curve:
  assumes "proper_curve alphas q" and "prices_ok prices"
  shows "finish_table (map (curve_at alphas q) prices) =
    (map (curve_at alphas q) prices, map (max (1 / 10 ^ 9)) (diffs (0 # map (curve_at alphas q) prices)))"
proof -
  have "map (clamp 0 1) (map (curve_at alphas q) prices) = map (curve_at alphas q) prices"
    using curve_at_bounds [OF assms(1)] assms(2) by (fastforce simp: prices_ok_def clamp_id)
  moreover have "sorted (map (curve_at alphas q) prices)"
    using curve_at_mono [OF assms(1)] assms(2) by (auto simp: prices_ok_def sorted_iff_nth_mono)
  ultimately show ?thesis by (simp add: finish_table_def running_max_sorted Let_def del: map_map)
qed

text \<open>
  C14: The table of a proper quantile curve (increasing quantiles with increasing levels) inverts the curve:
  at every price of an increasing grid, the point (price, table entry) lies on the polygon through the
  points (quantile, level), so that the entry at a quantile is its level. The entries increase and the
  code's clipping and running maximum change nothing.
\<close>

theorem quantile_table_inverts:
  assumes "proper_curve alphas q" and "prices_ok prices"
  shows "quantile_to_cdf_pdf alphas prices [q] =
      [(map (curve_at alphas q) prices, map (max (1 / 10 ^ 9)) (diffs (0 # map (curve_at alphas q) prices)))] \<and>
    sorted (map (curve_at alphas q) prices) \<and>
    (\<forall>p \<in> set prices. \<exists>k t. k \<le> length q \<and> 0 \<le> t \<and> t < 1 \<and> p = segment (pad_curve q) k t \<and>
      curve_at alphas q p = segment (pad_levels alphas) k t) \<and>
    (\<forall>k < length q. curve_at alphas q (q ! k) = alphas ! k)"
proof (intro conjI ballI allI impI)
  have Q: "sorted_wrt (<) (pad_curve q)" and len: "length alphas = length q" using assms(1) by (simp_all add: proper_curve_def)
  have "bisect_right (pad_curve q) p 0 (length q + 2) = length (filter (\<lambda>x. x \<le> p) (pad_curve q))" for p
    by (rule bisect_right_count) (simp_all add: strict_sorted_imp_sorted [OF Q])
  then show "quantile_to_cdf_pdf alphas prices [q] =
      [(map (curve_at alphas q) prices, map (max (1 / 10 ^ 9)) (diffs (0 # map (curve_at alphas q) prices)))]"
    using finish_curve [OF assms] by (simp add: quantile_to_cdf_pdf_def curve_at_def [abs_def])
  show "sorted (map (curve_at alphas q) prices)"
    using curve_at_mono [OF assms(1)] assms(2) by (auto simp: prices_ok_def sorted_iff_nth_mono)
  show "\<exists>k t. k \<le> length q \<and> 0 \<le> t \<and> t < 1 \<and> p = segment (pad_curve q) k t \<and>
      curve_at alphas q p = segment (pad_levels alphas) k t" if "p \<in> set prices" for p
    using curve_polygon [OF assms(1)] assms(2) that by (simp add: prices_ok_def)
  show "curve_at alphas q (q ! k) = alphas ! k" if "k < length q" for k
    using curve_at_segment [OF assms(1), of "Suc k" 0] that len
    by (simp add: segment_def pad_curve_def pad_levels_def nth_append)
qed

theorem quantile_table_inverts_witness:
  "fst (hd (quantile_to_cdf_pdf [1/4, 1/2] [5, 10] [[5, 10]])) = [1/4, 1/2]"
proof -
  have "proper_curve [1/4, 1/2] [5, 10]" "prices_ok [5, 10]"
    by (simp_all add: proper_curve_def pad_levels_def pad_curve_def prices_ok_def)
  note t = quantile_table_inverts [OF this]
  have "\<forall>k < 2. curve_at [1/4, 1/2] [5, 10] ([5, 10] ! k) = [1/4, 1/2] ! k" using t by simp
  then have "curve_at [1/4, 1/2] [5, 10] 5 = 1/4" "curve_at [1/4, 1/2] [5, 10] 10 = 1/2"
    by (fastforce simp: less_2_cases_iff)+
  with t show ?thesis by simp
qed

section \<open>The reports over quantile curves\<close>

definition evaluate_lgbm :: "real list list \<Rightarrow> real list \<Rightarrow> real list \<Rightarrow> real list \<Rightarrow> string list \<Rightarrow> nat \<Rightarrow> real \<Rightarrow> table_report res" where
  "evaluate_lgbm quants alphas y bid adv num_bins V_fixed =
     res_bind (quantile_to_cdf_pdf_vec alphas (arange num_bins) quants) (\<lambda>t.
       score_table num_bins (map fst t) (map snd t) y bid adv eval_pcts V_fixed)"

text \<open>
  \<open>lgbm_eval.py\<close> inverts the curves at the boundaries \<open>0, 0.5, 1.5, ...\<close>, normalises the increments, and
  takes the level at the upper boundary of a price as the probability of winning with it.
\<close>

definition lgbm_tables :: "real list \<Rightarrow> nat \<Rightarrow> real list list \<Rightarrow> (real list \<times> real list) list res" where
  "lgbm_tables alphas num_bins quants =
     res_bind (chunked (map (\<lambda>q. map (\<lambda>k. curve_level alphas q (length (filter (\<lambda>x. x \<le> boundary k) (pad_curve q))) (boundary k))
         [0..<num_bins + 1])) 30000 quants)
       (\<lambda>cdf_full. Inr (map (\<lambda>c. let cdf = running_max (map (clamp 0 1) c)
          in (tl cdf, normalise (map (max (1 / 10 ^ 9)) (diffs cdf)))) cdf_full))"

definition score_lgbm :: "real list list \<Rightarrow> real list \<Rightarrow> real list \<Rightarrow> real list \<Rightarrow> string list \<Rightarrow> nat \<Rightarrow> table_report res" where
  "score_lgbm quants alphas y bid adv num_bins =
     res_bind (lgbm_tables alphas num_bins quants) (\<lambda>t.
       score_table num_bins (map fst t) (map snd t) y bid adv eval_pcts 150)"

interpretation boundary_rows: rowwise
  "map (\<lambda>q. map (\<lambda>k. curve_level alphas q (length (filter (\<lambda>x. x \<le> boundary k) (pad_curve q))) (boundary k)) [0..<num_bins + 1])"
  for alphas num_bins
  by unfold_locales simp_all

lemma quantile_cdf_level: "quantile_cdf alphas q b = clamp 0 1 (curve_at alphas q b)"
  by (simp add: quantile_cdf_def curve_at_def curve_level_def pad_curve_def pad_levels_def Let_def)

text \<open>The increments are the binned prediction of the budget experiments.\<close>

lemma lgbm_tables_eq:
  "lgbm_tables alphas nb quants = Inr (map (\<lambda>q.
     (tl (running_max (map (\<lambda>k. quantile_cdf alphas q (boundary k)) [0..<nb + 1])), quantile_bins_row alphas nb q)) quants)"
proof -
  have "0 < (30000 :: nat)" by simp
  note c = boundary_rows.chunked_eq [OF this, of alphas nb quants]
  show ?thesis
    unfolding lgbm_tables_def c res_bind.simps quantile_bins_row_def quantile_cdf_level curve_at_def Let_def
    by (simp only: map_map comp_def)
qed

lemma vec_tables_eq:
  "quantile_to_cdf_pdf_vec alphas prices quants = Inr (map (\<lambda>q. finish_table (map (curve_at alphas q) prices)) quants)"
  by (simp add: quantile_to_cdf_pdf_vec_def level_rows.chunked_eq curve_at_def [abs_def] comp_def)

text \<open>Scoring succeeds on nonempty tables whose entries are levels.\<close>

definition table_ok :: "nat \<Rightarrow> real list \<Rightarrow> real list \<Rightarrow> bool" where
  "table_ok nb cdf pdf \<longleftrightarrow> length cdf = nb \<and> length pdf = nb \<and> (\<forall>c \<in> set cdf. 0 \<le> c \<and> c \<le> 1) \<and>
     (\<forall>p \<in> set pdf. 1 / 10 ^ 30 \<le> p \<and> p \<le> 1)"

lemma table_bid_optimal:
  assumes "\<forall>c \<in> set cdf. 0 \<le> c" and "length cdf = nb" and "b < nb" and "real b \<le> V"
  shows "\<exists>k < nb. table_bid nb V cdf = real k \<and> (V - real b) * cdf ! b \<le> max 0 ((V - real k) * cdf ! k)"
proof -
  let ?e = "expected_profit V (arange nb) cdf"
  have len: "length ?e = nb" using assms(2) by (simp add: expected_profit_def)
  have "length ?e \<noteq> 0" unfolding len using assms(3) by simp
  then have ne: "?e \<noteq> []" by (metis list.size(3))
  let ?k = "argmax ?e"
  have k: "?k < nb" using am.pick_less [OF ne] len by simp
  have "?e ! b \<le> ?e ! ?k" using am.pick_max [of b ?e] len assms(3) by simp
  moreover have "?e ! i = (if V < real i then 0 else (V - real i) * cdf ! i)" if "i < nb" for i
    using that assms(2) by (simp add: expected_profit_def)
  ultimately have "(V - real b) * cdf ! b \<le> max 0 ((V - real ?k) * cdf ! ?k)"
    using k assms(3,4) by (auto split: if_splits)
  moreover have "table_bid nb V cdf = real ?k"
    using k by (simp add: table_bid_def expected_profit_def Let_def)
  ultimately show ?thesis using k by blast
qed

lemma score_table_ok:
  assumes "y \<noteq> []" and "0 < nb" and "length cdf = length y" and "length pdf = length y" and "length bid = length y" and "length adv = length y"
    and "\<forall>i < length y. table_ok nb (cdf ! i) (pdf ! i)"
    and "\<forall>i < length y. \<forall>p \<in> set (pdf ! i). e \<le> p" and "1 / 10 ^ 30 \<le> e"
  shows "\<exists>r. score_table nb cdf pdf y bid adv pcts V = Inr r \<and> 0 \<le> tb_anlp r \<and> tb_anlp r \<le> - ln e \<and>
    1 / (2 * real (length y)) \<le> tb_ks r \<and> tb_ks r \<le> 1 \<and> 0 \<le> tb_v150 r \<and> 0 \<le> tb_vbid r \<and>
    sum_list (map (\<lambda>(a, m). real (length (filter (\<lambda>b. b = a) adv)) * m) (tb_per_adv r)) = real (length y) * tb_v150 r"
proof -
  let ?lp = "table_log_prob nb pdf y" and ?pit = "table_pit nb cdf y"
  let ?reg = "table_regrets nb cdf (replicate (length y) V) y"
  have e: "0 < e" using assms(9) order.strict_trans2 [of 0 "1 / 10 ^ 30 :: real" e] by simp
  have idx: "price_index nb (y ! i) < nb" for i using price_index_less [OF assms(2)] .
  have lp: "ln e \<le> l \<and> l \<le> 0" if l: "l \<in> set ?lp" for l
  proof -
    obtain i where i: "i < length y" "l = ln (max (pdf ! i ! price_index nb (y ! i)) (1 / 10 ^ 30))"
      using l assms(4) by (auto simp: table_log_prob_def in_set_conv_nth)
    let ?p = "pdf ! i ! price_index nb (y ! i)"
    have m: "?p \<in> set (pdf ! i)" using assms(7) i(1) idx by (simp add: table_ok_def)
    then have "e \<le> ?p" "?p \<le> 1" using assms(7,8) i(1) by (auto simp: table_ok_def)
    then have "max ?p (1 / 10 ^ 30) = ?p" "e \<le> ?p" "?p \<le> 1" using assms(9) by simp_all
    then show ?thesis using i(2) e by simp
  qed
  have "length ?lp = length y" using assms(4) by (simp add: table_log_prob_def)
  then have ne: "?lp \<noteq> []" using assms(1) by (metis length_0_conv)
  have nll: "ln e \<le> mean ?lp \<and> mean ?lp \<le> 0"
    by (rule mean_bounds [OF ne]) (rule lp)
  have pit: "\<forall>v \<in> set ?pit. 0 \<le> v \<and> v \<le> 1" "length ?pit = length y"
  proof -
    have "0 \<le> v \<and> v \<le> 1" if v: "v \<in> set ?pit" for v
    proof -
      obtain i where i: "i < length y" "v = cdf ! i ! price_index nb (y ! i)"
        using v assms(3) by (auto simp: table_pit_def in_set_conv_nth)
      then have "v \<in> set (cdf ! i)" using assms(7) idx by (simp add: table_ok_def)
      then show ?thesis using assms(7) i(1) by (simp add: table_ok_def)
    qed
    then show "\<forall>v \<in> set ?pit. 0 \<le> v \<and> v \<le> 1" by blast
    show "length ?pit = length y" using assms(3) by (simp add: table_pit_def)
  qed
  obtain ks where ks: "ks_statistic ?pit = Inr ks"
    using pit(2) assms(1) by (simp add: ks_statistic_def Let_def)
  have len: "length ?reg = length y" using assms(3) by (simp add: table_regrets_def)
  have "sum_list (map (\<lambda>(a, m). real (length (filter (\<lambda>b. b = a) adv)) * m) (per_advertiser ?reg adv)) = real (length y) * mean ?reg"
    using per_advertiser_total [of ?reg adv] mean_times_length [of ?reg] len assms(6) by (simp add: mult.commute)
  then show ?thesis
    using nll ks_lower [OF ks, unfolded pit(2)] ks_upper [OF ks pit(1)]
      mean_nonneg [of ?reg] mean_nonneg [of "table_regrets nb cdf bid y"] table_regrets_nonneg
    by (auto simp: score_table_def ks Let_def)
qed

lemma arange_prices_ok: "nb \<le> 10 ^ 9 \<Longrightarrow> prices_ok (arange nb)"
  by (auto simp: prices_ok_def arange_def sorted_iff_nth_mono simp flip: of_nat_less_iff)

lemma finish_table_ok:
  assumes "proper_curve alphas q" and "nb \<le> 10 ^ 9"
  shows "table_ok nb (fst (finish_table (map (curve_at alphas q) (arange nb)))) (snd (finish_table (map (curve_at alphas q) (arange nb))))"
    and "\<forall>p \<in> set (snd (finish_table (map (curve_at alphas q) (arange nb)))). 1 / 10 ^ 9 \<le> p"
proof -
  let ?c = "map (curve_at alphas q) (arange nb)"
  note pr = arange_prices_ok [OF assms(2)]
  have c: "0 \<le> x \<and> x \<le> 1" if "x \<in> set ?c" for x
    using that curve_at_bounds [OF assms(1)] pr by (fastforce simp: prices_ok_def)
  have "y - x \<le> 1" if "(x, y) \<in> set (zip (0 # ?c) ?c)" for x y
    using set_zip_leftD [OF that] c [OF set_zip_rightD [OF that]] c by fastforce
  then have d: "\<forall>p \<in> set (map (max (1 / 10 ^ 9)) (diffs (0 # ?c))). p \<le> 1"
    by (fastforce simp: diffs_def)
  have lower: "1 / 10 ^ 30 \<le> (1 / 10 ^ 9 :: real)" by simp
  have m: "1 / 10 ^ 9 \<le> p" if "p \<in> set (map (max (1 / 10 ^ 9)) (diffs (0 # ?c)))" for p
    using that unfolding set_map by (elim imageE) (simp only: max.cobounded1)
  have "length (map (max (1 / 10 ^ 9)) (diffs (0 # ?c))) = nb" "length ?c = nb" by simp_all
  then show "table_ok nb (fst (finish_table ?c)) (snd (finish_table ?c))"
    unfolding finish_curve [OF assms(1) pr] fst_conv snd_conv table_ok_def
    using c d order.trans [OF lower m] by blast
  show "\<forall>p \<in> set (snd (finish_table ?c)). 1 / 10 ^ 9 \<le> p"
    unfolding finish_curve [OF assms(1) pr] snd_conv using m by blast
qed

text \<open>
  The report of a proper family of quantile curves on a nonempty test set always succeeds: the
  negative log likelihood lies between 0 and 9 ln 10, the KS statistic between 1/(2n) and 1, both mean
  regrets are nonnegative, and the regrets by advertiser, weighted by their rows, add up. The bid of
  each row is a grid price that no price up to the value beats in expected profit \<open>(V - b) * F(b)\<close>.
\<close>

theorem lgbm_report_sound:
  assumes "y \<noteq> []" and "0 < nb" and "nb \<le> 10 ^ 9" and "length quants = length y" and "length bid = length y" and "length adv = length y"
    and "\<forall>q \<in> set quants. proper_curve alphas q"
  shows "(\<exists>r. evaluate_lgbm quants alphas y bid adv nb V = Inr r \<and> 0 \<le> tb_anlp r \<and> tb_anlp r \<le> 9 * ln 10 \<and>
      1 / (2 * real (length y)) \<le> tb_ks r \<and> tb_ks r \<le> 1 \<and> 0 \<le> tb_v150 r \<and> 0 \<le> tb_vbid r \<and>
      sum_list (map (\<lambda>(a, m). real (length (filter (\<lambda>b. b = a) adv)) * m) (tb_per_adv r)) = real (length y) * tb_v150 r) \<and>
    (\<forall>q \<in> set quants. \<forall>b < nb. real b \<le> V \<longrightarrow>
      (\<exists>k < nb. table_bid nb V (map (curve_at alphas q) (arange nb)) = real k \<and>
        (V - real b) * curve_at alphas q (real b) \<le> max 0 ((V - real k) * curve_at alphas q (real k))))"
proof (intro conjI ballI allI impI)
  let ?t = "map (\<lambda>q. finish_table (map (curve_at alphas q) (arange nb))) quants"
  have q: "proper_curve alphas (quants ! i)" if "i < length y" for i using assms(4,7) that by simp
  have l: "ln (1 / 10 ^ 9 :: real) = - (9 * ln 10)"
  proof -
    have "ln (inverse ((10 :: real) ^ 9)) = - ln ((10 :: real) ^ 9)" by (simp only: ln_inverse)
    also have "ln ((10 :: real) ^ 9) = real 9 * ln 10" by (rule ln_realpow)
    finally show ?thesis by (simp only: inverse_eq_divide of_nat_numeral)
  qed
  have "\<exists>r. score_table nb (map fst ?t) (map snd ?t) y bid adv eval_pcts V = Inr r \<and> 0 \<le> tb_anlp r \<and> tb_anlp r \<le> - ln (1 / 10 ^ 9) \<and>
      1 / (2 * real (length y)) \<le> tb_ks r \<and> tb_ks r \<le> 1 \<and> 0 \<le> tb_v150 r \<and> 0 \<le> tb_vbid r \<and>
      sum_list (map (\<lambda>(a, m). real (length (filter (\<lambda>b. b = a) adv)) * m) (tb_per_adv r)) = real (length y) * tb_v150 r"
    by (rule score_table_ok) (use assms finish_table_ok [OF q assms(3)] in simp_all)
  then show "\<exists>r. evaluate_lgbm quants alphas y bid adv nb V = Inr r \<and> 0 \<le> tb_anlp r \<and> tb_anlp r \<le> 9 * ln 10 \<and>
      1 / (2 * real (length y)) \<le> tb_ks r \<and> tb_ks r \<le> 1 \<and> 0 \<le> tb_v150 r \<and> 0 \<le> tb_vbid r \<and>
      sum_list (map (\<lambda>(a, m). real (length (filter (\<lambda>b. b = a) adv)) * m) (tb_per_adv r)) = real (length y) * tb_v150 r"
    unfolding evaluate_lgbm_def vec_tables_eq res_bind.simps l minus_minus .
  fix q b assume qb: "q \<in> set quants" "b < nb" "real b \<le> V"
  let ?c = "map (curve_at alphas q) (arange nb)"
  have "\<forall>c \<in> set ?c. 0 \<le> c"
    using curve_at_bounds [of alphas q] assms(7) qb(1) arange_prices_ok [OF assms(3)] by (fastforce simp: prices_ok_def)
  then obtain k where "k < nb" "table_bid nb V ?c = real k" "(V - real b) * ?c ! b \<le> max 0 ((V - real k) * ?c ! k)"
    using table_bid_optimal [of ?c nb b V] qb(2,3) by auto
  then show "\<exists>k < nb. table_bid nb V ?c = real k \<and>
      (V - real b) * curve_at alphas q (real b) \<le> max 0 ((V - real k) * curve_at alphas q (real k))"
    using qb(2) by auto
qed

theorem lgbm_report_sound_witness:
  "\<exists>r. evaluate_lgbm [[5, 10], [2, 7]] [1/4, 1/2] [6, 3] [100, 80] [''a'', ''b''] 300 150 = Inr r \<and> tb_ks r \<le> 1 \<and> 1 / 4 \<le> tb_ks r"
proof -
  have "\<forall>q \<in> set [[5, 10], [2, 7]]. proper_curve [1/4, 1/2] q"
    by (simp add: proper_curve_def pad_levels_def pad_curve_def)
  then show ?thesis
    using lgbm_report_sound [of "[6, 3]" 300 "[[5, 10], [2, 7]]" "[100, 80]" "[''a'', ''b'']" "[1/4, 1/2]" 150] by auto
qed

end
