(* ===== verification/Boosting.thy ===== *)
theory Boosting
  imports Quantiles Outcome
begin

text \<open>
  The gradient boosting baselines: one quantile model for each level, kept as files that a later run
  reuses (\<open>experiments/lgbm_baseline.py\<close>), their evaluation from whatever files exist (\<open>lgbm_eval.py\<close>), and
  the point regression whose prediction is the bid (\<open>lgbm_reg.py\<close>). LightGBM is a parameter: \<open>fit\<close> trains a
  model for a level or fails, \<open>predict\<close> gives the prediction of a model for one row. A directory lists
  its files with the models they hold.
\<close>

section \<open>Features of a row\<close>

definition CAT_FEATS :: "cat_feat list" where
  "CAT_FEATS = [Region, City, Domain, AdExchange, SlotWidth, SlotHeight, SlotVisibility, SlotFormat, AdvertiserId]"

text \<open>
  The index columns are picked by name from a frame whose columns come in the order \<open>cat_features\<close>; the
  continuous ones follow.
\<close>

definition lgb_row :: "cat_feat list \<Rightarrow> out_row \<Rightarrow> (nat list \<times> real list) res" where
  "lgb_row cat_features r =
     res_bind (res_map (\<lambda>c. case map_of (zip cat_features (o_cat r)) c of None \<Rightarrow> Inl KeyError | Some i \<Rightarrow> Inr i) CAT_FEATS)
       (\<lambda>idx. Inr (idx, [o_has_floor_price r, o_log_floor_price r, o_slot_area r, o_tag_count r, o_hour_sin r, o_hour_cos r,
          o_weekday_sin r, o_weekday_cos r, o_is_weekend r]))"

record lgb_frame =
  lf_X :: "(nat list \<times> real list) list"
  lf_y :: "real list"
  lf_bid :: "real list"
  lf_adv :: "string list"
  lf_extras :: "(int \<times> int) option list"

definition load_features :: "cat_feat list \<Rightarrow> out_row list \<Rightarrow> lgb_frame res" where
  "load_features cat_features df =
     res_bind (res_map (lgb_row cat_features) df) (\<lambda>X.
       Inr \<lparr>lf_X = X, lf_y = map o_payprice df, lf_bid = map o_bidding_price df, lf_adv = map o_advertiser_id df,
            lf_extras = map o_extra df\<rparr>)"

section \<open>Model files\<close>

type_synonym 'b dir = "(string \<times> 'b) list"

definition pad2 :: "string \<Rightarrow> string" where
  "pad2 s = (if length s < 2 then CHR ''0'' # s else s)"

text \<open>\<open>f'q{int(round(a*100)):02d}.txt'\<close>\<close>

definition model_file :: "real \<Rightarrow> string" where
  "model_file a = ''q'' @ pad2 (str_int (round_even (a * 100))) @ ''.txt''"

text \<open>\<open>--alphas\<close>: comma-separated numbers.\<close>

definition parse_alphas :: "(string \<Rightarrow> real res) \<Rightarrow> string \<Rightarrow> real list res" where
  "parse_alphas to_float s = res_map (\<lambda>x. to_float (strip x)) (split_on CHR '','' s)"

text \<open>
  The loop over the levels: a saved model is reused, a new one is trained and saved. An exception ends the
  script and leaves the files saved so far.
\<close>

fun fit_levels :: "(real \<Rightarrow> 'b res) \<Rightarrow> real list \<Rightarrow> 'b dir \<Rightarrow> 'b list \<Rightarrow> 'b list res \<times> 'b dir" where
  "fit_levels fit [] dir bs = (Inr bs, dir)"
| "fit_levels fit (a # as) dir bs =
     (let save_path = model_file a in
      case map_of dir save_path of
        Some bst \<Rightarrow> fit_levels fit as dir (bs @ [bst])
      | None \<Rightarrow>
          (case fit a of
             Inl e \<Rightarrow> (Inl e, dir)
           | Inr bst \<Rightarrow> fit_levels fit as (AList.update save_path bst dir) (bs @ [bst])))"

text \<open>The columns predicted level by level, then each row sorted.\<close>

definition quant_rows :: "('b \<Rightarrow> 'x \<Rightarrow> real) \<Rightarrow> 'b list \<Rightarrow> 'x list \<Rightarrow> real list list" where
  "quant_rows predict bs X = map (\<lambda>x. sort (map (\<lambda>b. predict b x) bs)) X"

record lgb_preds =
  lp_alphas :: "real list"
  lp_val_q :: "real list list"
  lp_test_q :: "real list list"
  lp_y :: "real list"
  lp_bid :: "real list"
  lp_adv :: "string list"

definition lgbm_baseline :: "(real \<Rightarrow> 'b res) \<Rightarrow> ('b \<Rightarrow> nat list \<times> real list \<Rightarrow> real) \<Rightarrow> real list \<Rightarrow> lgb_frame \<Rightarrow> lgb_frame \<Rightarrow> 'b dir
    \<Rightarrow> lgb_preds res \<times> 'b dir" where
  "lgbm_baseline fit predict alphas val te dir =
     (let (r, dir') = fit_levels fit alphas dir [] in
      (res_bind r (\<lambda>bs. Inr \<lparr>lp_alphas = alphas, lp_val_q = quant_rows predict bs (lf_X val), lp_test_q = quant_rows predict bs (lf_X te),
         lp_y = lf_y te, lp_bid = lf_bid te, lp_adv = lf_adv te\<rparr>), dir'))"

text \<open>\<open>re.match(r'q(\d+)\.txt$', fn)\<close>, and the level of the file; \<open>$\<close> also matches before a final newline.\<close>

definition file_level :: "string \<Rightarrow> real option" where
  "file_level fn =
     (case fn of
        [] \<Rightarrow> None
      | c # s \<Rightarrow>
          (let ds = takeWhile is_digit s; rest = dropWhile is_digit s
           in if c = CHR ''q'' \<and> ds \<noteq> [] \<and> (rest = ''.txt'' \<or> rest = ''.txt'' @ [CHR 0x0A]) then Some (real (nat_of_digits ds) / 100)
              else None))"

definition scan_models :: "'b dir \<Rightarrow> (real \<times> 'b) list" where
  "scan_models dir =
     List.map_filter (\<lambda>fn. case file_level fn of None \<Rightarrow> None | Some a \<Rightarrow> map_option (\<lambda>b. (a, b)) (map_of dir fn)) (sort (map fst dir))"

text \<open>\<open>main\<close> of \<open>lgbm_eval.py\<close>: \<open>None\<close> when the directory holds no model; else the report and the saved quantiles.\<close>

definition lgbm_eval :: "('b \<Rightarrow> nat list \<times> real list \<Rightarrow> real) \<Rightarrow> 'b dir \<Rightarrow> lgb_frame \<Rightarrow> nat \<Rightarrow> (table_report \<times> real list list) option res" where
  "lgbm_eval predict dir te num_bins =
     (let ms = scan_models dir in
      if ms = [] then Inr None
      else let quants = quant_rows predict (map snd ms) (lf_X te) in
        res_bind (score_lgbm quants (map fst ms) (lf_y te) (lf_bid te) (lf_adv te) num_bins) (\<lambda>r. Inr (Some (r, quants))))"

section \<open>Point regression\<close>

record point_report =
  pt_mae :: real
  pt_rmse :: real
  pt_v150 :: real
  pt_vbid :: real

definition point_regrets :: "real list \<Rightarrow> real list \<Rightarrow> real list \<Rightarrow> real list" where
  "point_regrets pred y V =
     map2 (\<lambda>(p, y) v. let b = clamp 0 v p; win = b2r (y \<le> b); realized = win * (v - b); perfect = b2r (y < v) * (v - y)
        in perfect - realized) (zip pred y) V"

definition lgbm_reg :: "real list \<Rightarrow> real list \<Rightarrow> real list \<Rightarrow> point_report" where
  "lgbm_reg pred_te y_te bid_te =
     \<lparr>pt_mae = mean (map2 (\<lambda>p y. \<bar>p - y\<bar>) pred_te y_te), pt_rmse = sqrt (mean (map2 (\<lambda>p y. (p - y) ^ 2) pred_te y_te)),
      pt_v150 = mean (point_regrets pred_te y_te (replicate (length y_te) 150)),
      pt_vbid = mean (point_regrets pred_te y_te bid_te)\<rparr>"

section \<open>Resuming and reusing\<close>









section \<open>Names of the model files\<close>

text \<open>Two different levels of one file: the second is served by the model trained for the first.\<close>

lemma round_even_hundredths: "round_even (real n / 100 * 100) = int n"
  using round_even_int [of "int n"] by simp

lemma str_nat_small: "n < 100 \<Longrightarrow> pad2 (str_nat n) = [digit_char (n div 10), digit_char (n mod 10)]"
proof (cases "n < 10")
  case True
  moreover have "of_char (CHR ''0'') = (48 :: nat)" by simp
  then have "digit_char 0 = CHR ''0''" by (metis add.right_neutral char_of_char digit_char_def)
  ultimately show ?thesis by (subst str_nat.simps) (simp add: pad2_def)
next
  case False
  assume "n < 100"
  then have "n div 10 < 10" by simp
  then have "str_nat (n div 10) = [digit_char (n div 10)]" by (subst str_nat.simps) simp
  then show ?thesis using False by (subst str_nat.simps) (simp add: pad2_def)
qed

lemma model_file_hundredths:
  "n < 100 \<Longrightarrow> model_file (real n / 100) = [CHR ''q'', digit_char (n div 10), digit_char (n mod 10)] @ ''.txt''"
  unfolding model_file_def round_even_hundredths by (simp add: str_int_def str_nat_small)

lemma file_level_model_file:
  assumes "n < 100"
  shows "file_level (model_file (real n / 100)) = Some (real n / 100)"
proof -
  have d: "n div 10 < 10" "n mod 10 < 10" using assms by simp_all
  have nd: "\<not> is_digit CHR ''.''" by (simp add: is_digit_def)
  have "nat_of_digits [digit_char (n div 10), digit_char (n mod 10)] = n"
    using d by (simp add: nat_of_digits_def digit_val_digit_char)
  then show ?thesis
    using d nd by (simp add: model_file_hundredths [OF assms] file_level_def is_digit_digit_char Let_def)
qed

lemma digit_char_less: "a < b \<Longrightarrow> b < 10 \<Longrightarrow> digit_char a < digit_char b"
  by (simp add: digit_char_def less_char_def)

lemma model_file_mono:
  assumes "m < n" and "n < 100"
  shows "model_file (real m / 100) < model_file (real n / 100)"
proof (cases "m div 10 = n div 10")
  case True
  then have "m mod 10 < n mod 10" using assms(1) by (metis add_less_cancel_left mult_div_mod_eq)
  then show ?thesis
    using True assms digit_char_less [of "m mod 10" "n mod 10"] by (simp add: model_file_hundredths)
next
  case False
  then have "m div 10 < n div 10" "n div 10 < 10" using assms div_le_mono [of m n 10] by simp_all
  then show ?thesis
    using assms digit_char_less [of "m div 10" "n div 10"] by (simp add: model_file_hundredths)
qed

lemma scan_models_map:
  assumes "sort (map fst dir) = map model_file as" and "\<forall>a \<in> set as. file_level (model_file a) = Some a \<and> map_of dir (model_file a) = Some (g a)"
  shows "scan_models dir = map (\<lambda>a. (a, g a)) as"
  unfolding scan_models_def assms(1) using assms(2) by (induction as) (auto simp: List.map_filter_simps)

lemma update_new: "map_of al k = None \<Longrightarrow> AList.update k v al = al @ [(k, v)]"
  by (induction al) (auto split: if_splits)

lemma fit_levels_fresh:
  assumes "distinct (map model_file as)" and "\<forall>a \<in> set as. map_of dir (model_file a) = None"
  shows "fit_levels (\<lambda>a. Inr (g a)) as dir bs = (Inr (bs @ map g as), dir @ map (\<lambda>a. (model_file a, g a)) as)"
  using assms
proof (induction as arbitrary: dir bs)
  case (Cons a as)
  have u: "AList.update (model_file a) (g a) dir = dir @ [(model_file a, g a)]"
    using Cons.prems(2) by (simp add: update_new)
  have "model_file x \<noteq> model_file a" if "x \<in> set as" for x
    using Cons.prems(1) that by (metis distinct.simps(2) image_eqI list.simps(9) list.set_map)
  then have "\<forall>x \<in> set as. map_of (dir @ [(model_file a, g a)]) (model_file x) = None"
    using Cons.prems(2) by (auto simp: map_add_def)
  then show ?case using Cons by (simp add: u)
qed simp

text \<open>
  For increasing levels that are whole hundredths below one, a fresh run of the baseline trains each
  level once, and \<open>lgbm_eval.py\<close> on the directory it leaves finds exactly these levels in increasing order
  with their models: it scores the very quantiles that the baseline saved.
\<close>

theorem model_files_roundtrip:
  assumes "sorted_wrt (<) ns" and "\<forall>n \<in> set ns. n < 100" and "ns \<noteq> []"
  shows "\<exists>dir q. q = quant_rows predict (map (\<lambda>n. g (real n / 100)) ns) (lf_X te) \<and>
    lgbm_baseline (\<lambda>a. Inr (g a)) predict (map (\<lambda>n. real n / 100) ns) val te [] =
      (Inr \<lparr>lp_alphas = map (\<lambda>n. real n / 100) ns, lp_val_q = quant_rows predict (map (\<lambda>n. g (real n / 100)) ns) (lf_X val),
        lp_test_q = q, lp_y = lf_y te, lp_bid = lf_bid te, lp_adv = lf_adv te\<rparr>, dir) \<and>
    scan_models dir = map (\<lambda>n. (real n / 100, g (real n / 100))) ns \<and>
    lgbm_eval predict dir te nb = res_bind (score_lgbm q (map (\<lambda>n. real n / 100) ns) (lf_y te) (lf_bid te) (lf_adv te) nb)
      (\<lambda>r. Inr (Some (r, q)))"
proof -
  let ?as = "map (\<lambda>n. real n / 100) ns"
  let ?dir = "map (\<lambda>a. (model_file a, g a)) ?as"
  have s: "sorted_wrt (<) (map model_file ?as)"
    using assms(1,2) by (auto simp: sorted_wrt_iff_nth_less model_file_mono)
  have d: "distinct (map model_file ?as)" using s by (rule strict_sorted_iff [THEN iffD1, THEN conjunct2])
  have fl: "fit_levels (\<lambda>a. Inr (g a)) ?as [] [] = (Inr (map g ?as), ?dir)"
    using fit_levels_fresh [OF d, of "[]" g "[]"] by simp
  have names: "map fst ?dir = map model_file ?as" by simp
  have sort: "sort (map fst ?dir) = map model_file ?as"
    unfolding names by (rule sorted_sort_id [OF strict_sorted_imp_sorted [OF s]])
  have m: "map_of ?dir (model_file a) = Some (g a)" if "a \<in> set ?as" for a
  proof -
    have "distinct (map fst ?dir)" unfolding names by (rule d)
    then show ?thesis using that by (intro map_of_is_SomeI) auto
  qed
  have "\<forall>a \<in> set ?as. file_level (model_file a) = Some a \<and> map_of ?dir (model_file a) = Some (g a)"
  proof
    fix a assume a: "a \<in> set ?as"
    then obtain n where "n \<in> set ns" "a = real n / 100" by auto
    then show "file_level (model_file a) = Some a \<and> map_of ?dir (model_file a) = Some (g a)"
      using m [OF a] file_level_model_file assms(2) by blast
  qed
  then have scan: "scan_models ?dir = map (\<lambda>a. (a, g a)) ?as" by (rule scan_models_map [OF sort])
  have fs: "map fst (scan_models ?dir) = ?as" "map snd (scan_models ?dir) = map g ?as" "scan_models ?dir \<noteq> []"
    unfolding scan using assms(3) by (simp_all add: comp_def)
  show ?thesis
  proof (intro exI conjI)
    show "quant_rows predict (map g ?as) (lf_X te) = quant_rows predict (map (\<lambda>n. g (real n / 100)) ns) (lf_X te)"
      by (simp add: comp_def)
    show "lgbm_baseline (\<lambda>a. Inr (g a)) predict ?as val te [] =
      (Inr \<lparr>lp_alphas = ?as, lp_val_q = quant_rows predict (map (\<lambda>n. g (real n / 100)) ns) (lf_X val),
        lp_test_q = quant_rows predict (map g ?as) (lf_X te), lp_y = lf_y te, lp_bid = lf_bid te, lp_adv = lf_adv te\<rparr>, ?dir)"
      unfolding lgbm_baseline_def fl by (simp add: comp_def)
    show "scan_models ?dir = map (\<lambda>n. (real n / 100, g (real n / 100))) ns" unfolding scan by simp
    show "lgbm_eval predict ?dir te nb = res_bind (score_lgbm (quant_rows predict (map g ?as) (lf_X te)) ?as (lf_y te) (lf_bid te) (lf_adv te) nb)
      (\<lambda>r. Inr (Some (r, quant_rows predict (map g ?as) (lf_X te))))"
      unfolding lgbm_eval_def fs Let_def using fs(3) by simp
  qed
qed

theorem model_files_roundtrip_witness:
  "\<exists>dir. lgbm_baseline (\<lambda>a. Inr a) (\<lambda>b x. b) [5 / 100, 50 / 100] \<lparr>lf_X = [], lf_y = [], lf_bid = [], lf_adv = [], lf_extras = []\<rparr>
      \<lparr>lf_X = [], lf_y = [], lf_bid = [], lf_adv = [], lf_extras = []\<rparr> [] =
      (Inr \<lparr>lp_alphas = [5 / 100, 50 / 100], lp_val_q = [], lp_test_q = [], lp_y = [], lp_bid = [], lp_adv = []\<rparr>, dir) \<and>
    scan_models dir = [(5 / 100, 5 / 100), (50 / 100, 50 / 100)]"
  using model_files_roundtrip [of "[5, 50]" "\<lambda>b x. b" "\<lambda>a. a" "\<lparr>lf_X = [], lf_y = [], lf_bid = [], lf_adv = [], lf_extras = []\<rparr>"
      "\<lparr>lf_X = [], lf_y = [], lf_bid = [], lf_adv = [], lf_extras = []\<rparr>" 301]
  by (auto simp: quant_rows_def)

text \<open>
  Levels that round to the same hundredth share a file: a fresh run for the levels 0.02 and 0.025
  trains one model only and predicts both quantiles with it.
\<close>

theorem model_file_collision:
  "fit_levels (\<lambda>a. Inr (g a)) [2 / 100, 25 / 1000] [] [] = (Inr [g (2 / 100), g (2 / 100)], [(model_file (2 / 100), g (2 / 100))])"
proof -
  have "\<lfloor>5 / 2 :: real\<rfloor> = 2" by (simp add: floor_eq_iff)
  then have "round_even (25 / 1000 * 100) = 2" by (simp add: round_even_def)
  moreover have "round_even (2 / 100 * 100) = 2" using round_even_hundredths [of 2] by simp
  ultimately have "model_file (25 / 1000) = model_file (2 / 100)" by (simp only: model_file_def)
  then show ?thesis by simp
qed

section \<open>The point regression\<close>

lemma mean_square_le: "(mean xs) ^ 2 \<le> mean (map (\<lambda>x. x ^ 2) xs)"
proof (cases "xs = []")
  case False
  let ?m = "mean xs" and ?n = "real (length xs)"
  have n: "0 < ?n" using False by simp
  have "0 \<le> sum_list (map (\<lambda>x. (x - ?m) ^ 2) xs)" by (rule sum_list_nonneg_real) auto
  also have "\<dots> = sum_list (map (\<lambda>x. x ^ 2) xs) - 2 * ?m * sum_list xs + ?n * ?m ^ 2"
  proof -
    have "sum_list (map (\<lambda>x. (x - m) ^ 2) ys) = sum_list (map (\<lambda>x. x ^ 2) ys) - 2 * m * sum_list ys + real (length ys) * m ^ 2" for m ys
      by (induction ys) (simp_all add: power2_eq_square algebra_simps)
    then show ?thesis .
  qed
  also have "sum_list xs = ?n * ?m" using mean_times_length [of xs] by (simp add: mult.commute)
  finally have "?n * ?m ^ 2 \<le> sum_list (map (\<lambda>x. x ^ 2) xs)" by (simp add: power2_eq_square algebra_simps)
  then show ?thesis using n by (simp add: mean_def [of "map _ _"] pos_le_divide_eq mult.commute)
qed (simp add: mean_def)

lemma point_regret1:
  assumes "0 \<le> v" and "0 \<le> y"
  shows "let b = clamp 0 v p; r = b2r (y < v) * (v - y) - b2r (y \<le> b) * (v - b) in 0 \<le> r \<and> r \<le> v"
proof -
  have b: "0 \<le> clamp 0 v p" "clamp 0 v p \<le> v" using assms(1) by (simp_all add: clamp_ge)
  show ?thesis
    unfolding Let_def b2r_def using b assms by (cases "y < v"; cases "y \<le> clamp 0 v p"; simp; linarith)
qed

text \<open>
  Bidding the point prediction, clipped to the value: for nonnegative prices and values no bid exceeds
  its value, the mean regrets lie between 0 and the mean value (150, or the mean bidding price), and
  the absolute error is at most the root of the squared one.
\<close>

theorem point_bids_sound:
  assumes "pred \<noteq> []" and "length y = length pred" and "length bid = length pred"
    and "\<forall>x \<in> set y. 0 \<le> x" and "\<forall>x \<in> set bid. 0 \<le> x"
  shows "let r = lgbm_reg pred y bid in
    0 \<le> pt_mae r \<and> pt_mae r \<le> pt_rmse r \<and> 0 \<le> pt_v150 r \<and> pt_v150 r \<le> 150 \<and> 0 \<le> pt_vbid r \<and> pt_vbid r \<le> mean bid"
proof -
  have reg: "0 \<le> point_regrets pred y V ! i \<and> point_regrets pred y V ! i \<le> V ! i"
    if "\<forall>x \<in> set V. 0 \<le> x" "length V = length pred" "i < length pred" for V i
    using point_regret1 [of "V ! i" "y ! i" "pred ! i"] that assms(2,4) by (simp add: point_regrets_def Let_def)
  have len: "length (point_regrets pred y V) = length pred" if "length V = length pred" for V
    using that assms(2) by (simp add: point_regrets_def)
  have avg: "0 \<le> mean (point_regrets pred y V) \<and> mean (point_regrets pred y V) \<le> mean V"
    if V: "\<forall>x \<in> set V. 0 \<le> x" "length V = length pred" for V
  proof
    show "0 \<le> mean (point_regrets pred y V)"
      using reg [OF V] len [OF V(2)] by (intro mean_nonneg) (auto simp: in_set_conv_nth)
    have "sum_list (point_regrets pred y V) \<le> sum_list V"
      using reg [OF V] len [OF V(2)] V(2) by (auto simp: sum_list_map_nth intro!: sum_mono)
    then show "mean (point_regrets pred y V) \<le> mean V"
      by (simp add: mean_def len [OF V(2)] V(2) divide_right_mono)
  qed
  let ?e = "map2 (\<lambda>p y. \<bar>p - y\<bar>) pred y"
  have sq: "map2 (\<lambda>p y. (p - y) ^ 2) pred y = map (\<lambda>x. x ^ 2) ?e" by (simp add: split_def)
  have "0 \<le> mean ?e" by (rule mean_nonneg) auto
  moreover have "mean ?e \<le> sqrt (mean (map (\<lambda>x. x ^ 2) ?e))" by (rule real_le_rsqrt [OF mean_square_le])
  moreover have "mean (replicate (length y) 150) = 150" using assms(1,2) by (simp add: mean_def)
  ultimately show ?thesis
    using avg [of "replicate (length y) 150"] avg [of bid] assms(2,3,5)
    by (simp add: lgbm_reg_def Let_def sq del: map_map)
qed

theorem point_bids_sound_witness:
  "let r = lgbm_reg [60, 200] [50, 70] [40, 90] in
    0 \<le> pt_mae r \<and> pt_mae r \<le> pt_rmse r \<and> 0 \<le> pt_v150 r \<and> pt_v150 r \<le> 150 \<and> 0 \<le> pt_vbid r \<and> pt_vbid r \<le> mean [40, 90]"
  by (rule point_bids_sound) simp_all

end
