(* ===== verification/Calibrate.thy ===== *)
theory Calibrate
  imports Reports
begin

text \<open>
  Recalibration after training: \<open>experiments/calibrate.py\<close> passes the predicted distribution functions
  through a monotone map fitted on the validation PIT, \<open>calibrate_temp.py\<close> rescales logits and deviations
  by a temperature chosen on the validation set. The isotonic regression of scikit-learn is a
  parameter \<open>iso_fit\<close>: it takes the sorted inputs with their targets and gives the fitted function.
\<close>

section \<open>Isotonic recalibration\<close>

text \<open>
  What the code relies on: targets that already increase over distinct inputs are reproduced, the
  fitted function is monotone with values between \<open>y_min\<close> and \<open>y_max\<close>, and inputs beyond the last one
  get its target (\<open>out_of_bounds='clip'\<close>).
\<close>

definition iso_like :: "(real list \<Rightarrow> real list \<Rightarrow> real \<Rightarrow> real) \<Rightarrow> bool" where
  "iso_like iso_fit \<longleftrightarrow> (\<forall>x y. length y = length x \<and> x \<noteq> [] \<and> sorted_wrt (<) x \<and> sorted y \<and> (\<forall>v \<in> set y. 0 \<le> v \<and> v \<le> 1) \<longrightarrow>
     (\<forall>i < length x. iso_fit x y (x ! i) = y ! i) \<and> mono (iso_fit x y) \<and> (\<forall>t. 0 \<le> iso_fit x y t \<and> iso_fit x y t \<le> 1) \<and>
     (\<forall>t. last x \<le> t \<longrightarrow> iso_fit x y t = last y))"

definition fit_pit_calibrator :: "(real list \<Rightarrow> real list \<Rightarrow> real \<Rightarrow> real) \<Rightarrow> real list \<Rightarrow> (real \<Rightarrow> real) res" where
  "fit_pit_calibrator iso_fit val_pit =
     (let n = length val_pit; s = sort val_pit; target = map (\<lambda>i. (real i + 1) / real n) [0..<n]
      in if n = 0 then Inl ValueError else Inr (iso_fit s target))"

definition apply_iso_to_cdf :: "(real \<Rightarrow> real) \<Rightarrow> real list list \<Rightarrow> real list list" where
  "apply_iso_to_cdf cal cdf_arr = map (\<lambda>row. running_max (map (clamp 0 1) (map cal row))) cdf_arr"

text \<open>The KS statistic that the script prints takes absolute values first.\<close>

definition ks_after :: "real list \<Rightarrow> real res" where
  "ks_after pit =
     (let n = length pit; s = sort pit;
          up = map2 (\<lambda>i v. \<bar>(real i + 1) / real n - v\<bar>) [0..<n] s;
          down = map2 (\<lambda>i v. \<bar>v - real i / real n\<bar>) [0..<n] s
      in if n = 0 then Inl ValueError else Inr (max (list_max up) (list_max down)))"

definition recalibrate_row :: "(real \<Rightarrow> real) \<Rightarrow> real list \<Rightarrow> real list" where
  "recalibrate_row cal p = normalise (map (max (1 / 10 ^ 10)) (diffs (0 # hd (apply_iso_to_cdf cal [cumsum p]))))"

text \<open>The calibrated file has no \<open>log_prob\<close>, only what the ensembles read.\<close>

record calibrated =
  cal_probs :: "real list list"
  cal_pp :: "real list"
  cal_bid :: "real list"
  cal_log_pp :: "real list"
  cal_adv :: "string list"

text \<open>
  \<open>main\<close>: the printed statistic and the calibrated test predictions. The branch for mixtures imports
  \<open>mdn_to_bins_probs\<close> from \<open>ensemble.py\<close>, which defines no such function.
\<close>

definition main_calibrate :: "(real list \<Rightarrow> real list \<Rightarrow> real \<Rightarrow> real) \<Rightarrow> real list \<Rightarrow> saved_preds \<Rightarrow> real res \<times> calibrated res" where
  "main_calibrate iso_fit pit_val test =
     (let cal = fit_pit_calibrator iso_fit pit_val;
          ks = res_bind cal (\<lambda>cal. ks_after (map cal pit_val)) in
      (ks, res_bind cal (\<lambda>cal. res_bind ks (\<lambda>_.
        case test of
          SavedBins d adv \<Rightarrow>
            Inr \<lparr>cal_probs = map (recalibrate_row cal) (pr_head d), cal_pp = pr_pp d, cal_bid = pr_bid d,
                 cal_log_pp = pr_log_pp d, cal_adv = adv\<rparr>
        | SavedMdn d adv \<Rightarrow> Inl ImportError))))"

section \<open>The fitted map makes the validation PIT uniform\<close>

lemma ks_after_eq: "ks_after pit = ks_statistic pit"
proof (cases "pit = []")
  case False
  let ?n = "length pit" and ?s = "sort pit"
  let ?dp = "map2 (\<lambda>i v. (real i + 1) / real ?n - v) [0..<?n] ?s"
  let ?dm = "map2 (\<lambda>i v. v - real i / real ?n) [0..<?n] ?s"
  let ?up = "map2 (\<lambda>i v. \<bar>(real i + 1) / real ?n - v\<bar>) [0..<?n] ?s"
  let ?down = "map2 (\<lambda>i v. \<bar>v - real i / real ?n\<bar>) [0..<?n] ?s"
  define ks where "ks = max (list_max ?dp) (list_max ?dm)"
  have ks: "ks_statistic pit = Inr ks" using False by (simp add: ks_statistic_def ks_def Let_def)
  have le: "\<bar>(real i + 1) / real ?n - ?s ! i\<bar> \<le> ks \<and> \<bar>?s ! i - real i / real ?n\<bar> \<le> ks" if "i < ?n" for i
  proof -
    have "real i / real ?n \<le> (real i + 1) / real ?n" by (simp add: divide_right_mono)
    then show ?thesis using ks_facts [OF ks that] by linarith
  qed
  have ne: "?up \<noteq> []" "?down \<noteq> []" "?dp \<noteq> []" "?dm \<noteq> []" using False by (simp_all add: map2_upt)
  have "list_max ?up \<le> ks" "list_max ?down \<le> ks"
    using list_max_in [OF ne(1)] list_max_in [OF ne(2)] le by (auto simp: in_set_conv_nth)
  moreover have "list_max ?dp \<le> list_max ?up"
  proof -
    obtain i where i: "i < ?n" "list_max ?dp = (real i + 1) / real ?n - ?s ! i"
      using list_max_in [OF ne(3)] by (auto simp: in_set_conv_nth)
    then show ?thesis using list_max_ge [of i ?up] by simp
  qed
  moreover have "list_max ?dm \<le> list_max ?down"
  proof -
    obtain i where i: "i < ?n" "list_max ?dm = ?s ! i - real i / real ?n"
      using list_max_in [OF ne(4)] by (auto simp: in_set_conv_nth)
    then show ?thesis using list_max_ge [of i ?down] by simp
  qed
  ultimately have "max (list_max ?up) (list_max ?down) = ks" unfolding ks_def by linarith
  then show ?thesis using False ks by (simp add: ks_after_def Let_def)
qed (simp add: ks_after_def ks_statistic_def)

lemma sort_map_mono: "mono f \<Longrightarrow> sort (map f xs) = map f (sort xs)"
  by (intro properties_for_sort) (auto simp: sorted_map mono_def intro: sorted_wrt_mono_rel [of _ "(\<le>)"])

lemma ks_of_ranks:
  assumes "sort pit = map (\<lambda>i. (real i + 1) / real (length pit)) [0..<length pit]" and "pit \<noteq> []"
  shows "ks_statistic pit = Inr (1 / real (length pit))"
proof -
  let ?n = "length pit"
  have "map2 (\<lambda>i v. (real i + 1) / real ?n - v) [0..<?n] (sort pit) = replicate ?n 0"
    "map2 (\<lambda>i v. v - real i / real ?n) [0..<?n] (sort pit) = replicate ?n (1 / real ?n)"
    unfolding assms(1) by (rule nth_equalityI; simp add: add_divide_distrib)+
  moreover have "list_max (replicate ?n c) = c" for c
    using assms(2) am.pick_less [of "replicate ?n c"] by (simp add: list_max_def)
  ultimately show ?thesis using assms(2) by (simp add: ks_statistic_def Let_def)
qed

definition ranks :: "nat \<Rightarrow> real list" where
  "ranks n = map (\<lambda>i. (real i + 1) / real n) [0..<n]"

lemma ranks_ok:
  "sorted (ranks n)" "\<forall>v \<in> set (ranks n). 0 \<le> v \<and> v \<le> 1" "length (ranks n) = n" "0 < n \<Longrightarrow> last (ranks n) = 1"
proof -
  show "sorted (ranks n)" by (auto simp: ranks_def sorted_iff_nth_mono divide_right_mono)
  show "\<forall>v \<in> set (ranks n). 0 \<le> v \<and> v \<le> 1"
  proof
    fix v assume "v \<in> set (ranks n)"
    then obtain i where "i < n" "v = (real i + 1) / real n" by (auto simp: ranks_def)
    then show "0 \<le> v \<and> v \<le> 1" using of_nat_mono [of "Suc i" n, where ?'a = real] by (simp add: divide_le_eq)
  qed
  show "length (ranks n) = n" by (simp add: ranks_def)
  show "last (ranks n) = 1" if "0 < n" using that by (simp add: ranks_def last_map of_nat_diff)
qed

lemma fitted:
  assumes "iso_like iso_fit" and "distinct pit" and "pit \<noteq> []"
  shows "\<exists>cal. fit_pit_calibrator iso_fit pit = Inr cal \<and> mono cal \<and> (\<forall>t. 0 \<le> cal t \<and> cal t \<le> 1) \<and>
    (\<forall>t. (\<forall>v \<in> set pit. v \<le> t) \<longrightarrow> cal t = 1) \<and> map cal (sort pit) = ranks (length pit)"
proof -
  let ?n = "length pit" and ?cal = "iso_fit (sort pit) (ranks (length pit))"
  have s: "sorted_wrt (<) (sort pit)" using assms(2) by (simp add: strict_sorted_iff)
  have ne: "sort pit \<noteq> []" using assms(3) by (metis length_0_conv length_sort)
  have law: "(\<forall>i < length (sort pit). ?cal (sort pit ! i) = ranks ?n ! i) \<and> mono ?cal \<and> (\<forall>t. 0 \<le> ?cal t \<and> ?cal t \<le> 1) \<and>
     (\<forall>t. last (sort pit) \<le> t \<longrightarrow> ?cal t = last (ranks ?n))"
    using assms(1) s ne ranks_ok [of ?n] unfolding iso_like_def by simp
  have "last (sort pit) \<in> set pit" using last_in_set [OF ne] by simp
  then have "?cal t = 1" if "\<forall>v \<in> set pit. v \<le> t" for t
    using law that ranks_ok(4) [of ?n] assms(3) by auto
  moreover have "map ?cal (sort pit) = ranks ?n"
    using law by (intro nth_equalityI) (simp_all add: ranks_ok)
  ultimately show ?thesis
    using law assms(3) by (intro exI [of _ ?cal]) (simp add: fit_pit_calibrator_def ranks_def Let_def)
qed

lemma diffs_Cons: "diffs (a # x # xs) = (x - a) # diffs (x # xs)"
  by (simp add: diffs_def)

lemma cumsum_diffs: "k < length xs \<Longrightarrow> cumsum_from c (diffs (a # xs)) ! k = c + (xs ! k - a)"
proof (induction xs arbitrary: a c k)
  case (Cons x xs)
  show ?case
  proof (cases k)
    case (Suc j)
    then have "cumsum_from (c + (x - a)) (diffs (x # xs)) ! j = c + (x - a) + (xs ! j - x)"
      using Cons.prems by (intro Cons.IH) simp
    then show ?thesis using Suc by (simp add: diffs_Cons)
  qed (simp add: diffs_Cons)
qed simp

lemma sum_diffs: "xs \<noteq> [] \<Longrightarrow> sum_list (diffs (a # xs)) = last xs - a"
  by (induction xs arbitrary: a) (auto simp: diffs_Cons diffs_def)

lemma calibrated_cdf:
  assumes "mono cal" and "\<forall>t. 0 \<le> cal t \<and> cal t \<le> 1" and "row_ok p"
  shows "hd (apply_iso_to_cdf cal [cumsum p]) = map cal (cumsum p)"
proof -
  have "sorted (cumsum p)"
    using cumsum_mono [of p] assms(3) by (auto simp: sorted_iff_nth_mono row_ok_def)
  then have "sorted (map cal (cumsum p))"
    using assms(1) by (auto simp: sorted_iff_nth_mono mono_def)
  moreover have "map (clamp 0 1) (map cal (cumsum p)) = map cal (cumsum p)"
    using assms(2) by (simp add: clamp_id)
  ultimately show ?thesis by (simp only: apply_iso_to_cdf_def list.map list.sel running_max_sorted)
qed

text \<open>
  C23: Calibration with an isotonic regression that reproduces increasing data: for distinct validation PIT
  values the printed KS statistic is \<open>1/n\<close>, the least that \<open>n\<close> ranks allow up to a factor of two. Calibrated
  test rows are distributions of the same width; where no increment falls below the floor \<open>1e-10\<close> and
  the PIT values are at most one, the new distribution function is the fitted map of the old one.
\<close>

theorem calibration_follows_fit:
  assumes "iso_like iso_fit" and "distinct pit" and "pit \<noteq> []" and "\<forall>v \<in> set pit. v \<le> 1" and "list_all row_ok (pr_head d)"
  shows "\<exists>cal out. fit_pit_calibrator iso_fit pit = Inr cal \<and>
    main_calibrate iso_fit pit (SavedBins d adv) = (Inr (1 / real (length pit)), Inr out) \<and>
    ks_statistic (map cal pit) = Inr (1 / real (length pit)) \<and> length (cal_probs out) = length (pr_head d) \<and>
    (\<forall>i < length (pr_head d). let p = pr_head d ! i; q = cal_probs out ! i in row_ok q \<and> length q = length p \<and>
      ((\<forall>x \<in> set (diffs (0 # map cal (cumsum p))). 1 / 10 ^ 10 \<le> x) \<longrightarrow> (\<forall>k < length p. cumsum q ! k = cal (cumsum p ! k))))"
proof -
  obtain cal where cal: "fit_pit_calibrator iso_fit pit = Inr cal" "mono cal" "\<forall>t. 0 \<le> cal t \<and> cal t \<le> 1"
    "\<forall>t. (\<forall>v \<in> set pit. v \<le> t) \<longrightarrow> cal t = 1" "map cal (sort pit) = ranks (length pit)"
    using fitted [OF assms(1-3)] by blast
  have "sort (map cal pit) = map (\<lambda>i. (real i + 1) / real (length (map cal pit))) [0..<length (map cal pit)]"
    using cal(5) by (simp add: sort_map_mono [OF cal(2)] ranks_def)
  then have ks: "ks_statistic (map cal pit) = Inr (1 / real (length pit))"
    using ks_of_ranks [of "map cal pit"] assms(3) by simp
  let ?out = "\<lparr>cal_probs = map (recalibrate_row cal) (pr_head d), cal_pp = pr_pp d, cal_bid = pr_bid d,
      cal_log_pp = pr_log_pp d, cal_adv = adv\<rparr>"
  have main: "main_calibrate iso_fit pit (SavedBins d adv) = (Inr (1 / real (length pit)), Inr ?out)"
    by (simp add: main_calibrate_def cal(1) ks_after_eq ks)
  have row: "row_ok (recalibrate_row cal p) \<and> length (recalibrate_row cal p) = length p \<and>
      ((\<forall>x \<in> set (diffs (0 # map cal (cumsum p))). 1 / 10 ^ 10 \<le> x) \<longrightarrow> (\<forall>k < length p. cumsum (recalibrate_row cal p) ! k = cal (cumsum p ! k)))"
    if p: "row_ok p" for p
  proof (intro conjI impI allI)
    have ne: "p \<noteq> []" using p by (simp add: row_ok_def)
    have r: "recalibrate_row cal p = normalise (map (max (1 / 10 ^ 10)) (diffs (0 # map cal (cumsum p))))"
      unfolding recalibrate_row_def calibrated_cdf [OF cal(2,3) p] ..
    show len: "length (recalibrate_row cal p) = length p" by (simp add: r)
    show "row_ok (recalibrate_row cal p)"
    proof -
      have "length (diffs (0 # map cal (cumsum p))) \<noteq> 0" using ne by simp
      then have "diffs (0 # map cal (cumsum p)) \<noteq> []" by (metis list.size(3))
      then show ?thesis unfolding r by (intro normalise_clipped_ok) simp_all
    qed
    fix k assume inc: "\<forall>x \<in> set (diffs (0 # map cal (cumsum p))). 1 / 10 ^ 10 \<le> x" and k: "k < length p"
    have id: "map (max (1 / 10 ^ 10)) (diffs (0 # map cal (cumsum p))) = diffs (0 # map cal (cumsum p))"
      using inc by (intro map_idI) (auto simp: max_def)
    have cne: "cumsum p \<noteq> []" using ne by (metis length_0_conv length_cumsum)
    have "last (cumsum p) = cumsum p ! (length p - 1)" using cne by (simp add: last_conv_nth)
    also have "\<dots> = sum_list (take (Suc (length p - 1)) p)" using ne by (intro nth_cumsum) simp
    also have "\<dots> = 1" using p ne by (simp add: row_ok_def)
    finally have "sum_list (diffs (0 # map cal (cumsum p))) = 1"
      using cal(4) assms(4) cne by (simp add: sum_diffs last_map)
    then have "recalibrate_row cal p = diffs (0 # map cal (cumsum p))" unfolding r id by (rule normalise_id)
    then show "cumsum (recalibrate_row cal p) ! k = cal (cumsum p ! k)"
      using cumsum_diffs [of k "map cal (cumsum p)" 0 0] k by (simp add: cumsum_def)
  qed
  show ?thesis
    using cal(1) main ks row assms(5) by (intro exI [of _ cal] exI [of _ ?out]) (simp add: list_all_length Let_def)
qed

text \<open>A fitted step function, for the witnesses.\<close>

definition step_fit :: "real list \<Rightarrow> real list \<Rightarrow> real \<Rightarrow> real" where
  "step_fit x y t = (let k = length (filter (\<lambda>v. v \<le> t) x) in y ! (k - 1))"

lemma step_fit_like: "iso_like step_fit"
  unfolding iso_like_def
proof (intro allI impI)
  fix x y :: "real list"
  assume a: "length y = length x \<and> x \<noteq> [] \<and> sorted_wrt (<) x \<and> sorted y \<and> (\<forall>v \<in> set y. 0 \<le> v \<and> v \<le> 1)"
  have s: "sorted x" using a strict_sorted_imp_sorted by blast
  have cnt: "length (filter (\<lambda>v. v \<le> x ! i) x) = Suc i" if "i < length x" for i
  proof (rule length_filter_le_eq)
    show "x ! k \<le> x ! i" if "k < Suc i" for k using sorted_nth_mono [OF s, of k i] that \<open>i < length x\<close> by simp
    show "x ! i < x ! k" if "Suc i \<le> k" "k < length x" for k using a that by (simp add: sorted_wrt_iff_nth_less)
  qed (use that in simp)
  have le: "length (filter (\<lambda>v. v \<le> t) x) \<le> length (filter (\<lambda>v. v \<le> t') x)" if "t \<le> t'" for t t'
  proof -
    have "filter (\<lambda>v. v \<le> t) x = filter (\<lambda>v. v \<le> t) (filter (\<lambda>v. v \<le> t') x)"
      using that by (auto intro: filter_cong)
    then show ?thesis by (metis length_filter_le)
  qed
  have k: "length (filter (\<lambda>v. v \<le> t) x) - 1 < length y" for t
    using a length_filter_le [of "\<lambda>v. v \<le> t" x] by (cases x) auto
  have pt: "\<forall>i < length x. step_fit x y (x ! i) = y ! i" by (simp add: step_fit_def cnt)
  have mn: "mono (step_fit x y)"
    unfolding mono_def step_fit_def Let_def
    using le k a by (auto intro!: sorted_nth_mono diff_le_mono)
  have rg: "\<forall>t. 0 \<le> step_fit x y t \<and> step_fit x y t \<le> 1" using a k by (auto simp: step_fit_def Let_def)
  have "step_fit x y t = last y" if "last x \<le> t" for t
  proof -
    have "v \<le> last x" if v: "v \<in> set x" for v
    proof -
      obtain i where i: "i < length x" "v = x ! i" using v by (auto simp: in_set_conv_nth)
      have "x ! i \<le> x ! (length x - 1)" using i(1) by (intro sorted_nth_mono [OF s]) simp_all
      then show ?thesis using i a by (simp add: last_conv_nth)
    qed
    then have "\<forall>v \<in> set x. v \<le> t" using that by (meson order_trans)
    then have f: "filter (\<lambda>v. v \<le> t) x = x" by (simp add: filter_id_conv)
    have "y \<noteq> []" using a by auto
    then show ?thesis unfolding step_fit_def Let_def f using a by (simp add: last_conv_nth)
  qed
  then show "(\<forall>i < length x. step_fit x y (x ! i) = y ! i) \<and> mono (step_fit x y) \<and>
      (\<forall>t. 0 \<le> step_fit x y t \<and> step_fit x y t \<le> 1) \<and> (\<forall>t. last x \<le> t \<longrightarrow> step_fit x y t = last y)"
    using pt mn rg by blast
qed

theorem calibration_follows_fit_witness:
  "\<exists>cal out. fit_pit_calibrator step_fit [3/4, 1/4] = Inr cal \<and>
    main_calibrate step_fit [3/4, 1/4] (SavedBins demo_bins_preds [''a'']) = (Inr (1/2), Inr out)"
proof -
  have "list_all row_ok (pr_head demo_bins_preds)" by (simp add: demo_bins_preds_def row_ok_def)
  from calibration_follows_fit [OF step_fit_like _ _ _ this, of "[3/4, 1/4]" "[''a'']"] show ?thesis by auto
qed

text \<open>
  The script cannot calibrate a mixture: whatever the fitted map, the file of a mixture model ends in an
  \<open>ImportError\<close> after the statistic was printed, since \<open>ensemble.py\<close> has no \<open>mdn_to_bins_probs\<close>.
\<close>

theorem calibrate_mixture_fails:
  assumes "pit \<noteq> []"
  shows "\<exists>ks. main_calibrate iso_fit pit (SavedMdn d adv) = (Inr ks, Inl ImportError)"
proof -
  obtain ks where "ks_statistic (map (iso_fit (sort pit) (map (\<lambda>i. (real i + 1) / real (length pit)) [0..<length pit])) pit) = Inr ks"
    using assms by (auto simp: ks_statistic_def Let_def)
  then show ?thesis
    using assms by (simp add: main_calibrate_def fit_pit_calibrator_def ks_after_eq Let_def)
qed

theorem calibrate_mixture_fails_witness:
  "\<exists>ks. main_calibrate step_fit [1/2] (SavedMdn demo_mdn_preds [''a'']) = (Inr ks, Inl ImportError)"
  by (rule calibrate_mixture_fails) simp

section \<open>Temperature scaling\<close>

text \<open>The outputs of a network over a dataset, each with the log price, price and logged bid of its row.\<close>

type_synonym 'h scored = "('h \<times> real \<times> real \<times> real) list"

definition collect_scored :: "(batch \<Rightarrow> 'h list res) \<Rightarrow> bid_dataset \<Rightarrow> nat \<Rightarrow> 'h scored res option" where
  "collect_scored f ds bs =
     map_option (\<lambda>batches.
       res_bind (res_map (\<lambda>b. res_bind (f b) (\<lambda>hs. Inr (zip hs (zip (b_log_pp b) (zip (b_pp b) (b_bid b)))))) batches) (\<lambda>outs.
         if outs = [] then Inl RuntimeError else Inr (concat outs)))
       (iter_batches ds bs None False)"

definition mdn_outs :: "(real \<Rightarrow> real) \<Rightarrow> mdn_net \<Rightarrow> batch \<Rightarrow> mdn_row list res" where
  "mdn_outs erf n b = res_map (\<lambda>(cat, cont, tags). mdn_forward erf n cat cont tags) (batch_inputs b)"

definition bins_outs :: "(real \<Rightarrow> real) \<Rightarrow> network \<Rightarrow> batch \<Rightarrow> real list list res" where
  "bins_outs erf n b = res_map (\<lambda>(cat, cont, tags). bins_forward erf n cat cont tags) (batch_inputs b)"

definition temperatures :: "real list" where
  "temperatures = linspace (1/2) 3 26"

definition scale_logits :: "real \<Rightarrow> real list \<Rightarrow> real list" where
  "scale_logits T = map (\<lambda>x. x / T)"

definition temper_mdn :: "real \<Rightarrow> mdn_row \<Rightarrow> mdn_row" where
  "temper_mdn T r = \<lparr>pi_logits = scale_logits T (pi_logits r), mu = mu r, sigma = map (\<lambda>s. s * sqrt T) (sigma r)\<rparr>"

definition mdn_temp_nll :: "mdn_row scored \<Rightarrow> real \<Rightarrow> real" where
  "mdn_temp_nll val T =
     - mean (map (\<lambda>(r, t, _, _). let r' = temper_mdn T r in
         logsumexp (map2 (+) (log_softmax (pi_logits r')) (map2 (log_comp t) (mu r') (sigma r')))) val)"

definition bins_temp_nll :: "nat \<Rightarrow> real list scored \<Rightarrow> real \<Rightarrow> real" where
  "bins_temp_nll num_bins val T =
     - mean (map (\<lambda>(l, _, pp, _). log_softmax (scale_logits T l) ! price_bin num_bins pp) val)"

text \<open>The loop over the temperatures keeps the first best one.\<close>

fun temp_search :: "(real \<Rightarrow> real) \<Rightarrow> real list \<Rightarrow> real \<Rightarrow> ext \<Rightarrow> real \<times> ext" where
  "temp_search nll [] best_t best_nll = (best_t, best_nll)"
| "temp_search nll (T # Ts) best_t best_nll =
     (if Fin (nll T) < best_nll then temp_search nll Ts T (Fin (nll T)) else temp_search nll Ts best_t best_nll)"

record 'h tempered =
  tm_T :: real
  tm_nll :: ext
  tm_head :: "'h list"
  tm_log_pp :: "real list"
  tm_pp :: "real list"
  tm_bid :: "real list"
  tm_adv :: "string list"

text \<open>\<open>main\<close> after the network was loaded: collect the validation outputs, search, transform the test outputs.\<close>

definition calibrate_temp :: "(batch \<Rightarrow> 'h list res) \<Rightarrow> ('h scored \<Rightarrow> real \<Rightarrow> real) \<Rightarrow> (real \<Rightarrow> 'h \<Rightarrow> 'h) \<Rightarrow> (real \<Rightarrow> real \<Rightarrow> real)
    \<Rightarrow> bid_dataset \<Rightarrow> bid_dataset \<Rightarrow> 'h tempered res option" where
  "calibrate_temp f nll apply_T log_pp val_ds test_ds =
     (case collect_scored f val_ds 8192 of
        None \<Rightarrow> None
      | Some (Inl e) \<Rightarrow> Some (Inl e)
      | Some (Inr val) \<Rightarrow>
          (let (T, best) = temp_search (nll val) temperatures 1 Infty in
           map_option (\<lambda>r. res_bind r (\<lambda>test.
              Inr \<lparr>tm_T = T, tm_nll = best, tm_head = map (\<lambda>(h, _). apply_T T h) test, tm_log_pp = map (\<lambda>(_, l, p, _). log_pp l p) test,
                   tm_pp = map (\<lambda>(_, _, p, _). p) test, tm_bid = map (\<lambda>(_, _, _, b). b) test, tm_adv = ds_adv test_ds\<rparr>))
             (collect_scored f test_ds 8192)))"

definition calibrate_temp_mdn :: "(real \<Rightarrow> real) \<Rightarrow> mdn_net \<Rightarrow> bid_dataset \<Rightarrow> bid_dataset \<Rightarrow> mdn_row tempered res option" where
  "calibrate_temp_mdn erf n = calibrate_temp (mdn_outs erf n) mdn_temp_nll temper_mdn (\<lambda>l p. l)"

definition calibrate_temp_bins :: "(real \<Rightarrow> real) \<Rightarrow> network \<Rightarrow> nat \<Rightarrow> bid_dataset \<Rightarrow> bid_dataset \<Rightarrow> real list tempered res option" where
  "calibrate_temp_bins erf n num_bins =
     calibrate_temp (bins_outs erf n) (bins_temp_nll num_bins) (\<lambda>T l. softmax (scale_logits T l)) (\<lambda>l p. ln (max p 1))"

section \<open>The search finds the best temperature, and one is among them\<close>

lemma temp_search_spec:
  assumes "temp_search nll Ts bt bn = (T, b)"
  shows "b \<le> bn \<and> (\<forall>x \<in> set Ts. b \<le> Fin (nll x)) \<and> (T = bt \<and> b = bn \<or> T \<in> set Ts \<and> b = Fin (nll T))"
  using assms
proof (induction Ts arbitrary: bt bn)
  case (Cons x Ts)
  show ?case
  proof (cases "Fin (nll x) < bn")
    case True
    then have x: "b \<le> Fin (nll x)" using Cons.IH [of x "Fin (nll x)"] Cons.prems by simp
    then have "b \<le> bn" using True by (meson less_imp_le order_trans)
    then show ?thesis using x True Cons.IH [of x "Fin (nll x)"] Cons.prems by auto
  next
    case False
    then have "bn \<le> Fin (nll x)" by simp
    moreover have "b \<le> bn" using False Cons.IH [of bt bn] Cons.prems by simp
    ultimately have "b \<le> Fin (nll x)" by (rule order_trans [rotated])
    then show ?thesis using False Cons.IH [of bt bn] Cons.prems by auto
  qed
qed simp

lemma temperatures_pos: "T \<in> set temperatures \<Longrightarrow> 1/2 \<le> T \<and> T \<le> 3"
  unfolding temperatures_def by (rule linspace_bounds) simp_all

lemma one_temperature: "1 \<in> set temperatures"
proof -
  have "temperatures ! 5 = 1" by (simp add: temperatures_def nth_linspace)
  moreover have "5 < length temperatures" by (simp add: temperatures_def)
  ultimately show ?thesis by (metis nth_mem)
qed

lemma search_temperatures:
  "\<exists>T. temp_search nll temperatures 1 Infty = (T, Fin (nll T)) \<and> T \<in> set temperatures \<and> (\<forall>x \<in> set temperatures. nll T \<le> nll x)"
proof -
  obtain T b where s: "temp_search nll temperatures 1 Infty = (T, b)" by (cases "temp_search nll temperatures 1 Infty")
  note t = temp_search_spec [OF s]
  have "b \<le> Fin (nll 1)" using t one_temperature by blast
  then have "b \<noteq> Infty" by (cases b) auto
  then show ?thesis using s t by auto
qed

lemma scale_logits_1 [simp]: "scale_logits 1 l = l"
  by (simp add: scale_logits_def)

lemma temper_mdn_1: "temper_mdn 1 r = r"
  by (simp add: temper_mdn_def)

lemma collect_scored_rows:
  assumes "0 < bs" and "df \<noteq> []"
    and "\<And>idx. set idx \<subseteq> {..<length df} \<Longrightarrow> f (make_batch (BidDataset df) idx) = Inr (map (\<lambda>i. h (df ! i)) idx)"
  shows "collect_scored f (BidDataset df) bs =
    Some (Inr (map (\<lambda>r. (h r, o_log_payprice r, o_payprice r, o_bidding_price r)) df))"
proof -
  let ?idxs = "batch_slices bs False [0..<length df]"
  let ?g = "\<lambda>r. (h r, o_log_payprice r, o_payprice r, o_bidding_price r)"
  let ?out = "\<lambda>b. res_bind (f b) (\<lambda>hs. Inr (zip hs (zip (b_log_pp b) (zip (b_pp b) (b_bid b)))))"
  have all: "concat ?idxs = [0..<length df]"
    using concat_batch_slices [OF assms(1), of False "[0..<length df]"] by simp
  have it: "iter_batches (BidDataset df) bs None False = Some (map (make_batch (BidDataset df)) ?idxs)"
    using iter_batches_eq [OF assms(1), of "[0..<length df]" df False]
    by (simp add: iter_batches_unshuffled BidDataset_def)
  have "?out (make_batch (BidDataset df) idx) = Inr (map (\<lambda>i. ?g (df ! i)) idx)" if "idx \<in> set ?idxs" for idx
  proof -
    have "set idx \<subseteq> set (concat ?idxs)" using that by auto
    then have s: "set idx \<subseteq> {..<length df}" unfolding all by auto
    have "zip (map a idx) (zip (map b idx) (zip (map c idx) (map d idx))) = map (\<lambda>i. (a i, b i, c i, d i)) idx"
      for a :: "nat \<Rightarrow> 'z" and b c d :: "nat \<Rightarrow> real"
      by (induction idx) auto
    then show ?thesis by (simp add: assms(3) [OF s] batch_cols [OF s])
  qed
  then have outs: "res_map ?out (map (make_batch (BidDataset df)) ?idxs) = Inr (map (map (\<lambda>i. ?g (df ! i))) ?idxs)"
    by (auto simp: res_map_Inr_iff list_all2_conv_all_nth)
  have ne: "?idxs \<noteq> []" using all assms(2) by (metis concat.simps(1) length_0_conv upt_eq_Nil_conv le_zero_eq)
  have m: "map (\<lambda>i. ?g (df ! i)) [0..<length df] = map ?g df" by (rule nth_equalityI) simp_all
  show ?thesis
    unfolding collect_scored_def it option.map outs res_bind.simps
    using ne m by (simp add: all flip: map_concat)
qed

lemma scale_order:
  assumes "0 < T" and "i < length l" and "j < length l"
  shows "softmax (scale_logits T l) ! i \<le> softmax (scale_logits T l) ! j \<longleftrightarrow> l ! i \<le> l ! j"
proof -
  have "scale_logits T l \<noteq> []" using assms(2) by (auto simp: scale_logits_def)
  then have "0 < sum_list (map exp (scale_logits T l))" by (rule sum_exp_pos)
  then show ?thesis using assms by (simp add: nth_softmax scale_logits_def divide_le_cancel)
qed

lemma softmax_row_ok: "l \<noteq> [] \<Longrightarrow> row_ok (softmax l)"
  by (auto simp: row_ok_def sum_softmax intro: less_imp_le dest: softmax_pos) (simp add: softmax_def)

text \<open>
  What the search minimises, written over the rows of the validation frame: the mean negative log
  likelihood of the network with its outputs at temperature \<open>T\<close>.
\<close>

definition bins_nll_at :: "(real \<Rightarrow> real) \<Rightarrow> network \<Rightarrow> nat \<Rightarrow> out_row list \<Rightarrow> real \<Rightarrow> real" where
  "bins_nll_at erf n nb df T =
     mean (map (\<lambda>r. - (log_softmax (scale_logits T (logits_of erf n r)) ! price_bin nb (o_payprice r))) df)"

definition mdn_nll_at :: "(real \<Rightarrow> real) \<Rightarrow> mdn_net \<Rightarrow> out_row list \<Rightarrow> real \<Rightarrow> real" where
  "mdn_nll_at erf m df T =
     mean (map (\<lambda>r. - mdn_log_prob_row (temper_mdn T (mdn_row_of erf m r)) (o_log_payprice r)) df)"

lemma temp_nll_rows:
  "bins_temp_nll nb (map (\<lambda>r. (logits_of erf n r, o_log_payprice r, o_payprice r, o_bidding_price r)) df) = bins_nll_at erf n nb df"
  "mdn_temp_nll (map (\<lambda>r. (mdn_row_of erf m r, o_log_payprice r, o_payprice r, o_bidding_price r)) df) = mdn_nll_at erf m df"
  by (auto simp: fun_eq_iff bins_temp_nll_def bins_nll_at_def mdn_temp_nll_def mdn_nll_at_def comp_def
      mdn_log_prob_row_def Let_def mean_uminus)

text \<open>
  C24: Temperature scaling succeeds on nonempty validation and test sets that fit the network, for both
  kinds of networks. The chosen temperature lies on the grid, the reported value is the mean negative log
  likelihood of the validation rows at that temperature, and no temperature of the grid has a smaller one;
  in particular it is at most the loss that \<open>train.py\<close> reports for the network as trained, which is the
  value at temperature 1. The saved bins predictions
  are distributions with the bins in the same order of probability as before, the saved mixtures those of
  the network with scaled logits and deviations.
\<close>

theorem temperature_improves:
  assumes "dfv \<noteq> []" and "dft \<noteq> []" and "\<forall>r \<in> set dfv \<union> set dft. row_fits vs tv r" and "0 < batch_size"
    and "net_shape vs dims tv td 9 nb n" and "0 < nb" and "net_shape vs dims tv td 9 (3 * net_K m) m"
  shows "\<exists>b M L L'. calibrate_temp_bins erf n nb (BidDataset dfv) (BidDataset dft) = Some (Inr b) \<and>
    calibrate_temp_mdn erf m (BidDataset dfv) (BidDataset dft) = Some (Inr M) \<and>
    evaluate_loss (bins_batch_loss erf n nb) (BidDataset dfv) batch_size = Some (Inr L) \<and>
    evaluate_loss (mdn_batch_loss erf m) (BidDataset dfv) batch_size = Some (Inr L') \<and>
    tm_T b \<in> set temperatures \<and> tm_nll b = Fin (bins_nll_at erf n nb dfv (tm_T b)) \<and>
    (\<forall>T \<in> set temperatures. bins_nll_at erf n nb dfv (tm_T b) \<le> bins_nll_at erf n nb dfv T) \<and>
    tm_T M \<in> set temperatures \<and> tm_nll M = Fin (mdn_nll_at erf m dfv (tm_T M)) \<and>
    (\<forall>T \<in> set temperatures. mdn_nll_at erf m dfv (tm_T M) \<le> mdn_nll_at erf m dfv T) \<and>
    L = bins_nll_at erf n nb dfv 1 \<and> tm_nll b \<le> Fin L \<and> L' = mdn_nll_at erf m dfv 1 \<and> tm_nll M \<le> Fin L' \<and>
    tm_head b = map (\<lambda>r. softmax (scale_logits (tm_T b) (logits_of erf n r))) dft \<and>
    tm_head M = map (\<lambda>r. temper_mdn (tm_T M) (mdn_row_of erf m r)) dft \<and>
    list_all row_ok (tm_head b) \<and>
    (\<forall>r \<in> set dft. \<forall>i < nb. \<forall>j < nb. (softmax (scale_logits (tm_T b) (logits_of erf n r)) ! i \<le>
        softmax (scale_logits (tm_T b) (logits_of erf n r)) ! j \<longleftrightarrow> logits_of erf n r ! i \<le> logits_of erf n r ! j))"
proof -
  have fv: "\<forall>r \<in> set dfv. row_fits vs tv r" and ft: "\<forall>r \<in> set dft. row_fits vs tv r" using assms(3) by auto
  have b0: "(0 :: nat) < 8192" by simp
  have m: "map (\<lambda>i. f (df ! i)) [0..<length df] = map f df" for f :: "out_row \<Rightarrow> real" and df
    by (rule nth_equalityI) simp_all
  have cb: "collect_scored (bins_outs erf n) (BidDataset df) 8192 =
      Some (Inr (map (\<lambda>r. (logits_of erf n r, o_log_payprice r, o_payprice r, o_bidding_price r)) df))"
    if "df \<noteq> []" "\<forall>r \<in> set df. row_fits vs tv r" for df
    by (rule collect_scored_rows [OF b0 that(1)]) (simp add: bins_outs_def bins_rows_eq(1) [OF assms(5) that(2)])
  have cm: "collect_scored (mdn_outs erf m) (BidDataset df) 8192 =
      Some (Inr (map (\<lambda>r. (mdn_row_of erf m r, o_log_payprice r, o_payprice r, o_bidding_price r)) df))"
    if "df \<noteq> []" "\<forall>r \<in> set df. row_fits vs tv r" for df
    by (rule collect_scored_rows [OF b0 that(1)]) (simp add: mdn_outs_def mdn_rows_eq [OF assms(7) that(2)])
  obtain T where T: "temp_search (bins_nll_at erf n nb dfv) temperatures 1 Infty = (T, Fin (bins_nll_at erf n nb dfv T))"
    "T \<in> set temperatures" "\<forall>x \<in> set temperatures. bins_nll_at erf n nb dfv T \<le> bins_nll_at erf n nb dfv x"
    using search_temperatures [of "bins_nll_at erf n nb dfv"] by blast
  obtain S where S: "temp_search (mdn_nll_at erf m dfv) temperatures 1 Infty = (S, Fin (mdn_nll_at erf m dfv S))"
    "S \<in> set temperatures" "\<forall>x \<in> set temperatures. mdn_nll_at erf m dfv S \<le> mdn_nll_at erf m dfv x"
    using search_temperatures [of "mdn_nll_at erf m dfv"] by blast
  have L: "evaluate_loss (bins_batch_loss erf n nb) (BidDataset dfv) batch_size = Some (Inr (bins_nll_at erf n nb dfv 1))"
    using evaluate_loss_mean [OF assms(4,1) bins_batch_loss_mean [OF assms(5) fv assms(6)], of erf]
      m [of "\<lambda>r. - (log_softmax (logits_of erf n r) ! price_bin nb (o_payprice r))" dfv]
    by (simp add: bins_nll_at_def)
  have L': "evaluate_loss (mdn_batch_loss erf m) (BidDataset dfv) batch_size = Some (Inr (mdn_nll_at erf m dfv 1))"
    using evaluate_loss_mean [OF assms(4,1) mdn_batch_loss_mean [OF assms(7) fv], of erf]
      m [of "\<lambda>r. - mdn_log_prob_row (mdn_row_of erf m r) (o_log_payprice r)" dfv]
    by (simp add: mdn_nll_at_def temper_mdn_1)
  have len: "length (logits_of erf n r) = nb" if "r \<in> set dft" for r
  proof -
    obtain i where "i < length dft" "r = dft ! i" using \<open>r \<in> set dft\<close> by (auto simp: in_set_conv_nth)
    then show ?thesis using bins_rows_eq(2) [OF assms(5) ft, of "[i]" i erf] by simp
  qed
  show ?thesis
    using temperatures_pos [OF T(2)] T S L L' len assms(6) one_temperature cb [OF assms(1) fv] cb [OF assms(2) ft]
      cm [OF assms(1) fv] cm [OF assms(2) ft]
    by (simp add: calibrate_temp_bins_def calibrate_temp_mdn_def calibrate_temp_def list_all_iff scale_order temp_nll_rows
        softmax_row_ok comp_def) (auto simp: scale_logits_def intro!: softmax_row_ok)
qed

theorem temperature_improves_witness:
  "\<exists>n m b M L L'. calibrate_temp_bins (\<lambda>_. 0) n 4 (BidDataset [demo_out 1 [] 5]) (BidDataset [demo_out 2 [] 9]) = Some (Inr b) \<and>
    calibrate_temp_mdn (\<lambda>_. 0) m (BidDataset [demo_out 1 [] 5]) (BidDataset [demo_out 2 [] 9]) = Some (Inr M) \<and>
    evaluate_loss (bins_batch_loss (\<lambda>_. 0) n 4) (BidDataset [demo_out 1 [] 5]) 1 = Some (Inr L) \<and>
    evaluate_loss (mdn_batch_loss (\<lambda>_. 0) m) (BidDataset [demo_out 1 [] 5]) 1 = Some (Inr L') \<and>
    tm_nll b = Fin (bins_nll_at (\<lambda>_. 0) n 4 [demo_out 1 [] 5] (tm_T b)) \<and>
    (\<forall>T \<in> set temperatures. bins_nll_at (\<lambda>_. 0) n 4 [demo_out 1 [] 5] (tm_T b) \<le> bins_nll_at (\<lambda>_. 0) n 4 [demo_out 1 [] 5] T) \<and>
    tm_nll b \<le> Fin L \<and> tm_nll M \<le> Fin L'"
proof -
  obtain n :: network where n: "net_shape [(City, 3)] (\<lambda>_. Some 2) 5 2 9 4 n"
    using build_network_shape [OF demo_init_matrix, of "[(City, 3)]" "\<lambda>_. Some 2" 5 2 9 "[]" 4] by auto
  obtain n0 :: network where n0: "net_shape [(City, 3)] (\<lambda>_. Some 2) 5 2 9 6 n0"
    using build_network_shape [OF demo_init_matrix, of "[(City, 3)]" "\<lambda>_. Some 2" 5 2 9 "[]" 6] by auto
  let ?m = "network.extend n0 (mdn_net.fields 2 (1/20))"
  have m: "net_shape [(City, 3)] (\<lambda>_. Some 2) 5 2 9 (3 * net_K ?m) ?m"
    using n0 by (simp add: net_shape_def network.defs mdn_net.defs)
  have "\<forall>r \<in> set [demo_out 1 [] 5] \<union> set [demo_out 2 [] 9]. row_fits [(City, 3)] 5 r"
    using demo_out_fits [of 1 5] demo_out_fits [of 2 9] by simp
  moreover have "[demo_out 1 [] 5] \<noteq> []" "[demo_out 2 [] 9] \<noteq> []" "0 < (1 :: nat)" "0 < (4 :: nat)" by simp_all
  ultimately show ?thesis
    using temperature_improves [of "[demo_out 1 [] 5]" "[demo_out 2 [] 9]" "[(City, 3)]" 5 1 "\<lambda>_. Some 2" 2 4 n ?m "\<lambda>_. 0"] n m
    by metis
qed

end
