(* ===== verification/Sweep.thy ===== *)
theory Sweep
  imports Train Binning
begin

text \<open>
  \<open>experiments/mdn_sweep.py\<close> and the training part of \<open>experiments/bins_v2.py\<close>: lists of runs, each
  training a network of its own and exporting its best weights. As in \<open>Train\<close> the gradient step is a
  parameter; it is given the loss as a function of the outputs of the network, so that the choice of
  the loss is part of the model. Fresh weights and permutations are parameters too.
\<close>

section \<open>Saved weights\<close>

definition state_dict :: "params \<Rightarrow> shadow" where
  "state_dict model = map (\<lambda>(n, p). (n, p_data p)) model"

text \<open>\<open>load_state_dict\<close> of the tensor library: names and sizes have to match.\<close>

definition load_state_dict :: "shadow \<Rightarrow> params \<Rightarrow> params res" where
  "load_state_dict sd model =
     (if fst ` set sd = fst ` set model \<and> list_all (\<lambda>(n, p). map_option length (map_of sd n) = Some (length (p_data p))) model
      then Inr (map (\<lambda>(n, p). (n, p\<lparr>p_data := the (map_of sd n)\<rparr>)) model)
      else Inl RuntimeError)"

text \<open>\<open>if val < best - 1e-5\<close>: the new best value with a copy of the weights.\<close>

definition keep_best :: "real \<Rightarrow> 'a \<Rightarrow> ext \<times> 'a option \<Rightarrow> ext \<times> 'a option" where
  "keep_best v w best = (if Fin v < ext_minus (fst best) (1/100000) then (Fin v, Some w) else best)"

text \<open>An entry of a run that has no default.\<close>

definition required :: "'a option \<Rightarrow> 'a res" where
  "required a = (case a of None \<Rightarrow> Inl KeyError | Some v \<Rightarrow> Inr v)"

section \<open>The sweep over mixture networks\<close>

text \<open>
  The name of a run is any JSON value; what is no string has only its printed form here.
\<close>

datatype run_name = Name string | OtherName string

fun printed_name :: "run_name \<Rightarrow> string" where
  "printed_name (Name s) = s"
| "printed_name (OtherName s) = s"

record sweep_args =
  sa_name :: "run_name option"
  sa_seed :: "int option"
  sa_K :: "nat option"
  sa_hidden :: "nat list option"
  sa_batch_size :: "nat option"
  sa_lr :: "real option"
  sa_dropout :: "real option"
  sa_weight_decay :: "real option"
  sa_sigma_floor :: "real option"
  sa_epochs :: "nat option"
  sa_ema_decay :: "real option"
  sa_warmup :: "nat option"
  sa_ent_bonus :: "real option"

record sweep_cfg =
  sc_seed :: int
  sc_K :: nat
  sc_hidden :: "nat list"
  sc_bs :: nat
  sc_lr :: real
  sc_dropout :: real
  sc_weight_decay :: real
  sc_sigma_floor :: real
  sc_epochs :: nat
  sc_ema_decay :: real
  sc_warmup :: nat
  sc_ent_bonus :: real

definition sweep_cfg_of :: "sweep_args \<Rightarrow> sweep_cfg res" where
  "sweep_cfg_of args =
     res_bind (required (sa_seed args)) (\<lambda>seed.
     res_bind (required (sa_batch_size args)) (\<lambda>bs.
     res_bind (required (sa_lr args)) (\<lambda>lr.
     res_bind (required (sa_dropout args)) (\<lambda>dp.
     res_bind (required (sa_weight_decay args)) (\<lambda>wd.
     res_bind (required (sa_sigma_floor args)) (\<lambda>sf.
       Inr \<lparr>sc_seed = seed, sc_K = arg_or (sa_K args) 12, sc_hidden = arg_or (sa_hidden args) [512, 256, 128, 64],
            sc_bs = bs, sc_lr = lr, sc_dropout = dp, sc_weight_decay = wd, sc_sigma_floor = sf,
            sc_epochs = arg_or (sa_epochs args) 5, sc_ema_decay = arg_or (sa_ema_decay args) (999/1000),
            sc_warmup = arg_or (sa_warmup args) 500, sc_ent_bonus = arg_or (sa_ent_bonus args) 0\<rparr>))))))"

text \<open>\<open>ss_raw\<close> and \<open>ss_avg\<close>: best validation loss and weights, raw and averaged; \<open>ss_log\<close>: the printed losses.\<close>

record 's sweep_state =
  ss_w :: params
  ss_opt :: 's
  ss_ema :: shadow
  ss_step :: nat
  ss_raw :: "ext \<times> shadow option"
  ss_avg :: "ext \<times> shadow option"
  ss_log :: "(real \<times> real) list"

type_synonym 's sweep_step = "sweep_cfg \<Rightarrow> (mdn_row list \<Rightarrow> real) \<Rightarrow> real \<Rightarrow> batch \<Rightarrow> params \<Rightarrow> 's \<Rightarrow> (params \<times> 's) res"

definition sweep_loss :: "sweep_cfg \<Rightarrow> batch \<Rightarrow> mdn_row list \<Rightarrow> real" where
  "sweep_loss c b rows = mdn_nll rows (b_log_pp b) (sc_ent_bonus c) 0 []"

fun sweep_batches :: "'s sweep_step \<Rightarrow> sweep_cfg \<Rightarrow> nat \<Rightarrow> batch list \<Rightarrow> 's sweep_state \<Rightarrow> 's sweep_state res" where
  "sweep_batches step c tot [] st = Inr st"
| "sweep_batches step c tot (b # bs) st =
     (let lr = cosine_lr (ss_step st) (sc_warmup c) tot (sc_lr c) (5/100) in
      res_bind (step c (sweep_loss c b) lr b (ss_w st) (ss_opt st)) (\<lambda>(w, opt).
      res_bind (ema_update (sc_ema_decay c) w (ss_ema st)) (\<lambda>sh.
        sweep_batches step c tot bs (st\<lparr>ss_w := w, ss_opt := opt, ss_ema := sh, ss_step := ss_step st + 1\<rparr>))))"

text \<open>The end of an epoch: the raw weights are backed up, the averaged ones validated in their place, then restored.\<close>

definition sweep_validate :: "(params \<Rightarrow> real res) \<Rightarrow> 's sweep_state \<Rightarrow> 's sweep_state res" where
  "sweep_validate val st =
     res_bind (val (ss_w st)) (\<lambda>val_raw.
     let backup = snapshot (ss_w st) in
     res_bind (copy_to (ss_ema st) (ss_w st)) (\<lambda>w_ema.
     res_bind (val w_ema) (\<lambda>val_ema.
     let avg = keep_best val_ema (state_dict w_ema) (ss_avg st) in
     res_bind (copy_to backup w_ema) (\<lambda>w_raw.
       Inr (st\<lparr>ss_w := w_raw, ss_avg := avg, ss_raw := keep_best val_raw (state_dict w_raw) (ss_raw st),
               ss_log := ss_log st @ [(val_raw, val_ema)]\<rparr>)))))"

fun sweep_epochs :: "'s sweep_step \<Rightarrow> (params \<Rightarrow> real res) \<Rightarrow> sweep_cfg \<Rightarrow> nat \<Rightarrow> batch list list \<Rightarrow> 's sweep_state \<Rightarrow> 's sweep_state res" where
  "sweep_epochs step val c tot [] st = Inr st"
| "sweep_epochs step val c tot (bs # rest) st =
     res_bind (sweep_batches step c tot bs st) (\<lambda>st1.
     res_bind (sweep_validate val st1) (sweep_epochs step val c tot rest))"

text \<open>The better of the two, loaded back into the model: weights, whether they are the averaged ones, loss.\<close>

definition pick_best :: "'s sweep_state \<Rightarrow> (params \<times> bool \<times> ext) res" where
  "pick_best st =
     (if fst (ss_avg st) < fst (ss_raw st) then
        (case snd (ss_avg st) of
           None \<Rightarrow> Inl TypeError
         | Some sd \<Rightarrow> res_bind (load_state_dict sd (ss_w st)) (\<lambda>w. Inr (w, True, fst (ss_avg st))))
      else
        (case snd (ss_raw st) of
           None \<Rightarrow> Inr (ss_w st, False, fst (ss_raw st))
         | Some sd \<Rightarrow> res_bind (load_state_dict sd (ss_w st)) (\<lambda>w. Inr (w, False, fst (ss_raw st)))))"

text \<open>
  The exported file (the vocabulary and embedding sizes, the same for all runs, are left out), the log
  line and the result of a run (the running time is left out).
\<close>

record sweep_ckpt =
  sk_K :: nat
  sk_hidden :: "nat list"
  sk_dropout :: real
  sk_sigma_floor :: real
  sk_full :: shadow
  sk_val :: ext
  sk_use_ema :: bool
  sk_ema :: shadow

record sweep_result =
  sr_name :: string
  sr_val :: ext
  sr_ema :: bool

record sweep_line =
  sl_name :: string
  sl_bs :: nat
  sl_lr :: real
  sl_dp :: real
  sl_wd :: real
  sl_sf :: real
  sl_K :: nat
  sl_hidden :: "nat list"
  sl_seed :: int
  sl_epochs :: nat
  sl_ent_bonus :: real
  sl_val :: ext
  sl_ema :: bool

text \<open>
  The log, the directories and the files below \<open>exports\<close>, by the name of the run; \<open>Torn\<close> is a file whose
  writing was cut off.
\<close>

datatype export_file = Torn | Saved sweep_ckpt

record sweep_disk =
  sd_log :: "sweep_line list"
  sd_dirs :: "string set"
  sd_exports :: "string \<rightharpoonup> export_file"

text \<open>
  What \<open>train_one\<close> does to the disk once it has its weights, one operation after the other: the line is
  appended to the log, the name joined to the path (a \<open>TypeError\<close> if it is no string), the directory made,
  the file opened and written. A fault is the operation that raises, with its error; what the operations
  before it did stays.
\<close>

datatype sweep_op =
    AppendLine sweep_line | JoinPath run_name | MakeDirs string | BeginExport string | FinishExport string sweep_ckpt

fun sweep_op_step :: "sweep_op \<Rightarrow> sweep_disk \<Rightarrow> sweep_disk res" where
  "sweep_op_step (AppendLine l) disk = Inr (disk\<lparr>sd_log := sd_log disk @ [l]\<rparr>)"
| "sweep_op_step (JoinPath (Name n)) disk = Inr disk"
| "sweep_op_step (JoinPath (OtherName s)) disk = Inl TypeError"
| "sweep_op_step (MakeDirs n) disk = Inr (disk\<lparr>sd_dirs := insert n (sd_dirs disk)\<rparr>)"
| "sweep_op_step (BeginExport n) disk = Inr (disk\<lparr>sd_exports := (sd_exports disk)(n \<mapsto> Torn)\<rparr>)"
| "sweep_op_step (FinishExport n ck) disk = Inr (disk\<lparr>sd_exports := (sd_exports disk)(n \<mapsto> Saved ck)\<rparr>)"

type_synonym fault = "(nat \<times> py_error) option"

fun run_sweep_ops :: "fault \<Rightarrow> sweep_op list \<Rightarrow> sweep_disk \<Rightarrow> sweep_disk \<times> unit res" where
  "run_sweep_ops fault [] disk = (disk, Inr ())"
| "run_sweep_ops fault (x # xs) disk =
     (case sweep_op_step x disk of
        Inl e \<Rightarrow> (disk, Inl e)
      | Inr disk' \<Rightarrow>
          (case fault of
             None \<Rightarrow> run_sweep_ops None xs disk'
           | Some (0, e) \<Rightarrow> (disk, Inl e)
           | Some (Suc k, e) \<Rightarrow> run_sweep_ops (Some (k, e)) xs disk'))"

definition export_ops :: "run_name \<Rightarrow> sweep_line \<Rightarrow> sweep_ckpt \<Rightarrow> sweep_op list" where
  "export_ops name line ckpt =
     [AppendLine line, JoinPath name, MakeDirs (printed_name name), BeginExport (printed_name name),
      FinishExport (printed_name name) ckpt]"

text \<open>
  All runs share one process: its global random generators and its disk. \<open>se_seed\<close> is the state in which the
  seeding functions put the generators, \<open>se_left\<close> the one in which a run leaves them. Fresh weights are drawn
  from the generators, and the state \<open>'s\<close> of the gradient step starts with them (dropout draws on).
  The permutations come from a generator of the run, seeded with the same number.
\<close>

record 'r sweep_world =
  sw_rng :: 'r
  sw_disk :: sweep_disk

record ('r, 's) sweep_env =
  se_step :: "'s sweep_step"
  se_loss :: "sweep_cfg \<Rightarrow> params \<Rightarrow> batch \<Rightarrow> real res"
  se_perms :: "int \<Rightarrow> nat \<Rightarrow> nat list"
  se_seed :: "int \<Rightarrow> 'r"
  se_model :: "sweep_cfg \<Rightarrow> 'r \<Rightarrow> params \<times> 's"
  se_left :: "sweep_args \<Rightarrow> 'r \<Rightarrow> 'r"
  se_train :: bid_dataset
  se_val :: bid_dataset

text \<open>\<open>np.random.seed\<close> takes 32-bit numbers only.\<close>

definition set_seed :: "('r, 's) sweep_env \<Rightarrow> int \<Rightarrow> 'r sweep_world \<Rightarrow> 'r sweep_world res" where
  "set_seed env seed world =
     (if seed < 0 \<or> 2 ^ 32 \<le> seed then Inl ValueError else Inr (world\<lparr>sw_rng := se_seed env seed\<rparr>))"

text \<open>The part of \<open>train_one\<close> up to the choice of the weights; it writes nothing to disk.\<close>

definition sweep_start :: "params \<times> 's \<Rightarrow> 's sweep_state" where
  "sweep_start m =
     \<lparr>ss_w = fst m, ss_opt = snd m, ss_ema = snapshot (fst m), ss_step = 0, ss_raw = (Infty, None), ss_avg = (Infty, None),
      ss_log = []\<rparr>"

definition sweep_val :: "('r, 's) sweep_env \<Rightarrow> sweep_cfg \<Rightarrow> params \<Rightarrow> real res" where
  "sweep_val env c w = the (evaluate_loss (se_loss env c w) (se_val env) (sc_bs c * 2))"

definition sweep_data :: "('r, 's) sweep_env \<Rightarrow> sweep_cfg \<Rightarrow> batch list list" where
  "sweep_data env c =
     map (\<lambda>e. the (iter_batches (se_train env) (sc_bs c) (Some (se_perms env (sc_seed c) e)) True)) [0..<sc_epochs c]"

definition sweep_train :: "('r, 's) sweep_env \<Rightarrow> sweep_args \<Rightarrow> 'r \<Rightarrow> (run_name \<times> sweep_cfg \<times> 's sweep_state) res" where
  "sweep_train env args rng =
     res_bind (sweep_cfg_of args) (\<lambda>c.
     res_bind (num_batches (se_train env) (sc_bs c) True) (\<lambda>steps_per_epoch.
     res_bind (required (sa_name args)) (\<lambda>name.
     res_bind (sweep_epochs (se_step env) (sweep_val env c) c (steps_per_epoch * sc_epochs c) (sweep_data env c)
       (sweep_start (se_model env c rng))) (\<lambda>st. Inr (name, c, st)))))"

text \<open>The end of \<open>train_one\<close>: the choice of the weights, the log line and the file.\<close>

definition sweep_report :: "run_name \<Rightarrow> sweep_cfg \<Rightarrow> 's sweep_state \<Rightarrow> fault \<Rightarrow> sweep_disk \<Rightarrow> sweep_disk \<times> sweep_result res" where
  "sweep_report name c st fault disk =
     (case pick_best st of
        Inl e \<Rightarrow> (disk, Inl e)
      | Inr (w, use_ema, best_val) \<Rightarrow>
          let line = \<lparr>sl_name = printed_name name, sl_bs = sc_bs c, sl_lr = sc_lr c, sl_dp = sc_dropout c,
                sl_wd = sc_weight_decay c, sl_sf = sc_sigma_floor c, sl_K = sc_K c, sl_hidden = sc_hidden c,
                sl_seed = sc_seed c, sl_epochs = sc_epochs c, sl_ent_bonus = sc_ent_bonus c, sl_val = best_val,
                sl_ema = use_ema\<rparr>;
              ckpt = \<lparr>sk_K = sc_K c, sk_hidden = sc_hidden c, sk_dropout = sc_dropout c,
                sk_sigma_floor = sc_sigma_floor c, sk_full = state_dict w, sk_val = best_val, sk_use_ema = use_ema,
                sk_ema = ss_ema st\<rparr>;
              (disk', r) = run_sweep_ops fault (export_ops name line ckpt) disk
          in (disk', res_bind r (\<lambda>_. Inr \<lparr>sr_name = printed_name name, sr_val = best_val, sr_ema = use_ema\<rparr>)))"

definition train_one :: "('r, 's) sweep_env \<Rightarrow> sweep_args \<Rightarrow> fault \<Rightarrow> 'r sweep_world \<Rightarrow> 'r sweep_world \<times> sweep_result res" where
  "train_one env args fault world =
     (case res_bind (required (sa_seed args)) (\<lambda>seed. set_seed env seed world) of
        Inl e \<Rightarrow> (world, Inl e)
      | Inr world \<Rightarrow>
          let world' = world\<lparr>sw_rng := se_left env args (sw_rng world)\<rparr>
          in case sweep_train env args (sw_rng world) of
               Inl e \<Rightarrow> (world', Inl e)
             | Inr (name, c, st) \<Rightarrow>
                 let (disk, r) = sweep_report name c st fault (sw_disk world')
                 in (world'\<lparr>sw_disk := disk\<rparr>, r))"

text \<open>\<open>main\<close>: a run that raises is reported and skipped. Each run comes with the fault it meets.\<close>

fun sweep_runs :: "('r, 's) sweep_env \<Rightarrow> (sweep_args \<times> fault) list \<Rightarrow> 'r sweep_world
    \<Rightarrow> sweep_result list \<times> (run_name option \<times> py_error) list \<times> 'r sweep_world" where
  "sweep_runs env [] world = ([], [], world)"
| "sweep_runs env ((r, fault) # rs) world =
     (case train_one env r fault world of
        (world1, Inl e) \<Rightarrow> (let (results, failed, world') = sweep_runs env rs world1 in (results, (sa_name r, e) # failed, world'))
      | (world1, Inr res) \<Rightarrow> (let (results, failed, world') = sweep_runs env rs world1 in (res # results, failed, world')))"

text \<open>The log is emptied first; the files of earlier sweeps stay.\<close>

definition mdn_sweep :: "('r, 's) sweep_env \<Rightarrow> (sweep_args \<times> fault) list \<Rightarrow> 'r sweep_world
    \<Rightarrow> sweep_result list \<times> (run_name option \<times> py_error) list \<times> 'r sweep_world" where
  "mdn_sweep env runs world = sweep_runs env runs (world\<lparr>sw_disk := (sw_disk world)\<lparr>sd_log := []\<rparr>\<rparr>)"

section \<open>The sweep over bins networks\<close>

record v2_args =
  va_name :: "string option"
  va_bin_kind :: "string option"
  va_max_price :: "real option"
  va_seed :: "int option"
  va_num_bins :: "nat option"
  va_hidden :: "nat list option"
  va_batch_size :: "nat option"
  va_lr :: "real option"
  va_dropout :: "real option"
  va_weight_decay :: "real option"
  va_epochs :: "nat option"
  va_warmup :: "nat option"
  va_smooth_sigma :: "real option"
  va_emd_lambda :: "real option"
  va_label_smooth :: "real option"

record v2_cfg =
  vc_seed :: int
  vc_num_bins :: nat
  vc_hidden :: "nat list"
  vc_bs :: nat
  vc_lr :: real
  vc_dropout :: real
  vc_weight_decay :: real
  vc_epochs :: nat
  vc_warmup :: nat
  vc_smooth_sigma :: real
  vc_emd_lambda :: real
  vc_label_smooth :: real

definition v2_cfg_of :: "v2_args \<Rightarrow> v2_cfg res" where
  "v2_cfg_of args =
     res_bind (required (va_batch_size args)) (\<lambda>bs.
     res_bind (required (va_lr args)) (\<lambda>lr.
     res_bind (required (va_dropout args)) (\<lambda>dp.
     res_bind (required (va_weight_decay args)) (\<lambda>wd.
       Inr \<lparr>vc_seed = arg_or (va_seed args) 42, vc_num_bins = arg_or (va_num_bins args) 200,
            vc_hidden = arg_or (va_hidden args) [512, 256, 128, 64], vc_bs = bs, vc_lr = lr, vc_dropout = dp,
            vc_weight_decay = wd, vc_epochs = arg_or (va_epochs args) 6, vc_warmup = arg_or (va_warmup args) 500,
            vc_smooth_sigma = arg_or (va_smooth_sigma args) 0, vc_emd_lambda = arg_or (va_emd_lambda args) 0,
            vc_label_smooth = arg_or (va_label_smooth args) 0\<rparr>))))"

text \<open>\<open>F.cross_entropy\<close> with its \<open>label_smoothing\<close>: the given share of the target is spread over all classes.\<close>

definition cross_entropy_ls :: "real \<Rightarrow> real list list \<Rightarrow> nat list \<Rightarrow> real res" where
  "cross_entropy_ls eps logits target =
     (if list_all2 (\<lambda>row t. t < length row) logits target
      then Inr (mean (map2 (\<lambda>row t. (1 - eps) * - (log_softmax row ! t) + eps * - mean (log_softmax row)) logits target))
      else Inl IndexError)"

definition v2_loss :: "v2_cfg \<Rightarrow> nat list \<Rightarrow> real list list \<Rightarrow> real res" where
  "v2_loss c tgt logits =
     res_bind
       (if vc_smooth_sigma c > 0 then Inr (discrete_bins_smoothed_nll (vc_num_bins c) logits tgt (vc_smooth_sigma c))
        else if vc_label_smooth c > 0 then cross_entropy_ls (vc_label_smooth c) logits tgt
        else discrete_bins_nll logits tgt) (\<lambda>loss.
     Inr (if vc_emd_lambda c > 0 then loss + vc_emd_lambda c * emd_loss logits tgt else loss))"

text \<open>The rows of the batches of an epoch: the loop condition of the source, and \<^const>\<open>None\<close> if it never fails.\<close>

partial_function (option) v2_slices :: "nat \<Rightarrow> nat \<Rightarrow> nat list \<Rightarrow> nat \<Rightarrow> nat list list \<Rightarrow> nat list list option" where
  "v2_slices n bs perm cur idxs =
     (if int cur < int n - int bs then v2_slices n bs perm (cur + bs) (idxs @ [slice cur (cur + bs) perm]) else Some idxs)"

record 's v2_state =
  v2_w :: params
  v2_opt :: 's
  v2_step :: nat
  v2_best :: "ext \<times> shadow option"

type_synonym 's v2_step = "v2_cfg \<Rightarrow> (real list list \<Rightarrow> real res) \<Rightarrow> real \<Rightarrow> batch \<Rightarrow> params \<Rightarrow> 's \<Rightarrow> (params \<times> 's) res"

fun v2_batches :: "'s v2_step \<Rightarrow> v2_cfg \<Rightarrow> nat \<Rightarrow> bid_dataset \<Rightarrow> nat list \<Rightarrow> nat list list \<Rightarrow> 's v2_state \<Rightarrow> 's v2_state res" where
  "v2_batches step c tot ds bins [] st = Inr st"
| "v2_batches step c tot ds bins (idx # idxs) st =
     (let lr = cosine_lr (v2_step st) (vc_warmup c) tot (vc_lr c) (5/100) in
      res_bind (step c (v2_loss c (gather bins idx)) lr (make_batch ds idx) (v2_w st) (v2_opt st)) (\<lambda>(w, opt).
        v2_batches step c tot ds bins idxs (st\<lparr>v2_w := w, v2_opt := opt, v2_step := v2_step st + 1\<rparr>)))"

text \<open>The validation loss bins the prices of each batch by the edges of the run.\<close>

definition v2_val_loss :: "(params \<Rightarrow> batch \<Rightarrow> real list list res) \<Rightarrow> real list \<Rightarrow> params \<Rightarrow> batch \<Rightarrow> real res" where
  "v2_val_loss fwd edges w b =
     res_bind (fwd w b) (\<lambda>logits. res_bind (assign_bins (b_pp b) edges) (discrete_bins_nll logits))"

definition v2_validate :: "(params \<Rightarrow> real res) \<Rightarrow> 's v2_state \<Rightarrow> ('s v2_state \<times> real) res" where
  "v2_validate val st =
     res_bind (val (v2_w st)) (\<lambda>val_loss.
       Inr (st\<lparr>v2_best := keep_best val_loss (state_dict (v2_w st)) (v2_best st)\<rparr>, val_loss))"

record v2_ckpt =
  vk_num_bins :: nat
  vk_hidden :: "nat list"
  vk_dropout :: real
  vk_edges :: "real list"
  vk_full :: shadow
  vk_val :: ext

datatype v2_line =
    EpochLine string nat real ext
  | RunLine string "string option" v2_cfg ext

record v2_disk =
  vd_log :: "v2_line list"
  vd_exports :: "string \<rightharpoonup> v2_ckpt"

text \<open>The epochs; every finished epoch leaves a line in the log, also when a later one raises. (The line of a
  run carries all its settings here; the script prints them without seed and warmup.)\<close>

fun v2_epochs :: "'s v2_step \<Rightarrow> (params \<Rightarrow> real res) \<Rightarrow> v2_cfg \<Rightarrow> nat \<Rightarrow> bid_dataset \<Rightarrow> nat list \<Rightarrow> string option
    \<Rightarrow> (nat \<times> nat list list) list \<Rightarrow> 's v2_state \<Rightarrow> v2_line list \<times> 's v2_state res" where
  "v2_epochs step val c tot ds bins name [] st = ([], Inr st)"
| "v2_epochs step val c tot ds bins name ((epoch, idxs) # rest) st =
     (case res_bind (v2_batches step c tot ds bins idxs st) (\<lambda>st1.
           res_bind (v2_validate val st1) (\<lambda>(st2, val_loss).
           res_bind (required name) (\<lambda>nm. Inr (st2, EpochLine nm epoch val_loss (fst (v2_best st2)))))) of
        Inl e \<Rightarrow> ([], Inl e)
      | Inr (st2, line) \<Rightarrow>
          (let (ls, r) = v2_epochs step val c tot ds bins name rest st2 in (line # ls, r)))"

record 's v2_env =
  ve_step :: "'s v2_step"
  ve_logits :: "v2_cfg \<Rightarrow> params \<Rightarrow> batch \<Rightarrow> real list list res"
  ve_perms :: "int \<Rightarrow> nat \<Rightarrow> nat list"
  ve_model :: "v2_cfg \<Rightarrow> params \<times> 's"
  ve_train :: bid_dataset
  ve_val :: bid_dataset

definition v2_start :: "params \<times> 's \<Rightarrow> 's v2_state" where
  "v2_start m = \<lparr>v2_w = fst m, v2_opt = snd m, v2_step = 0, v2_best = (Infty, None)\<rparr>"

definition v2_data :: "'s v2_env \<Rightarrow> v2_cfg \<Rightarrow> (nat \<times> nat list list) list" where
  "v2_data env c =
     map (\<lambda>e. (e, the (v2_slices (ds_n (ve_train env)) (vc_bs c) (ve_perms env (vc_seed c) e) 0 []))) [0..<vc_epochs c]"

definition v2_val :: "'s v2_env \<Rightarrow> v2_cfg \<Rightarrow> real list \<Rightarrow> params \<Rightarrow> real res" where
  "v2_val env c edges w = the (evaluate_loss (v2_val_loss (ve_logits env c) edges w) (ve_val env) (vc_bs c * 2))"

text \<open>What is done before the first epoch: settings, steps of an epoch, bins of the prices.\<close>

definition v2_setup :: "'s v2_env \<Rightarrow> v2_args \<Rightarrow> real list \<Rightarrow> (v2_cfg \<times> nat \<times> nat list) res" where
  "v2_setup env args edges =
     res_bind (v2_cfg_of args) (\<lambda>c.
     res_bind (num_batches (ve_train env) (vc_bs c) True) (\<lambda>steps_per_epoch.
     res_bind (assign_bins (ds_pp (ve_train env)) edges) (\<lambda>train_bin.
     res_bind (assign_bins (ds_pp (ve_val env)) edges) (\<lambda>val_bin.
       Inr (c, steps_per_epoch * vc_epochs c, train_bin)))))"

definition v2_load_best :: "'s v2_state \<Rightarrow> params res" where
  "v2_load_best st = (case snd (v2_best st) of None \<Rightarrow> Inr (v2_w st) | Some sd \<Rightarrow> load_state_dict sd (v2_w st))"

definition v2_export :: "v2_args \<Rightarrow> real list \<Rightarrow> v2_cfg \<Rightarrow> 's v2_state \<Rightarrow> v2_disk \<Rightarrow> ((string \<times> ext) \<times> v2_disk) res" where
  "v2_export args edges c st disk =
     res_bind (v2_load_best st) (\<lambda>w.
     res_bind (required (va_name args)) (\<lambda>name.
     let best_val = fst (v2_best st);
         ckpt = \<lparr>vk_num_bins = vc_num_bins c, vk_hidden = vc_hidden c, vk_dropout = vc_dropout c, vk_edges = edges,
                 vk_full = state_dict w, vk_val = best_val\<rparr>
     in Inr ((name, best_val),
             disk\<lparr>vd_log := vd_log disk @ [RunLine name (va_bin_kind args) c best_val],
                  vd_exports := (vd_exports disk)(name \<mapsto> ckpt)\<rparr>)))"

definition train_one_v2 :: "'s v2_env \<Rightarrow> v2_args \<Rightarrow> real list \<Rightarrow> v2_disk \<Rightarrow> v2_disk \<times> (string \<times> ext) res" where
  "train_one_v2 env args edges disk =
     (case v2_setup env args edges of
        Inl e \<Rightarrow> (disk, Inl e)
      | Inr (c, tot, train_bin) \<Rightarrow>
          (let (lines, r) = v2_epochs (ve_step env) (v2_val env c edges) c tot (ve_train env) train_bin (va_name args)
                 (v2_data env c) (v2_start (ve_model env c));
               disk1 = disk\<lparr>vd_log := vd_log disk @ lines\<rparr>
           in case res_bind r (\<lambda>st. v2_export args edges c st disk1) of
                Inl e \<Rightarrow> (disk1, Inl e)
              | Inr (res, disk2) \<Rightarrow> (disk2, Inr res)))"

text \<open>\<open>main\<close>: the first run that raises ends the script, before the results are saved.\<close>

definition v2_run :: "'s v2_env \<Rightarrow> v2_args \<Rightarrow> v2_disk \<Rightarrow> v2_disk \<times> (string \<times> ext) res" where
  "v2_run env r disk =
     (case make_edges (arg_or (va_bin_kind r) ''uniform'') (arg_or (va_num_bins r) 200) (ds_pp (ve_train env))
             (arg_or (va_max_price r) 300) of
        Inl e \<Rightarrow> (disk, Inl e)
      | Inr edges \<Rightarrow> train_one_v2 env r edges disk)"

fun v2_runs :: "'s v2_env \<Rightarrow> v2_args list \<Rightarrow> v2_disk \<Rightarrow> v2_disk \<times> (string \<times> ext) list res" where
  "v2_runs env [] disk = (disk, Inr [])"
| "v2_runs env (r # rs) disk =
     (case v2_run env r disk of
        (disk1, Inl e) \<Rightarrow> (disk1, Inl e)
      | (disk1, Inr res) \<Rightarrow>
          (let (disk2, out) = v2_runs env rs disk1 in (disk2, res_bind out (\<lambda>results. Inr (res # results)))))"

definition bins_v2 :: "'s v2_env \<Rightarrow> v2_args list \<Rightarrow> v2_disk \<Rightarrow> v2_disk \<times> (string \<times> ext) list res" where
  "bins_v2 env runs disk = v2_runs env runs (disk\<lparr>vd_log := []\<rparr>)"

section \<open>The best value within the threshold\<close>

definition best_of :: "(real \<times> 'a) list \<Rightarrow> ext \<times> 'a option" where
  "best_of vs = foldl (\<lambda>best (v, w). keep_best v w best) (Infty, None) vs"

lemma best_of_snoc [simp]: "best_of (vs @ [(v, w)]) = keep_best v w (best_of vs)"
  by (simp add: best_of_def)

lemma best_of_Nil [simp]: "best_of [] = (Infty, None)"
  by (simp add: best_of_def)

lemma best_of_sound:
  "vs \<noteq> [] \<Longrightarrow> \<exists>v w. best_of vs = (Fin v, Some w) \<and> (v, w) \<in> set vs \<and> (\<forall>(u, x) \<in> set vs. v \<le> u + 1/100000)"
proof (induction vs rule: rev_induct)
  case (snoc q vs)
  obtain u x where q: "q = (u, x)" by (cases q)
  show ?case
  proof (cases "vs = []")
    case True
    then show ?thesis by (simp add: q best_of_def keep_best_def)
  next
    case False
    then obtain v w where b: "best_of vs = (Fin v, Some w)" "(v, w) \<in> set vs" "\<forall>(u, x) \<in> set vs. v \<le> u + 1/100000"
      using snoc.IH by blast
    show ?thesis
    proof (cases "u < v - 1/100000")
      case True
      have "u \<le> a + 1/100000" if "(a, y) \<in> set vs" for a y using b(3) that True by auto
      then show ?thesis using True b(1) by (auto simp: q keep_best_def)
    next
      case False
      then show ?thesis using b by (auto simp: q keep_best_def)
    qed
  qed
qed simp

section \<open>Saving and loading weights\<close>

lemma state_dict_get: "map_of (state_dict w) n = map_option p_data (map_of w n)"
  unfolding state_dict_def by (simp add: map_of_map)

lemma load_state_dict_same:
  assumes "same_shape w m" and "distinct (map fst m)"
  shows "load_state_dict (state_dict w) m = Inr w"
proof -
  have names: "map fst w = map fst m" by (rule same_shape_names [OF assms(1)])
  have l: "length w = length m" using arg_cong [OF names, of length] by simp
  have d: "distinct (map fst w)" using assms(2) names by simp
  have name: "n' = n" if "(m ! i) = (n, p)" "w ! i = (n', p')" "i < length m" for i n n' p p'
    using arg_cong [OF names, of "\<lambda>xs. xs ! i"] that l by simp
  have get: "map_of w n = Some p'" "requires_grad p' = requires_grad p" "length (p_data p') = length (p_data p)"
    if "(m ! i) = (n, p)" "w ! i = (n', p')" "i < length m" for i n n' p p'
  proof -
    have "w ! i \<in> set w" using that(3) l by simp
    then have "(n, p') \<in> set w" using that(2) name [OF that] by simp
    then show "map_of w n = Some p'" using d by simp
    show "requires_grad p' = requires_grad p" "length (p_data p') = length (p_data p)"
      using arg_cong [OF assms(1) [unfolded same_shape_def], of "\<lambda>xs. xs ! i"] that l by simp_all
  qed
  have "fst ` set (state_dict w) = fst ` set m"
    using arg_cong [OF names, of set] by (simp add: state_dict_def image_image split_def)
  moreover have "list_all (\<lambda>(n, p). map_option length (map_of (state_dict w) n) = Some (length (p_data p))) m"
    unfolding list_all_length
  proof (intro allI impI)
    fix i assume i: "i < length m"
    obtain n p where m: "m ! i = (n, p)" by (cases "m ! i")
    obtain n' p' where w: "w ! i = (n', p')" by (cases "w ! i")
    show "case m ! i of (n, p) \<Rightarrow> map_option length (map_of (state_dict w) n) = Some (length (p_data p))"
      using get [OF m w i] by (simp add: m state_dict_get)
  qed
  moreover have "map (\<lambda>(n, p). (n, p\<lparr>p_data := the (map_of (state_dict w) n)\<rparr>)) m = w"
  proof (rule nth_equalityI)
    fix i assume "i < length (map (\<lambda>(n, p). (n, p\<lparr>p_data := the (map_of (state_dict w) n)\<rparr>)) m)"
    then have i: "i < length m" by simp
    obtain n p where m: "m ! i = (n, p)" by (cases "m ! i")
    obtain n' p' where w: "w ! i = (n', p')" by (cases "w ! i")
    show "map (\<lambda>(n, p). (n, p\<lparr>p_data := the (map_of (state_dict w) n)\<rparr>)) m ! i = w ! i"
      using get [OF m w i] name [OF m w i] i by (cases p; cases p') (simp add: m w state_dict_get)
  qed (simp add: l)
  ultimately show ?thesis by (simp add: load_state_dict_def)
qed

section \<open>The sweep over mixture networks\<close>

definition step_keeps :: "'s sweep_step \<Rightarrow> bool" where
  "step_keeps step \<longleftrightarrow> (\<forall>c f lr b w s w' s'. step c f lr b w s = Inr (w', s') \<longrightarrow> same_shape w' w)"

definition sw_shape :: "params \<Rightarrow> 's sweep_state \<Rightarrow> bool" where
  "sw_shape m0 st \<longleftrightarrow> same_shape (ss_w st) m0 \<and> shadow_fits (ss_ema st) m0"

lemma sw_shape_now:
  assumes "sw_shape m0 st" and "distinct (map fst m0)"
  shows "distinct (map fst (ss_w st))" and "shadow_fits (ss_ema st) (ss_w st)" and "covers (ss_ema st) (ss_w st)"
proof -
  show d: "distinct (map fst (ss_w st))" using assms same_shape_names [of "ss_w st" m0] by (simp add: sw_shape_def)
  show s: "shadow_fits (ss_ema st) (ss_w st)" using assms(1) by (auto simp: sw_shape_def intro: shadow_fits_same)
  show "covers (ss_ema st) (ss_w st)" by (rule shadow_fits_covers [OF s d])
qed

text \<open>The steps of an epoch do not look at the results of the validations.\<close>

definition with_results :: "'s sweep_state \<Rightarrow> 's sweep_state \<Rightarrow> 's sweep_state" where
  "with_results st r = st\<lparr>ss_raw := ss_raw r, ss_avg := ss_avg r, ss_log := ss_log r\<rparr>"

lemma with_results_simps [simp]:
  "ss_w (with_results st r) = ss_w st" "ss_opt (with_results st r) = ss_opt st" "ss_ema (with_results st r) = ss_ema st"
  "ss_step (with_results st r) = ss_step st" "with_results (with_results st r) r' = with_results st r'"
  by (simp_all add: with_results_def)

lemma sweep_batches_results:
  "sweep_batches step c tot bs (with_results st r) = res_bind (sweep_batches step c tot bs st) (\<lambda>s. Inr (with_results s r))"
proof (induction bs arbitrary: st)
  case (Cons b bs)
  have "(with_results st r)\<lparr>ss_w := w, ss_opt := opt, ss_ema := sh, ss_step := k\<rparr> =
      with_results (st\<lparr>ss_w := w, ss_opt := opt, ss_ema := sh, ss_step := k\<rparr>) r" for w opt sh k
    by (simp add: with_results_def)
  then show ?case
    by (simp add: Let_def Cons.IH res_bind_assoc split_def)
qed simp

lemma sweep_batches_keeps:
  assumes "step_keeps step" and "distinct (map fst m0)"
  shows "sw_shape m0 st \<Longrightarrow> sweep_batches step c tot bs st = Inr st' \<Longrightarrow>
    sw_shape m0 st' \<and> ss_step st' = ss_step st + length bs \<and> st' = with_results st' st"
proof (induction bs arbitrary: st)
  case Nil
  then show ?case by (simp add: with_results_def)
next
  case (Cons b bs)
  obtain w opt where s: "step c (sweep_loss c b) (cosine_lr (ss_step st) (sc_warmup c) tot (sc_lr c) (5/100)) b (ss_w st) (ss_opt st)
      = Inr (w, opt)"
    using Cons.prems(2) by (auto simp: Let_def res_bind_Inr_iff)
  have "same_shape w (ss_w st)" using assms(1) s unfolding step_keeps_def by blast
  then have w: "same_shape w m0" using Cons.prems(1) same_shape_trans by (auto simp: sw_shape_def)
  then have d: "distinct (map fst w)" using assms(2) same_shape_names by metis
  have f: "shadow_fits (ss_ema st) w" using Cons.prems(1) shadow_fits_same [OF _ w] by (simp add: sw_shape_def)
  obtain sh where sh: "ema_update (sc_ema_decay c) w (ss_ema st) = Inr sh" "shadow_fits sh w"
    using ema_update_fits [OF f d] by blast
  let ?st = "st\<lparr>ss_w := w, ss_opt := opt, ss_ema := sh, ss_step := ss_step st + 1\<rparr>"
  have "sw_shape m0 ?st"
    using w shadow_fits_same [OF sh(2) same_shape_sym [OF w]] by (simp add: sw_shape_def)
  moreover have "sweep_batches step c tot bs ?st = Inr st'"
    using Cons.prems(2) s sh(1) by (simp add: Let_def)
  ultimately have "sw_shape m0 st' \<and> ss_step st' = ss_step ?st + length bs \<and> st' = with_results st' ?st"
    by (rule Cons.IH)
  then show ?case by (simp add: with_results_def)
qed

lemma sweep_validate_eq:
  assumes "covers (ss_ema st) (ss_w st)" and "distinct (map fst (ss_w st))"
  shows "sweep_validate val st =
    res_bind (val (ss_w st)) (\<lambda>r. res_bind (val (with_data (ss_ema st) (ss_w st))) (\<lambda>e.
      Inr (st\<lparr>ss_avg := keep_best e (state_dict (with_data (ss_ema st) (ss_w st))) (ss_avg st),
              ss_raw := keep_best r (state_dict (ss_w st)) (ss_raw st), ss_log := ss_log st @ [(r, e)]\<rparr>)))"
proof -
  have "with_data (snapshot (ss_w st)) (with_data (ss_ema st) (ss_w st)) = ss_w st"
    by (rule restore [OF assms(2)])
  then show ?thesis
    using assms by (simp add: sweep_validate_def copy_to_eq covers_with_data covers_snapshot Let_def)
qed

text \<open>What is kept with a best value: weights that attain it, and a value no worse than any logged one by more than 1e-5.\<close>

definition tracks :: "(params \<Rightarrow> real res) \<Rightarrow> params \<Rightarrow> real list \<Rightarrow> ext \<times> shadow option \<Rightarrow> bool" where
  "tracks val m0 losses best \<longleftrightarrow>
     (\<exists>vs. best = best_of vs \<and> losses = map fst vs \<and>
       (\<forall>(v, sd) \<in> set vs. \<exists>w. same_shape w m0 \<and> sd = state_dict w \<and> val w = Inr v))"

lemma tracks_snoc:
  assumes "tracks val m0 ls best" and "same_shape w m0" and "val w = Inr v"
  shows "tracks val m0 (ls @ [v]) (keep_best v (state_dict w) best)"
proof -
  obtain vs where "best = best_of vs" "ls = map fst vs"
    "\<forall>(v, sd) \<in> set vs. \<exists>w. same_shape w m0 \<and> sd = state_dict w \<and> val w = Inr v"
    using assms(1) by (auto simp: tracks_def)
  then show ?thesis
    unfolding tracks_def using assms(2,3) by (intro exI [of _ "vs @ [(v, state_dict w)]"]) auto
qed

lemma tracks_Nil: "tracks val m0 [] (Infty, None)"
  unfolding tracks_def by (rule exI [of _ "[]"]) simp

lemma tracks_empty: "tracks val m0 [] best \<Longrightarrow> best = (Infty, None)"
  by (auto simp: tracks_def)

lemma tracks_best:
  assumes "tracks val m0 ls best" and "ls \<noteq> []"
  shows "\<exists>v w. best = (Fin v, Some (state_dict w)) \<and> same_shape w m0 \<and> val w = Inr v \<and> v \<in> set ls \<and>
    (\<forall>u \<in> set ls. v \<le> u + 1/100000)"
proof -
  obtain vs where vs: "best = best_of vs" "ls = map fst vs"
    "\<forall>(v, sd) \<in> set vs. \<exists>w. same_shape w m0 \<and> sd = state_dict w \<and> val w = Inr v"
    using assms(1) by (auto simp: tracks_def)
  moreover have "vs \<noteq> []" using assms(2) vs(2) by simp
  then obtain v sd where b: "best_of vs = (Fin v, Some sd)" "(v, sd) \<in> set vs" "\<forall>(u, x) \<in> set vs. v \<le> u + 1/100000"
    using best_of_sound by blast
  moreover obtain w where "same_shape w m0" "sd = state_dict w" "val w = Inr v" using vs(3) b(2) by auto
  moreover have "v \<in> set ls" using b(2) vs(2) by force
  moreover have "\<forall>u \<in> set ls. v \<le> u + 1/100000" using b(3) vs(2) by auto
  ultimately show ?thesis by blast
qed

definition sw_inv :: "(params \<Rightarrow> real res) \<Rightarrow> params \<Rightarrow> 's sweep_state \<Rightarrow> bool" where
  "sw_inv val m0 st \<longleftrightarrow> sw_shape m0 st \<and> tracks val m0 (map fst (ss_log st)) (ss_raw st) \<and>
     tracks val m0 (map snd (ss_log st)) (ss_avg st)"

text \<open>Training alone, without any validation: what the validated training is compared with.\<close>

fun train_only :: "'s sweep_step \<Rightarrow> sweep_cfg \<Rightarrow> nat \<Rightarrow> batch list list \<Rightarrow> 's sweep_state \<Rightarrow> 's sweep_state res" where
  "train_only step c tot [] st = Inr st"
| "train_only step c tot (bs # rest) st = res_bind (sweep_batches step c tot bs st) (train_only step c tot rest)"

lemma train_only_results:
  "train_only step c tot bss (with_results st r) = res_bind (train_only step c tot bss st) (\<lambda>s. Inr (with_results s r))"
  by (induction bss arbitrary: st) (simp_all add: sweep_batches_results res_bind_assoc)

lemma sweep_validate_facts:
  assumes "sw_inv val m0 st" and "distinct (map fst m0)" and "sweep_validate val st = Inr st'"
  shows "sw_inv val m0 st' \<and> length (ss_log st') = Suc (length (ss_log st)) \<and> st' = with_results st st'"
proof -
  have sh: "sw_shape m0 st" using assms(1) by (simp add: sw_inv_def)
  note now = sw_shape_now [OF sh assms(2)]
  let ?e = "with_data (ss_ema st) (ss_w st)"
  obtain r e where v: "val (ss_w st) = Inr r" "val ?e = Inr e"
    and st': "st' = st\<lparr>ss_avg := keep_best e (state_dict ?e) (ss_avg st),
              ss_raw := keep_best r (state_dict (ss_w st)) (ss_raw st), ss_log := ss_log st @ [(r, e)]\<rparr>"
    using assms(3) by (auto simp: sweep_validate_eq [OF now(3,1)] res_bind_Inr_iff)
  have raw: "same_shape (ss_w st) m0" using sh by (simp add: sw_shape_def)
  have avg: "same_shape ?e m0" using with_data_shape [OF now(2,1)] raw same_shape_trans by blast
  have "tracks val m0 (map fst (ss_log st')) (ss_raw st')" "tracks val m0 (map snd (ss_log st')) (ss_avg st')"
    using assms(1) tracks_snoc [where val = val, OF _ raw v(1)] tracks_snoc [where val = val, OF _ avg v(2)] by (simp_all add: st' sw_inv_def)
  moreover have "sw_shape m0 st'" using sh by (simp add: st' sw_shape_def)
  ultimately show ?thesis by (simp add: sw_inv_def) (simp add: st' with_results_def)
qed

lemma sweep_epochs_facts:
  assumes "step_keeps step" and "distinct (map fst m0)"
  shows "sw_inv val m0 st \<Longrightarrow> sweep_epochs step val c tot bss st = Inr st' \<Longrightarrow>
    sw_inv val m0 st' \<and> length (ss_log st') = length (ss_log st) + length bss \<and>
    ss_step st' = ss_step st + length (concat bss) \<and>
    train_only step c tot bss st = Inr (with_results st' st)"
proof (induction bss arbitrary: st)
  case Nil
  then show ?case by (simp add: with_results_def)
next
  case (Cons bs bss)
  obtain st1 st2 where s: "sweep_batches step c tot bs st = Inr st1" "sweep_validate val st1 = Inr st2"
    "sweep_epochs step val c tot bss st2 = Inr st'"
    using Cons.prems(2) by (auto simp: res_bind_Inr_iff)
  have "sw_shape m0 st" using Cons.prems(1) by (simp add: sw_inv_def)
  then have k: "sw_shape m0 st1" "ss_step st1 = ss_step st + length bs" "st1 = with_results st1 st"
    using sweep_batches_keeps [OF assms _ s(1)] by blast+
  have "ss_raw st1 = ss_raw st" "ss_avg st1 = ss_avg st" "ss_log st1 = ss_log st"
    using k(3) by (metis sweep_state.select_convs sweep_state.surjective with_results_def sweep_state.update_convs)+
  then have "sw_inv val m0 st1" using Cons.prems(1) k(1) by (simp add: sw_inv_def)
  from sweep_validate_facts [OF this assms(2) s(2)]
  have v: "sw_inv val m0 st2" "length (ss_log st2) = Suc (length (ss_log st1))" "st2 = with_results st1 st2" by blast+
  note IH = Cons.IH [OF v(1) s(3)]
  have "ss_step st2 = ss_step st1" by (subst v(3)) simp
  moreover have "train_only step c tot bss st1 = Inr (with_results st' st)"
  proof -
    have "st1 = with_results st2 st" using k(3) v(3) by (metis with_results_simps(5))
    then show ?thesis using IH by (simp add: train_only_results)
  qed
  ultimately show ?case using IH k(2) v(2) s(1) \<open>ss_log st1 = ss_log st\<close> by simp
qed
lemma pick_best_facts:
  assumes "sw_inv val m0 st" and "distinct (map fst m0)"
  shows "\<exists>w b best. pick_best st = Inr (w, b, best) \<and>
    (if ss_log st = [] then w = ss_w st \<and> best = Infty
     else \<exists>v. best = Fin v \<and> same_shape w m0 \<and> val w = Inr v \<and> (\<forall>(raw, avg) \<in> set (ss_log st). v \<le> raw + 1/100000 \<and> v \<le> avg + 1/100000))"
proof -
  have r: "tracks val m0 (map fst (ss_log st)) (ss_raw st)" and a: "tracks val m0 (map snd (ss_log st)) (ss_avg st)"
    and sh: "same_shape (ss_w st) m0"
    using assms(1) by (simp_all add: sw_inv_def sw_shape_def)
  have d: "distinct (map fst (ss_w st))" using assms(2) same_shape_names [OF sh] by simp
  show ?thesis
  proof (cases "ss_log st = []")
    case True
    then have "ss_raw st = (Infty, None)" "ss_avg st = (Infty, None)"
      using tracks_empty [of val m0 "ss_raw st"] tracks_empty [of val m0 "ss_avg st"] r a by simp_all
    then show ?thesis using True by (auto simp: pick_best_def)
  next
    case False
    obtain v w where r': "ss_raw st = (Fin v, Some (state_dict w))" "same_shape w m0" "val w = Inr v"
      "\<forall>u \<in> set (map fst (ss_log st)). v \<le> u + 1/100000"
      using tracks_best [OF r] False by auto
    obtain v' w' where a': "ss_avg st = (Fin v', Some (state_dict w'))" "same_shape w' m0" "val w' = Inr v'"
      "\<forall>u \<in> set (map snd (ss_log st)). v' \<le> u + 1/100000"
      using tracks_best [OF a] False by auto
    have l: "load_state_dict (state_dict x) (ss_w st) = Inr x" if "same_shape x m0" for x
      using load_state_dict_same [OF same_shape_trans [OF that same_shape_sym [OF sh]] d] .
    show ?thesis
      using False r' a' l [OF r'(2)] l [OF a'(2)] by (auto simp: pick_best_def)
  qed
qed

lemma sweep_train_facts:
  assumes "step_keeps (se_step env)" and "\<And>c rng. distinct (map fst (fst (se_model env c rng)))"
    and "sweep_train env args rng = Inr (name, c, st)"
  shows "sweep_cfg_of args = Inr c \<and> sa_name args = Some name \<and> 0 < sc_bs c \<and>
    sw_inv (sweep_val env c) (fst (se_model env c rng)) st \<and> length (ss_log st) = sc_epochs c \<and>
    ss_step st = length (concat (sweep_data env c)) \<and>
    train_only (se_step env) c (ds_n (se_train env) div sc_bs c * sc_epochs c) (sweep_data env c) (sweep_start (se_model env c rng)) =
      Inr (with_results st (sweep_start (se_model env c rng)))"
proof -
  let ?m = "se_model env c rng" and ?tot = "ds_n (se_train env) div sc_bs c * sc_epochs c"
  have s: "sweep_cfg_of args = Inr c" "sa_name args = Some name" "0 < sc_bs c"
    "sweep_epochs (se_step env) (sweep_val env c) c ?tot (sweep_data env c) (sweep_start ?m) = Inr st"
    using assms(3) by (auto simp: sweep_train_def res_bind_Inr_iff num_batches_def required_def split: if_splits option.splits)
  have "sw_inv (sweep_val env c) (fst ?m) (sweep_start ?m)"
    using shadow_fits_snapshot [OF assms(2)] tracks_Nil by (simp add: sw_inv_def sweep_start_def sw_shape_def)
  from sweep_epochs_facts [OF assms(1,2) this s(4)] show ?thesis
    using s by (simp add: sweep_start_def sweep_data_def)
qed

definition no_disk :: sweep_disk where
  "no_disk = \<lparr>sd_log = [], sd_dirs = {}, sd_exports = Map.empty\<rparr>"

text \<open>What the end of a run with a name that is a string does to an empty disk, by the operation that fails.\<close>

lemma export_ops_disk:
  "run_sweep_ops fault (export_ops (Name n) line ck) no_disk =
     (let k = (case fault of None \<Rightarrow> 5 | Some (k, e) \<Rightarrow> k) in
      (\<lparr>sd_log = (if 0 < k then [line] else []), sd_dirs = (if 2 < k then {n} else {}),
        sd_exports = (if k < 4 then Map.empty else [n \<mapsto> if k = 4 then Torn else Saved ck])\<rparr>,
       case fault of Some (k, e) \<Rightarrow> if k < 5 then Inl e else Inr () | None \<Rightarrow> Inr ()))"
proof (cases fault)
  case (Some q)
  obtain k e where q: "q = (k, e)" by (cases q)
  have "k = 0 \<or> k = 1 \<or> k = 2 \<or> k = 3 \<or> k = 4 \<or> (\<exists>j. k = Suc (Suc (Suc (Suc (Suc j)))))" by presburger
  then show ?thesis
    by (elim disjE exE) (simp_all add: Some q export_ops_def no_disk_def Let_def numeral_2_eq_2 numeral_3_eq_3 numeral_eq_Suc)
qed (simp add: export_ops_def no_disk_def)

lemma export_ops_other:
  "run_sweep_ops fault (export_ops (OtherName s) line ck) no_disk =
     (if \<exists>e. fault = Some (0, e) then (no_disk, Inl (snd (the fault))) else (no_disk\<lparr>sd_log := [line]\<rparr>, Inl TypeError))"
  by (auto simp: export_ops_def no_disk_def split: option.splits prod.splits nat.splits)

text \<open>The operations only add to the disk: what they find there does not change what they add.\<close>

definition merge_disk :: "sweep_disk \<Rightarrow> sweep_disk \<Rightarrow> sweep_disk" where
  "merge_disk d e =
     \<lparr>sd_log = sd_log d @ sd_log e, sd_dirs = sd_dirs d \<union> sd_dirs e, sd_exports = sd_exports d ++ sd_exports e\<rparr>"

lemma merge_no_disk [simp]: "merge_disk d no_disk = d"
  by (simp add: merge_disk_def no_disk_def)

lemma merge_disk_assoc: "merge_disk (merge_disk d e) f = merge_disk d (merge_disk e f)"
  by (simp add: merge_disk_def Un_assoc)

lemma sweep_op_step_merge:
  "sweep_op_step x (merge_disk d e) = res_bind (sweep_op_step x e) (\<lambda>e'. Inr (merge_disk d e'))"
  by (cases "(x, e)" rule: sweep_op_step.cases) (simp_all add: merge_disk_def)

lemma run_sweep_ops_merge:
  "run_sweep_ops fault xs (merge_disk d e) =
     (merge_disk d (fst (run_sweep_ops fault xs e)), snd (run_sweep_ops fault xs e))"
  by (induction fault xs e rule: run_sweep_ops.induct)
    (simp_all add: sweep_op_step_merge split: sum.split option.split prod.split nat.split)

lemma sweep_report_merge:
  "sweep_report name c st fault d =
     (merge_disk d (fst (sweep_report name c st fault no_disk)), snd (sweep_report name c st fault no_disk))"
  using run_sweep_ops_merge [of fault _ d no_disk]
  by (simp add: sweep_report_def split_def Let_def split: sum.split)

definition demo_sweep_step :: "unit sweep_step" where
  "demo_sweep_step c f lr b w s = Inr (map (\<lambda>(n, p). (n, p\<lparr>p_data := map (\<lambda>x. x + lr) (p_data p)\<rparr>)) w, s)"

lemma demo_sweep_step_keeps: "step_keeps demo_sweep_step"
  by (auto simp: step_keeps_def demo_sweep_step_def same_shape_def)

text \<open>A concrete environment: the weight is drawn from the generator, and each run moves the generator on.\<close>

definition demo_sweep :: "(int, unit) sweep_env" where
  "demo_sweep =
     \<lparr>se_step = demo_sweep_step, se_loss = (\<lambda>c. demo_loss), se_perms = (\<lambda>seed e. [0]), se_seed = (\<lambda>seed. seed),
      se_model = (\<lambda>c rng. ([(''w'', \<lparr>requires_grad = True, p_data = [real_of_int rng + 2]\<rparr>)], ())),
      se_left = (\<lambda>args rng. rng + 1), se_train = BidDataset [demo_out 1 [] 5], se_val = BidDataset [demo_out 2 [] 7]\<rparr>"

definition demo_world :: "int sweep_world" where
  "demo_world = \<lparr>sw_rng = 7, sw_disk = no_disk\<rparr>"

definition demo_run :: "run_name option \<Rightarrow> sweep_args" where
  "demo_run name =
     \<lparr>sa_name = name, sa_seed = Some 1, sa_K = None, sa_hidden = None, sa_batch_size = Some 1, sa_lr = Some (1/1000),
      sa_dropout = Some 0, sa_weight_decay = Some 0, sa_sigma_floor = Some (1/10), sa_epochs = Some 2, sa_ema_decay = None,
      sa_warmup = None, sa_ent_bonus = None\<rparr>"

lemma demo_batches:
  assumes "0 < b" and "p = None \<or> p = Some [0]"
  shows "iter_batches (BidDataset [r]) b p d = Some (map (make_batch (BidDataset [r])) (batch_slices b d [0]))"
  using iter_batches_eq [OF assms(1), of "[0]" "[r]" d] assms(2) by (auto simp: iter_batches_unshuffled BidDataset_def)

lemma demo_eval:
  assumes "0 < k"
  shows "evaluate_loss (demo_loss w) (BidDataset [r]) k = Some (Inr (sum_list (map (\<lambda>(n, p). sum_list (p_data p)) w)))"
  using assms
  by (simp add: evaluate_loss_def demo_batches demo_loss_def batch_slices_def batch_count_def make_batch_def gather_def)

lemma ds_n_BidDataset [simp]: "ds_n (BidDataset df) = length df"
  by (simp add: BidDataset_def)

lemmas demo_sweep_simps = demo_run_def sweep_cfg_of_def required_def arg_or_def demo_sweep_def num_batches_def
  sweep_start_def sweep_data_def sweep_val_def demo_batches demo_eval batch_slices_def batch_count_def

lemma demo_trains: "\<exists>c st. sweep_train demo_sweep (demo_run (Some n)) rng = Inr (n, c, st)"
  by (simp add: sweep_train_def demo_sweep_simps sweep_validate_def demo_sweep_step_def copy_to_def snapshot_def
      blend_def Let_def numeral_2_eq_2)

lemma demo_names: "distinct (map fst (fst (se_model demo_sweep c rng)))"
  by (simp add: demo_sweep_def)

lemma demo_keeps: "step_keeps (se_step demo_sweep)"
  by (simp add: demo_sweep_def demo_sweep_step_keeps)

text \<open>A run that trains and whose name is a string.\<close>

lemma train_one_trained:
  assumes "step_keeps (se_step env)" and "\<And>c rng. distinct (map fst (fst (se_model env c rng)))"
    and "sa_seed args = Some seed" and "0 \<le> seed" and "seed < 2 ^ 32"
    and "sweep_train env args (se_seed env seed) = Inr (Name n, c, st)"
  shows "\<exists>w res. train_one env args None world = (w, Inr res) \<and> sr_name res = n"
proof -
  note f = sweep_train_facts [OF assms(1,2,6)]
  then obtain w b v where "pick_best st = Inr (w, b, v)" using pick_best_facts [OF _ assms(2)] by blast
  then show ?thesis
    using assms(3-6)
    by (simp add: train_one_def set_seed_def required_def sweep_report_def export_ops_def Let_def)
qed

lemma demo_trains_one: "\<exists>w res. train_one demo_sweep (demo_run (Some (Name n))) None world = (w, Inr res) \<and> sr_name res = n"
proof -
  obtain c st where "sweep_train demo_sweep (demo_run (Some (Name n))) (se_seed demo_sweep 1) = Inr (Name n, c, st)"
    using demo_trains by blast
  then show ?thesis
    by (intro train_one_trained [OF demo_keeps demo_names, where seed = 1]) (simp_all add: demo_run_def)
qed

text \<open>
  C20: A run of the sweep that ends leaves a file under its name, written with the settings of the run
  (also the floor of the deviations). After at least one epoch the saved weights, loaded into a fresh
  network, attain the stored validation loss, which no printed loss of raw or averaged weights beats by
  more than 1e-5; without epochs the fresh weights, those drawn after seeding, are saved with an infinite
  loss.
\<close>

theorem sweep_export_sound:
  assumes "step_keeps (se_step env)" and "\<And>c rng. distinct (map fst (fst (se_model env c rng)))"
    and "train_one env args fault world = (world', Inr res)"
  shows "\<exists>c st ck. sweep_train env args (se_seed env (sc_seed c)) = Inr (Name (sr_name res), c, st) \<and>
    length (ss_log st) = sc_epochs c \<and>
    sd_exports (sw_disk world') (sr_name res) = Some (Saved ck) \<and> sk_val ck = sr_val res \<and>
    sk_sigma_floor ck = sc_sigma_floor c \<and>
    (let fresh = fst (se_model env c (se_seed env (sc_seed c))) in
     if sc_epochs c = 0 then sk_val ck = Infty \<and> sk_full ck = state_dict fresh
     else \<exists>v w. sk_val ck = Fin v \<and> load_state_dict (sk_full ck) fresh = Inr w \<and> sweep_val env c w = Inr v \<and>
       (\<forall>(raw, avg) \<in> set (ss_log st). v \<le> raw + 1/100000 \<and> v \<le> avg + 1/100000))"
proof -
  obtain seed name c st disk where sd: "sa_seed args = Some seed"
    and tr: "sweep_train env args (se_seed env seed) = Inr (name, c, st)"
    and rp: "sweep_report name c st fault (sw_disk world) = (disk, Inr res)" "sw_disk world' = disk"
    using assms(3)
    by (auto simp: train_one_def required_def set_seed_def Let_def split: option.splits if_splits sum.splits prod.splits)
  let ?m = "fst (se_model env c (se_seed env seed))"
  note f = sweep_train_facts [OF assms(1,2) tr]
  have seed: "sc_seed c = seed" using f sd by (auto simp: sweep_cfg_of_def required_def res_bind_Inr_iff split: option.splits)
  have inv: "sw_inv (sweep_val env c) ?m st" using f by blast
  obtain w b best where p: "pick_best st = Inr (w, b, best)"
    "if ss_log st = [] then w = ss_w st \<and> best = Infty
     else \<exists>v. best = Fin v \<and> same_shape w ?m \<and> sweep_val env c w = Inr v \<and>
       (\<forall>(raw, avg) \<in> set (ss_log st). v \<le> raw + 1/100000 \<and> v \<le> avg + 1/100000)"
    using pick_best_facts [OF inv assms(2)] by blast
  have none: "ss_w st = ?m" if "sc_epochs c = 0"
  proof -
    let ?s = "sweep_start (se_model env c (se_seed env seed))"
    have "?s = with_results st ?s" using f that by (simp add: sweep_data_def)
    then have "ss_w ?s = ss_w (with_results st ?s)" by (rule arg_cong)
    then show ?thesis by (simp add: sweep_start_def)
  qed
  obtain n where n: "name = Name n" and d: "sr_name res = n" "sr_val res = best"
    and ck: "\<exists>ck. sd_exports disk n = Some (Saved ck) \<and> sk_val ck = best \<and> sk_sigma_floor ck = sc_sigma_floor c \<and> sk_full ck = state_dict w"
    using rp(1) unfolding sweep_report_merge [of name c st fault "sw_disk world"]
    by (cases name)
      (auto simp: sweep_report_def p(1) Let_def split_def export_ops_disk export_ops_other merge_disk_def
        res_bind_Inr_iff split: if_splits option.splits)
  obtain ck where ck: "sd_exports disk n = Some (Saved ck)" "sk_val ck = best" "sk_sigma_floor ck = sc_sigma_floor c"
    "sk_full ck = state_dict w"
    using ck by blast
  have len: "length (ss_log st) = sc_epochs c" using f by blast
  show ?thesis
  proof (cases "sc_epochs c = 0")
    case True
    then show ?thesis
      using len tr p(2) d n none rp(2) ck by (intro exI [of _ c] exI [of _ st] exI [of _ ck]) (simp add: seed)
  next
    case False
    then have "ss_log st \<noteq> []" using len by auto
    then show ?thesis
      using len False tr p(2) d n rp(2) ck load_state_dict_same [OF _ assms(2)]
      by (intro exI [of _ c] exI [of _ st] exI [of _ ck]) (auto simp: seed)
  qed
qed

theorem sweep_export_sound_witness:
  "\<exists>res w ck v. train_one demo_sweep (demo_run (Some (Name ''a''))) None demo_world = (w, Inr res) \<and>
    sd_exports (sw_disk w) ''a'' = Some (Saved ck) \<and> sk_val ck = Fin v \<and> sk_sigma_floor ck = 1/10"
proof -
  obtain res w where r: "train_one demo_sweep (demo_run (Some (Name ''a''))) None demo_world = (w, Inr res)" "sr_name res = ''a''"
    using demo_trains_one by blast
  obtain c st ck where s: "sweep_train demo_sweep (demo_run (Some (Name ''a''))) (se_seed demo_sweep (sc_seed c)) = Inr (Name (sr_name res), c, st)"
    "sd_exports (sw_disk w) (sr_name res) = Some (Saved ck)" "sk_sigma_floor ck = sc_sigma_floor c"
    "sc_epochs c \<noteq> 0 \<longrightarrow> (\<exists>v. sk_val ck = Fin v)"
    using sweep_export_sound [OF demo_keeps demo_names r(1)] by (auto simp: Let_def split: if_splits)
  have "sc_epochs c = 2 \<and> sc_sigma_floor c = 1/10"
    using sweep_train_facts [OF demo_keeps demo_names s(1)] by (auto simp: demo_run_def sweep_cfg_of_def required_def arg_or_def)
  then show ?thesis using r s by auto
qed

text \<open>
  The validations of the sweep, which put the averaged weights into the network and take them out
  again, do not influence the training: weights, optimizer and moving average end as in a run of the
  batches alone, and the number of steps is the one the learning-rate schedule was planned for.
\<close>

theorem sweep_validation_pure:
  assumes "step_keeps (se_step env)" and "\<And>c rng. distinct (map fst (fst (se_model env c rng)))"
    and "\<And>seed e. length (se_perms env seed e) = ds_n (se_train env)"
    and "sweep_train env args rng = Inr (name, c, st)"
  shows "let tot = ds_n (se_train env) div sc_bs c * sc_epochs c in
    \<exists>st0. train_only (se_step env) c tot (sweep_data env c) (sweep_start (se_model env c rng)) = Inr st0 \<and>
      ss_w st = ss_w st0 \<and> ss_opt st = ss_opt st0 \<and> ss_ema st = ss_ema st0 \<and> ss_step st = tot"
proof -
  note f = sweep_train_facts [OF assms(1,2,4)]
  have b: "0 < sc_bs c" using f by blast
  have "length (the (iter_batches (se_train env) (sc_bs c) (Some (se_perms env (sc_seed c) e)) True)) = ds_n (se_train env) div sc_bs c" for e
    using batch_loop_eq [OF b assms(3) [of "sc_seed c" e], of 0 True "[]"]
    by (simp add: iter_batches_def length_batch_slices batch_count_def assms(3))
  then have "length (concat (sweep_data env c)) = ds_n (se_train env) div sc_bs c * sc_epochs c"
    by (simp add: sweep_data_def length_concat comp_def sum_list_triv)
  then show ?thesis using f by (simp add: Let_def)
qed

theorem sweep_validation_pure_witness:
  "\<exists>c st. sweep_train demo_sweep (demo_run (Some (Name ''a''))) 1 = Inr (Name ''a'', c, st) \<and> ss_step st = 2"
proof -
  obtain c st where s: "sweep_train demo_sweep (demo_run (Some (Name ''a''))) 1 = Inr (Name ''a'', c, st)" using demo_trains by blast
  have p: "length (se_perms demo_sweep seed e) = ds_n (se_train demo_sweep)" for seed e by (simp add: demo_sweep_def)
  have "sc_epochs c = 2 \<and> sc_bs c = 1 \<and> ds_n (se_train demo_sweep) = 1"
    using sweep_train_facts [OF demo_keeps demo_names s] by (auto simp: demo_run_def sweep_cfg_of_def required_def arg_or_def demo_sweep_def)
  then show ?thesis using sweep_validation_pure [OF demo_keeps demo_names p s] s by (auto simp: Let_def)
qed

section \<open>Failing runs\<close>

text \<open>
  A run that starts on any state of the generators and any disk gives the result it gives on an empty
  disk, and adds to the disk what it adds there.
\<close>

lemma train_one_anywhere:
  fixes env :: "('r, 's) sweep_env" and rng :: 'r
  defines "alone \<equiv> \<lambda>r fault. train_one env r fault \<lparr>sw_rng = rng, sw_disk = no_disk\<rparr>"
  shows "sw_disk (fst (train_one env r fault world)) = merge_disk (sw_disk world) (sw_disk (fst (alone r fault)))"
    and "snd (train_one env r fault world) = snd (alone r fault)"
proof -
  have eq: "train_one env r fault world =
    (let (w, res) = alone r fault in
      (\<lparr>sw_rng = sw_rng (fst (train_one env r fault world)), sw_disk = merge_disk (sw_disk world) (sw_disk w)\<rparr>, res))"
  proof -
    consider "sa_seed r = None" | seed where "sa_seed r = Some seed" "seed < 0 \<or> 2 ^ 32 \<le> seed"
      | seed where "sa_seed r = Some seed" "\<not> (seed < 0 \<or> 2 ^ 32 \<le> seed)"
      by (cases "sa_seed r") auto
    then show ?thesis
    proof cases
      case (3 seed)
      note d = alone_def train_one_def required_def set_seed_def
      show ?thesis
      proof (cases "sweep_train env r (se_seed env seed)")
        case (Inl e)
        then show ?thesis using 3 by (simp add: d)
      next
        case (Inr q)
        obtain name c st where "q = (name, c, st)" by (cases q)
        then show ?thesis
          using 3 Inr sweep_report_merge [of name c st fault "sw_disk world"] by (simp add: d split_def Let_def)
      qed
    qed (simp_all add: alone_def train_one_def required_def set_seed_def)
  qed
  show "sw_disk (fst (train_one env r fault world)) = merge_disk (sw_disk world) (sw_disk (fst (alone r fault)))"
    using arg_cong [OF eq, of "\<lambda>p. sw_disk (fst p)"] by (simp add: Let_def split_def)
  show "snd (train_one env r fault world) = snd (alone r fault)"
    using arg_cong [OF eq, of snd] by (simp add: Let_def split_def)
qed

lemma sweep_runs_alone:
  fixes env :: "('r, 's) sweep_env" and rng :: 'r
  defines "alone \<equiv> \<lambda>(r, fault). train_one env r fault \<lparr>sw_rng = rng, sw_disk = no_disk\<rparr>"
  shows "\<exists>world'. sweep_runs env runs world =
    (map projr (filter is_ok (map (snd \<circ> alone) runs)),
     map (\<lambda>run. (sa_name (fst run), projl (snd (alone run)))) (filter (\<lambda>run. \<not> is_ok (snd (alone run))) runs), world') \<and>
    sw_disk world' = foldl merge_disk (sw_disk world) (map (sw_disk \<circ> fst \<circ> alone) runs)"
proof (induction runs arbitrary: world)
  case (Cons run runs)
  obtain r fault where run: "run = (r, fault)" by (cases run)
  obtain w1 res where t: "train_one env r fault world = (w1, res)" by (meson surj_pair)
  have a: "sw_disk w1 = merge_disk (sw_disk world) (sw_disk (fst (alone run)))" "res = snd (alone run)"
    using train_one_anywhere [of env r fault world rng] t by (simp_all add: alone_def run)
  obtain world' where "sweep_runs env runs w1 =
    (map projr (filter is_ok (map (snd \<circ> alone) runs)),
     map (\<lambda>run. (sa_name (fst run), projl (snd (alone run)))) (filter (\<lambda>run. \<not> is_ok (snd (alone run))) runs), world')"
    "sw_disk world' = foldl merge_disk (sw_disk w1) (map (sw_disk \<circ> fst \<circ> alone) runs)"
    using Cons.IH by blast
  then show ?case
    using a by (cases "snd (alone run)") (simp_all add: run t comp_def)
qed simp

lemma merge_disks:
  "foldl merge_disk d es =
     \<lparr>sd_log = sd_log d @ concat (map sd_log es), sd_dirs = sd_dirs d \<union> \<Union> (sd_dirs ` set es),
      sd_exports = foldl (++) (sd_exports d) (map sd_exports es)\<rparr>"
  by (induction es arbitrary: d) (auto simp: merge_disk_def)

text \<open>What a run alone leaves on the disk.\<close>

definition run_leaves :: "run_name option \<Rightarrow> fault \<Rightarrow> sweep_disk \<Rightarrow> sweep_result res \<Rightarrow> bool" where
  "run_leaves name fault disk r \<longleftrightarrow>
     (case r of
        Inr res \<Rightarrow>
          name = Some (Name (sr_name res)) \<and>
          (\<exists>line ck. disk = \<lparr>sd_log = [line], sd_dirs = {sr_name res}, sd_exports = [sr_name res \<mapsto> Saved ck]\<rparr> \<and>
             sl_name line = sr_name res \<and> sl_val line = sr_val res \<and> sk_val ck = sr_val res)
      | Inl e \<Rightarrow>
          disk = no_disk \<or>
          (\<exists>line n. name = Some n \<and> sl_name line = printed_name n \<and> sd_log disk = [line] \<and>
             (case n of
                OtherName s \<Rightarrow> e = TypeError \<and> sd_dirs disk = {} \<and> sd_exports disk = Map.empty
              | Name n \<Rightarrow> \<exists>k. fault = Some (k, e) \<and> 0 < k \<and> k < 5 \<and> sd_dirs disk = (if 2 < k then {n} else {}) \<and>
                  sd_exports disk = (if k = 4 then [n \<mapsto> Torn] else Map.empty))))"

lemma run_leaves_no_disk: "run_leaves name fault no_disk (Inl e)"
  by (simp add: run_leaves_def)

lemma export_leaves:
  assumes "sl_name line = printed_name name" and "sl_val line = v" and "sk_val ck = v"
  shows "run_leaves (Some name) fault (fst (run_sweep_ops fault (export_ops name line ck) no_disk))
    (res_bind (snd (run_sweep_ops fault (export_ops name line ck) no_disk))
      (\<lambda>_. Inr \<lparr>sr_name = printed_name name, sr_val = v, sr_ema = b\<rparr>))"
proof (cases name)
  case (Name n)
  show ?thesis
  proof (cases "fault = None \<or> (\<exists>k e. fault = Some (k, e) \<and> 5 \<le> k)")
    case True
    then show ?thesis using assms by (auto simp: Name export_ops_disk run_leaves_def)
  next
    case False
    then obtain k e where "fault = Some (k, e)" "k < 5" by (cases fault) auto
    then show ?thesis using assms by (cases "k = 0") (simp_all add: Name export_ops_disk run_leaves_def, simp_all add: no_disk_def)
  qed
next
  case (OtherName s)
  then show ?thesis using assms by (auto simp: export_ops_other run_leaves_def) (simp_all add: no_disk_def)
qed

lemma sweep_report_leaves:
  "run_leaves (Some name) fault (fst (sweep_report name c st fault no_disk)) (snd (sweep_report name c st fault no_disk))"
  by (simp add: sweep_report_def Let_def split_def run_leaves_no_disk export_leaves split: sum.split)

lemma train_one_leaves:
  "run_leaves (sa_name r) fault (sw_disk (fst (train_one env r fault \<lparr>sw_rng = rng, sw_disk = no_disk\<rparr>)))
     (snd (train_one env r fault \<lparr>sw_rng = rng, sw_disk = no_disk\<rparr>))"
proof -
  have "sa_name r = Some name" if "sweep_train env r g = Inr (name, c, st)" for g name c st
    using that by (auto simp: sweep_train_def res_bind_Inr_iff required_def split: option.splits)
  then show ?thesis
    using sweep_report_leaves
    by (auto simp: train_one_def required_def set_seed_def Let_def run_leaves_no_disk split_def
        split: option.split sum.split)
qed

text \<open>
  C22: The sweep isolates its runs although they share the random generators, the log and the export
  directory: seeding makes each give the result, the error and the effect on the disk that it gives alone,
  started on any state of the generators and an empty disk. Results and failures come in the order of the
  runs, the log is the concatenation of what the runs write, and of several runs with one name the last file
  stays. A run that ends has written exactly its line, its directory and its complete file. A run that raises
  has left nothing, or it was trained and logged and then lost: with a name that is no string, whose path
  cannot be built, or by a fault of the file system, which leaves at most a torn file under its own name.
\<close>

theorem sweep_isolates_runs:
  "let alone = (\<lambda>(r, fault). train_one env r fault \<lparr>sw_rng = rng, sw_disk = no_disk\<rparr>);
       (results, failed, world') = mdn_sweep env runs world; disk = sw_disk world; disk' = sw_disk world' in
   results = map projr (filter is_ok (map (snd \<circ> alone) runs)) \<and>
   failed = map (\<lambda>run. (sa_name (fst run), projl (snd (alone run)))) (filter (\<lambda>run. \<not> is_ok (snd (alone run))) runs) \<and>
   sd_log disk' = concat (map (sd_log \<circ> sw_disk \<circ> fst \<circ> alone) runs) \<and>
   sd_dirs disk' = sd_dirs disk \<union> \<Union> ((sd_dirs \<circ> sw_disk \<circ> fst \<circ> alone) ` set runs) \<and>
   sd_exports disk' = foldl (++) (sd_exports disk) (map (sd_exports \<circ> sw_disk \<circ> fst \<circ> alone) runs) \<and>
   list_all (\<lambda>(r, fault). run_leaves (sa_name r) fault (sw_disk (fst (alone (r, fault)))) (snd (alone (r, fault)))) runs"
proof -
  define alone where "alone = (\<lambda>(r, fault). train_one env r fault \<lparr>sw_rng = rng, sw_disk = no_disk\<rparr>)"
  define start where "start = world\<lparr>sw_disk := (sw_disk world)\<lparr>sd_log := []\<rparr>\<rparr>"
  obtain world' where w: "sweep_runs env runs start =
    (map projr (filter is_ok (map (snd \<circ> alone) runs)),
     map (\<lambda>run. (sa_name (fst run), projl (snd (alone run)))) (filter (\<lambda>run. \<not> is_ok (snd (alone run))) runs), world')"
    "sw_disk world' = foldl merge_disk (sw_disk start) (map (sw_disk \<circ> fst \<circ> alone) runs)"
    using sweep_runs_alone [of env runs start rng] unfolding alone_def by blast
  have "list_all (\<lambda>(r, fault). run_leaves (sa_name r) fault (sw_disk (fst (alone (r, fault)))) (snd (alone (r, fault)))) runs"
    by (auto simp: list_all_iff alone_def train_one_leaves)
  then show ?thesis
    unfolding Let_def mdn_sweep_def alone_def [symmetric] start_def [symmetric] w(1) prod.case w(2) merge_disks
    by (simp add: start_def comp_assoc image_comp)
qed

lemma demo_other_name:
  "\<exists>w line. train_one demo_sweep (demo_run (Some (OtherName ''5''))) None world = (w, Inl TypeError) \<and>
    sd_log (sw_disk w) = sd_log (sw_disk world) @ [line]"
proof -
  obtain c st where s: "sweep_train demo_sweep (demo_run (Some (OtherName ''5''))) (se_seed demo_sweep 1) = Inr (OtherName ''5'', c, st)"
    using demo_trains by blast
  obtain w b v where "pick_best st = Inr (w, b, v)"
    using sweep_train_facts [OF demo_keeps demo_names s] pick_best_facts [OF _ demo_names] by blast
  then show ?thesis
    using s by (simp add: train_one_def demo_run_def required_def set_seed_def sweep_report_def export_ops_def Let_def)
qed

theorem sweep_isolates_runs_witness:
  "\<exists>res w. mdn_sweep demo_sweep [(demo_run (Some (OtherName ''5'')), None), (demo_run None, None),
      (demo_run (Some (Name ''a'')), None)] demo_world =
      ([res], [(Some (OtherName ''5''), TypeError), (None, KeyError)], w) \<and>
    sr_name res = ''a'' \<and> length (sd_log (sw_disk w)) = 2"
proof -
  let ?start = "\<lparr>sw_rng = 3, sw_disk = no_disk\<rparr> :: int sweep_world"
  let ?runs = "[(demo_run (Some (OtherName ''5'')), None), (demo_run None, None), (demo_run (Some (Name ''a'')), None)]"
  obtain w1 res where r: "train_one demo_sweep (demo_run (Some (Name ''a''))) None ?start = (w1, Inr res)" "sr_name res = ''a''"
    using demo_trains_one by blast
  obtain w2 line where o: "train_one demo_sweep (demo_run (Some (OtherName ''5''))) None ?start = (w2, Inl TypeError)"
    "sd_log (sw_disk w2) = [line]"
    using demo_other_name [of ?start] by (auto simp: no_disk_def)
  have f: "train_one demo_sweep (demo_run None) None ?start = (\<lparr>sw_rng = 2, sw_disk = no_disk\<rparr>, Inl KeyError)"
    by (simp add: train_one_def sweep_train_def set_seed_def demo_sweep_simps)
  obtain w' results failed where m: "mdn_sweep demo_sweep ?runs demo_world = (results, failed, w')" by (metis prod_cases3)
  have n: "sa_name (demo_run x) = x" for x by (simp add: demo_run_def)
  note iso = sweep_isolates_runs [of demo_sweep 3 ?runs demo_world, unfolded Let_def m prod.case]
  have "length (sd_log (sw_disk w1)) = 1" using iso r(1) by (auto simp: run_leaves_def)
  moreover have "sd_log no_disk = []" by (simp add: no_disk_def)
  ultimately show ?thesis
    using iso r o by (simp add: m f n)
qed

section \<open>The sweep over bins networks\<close>

lemma v2_slices_eq:
  assumes "0 < bs" and "length perm = n"
  shows "v2_slices n bs perm cur idxs = Some (idxs @ batch_slices bs True (drop cur (take (n - 1) perm)))"
proof (induction "n - cur" arbitrary: cur idxs rule: less_induct)
  case less
  let ?p = "drop cur (take (n - 1) perm)"
  show ?case
  proof (cases "cur + bs < n")
    case True
    then have "v2_slices n bs perm cur idxs = v2_slices n bs perm (cur + bs) (idxs @ [slice cur (cur + bs) perm])"
      by (subst v2_slices.simps) auto
    also have "\<dots> = Some ((idxs @ [slice cur (cur + bs) perm]) @ batch_slices bs True (drop (cur + bs) (take (n - 1) perm)))"
      using True assms(1) by (intro less.hyps) auto
    also have "slice cur (cur + bs) perm = take bs ?p"
      using True by (simp add: slice_def drop_take min_def)
    finally show ?thesis
      using batch_slices_step [OF assms(1), of ?p True] True assms(2) by (simp add: add.commute)
  next
    case False
    then have "length ?p < bs" using assms by simp
    then have "batch_slices bs True ?p = []" by (simp add: batch_slices_def batch_count_def)
    then show ?thesis using False by (subst v2_slices.simps) auto
  qed
qed

lemma batches_of_full_drop_last:
  assumes "0 < bs" and "length perm = n"
  shows "batch_slices bs True perm =
    batch_slices bs True (take (n - 1) perm) @ (if 0 < n \<and> bs dvd n then [drop (n - bs) perm] else [])"
proof (cases "0 < n \<and> bs dvd n")
  case True
  then obtain k where k: "n = bs * k" by (auto elim: dvdE)
  then obtain j where j: "k = Suc j" using True by (cases k) auto
  have div: "(n - 1) div bs = j"
    using assms(1) by (intro div_nat_eqI) (simp_all add: k j)
  have "take bs (drop (i * bs) (take (n - 1) perm)) = take bs (drop (i * bs) perm)" if "i < j" for i
  proof -
    have "(i + 1) * bs \<le> j * bs" using that by (intro mult_right_mono) simp_all
    then have "i * bs + bs \<le> n - 1" using assms(1) by (simp add: k j algebra_simps)
    then show ?thesis by (simp add: take_drop min_def)
  qed
  moreover have "take bs (drop (j * bs) perm) = drop (n - bs) perm"
    using assms(2) by (simp add: k j mult.commute)
  ultimately show ?thesis
    using True assms div by (simp add: batch_slices_def batch_count_def k j min_def)
next
  case False
  show ?thesis
  proof (cases "n = 0")
    case True
    then show ?thesis using assms by simp
  next
    case nz: False
    then have "n mod bs \<noteq> 0" using False by (simp add: dvd_eq_mod_eq_0)
    then have div: "(n - 1) div bs = n div bs"
      using assms(1) nz by (cases n) (auto simp: div_Suc)
    have "take bs (drop (i * bs) (take (n - 1) perm)) = take bs (drop (i * bs) perm)" if "i < n div bs" for i
    proof -
      have "(i + 1) * bs \<le> n div bs * bs" using that by (intro mult_right_mono) simp_all
      moreover have "n div bs * bs < n"
        using \<open>n mod bs \<noteq> 0\<close> div_mult_mod_eq [of n bs] by linarith
      ultimately have "i * bs + bs \<le> n - 1" by (simp add: algebra_simps)
      then show ?thesis by (simp add: take_drop min_def)
    qed
    then show ?thesis
      using False nz assms div by (simp add: batch_slices_def batch_count_def min_def)
  qed
qed

lemma v2_batches_step: "v2_batches step c tot ds bins idxs st = Inr st' \<Longrightarrow> v2_step st' = v2_step st + length idxs"
  by (induction idxs arbitrary: st) (auto simp: Let_def res_bind_Inr_iff)

lemma v2_epochs_step:
  "v2_epochs step val c tot ds bins name es st = (ls, Inr st') \<Longrightarrow> v2_step st' = v2_step st + sum_list (map (length \<circ> snd) es)"
proof (induction es arbitrary: st ls)
  case (Cons q es)
  obtain e idxs where q: "q = (e, idxs)" by (cases q)
  show ?case
    using Cons.prems Cons.IH
    by (auto simp: q res_bind_Inr_iff v2_validate_def split: sum.splits prod.splits dest!: v2_batches_step)
qed simp
definition demo_v2_step :: "unit v2_step" where
  "demo_v2_step c f lr b w s = Inr (map (\<lambda>(n, p). (n, p\<lparr>p_data := map (\<lambda>x. x + lr) (p_data p)\<rparr>)) w, s)"

definition demo_v2 :: "unit v2_env" where
  "demo_v2 =
     \<lparr>ve_step = demo_v2_step, ve_logits = (\<lambda>c w b. Inr (map (\<lambda>_. [0, 0]) (b_cat b))), ve_perms = (\<lambda>seed e. [1, 0]),
      ve_model = (\<lambda>c. ([(''w'', \<lparr>requires_grad = True, p_data = [3]\<rparr>)], ())),
      ve_train = BidDataset [demo_out 1 [] 5, demo_out 1 [] 9], ve_val = BidDataset [demo_out 2 [] 7]\<rparr>"

definition demo_v2_run :: "string \<Rightarrow> v2_args" where
  "demo_v2_run kind =
     \<lparr>va_name = Some ''b'', va_bin_kind = Some kind, va_max_price = None, va_seed = None, va_num_bins = Some 2, va_hidden = None,
      va_batch_size = Some 1, va_lr = Some (1/1000), va_dropout = Some 0, va_weight_decay = Some 0, va_epochs = Some 1,
      va_warmup = None, va_smooth_sigma = None, va_emd_lambda = None, va_label_smooth = None\<rparr>"

lemmas demo_v2_simps = demo_v2_def demo_v2_run_def v2_cfg_of_def required_def arg_or_def num_batches_def

lemma demo_v2_setup:
  "v2_setup demo_v2 (demo_v2_run kind) [0, 150, 300] =
    Inr (projr (v2_cfg_of (demo_v2_run kind)), 2, map (assign_bin [0, 150, 300]) (ds_pp (ve_train demo_v2)))"
  by (simp add: v2_setup_def demo_v2_simps assign_bins_def)

lemma demo_edges: "make_edges ''uniform'' 2 pp 300 = Inr [0, 150, 300]"
  by (simp add: make_edges_def linspace_def upt_conv_Cons)

definition demo_v2_cfg :: v2_cfg where
  "demo_v2_cfg = projr (v2_cfg_of (demo_v2_run ''uniform''))"

lemma demo_v2_data: "v2_data demo_v2 demo_v2_cfg = [(0, [[1]])]"
proof -
  have "v2_slices 2 1 [1, 0] 0 [] = Some [[1 :: nat]]"
    by (subst v2_slices_eq) (simp_all add: batch_slices_def batch_count_def)
  then show ?thesis by (simp add: v2_data_def demo_v2_cfg_def demo_v2_simps numeral_2_eq_2)
qed

lemma demo_v2_val: "\<exists>l. v2_val demo_v2 demo_v2_cfg [0, 150, 300] w = Inr l"
proof -
  have "assign_bin [0, 150, 300] x < Suc (Suc 0)" for x
    by (simp add: assign_bin_def clamp_def)
  then show ?thesis
    by (simp add: v2_val_def evaluate_loss_def demo_v2_cfg_def demo_v2_simps demo_batches v2_val_loss_def batch_slices_def batch_count_def
        make_batch_def gather_def assign_bins_def discrete_bins_nll_def)
qed

lemma demo_v2_runs: "\<exists>disk' best. v2_run demo_v2 (demo_v2_run ''uniform'') disk = (disk', Inr (''b'', best))"
proof -
  let ?w = "[(''w'', \<lparr>requires_grad = True, p_data = [3 + 1/500000]\<rparr>)]"
  obtain l where l: "v2_val demo_v2 demo_v2_cfg [0, 150, 300] ?w = Inr l" using demo_v2_val by blast
  let ?st = "\<lparr>v2_w = ?w, v2_opt = (), v2_step = 1, v2_best = (Fin l, Some (state_dict ?w))\<rparr>"
  have "v2_epochs (ve_step demo_v2) (v2_val demo_v2 demo_v2_cfg [0, 150, 300]) demo_v2_cfg 2 (ve_train demo_v2)
      (map (assign_bin [0, 150, 300]) (ds_pp (ve_train demo_v2))) (Some ''b'') [(0, [[1]])] (v2_start (ve_model demo_v2 demo_v2_cfg))
    = ([EpochLine ''b'' 0 l (Fin l)], Inr ?st)"
    using l by (simp add: demo_v2_simps demo_v2_cfg_def demo_v2_step_def v2_start_def v2_validate_def keep_best_def cosine_lr_def Let_def)
  moreover have "v2_load_best ?st = Inr ?w"
    using load_state_dict_same [of ?w ?w] by (simp add: v2_load_best_def)
  moreover have "v2_run demo_v2 (demo_v2_run ''uniform'') disk = train_one_v2 demo_v2 (demo_v2_run ''uniform'') [0, 150, 300] disk"
    using demo_edges by (simp add: v2_run_def demo_v2_run_def arg_or_def)
  moreover have "va_name (demo_v2_run ''uniform'') = Some ''b''" by (simp add: demo_v2_run_def)
  ultimately show ?thesis
    by (simp add: train_one_v2_def demo_v2_setup demo_v2_cfg_def [symmetric] demo_v2_data v2_export_def required_def Let_def)
qed

text \<open>
  C21: The loop of \<open>bins_v2.py\<close> leaves out the last full batch whenever the batch size divides the number of
  rows: it visits the batches of all rows of the permutation but the last one. The schedule of the
  learning rate is planned for all full batches, so that the steps of the run fall short of it by one
  per epoch exactly then; with no more rows than one batch nothing is trained at all.
\<close>

theorem v2_last_batch_skipped:
  assumes "v2_setup env args edges = Inr (c, tot, bins)"
    and "\<And>e. length (ve_perms env (vc_seed c) e) = ds_n (ve_train env)"
  shows "let n = ds_n (ve_train env); bs = vc_bs c in
    tot = n div bs * vc_epochs c \<and>
    (\<forall>(e, idxs) \<in> set (v2_data env c). idxs = batch_slices bs True (take (n - 1) (ve_perms env (vc_seed c) e)) \<and>
      batch_slices bs True (ve_perms env (vc_seed c) e) =
        idxs @ (if 0 < n \<and> bs dvd n then [drop (n - bs) (ve_perms env (vc_seed c) e)] else [])) \<and>
    (\<forall>step val st ls st'. v2_epochs step val c tot (ve_train env) bins (va_name args) (v2_data env c) st = (ls, Inr st') \<longrightarrow>
      v2_step st' = v2_step st + (n - 1) div bs * vc_epochs c) \<and>
    ((n - 1) div bs = n div bs - (if 0 < n \<and> bs dvd n then 1 else 0)) \<and> (n \<le> bs \<longrightarrow> (n - 1) div bs = 0)"
proof -
  let ?n = "ds_n (ve_train env)" and ?p = "ve_perms env (vc_seed c)"
  have s: "tot = ?n div vc_bs c * vc_epochs c" "0 < vc_bs c"
    using assms(1) by (auto simp: v2_setup_def res_bind_Inr_iff num_batches_def split: if_splits)
  have idxs: "the (v2_slices ?n (vc_bs c) (?p e) 0 []) = batch_slices (vc_bs c) True (take (?n - 1) (?p e))" for e
    using v2_slices_eq [OF s(2) assms(2) [of e], of 0 "[]"] by simp
  have len: "length (batch_slices (vc_bs c) True (take (?n - 1) (?p e))) = (?n - 1) div vc_bs c" for e
    by (simp add: length_batch_slices batch_count_def assms(2))
  have "sum_list (map (length \<circ> snd) (v2_data env c)) = (?n - 1) div vc_bs c * vc_epochs c"
    by (simp add: v2_data_def comp_def idxs len [simplified] sum_list_triv)
  moreover have "(?n - 1) div vc_bs c = ?n div vc_bs c - (if 0 < ?n \<and> vc_bs c dvd ?n then 1 else 0)"
    using arg_cong [OF batches_of_full_drop_last [OF s(2) assms(2) [of 0]], of length]
    by (simp add: length_batch_slices batch_count_def assms(2) split: if_splits)
  moreover have "?n \<le> vc_bs c \<longrightarrow> (?n - 1) div vc_bs c = 0" using s(2) by auto
  ultimately show ?thesis
    using s(1) batches_of_full_drop_last [OF s(2) assms(2)]
    by (auto simp: Let_def v2_data_def idxs dest!: v2_epochs_step)
qed

theorem v2_last_batch_skipped_witness:
  "v2_data demo_v2 demo_v2_cfg = [(0, batch_slices 1 True (take 1 [1, 0]))] \<and> batch_slices 1 True [1, 0] = [[1], [0 :: nat]]"
proof -
  have p: "length (ve_perms demo_v2 (vc_seed demo_v2_cfg) e) = ds_n (ve_train demo_v2)" for e by (simp add: demo_v2_def)
  have "ds_n (ve_train demo_v2) = 2" "vc_bs demo_v2_cfg = 1" by (simp_all add: demo_v2_cfg_def demo_v2_simps)
  then show ?thesis
    using v2_last_batch_skipped [OF demo_v2_setup [of "''uniform''", folded demo_v2_cfg_def] p]
    by (simp add: demo_v2_data Let_def) (auto simp: demo_v2_def)
qed

definition v2_keeps :: "'s v2_step \<Rightarrow> bool" where
  "v2_keeps step \<longleftrightarrow> (\<forall>c f lr b w s w' s'. step c f lr b w s = Inr (w', s') \<longrightarrow> same_shape w' w)"

fun losses_in :: "v2_line list \<Rightarrow> real list" where
  "losses_in [] = []"
| "losses_in (EpochLine n e v b # ls) = v # losses_in ls"
| "losses_in (RunLine n k c b # ls) = losses_in ls"

lemma v2_batches_shape:
  assumes "v2_keeps step"
  shows "same_shape (v2_w st) m0 \<Longrightarrow> v2_batches step c tot ds bins idxs st = Inr st' \<Longrightarrow>
    same_shape (v2_w st') m0 \<and> v2_best st' = v2_best st"
proof (induction idxs arbitrary: st)
  case (Cons idx idxs)
  obtain w opt where s: "step c (v2_loss c (gather bins idx)) (cosine_lr (v2_step st) (vc_warmup c) tot (vc_lr c) (5/100))
      (make_batch ds idx) (v2_w st) (v2_opt st) = Inr (w, opt)"
    "v2_batches step c tot ds bins idxs (st\<lparr>v2_w := w, v2_opt := opt, v2_step := v2_step st + 1\<rparr>) = Inr st'"
    using Cons.prems(2) by (auto simp: Let_def res_bind_Inr_iff)
  have "same_shape w (v2_w st)" using assms s(1) unfolding v2_keeps_def by blast
  then show ?case using Cons.IH [OF _ s(2)] Cons.prems(1) same_shape_trans by simp
qed simp

lemma v2_epochs_facts:
  assumes "v2_keeps step"
  shows "same_shape (v2_w st) m0 \<Longrightarrow> tracks val m0 vals (v2_best st) \<Longrightarrow>
    v2_epochs step val c tot ds bins name es st = (ls, Inr st') \<Longrightarrow>
    same_shape (v2_w st') m0 \<and> tracks val m0 (vals @ losses_in ls) (v2_best st') \<and>
    length ls = length es \<and> length (losses_in ls) = length es"
proof (induction es arbitrary: st vals ls)
  case (Cons q es)
  obtain e idxs where q: "q = (e, idxs)" by (cases q)
  obtain st1 v nm ls' where s: "v2_batches step c tot ds bins idxs st = Inr st1" "val (v2_w st1) = Inr v"
    and ls: "ls = EpochLine nm e v (fst (keep_best v (state_dict (v2_w st1)) (v2_best st1))) # ls'"
    and r: "v2_epochs step val c tot ds bins name es (st1\<lparr>v2_best := keep_best v (state_dict (v2_w st1)) (v2_best st1)\<rparr>) = (ls', Inr st')"
    using Cons.prems(3) by (auto simp: q res_bind_Inr_iff v2_validate_def split: sum.splits prod.splits)
  have k: "same_shape (v2_w st1) m0" "v2_best st1 = v2_best st"
    using v2_batches_shape [OF assms Cons.prems(1) s(1)] by auto
  have "tracks val m0 (vals @ [v]) (keep_best v (state_dict (v2_w st1)) (v2_best st1))"
    using tracks_snoc [where val = val, OF _ k(1) s(2)] Cons.prems(2) k(2) by simp
  with Cons.IH [OF _ _ r, of "vals @ [v]"] k(1) show ?case by (simp add: ls)
qed simp

text \<open>
  A run of \<open>bins_v2.py\<close> that ends adds one line per epoch and one for the run to the log and exports,
  with the edges it was trained on, weights that attain the stored validation loss when loaded into a
  fresh network: one of the losses of the epochs, none of which is better by more than 1e-5.
\<close>

theorem v2_run_sound:
  assumes "v2_keeps (ve_step env)" and "\<And>c. distinct (map fst (fst (ve_model env c)))"
    and "v2_run env r disk = (disk', Inr (name, best))"
  shows "\<exists>c edges lines ck. v2_cfg_of r = Inr c \<and>
    make_edges (arg_or (va_bin_kind r) ''uniform'') (vc_num_bins c) (ds_pp (ve_train env)) (arg_or (va_max_price r) 300) = Inr edges \<and>
    vd_log disk' = vd_log disk @ lines @ [RunLine name (va_bin_kind r) c best] \<and>
    length lines = vc_epochs c \<and> length (losses_in lines) = vc_epochs c \<and>
    vd_exports disk' = (vd_exports disk)(name \<mapsto> ck) \<and> vk_edges ck = edges \<and> vk_val ck = best \<and>
    (if vc_epochs c = 0 then best = Infty
     else \<exists>v w. best = Fin v \<and> load_state_dict (vk_full ck) (fst (ve_model env c)) = Inr w \<and> v2_val env c edges w = Inr v \<and>
       v \<in> set (losses_in lines) \<and> (\<forall>u \<in> set (losses_in lines). v \<le> u + 1/100000))"
proof -
  obtain edges where e: "make_edges (arg_or (va_bin_kind r) ''uniform'') (arg_or (va_num_bins r) 200) (ds_pp (ve_train env))
      (arg_or (va_max_price r) 300) = Inr edges" "train_one_v2 env r edges disk = (disk', Inr (name, best))"
    using assms(3) by (auto simp: v2_run_def split: sum.splits)
  obtain c tot bins lines st where s: "v2_setup env r edges = Inr (c, tot, bins)"
    "v2_epochs (ve_step env) (v2_val env c edges) c tot (ve_train env) bins (va_name r) (v2_data env c) (v2_start (ve_model env c))
      = (lines, Inr st)"
    "v2_export r edges c st (disk\<lparr>vd_log := vd_log disk @ lines\<rparr>) = Inr ((name, best), disk')"
    using e(2) by (auto simp: train_one_v2_def Let_def res_bind_Inr_iff split: sum.splits prod.splits)
  let ?m = "fst (ve_model env c)"
  have c: "v2_cfg_of r = Inr c" using s(1) by (auto simp: v2_setup_def res_bind_Inr_iff)
  then have nb: "vc_num_bins c = arg_or (va_num_bins r) 200" by (auto simp: v2_cfg_of_def res_bind_Inr_iff)
  have f: "same_shape (v2_w st) ?m" "tracks (v2_val env c edges) ?m (losses_in lines) (v2_best st)"
    "length lines = vc_epochs c" "length (losses_in lines) = vc_epochs c"
    using v2_epochs_facts [OF assms(1) _ _ s(2), of ?m "[]"] tracks_Nil by (simp_all add: v2_start_def v2_data_def)
  let ?ck = "\<lambda>w. \<lparr>vk_num_bins = vc_num_bins c, vk_hidden = vc_hidden c, vk_dropout = vc_dropout c, vk_edges = edges,
    vk_full = state_dict w, vk_val = best\<rparr>"
  obtain w where w: "v2_load_best st = Inr w" "best = fst (v2_best st)"
    "vd_log disk' = vd_log disk @ lines @ [RunLine name (va_bin_kind r) c best]"
    "vd_exports disk' = (vd_exports disk)(name \<mapsto> ?ck w)"
    using s(3) by (auto simp: v2_export_def res_bind_Inr_iff Let_def)
  have ck: "\<exists>ck. vd_exports disk' = (vd_exports disk)(name \<mapsto> ck) \<and> vk_edges ck = edges \<and> vk_val ck = best \<and> vk_full ck = state_dict w"
    using w(4) by (intro exI [of _ "?ck w"]) simp
  show ?thesis
  proof (cases "vc_epochs c = 0")
    case True
    then have "best = Infty" using f(2,4) w(2) tracks_empty by fastforce
    then show ?thesis using True c e(1) nb f(3,4) w(3) ck by auto
  next
    case False
    then have "losses_in lines \<noteq> []" using f(4) by auto
    then obtain v x where b: "v2_best st = (Fin v, Some (state_dict x))" "same_shape x ?m" "v2_val env c edges x = Inr v"
      "v \<in> set (losses_in lines)" "\<forall>u \<in> set (losses_in lines). v \<le> u + 1/100000"
      using tracks_best [OF f(2)] by blast
    have "distinct (map fst (v2_w st))" using assms(2) same_shape_names [OF f(1)] by simp
    then have "w = x"
      using w(1) load_state_dict_same [OF same_shape_trans [OF b(2) same_shape_sym [OF f(1)]]] b(1) by (simp add: v2_load_best_def)
    then have "\<exists>w. load_state_dict (state_dict x) ?m = Inr w \<and> v2_val env c edges w = Inr v" "best = Fin v" "w = x"
      using load_state_dict_same [OF b(2) assms(2)] b(1,3) w(2) by simp_all
    then show ?thesis using False c e(1) nb f(3,4) w(3) ck b(4,5) by auto
  qed
qed

theorem v2_run_sound_witness:
  "\<exists>disk' v ck. v2_run demo_v2 (demo_v2_run ''uniform'') \<lparr>vd_log = [], vd_exports = Map.empty\<rparr> = (disk', Inr (''b'', Fin v)) \<and>
    vd_exports disk' ''b'' = Some ck \<and> vk_edges ck = [0, 150, 300] \<and> length (vd_log disk') = 2"
proof -
  obtain disk' best where r: "v2_run demo_v2 (demo_v2_run ''uniform'') \<lparr>vd_log = [], vd_exports = Map.empty\<rparr> = (disk', Inr (''b'', best))"
    using demo_v2_runs by blast
  have k: "v2_keeps (ve_step demo_v2)" and d: "distinct (map fst (fst (ve_model demo_v2 c)))" for c
    by (auto simp: v2_keeps_def demo_v2_def demo_v2_step_def same_shape_def)
  have "v2_cfg_of (demo_v2_run ''uniform'') = Inr demo_v2_cfg" "vc_num_bins demo_v2_cfg = 2" "vc_epochs demo_v2_cfg = 1"
    by (simp_all add: demo_v2_cfg_def demo_v2_simps)
  moreover have "arg_or (va_bin_kind (demo_v2_run ''uniform'')) ''uniform'' = ''uniform''" "arg_or (va_max_price (demo_v2_run ''uniform'')) 300 = 300"
    by (simp_all add: demo_v2_run_def arg_or_def)
  ultimately show ?thesis
    using v2_run_sound [OF k d r] r demo_edges by auto
qed

text \<open>
  \<open>bins_v2.py\<close> does not isolate its runs as \<open>mdn_sweep.py\<close> does: a run that raises ends the script; the
  log and the files of the runs before it stay, those after it are not started, and no results are saved.
\<close>

theorem bins_v2_aborts:
  assumes "v2_runs env before (disk\<lparr>vd_log := []\<rparr>) = (disk1, Inr results)" and "v2_run env r disk1 = (disk2, Inl e)"
  shows "bins_v2 env (before @ r # later) disk = (disk2, Inl e) \<and> length results = length before \<and>
    (\<exists>lines. vd_log disk2 = vd_log disk1 @ lines) \<and> vd_exports disk2 = vd_exports disk1"
proof -
  have "v2_runs env before d = (disk1, Inr results) \<Longrightarrow> v2_runs env (before @ r # later) d = (disk2, Inl e) \<and> length results = length before" for d
  proof (induction before arbitrary: d results)
    case (Cons a before)
    then show ?case
      by (fastforce simp: res_bind_Inr_iff split: prod.splits sum.splits)
  qed (simp add: assms(2))
  moreover have "(\<exists>lines. vd_log disk2 = vd_log disk1 @ lines) \<and> vd_exports disk2 = vd_exports disk1"
    using assms(2) by (auto simp: v2_run_def train_one_v2_def Let_def split: sum.splits prod.splits)
  ultimately show ?thesis using assms(1) by (simp add: bins_v2_def)
qed

theorem bins_v2_aborts_witness:
  "\<exists>disk'. bins_v2 demo_v2 [demo_v2_run ''uniform'', demo_v2_run ''cubic'', demo_v2_run ''uniform''] \<lparr>vd_log = [], vd_exports = Map.empty\<rparr>
    = (disk', Inl ValueError)"
proof -
  obtain disk1 best where r: "v2_run demo_v2 (demo_v2_run ''uniform'') \<lparr>vd_log = [], vd_exports = Map.empty\<rparr> = (disk1, Inr (''b'', best))"
    using demo_v2_runs by blast
  have f: "v2_run demo_v2 (demo_v2_run ''cubic'') disk1 = (disk1, Inl ValueError)"
    by (simp add: v2_run_def make_edges_def demo_v2_run_def arg_or_def)
  have "v2_runs demo_v2 [demo_v2_run ''uniform''] (\<lparr>vd_log = [], vd_exports = Map.empty\<rparr>\<lparr>vd_log := []\<rparr>) = (disk1, Inr [(''b'', best)])"
    using r by simp
  from bins_v2_aborts [OF this f] show ?thesis by simp
qed

end
