(* ===== verification/Checkpoint.thy ===== *)
theory Checkpoint
  imports Train
begin

text \<open>
  Checkpoints between the scripts: the dictionary of named tensors of a network (\<open>state_dict\<close>), loading it
  into a freshly built network, and the loaders of \<open>evaluate.py\<close>, \<open>export_onnx.py\<close> and the retrainer. All of
  them load with \<open>strict=False\<close>: names that do not occur are skipped on either side. A saved tensor is its
  shape with the list of its entries, row by row.
\<close>

section \<open>Named tensors of a network\<close>

type_synonym tensor = "nat list \<times> real list"
type_synonym state = "(string \<times> tensor) list"

definition cols :: "real list list \<Rightarrow> nat" where
  "cols m = (case m of [] \<Rightarrow> 0 | r # _ \<Rightarrow> length r)"

definition mat_tensor :: "real list list \<Rightarrow> tensor" where
  "mat_tensor m = ([length m, cols m], concat m)"

definition vec_tensor :: "real list \<Rightarrow> tensor" where
  "vec_tensor v = ([length v], v)"

definition linear_state :: "string \<Rightarrow> linear \<Rightarrow> state" where
  "linear_state pre l = [(pre @ ''.weight'', mat_tensor (lin_w l)), (pre @ ''.bias'', vec_tensor (lin_b l))]"

definition emb_name :: "nat \<Rightarrow> string" where
  "emb_name i = ''emb.embs.'' @ str_int (int i) @ ''.weight''"

definition emb_state :: "cat_embeddings \<Rightarrow> state" where
  "emb_state e =
     map (\<lambda>(i, t). (emb_name i, mat_tensor t)) (enumerate 0 (embs e)) @ [(''emb.tag_emb.weight'', mat_tensor (tag_emb e))]"

text \<open>Every hidden layer is four modules of the sequence: linear, norm, activation and dropout.\<close>

definition net_name :: "nat \<Rightarrow> string" where
  "net_name k = ''backbone.net.'' @ str_int (int k)"

fun layers_state :: "nat \<Rightarrow> mlp_layer list \<Rightarrow> state" where
  "layers_state k [] = []"
| "layers_state k (l # ls) =
     linear_state (net_name k) (fc l) @
     [(net_name (k + 1) @ ''.weight'', vec_tensor (ln_gamma l)), (net_name (k + 1) @ ''.bias'', vec_tensor (ln_beta l))] @
     layers_state (k + 4) ls"

definition net_state :: "'a network_scheme \<Rightarrow> state" where
  "net_state n =
     emb_state (net_emb n) @ layers_state 0 (bb_layers (net_backbone n)) @ linear_state ''head'' (net_head n)"

section \<open>Loading\<close>

text \<open>\<open>load_state_dict(strict=False)\<close>: a missing name keeps the tensor, another shape is a \<open>RuntimeError\<close>.\<close>

definition unflat :: "nat \<Rightarrow> nat \<Rightarrow> real list \<Rightarrow> real list list" where
  "unflat r c xs = map (\<lambda>i. take c (drop (i * c) xs)) [0..<r]"

definition load_vec :: "state \<Rightarrow> string \<Rightarrow> real list \<Rightarrow> real list res" where
  "load_vec sd name v =
     (case map_of sd name of
        None \<Rightarrow> Inr v
      | Some (sh, xs) \<Rightarrow> if sh = [length v] then Inr xs else Inl RuntimeError)"

definition load_mat :: "state \<Rightarrow> string \<Rightarrow> real list list \<Rightarrow> real list list res" where
  "load_mat sd name m =
     (case map_of sd name of
        None \<Rightarrow> Inr m
      | Some (sh, xs) \<Rightarrow> if sh = [length m, cols m] then Inr (unflat (length m) (cols m) xs) else Inl RuntimeError)"

definition load_linear :: "state \<Rightarrow> string \<Rightarrow> linear \<Rightarrow> linear res" where
  "load_linear sd pre l =
     res_bind (load_mat sd (pre @ ''.weight'') (lin_w l)) (\<lambda>w.
     res_bind (load_vec sd (pre @ ''.bias'') (lin_b l)) (\<lambda>b. Inr \<lparr>lin_w = w, lin_b = b\<rparr>))"

definition load_emb :: "state \<Rightarrow> cat_embeddings \<Rightarrow> cat_embeddings res" where
  "load_emb sd e =
     res_bind (res_map (\<lambda>(i, t). load_mat sd (emb_name i) t) (enumerate 0 (embs e))) (\<lambda>ts.
     res_bind (load_mat sd ''emb.tag_emb.weight'' (tag_emb e)) (\<lambda>tag. Inr (e\<lparr>embs := ts, tag_emb := tag\<rparr>)))"

fun load_layers :: "state \<Rightarrow> nat \<Rightarrow> mlp_layer list \<Rightarrow> mlp_layer list res" where
  "load_layers sd k [] = Inr []"
| "load_layers sd k (l # ls) =
     res_bind (load_linear sd (net_name k) (fc l)) (\<lambda>f.
     res_bind (load_vec sd (net_name (k + 1) @ ''.weight'') (ln_gamma l)) (\<lambda>g.
     res_bind (load_vec sd (net_name (k + 1) @ ''.bias'') (ln_beta l)) (\<lambda>b.
     res_bind (load_layers sd (k + 4) ls) (\<lambda>ls'. Inr (\<lparr>fc = f, ln_gamma = g, ln_beta = b\<rparr> # ls')))))"

definition load_net :: "state \<Rightarrow> 'a network_scheme \<Rightarrow> 'a network_scheme res" where
  "load_net sd n =
     res_bind (load_emb sd (net_emb n)) (\<lambda>e.
     res_bind (load_layers sd 0 (bb_layers (net_backbone n))) (\<lambda>ls.
     res_bind (load_linear sd ''head'' (net_head n)) (\<lambda>h.
       Inr (n\<lparr>net_emb := e, net_backbone := (net_backbone n)\<lparr>bb_layers := ls\<rparr>, net_head := h\<rparr>))))"

section \<open>The loaders\<close>

text \<open>The entries of the stored configuration that come from the artifacts, the same for all networks of a data set.\<close>

record 'f arch =
  a_vocab_sizes :: "('f \<times> nat) list"
  a_emb_dims :: "'f \<Rightarrow> nat option"
  a_tag_vocab_size :: nat
  a_tag_emb_dim :: nat
  a_num_continuous :: nat

type_synonym init = "nat \<Rightarrow> nat \<Rightarrow> real list list"

text \<open>
  The head is built last: without its size (\<open>3 * None\<close>, \<open>nn.Linear(d, None)\<close>) it is a \<open>TypeError\<close>, after
  the errors of the embeddings. A mixture without a floor, which \<open>train.py\<close> never saves, fails at its first
  output; the model lets its construction fail.
\<close>

definition headless :: "init \<Rightarrow> 'f arch \<Rightarrow> net_config \<Rightarrow> 'n res" where
  "headless init a cfg =
     res_bind (build_network init (a_vocab_sizes a) (a_emb_dims a) (a_tag_vocab_size a) (a_tag_emb_dim a) (a_num_continuous a)
       (c_hidden cfg) 0) (\<lambda>_. Inl TypeError)"

definition new_bins :: "init \<Rightarrow> 'f arch \<Rightarrow> net_config \<Rightarrow> network res" where
  "new_bins init a cfg =
     (case c_num_bins cfg of
        None \<Rightarrow> headless init a cfg
      | Some nb \<Rightarrow> DiscreteBins init (a_vocab_sizes a) (a_emb_dims a) (a_tag_vocab_size a) (a_tag_emb_dim a) (a_num_continuous a)
                     (c_hidden cfg) nb)"

definition new_mdn :: "init \<Rightarrow> 'f arch \<Rightarrow> net_config \<Rightarrow> mdn_net res" where
  "new_mdn init a cfg =
     (case (c_K cfg, c_sigma_floor cfg) of
        (Some K, Some sf) \<Rightarrow> MDN init (a_vocab_sizes a) (a_emb_dims a) (a_tag_vocab_size a) (a_tag_emb_dim a) (a_num_continuous a)
                                 (c_hidden cfg) K sf
      | _ \<Rightarrow> headless init a cfg)"

lemma headless_fails [simp]: "headless init a cfg \<noteq> Inr n"
  by (simp add: headless_def res_bind_Inr_iff)

text \<open>\<open>load_model\<close> of \<open>evaluate.py\<close> and \<open>eval_ckpts_batch.py\<close>.\<close>

definition load_model :: "init \<Rightarrow> 'f arch \<Rightarrow> net_config \<Rightarrow> state \<Rightarrow> (mdn_net + network) res" where
  "load_model init a cfg sd =
     (if c_is_mdn cfg
      then res_bind (new_mdn init a cfg) (\<lambda>m. res_bind (load_net sd m) (\<lambda>n. Inr (Inl n)))
      else res_bind (new_bins init a cfg) (\<lambda>m. res_bind (load_net sd m) (\<lambda>n. Inr (Inr n))))"

text \<open>\<open>main\<close> of \<open>export_onnx.py\<close>: the network behind the exported file and its answers to the zero inputs.\<close>

definition export_network :: "(real \<Rightarrow> real) \<Rightarrow> init \<Rightarrow> 'f arch \<Rightarrow> net_config \<Rightarrow> state \<Rightarrow> nat \<Rightarrow> (network \<times> real list list) res" where
  "export_network erf init a cfg sd n_test =
     res_bind (new_bins init a cfg) (\<lambda>m.
     res_bind (load_net sd m) (\<lambda>n.
     res_bind (res_map (\<lambda>_. bins_export erf n (replicate (length (a_vocab_sizes a)) 0) (replicate (a_num_continuous a) 0) (replicate 10 0))
       [0..<n_test]) (\<lambda>probs_ref. Inr (n, probs_ref))))"

text \<open>\<open>load_model\<close> of the retrainer: always a bins network.\<close>

definition load_warm_start :: "init \<Rightarrow> 'f arch \<Rightarrow> net_config \<Rightarrow> state \<Rightarrow> (network \<times> nat) res" where
  "load_warm_start init a cfg sd =
     res_bind (new_bins init a cfg) (\<lambda>m. res_bind (load_net sd m) (\<lambda>n. Inr (n, the (c_num_bins cfg))))"

section \<open>Names are distinct\<close>

lemma str_int_no_dot: "0 \<le> i \<Longrightarrow> CHR ''.'' \<notin> set (str_int i)"
proof -
  assume "0 \<le> i"
  have "list_all is_digit (str_nat (nat i))" using str_nat_digits by blast
  moreover have "\<not> is_digit CHR ''.''" by (simp add: is_digit_def)
  ultimately show ?thesis using \<open>0 \<le> i\<close> by (auto simp: str_int_def list_all_iff)
qed

lemma dotted_inject:
  assumes "str_int (int i) @ CHR ''.'' # s = str_int (int j) @ CHR ''.'' # t"
  shows "i = j \<and> s = t"
proof -
  have t: "takeWhile ((\<noteq>) CHR ''.'') (str_int (int k) @ CHR ''.'' # u) = str_int (int k)" for k u
    using str_int_no_dot [of "int k"] by (subst takeWhile_append2) auto
  have "str_int (int i) = str_int (int j)"
    using arg_cong [OF assms, of "takeWhile ((\<noteq>) CHR ''.'')"] unfolding t .
  then show ?thesis using assms by simp
qed

lemma emb_name_inject [simp]: "emb_name i = emb_name j \<longleftrightarrow> i = j"
  by (simp add: emb_name_def)

lemma net_name_inject [simp]: "net_name i @ CHR ''.'' # s = net_name j @ CHR ''.'' # t \<longleftrightarrow> i = j \<and> s = t"
  using dotted_inject [of i s j t] by (auto simp: net_name_def)

lemma net_name_inject2 [simp]: "net_name i = net_name j \<longleftrightarrow> i = j"
  by (simp add: net_name_def)

lemma emb_names: "map fst (emb_state e) = map emb_name [0..<length (embs e)] @ [''emb.tag_emb.weight'']"
proof -
  have "map fst (map (\<lambda>(i, t). (emb_name i, mat_tensor t)) (enumerate 0 (embs e))) = map emb_name [0..<length (embs e)]"
    by (rule nth_equalityI) (simp_all add: nth_enumerate_eq)
  then show ?thesis by (simp add: emb_state_def)
qed

lemma layers_names:
  "n \<in> fst ` set (layers_state k ls) \<Longrightarrow> \<exists>j s. k \<le> j \<and> n = net_name j @ CHR ''.'' # s"
proof (induction ls arbitrary: k)
  case (Cons l ls)
  have "net_name i @ ''.weight'' = net_name i @ CHR ''.'' # ''weight''" "net_name i @ ''.bias'' = net_name i @ CHR ''.'' # ''bias''" for i
    by simp_all
  then consider "n \<in> {net_name k @ CHR ''.'' # ''weight'', net_name k @ CHR ''.'' # ''bias''}"
    | "n \<in> {net_name (k + 1) @ CHR ''.'' # ''weight'', net_name (k + 1) @ CHR ''.'' # ''bias''}"
    | "n \<in> fst ` set (layers_state (k + 4) ls)"
    using Cons.prems by (auto simp: linear_state_def)
  then show ?case
  proof cases
    case 3
    then show ?thesis using Cons.IH [of "k + 4"] by (meson add_leE)
  qed (auto intro: exI [of _ k] exI [of _ "k + 1"])
qed simp

lemma layers_distinct: "distinct (map fst (layers_state k ls))"
proof (induction ls arbitrary: k)
  case (Cons l ls)
  have "net_name j @ CHR ''.'' # s \<notin> fst ` set (layers_state (k + 4) ls)" if "j < k + 4" for j s
    using layers_names [of "net_name j @ CHR ''.'' # s" "k + 4" ls] that by auto
  from this [of k] this [of "k + 1"] Cons.IH [of "k + 4"] show ?case
    by (simp add: linear_state_def)
qed simp

lemma emb_names_hd: "x \<in> fst ` set (emb_state e) \<Longrightarrow> hd x = CHR ''e''"
proof -
  assume "x \<in> fst ` set (emb_state e)"
  then have "x \<in> set (map fst (emb_state e))" by simp
  then show "hd x = CHR ''e''" unfolding emb_names by (auto simp: emb_name_def)
qed

lemma layers_names_hd: "x \<in> fst ` set (layers_state k ls) \<Longrightarrow> hd x = CHR ''b''"
  using layers_names [of x k ls] by (auto simp: net_name_def)

lemma head_names_hd: "x \<in> fst ` set (linear_state ''head'' l) \<Longrightarrow> hd x = CHR ''h''"
  by (auto simp: linear_state_def)

lemma net_names_hd: "x \<in> fst ` set (net_state n) \<Longrightarrow> hd x \<in> {CHR ''e'', CHR ''b'', CHR ''h''}"
proof -
  assume "x \<in> fst ` set (net_state n)"
  then have "x \<in> fst ` set (emb_state (net_emb n)) \<or> x \<in> fst ` set (layers_state 0 (bb_layers (net_backbone n))) \<or>
      x \<in> fst ` set (linear_state ''head'' (net_head n))"
    by (simp only: net_state_def set_append image_Un Un_iff)
  then show ?thesis using emb_names_hd layers_names_hd head_names_hd by (elim disjE) simp_all
qed

lemma net_state_distinct: "distinct (map fst (net_state n))"
proof -
  have tag: "''emb.tag_emb.weight'' \<noteq> emb_name i" for i by (simp add: emb_name_def)
  have e: "distinct (map fst (emb_state e))" for e
    using tag unfolding emb_names by (auto simp: distinct_map inj_on_def)
  have h: "distinct (map fst (linear_state ''head'' (net_head n)))" by (simp add: linear_state_def)
  have disj: "A \<inter> B = {}" if "\<And>x. x \<in> A \<Longrightarrow> hd x = c" "\<And>x. x \<in> B \<Longrightarrow> hd x = d" "c \<noteq> d" for A B :: "string set" and c d
    using that by (metis disjoint_iff)
  have "fst ` set (emb_state (net_emb n)) \<inter> fst ` set (layers_state 0 (bb_layers (net_backbone n))) = {}"
    by (rule disj [OF emb_names_hd layers_names_hd]) simp_all
  moreover have "fst ` set (emb_state (net_emb n)) \<inter> fst ` set (linear_state ''head'' (net_head n)) = {}"
    by (rule disj [OF emb_names_hd head_names_hd]) simp_all
  moreover have "fst ` set (layers_state 0 (bb_layers (net_backbone n))) \<inter> fst ` set (linear_state ''head'' (net_head n)) = {}"
    by (rule disj [OF layers_names_hd head_names_hd]) simp_all
  ultimately show ?thesis
    using e layers_distinct h by (simp add: net_state_def image_Un Int_Un_distrib)
qed

section \<open>Loading what was saved\<close>

definition rect :: "real list list \<Rightarrow> bool" where
  "rect m \<longleftrightarrow> list_all (\<lambda>r. length r = cols m) m"

definition like_mat :: "real list list \<Rightarrow> real list list \<Rightarrow> bool" where
  "like_mat m' m \<longleftrightarrow> length m' = length m \<and> cols m' = cols m"

definition like_linear :: "linear \<Rightarrow> linear \<Rightarrow> bool" where
  "like_linear l' l \<longleftrightarrow> like_mat (lin_w l') (lin_w l) \<and> length (lin_b l') = length (lin_b l)"

definition like_layer :: "mlp_layer \<Rightarrow> mlp_layer \<Rightarrow> bool" where
  "like_layer l' l \<longleftrightarrow> like_linear (fc l') (fc l) \<and> length (ln_gamma l') = length (ln_gamma l) \<and>
     length (ln_beta l') = length (ln_beta l)"

text \<open>Two networks of one architecture.\<close>

definition like_net :: "'a network_scheme \<Rightarrow> 'a network_scheme \<Rightarrow> bool" where
  "like_net n' n \<longleftrightarrow>
     list_all2 like_mat (embs (net_emb n')) (embs (net_emb n)) \<and> like_mat (tag_emb (net_emb n')) (tag_emb (net_emb n)) \<and>
     tag_dim (net_emb n') = tag_dim (net_emb n) \<and> emb_out_dim (net_emb n') = emb_out_dim (net_emb n) \<and>
     list_all2 like_layer (bb_layers (net_backbone n')) (bb_layers (net_backbone n)) \<and>
     bb_out_dim (net_backbone n') = bb_out_dim (net_backbone n) \<and>
     like_linear (net_head n') (net_head n) \<and> network.more n' = network.more n"

definition rect_net :: "'a network_scheme \<Rightarrow> bool" where
  "rect_net n \<longleftrightarrow> list_all rect (embs (net_emb n)) \<and> rect (tag_emb (net_emb n)) \<and>
     list_all (\<lambda>l. rect (lin_w (fc l))) (bb_layers (net_backbone n)) \<and> rect (lin_w (net_head n))"

definition holds :: "state \<Rightarrow> state \<Rightarrow> bool" where
  "holds sd sub \<longleftrightarrow> (\<forall>(name, t) \<in> set sub. map_of sd name = Some t)"

lemma holds_append [simp]: "holds sd (a @ b) \<longleftrightarrow> holds sd a \<and> holds sd b"
  by (auto simp: holds_def)

lemma holds_Cons [simp]: "holds sd (x # b) \<longleftrightarrow> map_of sd (fst x) = Some (snd x) \<and> holds sd b"
  by (cases x) (auto simp: holds_def)

lemma holds_Nil [simp]: "holds sd []"
  by (simp add: holds_def)

lemma holds_self: "distinct (map fst sd) \<Longrightarrow> holds sd sd"
  by (auto simp: holds_def)

lemma unflat_concat:
  assumes "list_all (\<lambda>r. length r = c) m"
  shows "unflat (length m) c (concat m) = m"
proof -
  have "take c (drop (i * c) (concat m)) = m ! i" if "i < length m" for i
    using assms that
  proof (induction m arbitrary: i)
    case (Cons r m)
    then show ?case by (cases i) (auto simp: add.commute)
  qed simp
  then show ?thesis by (auto simp: unflat_def intro: nth_equalityI)
qed

lemma load_mat_get:
  "map_of sd name = Some (mat_tensor m) \<Longrightarrow> rect m \<Longrightarrow> like_mat m' m \<Longrightarrow> load_mat sd name m' = Inr m"
  by (simp add: load_mat_def mat_tensor_def like_mat_def rect_def unflat_concat)

lemma load_vec_get: "map_of sd name = Some (vec_tensor v) \<Longrightarrow> length v' = length v \<Longrightarrow> load_vec sd name v' = Inr v"
  by (simp add: load_vec_def vec_tensor_def)

lemma load_linear_get:
  "holds sd (linear_state pre l) \<Longrightarrow> rect (lin_w l) \<Longrightarrow> like_linear l' l \<Longrightarrow> load_linear sd pre l' = Inr l"
  by (cases l) (simp add: linear_state_def load_linear_def like_linear_def load_mat_get load_vec_get)

lemma load_layers_get:
  "holds sd (layers_state k ls) \<Longrightarrow> list_all (\<lambda>l. rect (lin_w (fc l))) ls \<Longrightarrow> list_all2 like_layer ls' ls \<Longrightarrow>
    load_layers sd k ls' = Inr ls"
proof (induction ls arbitrary: k ls')
  case (Cons l ls)
  then obtain l' ls'' where l: "ls' = l' # ls''" "like_layer l' l" "list_all2 like_layer ls'' ls"
    by (auto simp: list_all2_Cons2)
  then show ?case
    using Cons.prems Cons.IH [of "k + 4" ls''] load_linear_get [of sd "net_name k" "fc l" "fc l'"]
    by (cases l) (simp add: like_layer_def load_vec_get)
qed simp

lemma load_embs_get:
  assumes "\<And>j. j < length ts \<Longrightarrow> map_of sd (emb_name (i + j)) = Some (mat_tensor (ts ! j))"
    and "list_all rect ts" and "list_all2 like_mat ts' ts"
  shows "res_map (\<lambda>(i, t). load_mat sd (emb_name i) t) (enumerate i ts') = Inr ts"
  using assms
proof (induction ts arbitrary: i ts')
  case (Cons t ts)
  then obtain t' ts'' where t: "ts' = t' # ts''" "like_mat t' t" "list_all2 like_mat ts'' ts"
    by (auto simp: list_all2_Cons2)
  have "map_of sd (emb_name (Suc i + j)) = Some (mat_tensor (ts ! j))" if "j < length ts" for j
    using Cons.prems(1) [of "Suc j"] that by simp
  then have "res_map (\<lambda>(i, t). load_mat sd (emb_name i) t) (enumerate (Suc i) ts'') = Inr ts"
    using Cons.IH [of "Suc i" ts''] Cons.prems(2) t(3) by simp
  then show ?case
    using Cons.prems(1) [of 0] Cons.prems(2) t load_mat_get [of sd "emb_name i" t t'] by simp
qed simp

lemma load_net_get:
  assumes "holds sd (net_state n)" and "rect_net n" and "like_net n' n"
  shows "load_net sd n' = Inr n"
proof -
  have "map_of sd (emb_name j) = Some (mat_tensor (embs (net_emb n) ! j))" if "j < length (embs (net_emb n))" for j
  proof -
    have "(j, embs (net_emb n) ! j) \<in> set (enumerate 0 (embs (net_emb n)))"
      using that by (simp add: in_set_enumerate_eq)
    then have "(emb_name j, mat_tensor (embs (net_emb n) ! j)) \<in> set (net_state n)"
      by (force simp: net_state_def emb_state_def)
    then show ?thesis using assms(1) by (auto simp: holds_def)
  qed
  then have e: "res_map (\<lambda>(i, t). load_mat sd (emb_name i) t) (enumerate 0 (embs (net_emb n'))) = Inr (embs (net_emb n))"
    using assms(2,3) by (intro load_embs_get) (simp_all add: rect_net_def like_net_def)
  have tag: "load_mat sd ''emb.tag_emb.weight'' (tag_emb (net_emb n')) = Inr (tag_emb (net_emb n))"
    using assms by (intro load_mat_get) (simp_all add: net_state_def emb_state_def rect_net_def like_net_def)
  have ls: "load_layers sd 0 (bb_layers (net_backbone n')) = Inr (bb_layers (net_backbone n))"
    using assms by (intro load_layers_get) (simp_all add: net_state_def rect_net_def like_net_def)
  have h: "load_linear sd ''head'' (net_head n') = Inr (net_head n)"
    using assms by (intro load_linear_get) (simp_all add: net_state_def rect_net_def like_net_def)
  show ?thesis
    using assms(3) by (simp add: load_net_def load_emb_def e tag ls h like_net_def)
qed

section \<open>Networks of one configuration\<close>

definition layer_width :: "mlp_layer \<Rightarrow> nat" where
  "layer_width l = length (lin_b (fc l))"

definition shaped :: "'f arch \<Rightarrow> nat list \<Rightarrow> nat \<Rightarrow> 'a network_scheme \<Rightarrow> bool" where
  "shaped a hidden n_out n \<longleftrightarrow>
     net_shape (a_vocab_sizes a) (a_emb_dims a) (a_tag_vocab_size a) (a_tag_emb_dim a) (a_num_continuous a) n_out n \<and>
     map layer_width (bb_layers (net_backbone n)) = hidden"

text \<open>What the constructors need: fresh tensors of the sizes asked for, a dimension for every feature, a tag table.\<close>

definition buildable :: "init \<Rightarrow> 'f arch \<Rightarrow> bool" where
  "buildable init a \<longleftrightarrow> (\<forall>r c. matrix r c (init r c)) \<and> (\<forall>(name, sz) \<in> set (a_vocab_sizes a). a_emb_dims a name \<noteq> None) \<and>
     0 < a_tag_vocab_size a"

lemma matrix_cols: "matrix r c m \<Longrightarrow> cols m = (if r = 0 then 0 else c)"
  by (cases m) (auto simp: matrix_def cols_def)

lemma matrix_rect: "matrix r c m \<Longrightarrow> rect m"
  using matrix_cols [of r c m] by (cases "r = 0") (auto simp: rect_def matrix_def)

lemma matrix_like: "matrix r c m \<Longrightarrow> matrix r c m' \<Longrightarrow> like_mat m' m"
  by (simp add: like_mat_def matrix_cols) (simp add: matrix_def)

lemma linear_like: "linear_shape a b l \<Longrightarrow> linear_shape a b l' \<Longrightarrow> like_linear l' l \<and> rect (lin_w l)"
  by (auto simp: linear_shape_def like_linear_def intro: matrix_like matrix_rect)

lemma embs_like:
  assumes "list_all2 (\<lambda>(name, sz) t. matrix sz (the (dims name)) t) vs ts"
  shows "list_all2 (\<lambda>(name, sz) t. matrix sz (the (dims name)) t) vs ts' \<Longrightarrow> list_all2 like_mat ts' ts \<and> list_all rect ts"
  using assms
proof (induction vs ts arbitrary: ts' rule: list_all2_induct)
  case (Cons v vs t ts)
  obtain t' ts'' where t: "ts' = t' # ts''" using Cons.prems by (cases ts') auto
  obtain name sz where v: "v = (name, sz)" by (cases v)
  show ?case
    using Cons t v matrix_like [of sz "the (dims name)" t t'] matrix_rect [of sz "the (dims name)" t] by simp
qed simp

lemma layers_like:
  "layers_shape k ls out \<Longrightarrow> layers_shape k ls' out' \<Longrightarrow> map layer_width ls' = map layer_width ls \<Longrightarrow>
    list_all2 like_layer ls' ls \<and> list_all (\<lambda>l. rect (lin_w (fc l))) ls \<and> out' = out"
proof (induction ls arbitrary: k ls')
  case (Cons l ls)
  then obtain l' ls'' where l: "ls' = l' # ls''" by auto
  have w: "layer_width l' = layer_width l" "map layer_width ls'' = map layer_width ls"
    using Cons.prems(3) by (simp_all add: l)
  then have "list_all2 like_layer ls'' ls \<and> list_all (\<lambda>l. rect (lin_w (fc l))) ls \<and> out' = out"
    using Cons.prems Cons.IH [of "layer_width l" ls''] by (simp add: l layer_width_def Let_def)
  moreover have "like_layer l' l \<and> rect (lin_w (fc l))"
    using Cons.prems w(1) linear_like [of k "layer_width l" "fc l" "fc l'"] by (simp add: l layer_width_def like_layer_def Let_def)
  ultimately show ?case by (simp add: l)
qed simp

lemma shaped_like:
  assumes "shaped a hidden n_out n" and "shaped a hidden n_out n'" and "network.more n' = network.more n"
  shows "like_net n' n \<and> rect_net n"
proof -
  have e: "emb_out_dim (net_emb n') = emb_out_dim (net_emb n)"
    using assms(1,2) by (simp add: shaped_def net_shape_def emb_shape_def)
  have "list_all2 like_mat (embs (net_emb n')) (embs (net_emb n)) \<and> list_all rect (embs (net_emb n))"
    using assms(1,2) embs_like by (fastforce simp: shaped_def net_shape_def emb_shape_def)
  moreover have "like_mat (tag_emb (net_emb n')) (tag_emb (net_emb n)) \<and> rect (tag_emb (net_emb n))"
    using assms(1,2) by (auto simp: shaped_def net_shape_def emb_shape_def intro: matrix_like matrix_rect)
  moreover have "tag_dim (net_emb n') = tag_dim (net_emb n)"
    using assms(1,2) by (simp add: shaped_def net_shape_def emb_shape_def)
  moreover have l: "list_all2 like_layer (bb_layers (net_backbone n')) (bb_layers (net_backbone n)) \<and>
      list_all (\<lambda>l. rect (lin_w (fc l))) (bb_layers (net_backbone n)) \<and> bb_out_dim (net_backbone n') = bb_out_dim (net_backbone n)"
    using assms(1,2) e by (intro layers_like) (auto simp: shaped_def net_shape_def)
  moreover have "like_linear (net_head n') (net_head n) \<and> rect (lin_w (net_head n))"
    using assms(1,2) l by (intro linear_like) (auto simp: shaped_def net_shape_def)
  ultimately show ?thesis using e assms(3) by (simp add: like_net_def rect_net_def)
qed

lemma load_state_shaped:
  "shaped a hidden n_out n \<Longrightarrow> shaped a hidden n_out n' \<Longrightarrow> network.more n' = network.more n \<Longrightarrow> load_net (net_state n) n' = Inr n"
  using shaped_like load_net_get holds_self [OF net_state_distinct] by blast

lemma build_layers_widths:
  assumes "\<forall>r c. matrix r c (init r c)"
  shows "map layer_width (bb_layers (build_layers init prev hidden layers)) = map layer_width layers @ hidden"
proof (induction hidden arbitrary: prev layers)
  case (Cons h hidden)
  have "layer_width \<lparr>fc = init_linear init prev h, ln_gamma = g, ln_beta = b\<rparr> = h" for g b
    using init_linear_shape [OF assms] by (simp add: linear_shape_def layer_width_def)
  then show ?case by (simp add: Cons.IH)
qed simp

lemma build_network_shaped:
  assumes "buildable init a"
  shows "\<exists>n. build_network init (a_vocab_sizes a) (a_emb_dims a) (a_tag_vocab_size a) (a_tag_emb_dim a) (a_num_continuous a) hidden n_out = Inr n \<and>
    shaped a hidden n_out n"
proof -
  obtain n where n: "build_network init (a_vocab_sizes a) (a_emb_dims a) (a_tag_vocab_size a) (a_tag_emb_dim a) (a_num_continuous a) hidden n_out = Inr n"
    "net_shape (a_vocab_sizes a) (a_emb_dims a) (a_tag_vocab_size a) (a_tag_emb_dim a) (a_num_continuous a) n_out n"
    using build_network_shape assms unfolding buildable_def by metis
  have "map layer_width (bb_layers (net_backbone n)) = hidden"
    using n(1) build_layers_widths assms by (auto simp: build_network_def res_bind_Inr_iff Let_def MLPBackbone_def buildable_def)
  then show ?thesis using n by (auto simp: shaped_def)
qed

lemma new_bins_shaped:
  assumes "buildable init a" and "c_num_bins cfg = Some nb"
  shows "\<exists>n. new_bins init a cfg = Inr n \<and> shaped a (c_hidden cfg) nb n"
  using build_network_shaped [OF assms(1), of "c_hidden cfg" nb] assms(2) by (simp add: new_bins_def DiscreteBins_def)

lemma new_mdn_shaped:
  assumes "buildable init a" and "c_K cfg = Some K" and "c_sigma_floor cfg = Some s"
  shows "\<exists>n. new_mdn init a cfg = Inr n \<and> shaped a (c_hidden cfg) (3 * K) n \<and> net_K n = K \<and> net_sigma_floor n = s"
proof -
  obtain n where "build_network init (a_vocab_sizes a) (a_emb_dims a) (a_tag_vocab_size a) (a_tag_emb_dim a) (a_num_continuous a) (c_hidden cfg) (3 * K)
      = Inr n" "shaped a (c_hidden cfg) (3 * K) n"
    using build_network_shaped [OF assms(1)] by blast
  then show ?thesis
    using assms(2,3) by (simp add: new_mdn_def MDN_def shaped_def net_shape_def network.defs mdn_net.defs)
qed

lemma headless_shaped: "buildable init a \<Longrightarrow> headless init a cfg = Inl TypeError"
  using build_network_shaped [of init a "c_hidden cfg" 0] by (auto simp: headless_def)

definition demo_arch :: "cat_feat arch" where
  "demo_arch = \<lparr>a_vocab_sizes = [(City, 3)], a_emb_dims = (\<lambda>_. Some 2), a_tag_vocab_size = 5, a_tag_emb_dim = 2, a_num_continuous = 9\<rparr>"

lemma demo_buildable: "buildable demo_init demo_arch"
  using demo_init_matrix by (simp add: buildable_def demo_arch_def)

text \<open>
  C7: Checkpoints round trip. Every loader builds, whatever its fresh tensors, from the stored
  configuration and tensors of a bins network exactly this network again, \<open>export_onnx.py\<close> and the
  retrainer included; of a mixture network \<open>evaluate.py\<close> rebuilds the network with the stored floor of
  the deviations in place of its own.
\<close>

theorem checkpoint_roundtrip:
  assumes "buildable init a"
    and "\<not> c_is_mdn cfg" and "c_num_bins cfg = Some nb" and "shaped a (c_hidden cfg) nb n"
    and "c_is_mdn cfg'" and "c_K cfg' = Some (net_K m)" and "c_sigma_floor cfg' = Some s" and "shaped a (c_hidden cfg') (3 * net_K m) m"
  shows "load_model init a cfg (net_state n) = Inr (Inr n) \<and> load_warm_start init a cfg (net_state n) = Inr (n, nb) \<and>
    export_network erf init a cfg (net_state n) n_test =
      res_bind (res_map (\<lambda>_. bins_export erf n (replicate (length (a_vocab_sizes a)) 0) (replicate (a_num_continuous a) 0) (replicate 10 0))
        [0..<n_test]) (\<lambda>probs. Inr (n, probs)) \<and>
    load_model init a cfg' (net_state m) = Inr (Inl (m\<lparr>net_sigma_floor := s\<rparr>))"
proof -
  obtain n' where n': "new_bins init a cfg = Inr n'" "shaped a (c_hidden cfg) nb n'"
    using new_bins_shaped [OF assms(1,3)] by blast
  have l: "load_net (net_state n) n' = Inr n" by (rule load_state_shaped [OF assms(4) n'(2)]) simp
  obtain m' where m': "new_mdn init a cfg' = Inr m'" "shaped a (c_hidden cfg') (3 * net_K m) m'" "net_K m' = net_K m" "net_sigma_floor m' = s"
    using new_mdn_shaped [OF assms(1,6,7)] by blast
  let ?m = "m\<lparr>net_sigma_floor := s\<rparr>"
  have "load_net (net_state ?m) m' = Inr ?m"
  proof (rule load_state_shaped [OF _ m'(2)])
    show "shaped a (c_hidden cfg') (3 * net_K m) ?m" using assms(8) by (simp add: shaped_def net_shape_def)
    show "network.more m' = network.more ?m" using m'(3,4) by (cases m; cases m') simp
  qed
  moreover have "net_state ?m = net_state m" by (simp add: net_state_def)
  ultimately show ?thesis
    using n'(1) m'(1) l assms(2,3,5) by (simp add: load_model_def load_warm_start_def export_network_def)
qed

theorem checkpoint_roundtrip_witness:
  "\<exists>n m. new_bins demo_init demo_arch (ckpt_config (demo_args\<lparr>ta_is_mdn := False\<rparr>) demo_cfg [512]) = Inr n \<and>
    load_model demo_init demo_arch (ckpt_config (demo_args\<lparr>ta_is_mdn := False\<rparr>) demo_cfg [512]) (net_state n) = Inr (Inr n) \<and>
    net_sigma_floor m = 1/10 \<and>
    load_model demo_init demo_arch (ckpt_config demo_args demo_cfg [512]) (net_state m) = Inr (Inl (m\<lparr>net_sigma_floor := 1/20\<rparr>))"
proof -
  let ?b = "ckpt_config (demo_args\<lparr>ta_is_mdn := False\<rparr>) demo_cfg [512]" and ?c = "ckpt_config demo_args demo_cfg [512]"
  have b: "\<not> c_is_mdn ?b" "c_num_bins ?b = Some 200" and c: "c_is_mdn ?c" "c_K ?c = Some 6" "c_sigma_floor ?c = Some (1/20)"
    by (simp_all add: ckpt_config_def demo_args_def demo_cfg_def arg_or_def)
  obtain n where n: "new_bins demo_init demo_arch ?b = Inr n" "shaped demo_arch (c_hidden ?b) 200 n"
    using new_bins_shaped [OF demo_buildable b(2)] by blast
  obtain m :: mdn_net where m: "shaped demo_arch (c_hidden ?c) (3 * 6) m" "net_K m = 6"
    using new_mdn_shaped [OF demo_buildable c(2,3)] by blast
  let ?m = "m\<lparr>net_sigma_floor := 1/10\<rparr>"
  have "c_K ?c = Some (net_K ?m)" "shaped demo_arch (c_hidden ?c) (3 * net_K ?m) ?m"
    using m c(2) by (simp_all add: shaped_def net_shape_def)
  from checkpoint_roundtrip [OF demo_buildable b n(2) c(1) this(1) c(3) this(2)] n(1) show ?thesis
    by (intro exI [of _ n] exI [of _ ?m]) simp
qed

section \<open>From training to evaluation\<close>

text \<open>
  The parameters of a network as the training handles them, and the dictionary \<open>full_state_dict\<close> of the
  network \<open>n0\<close> with parameters \<open>w\<close>. These networks have no other tensors, and all of them are trained.
\<close>

definition params_of :: "'a network_scheme \<Rightarrow> params" where
  "params_of n = map (\<lambda>(name, sh, xs). (name, \<lparr>requires_grad = True, p_data = xs\<rparr>)) (net_state n)"

definition saved_state :: "'a network_scheme \<Rightarrow> params \<Rightarrow> state" where
  "saved_state n0 w = map2 (\<lambda>(name, sh, xs) (_, p). (name, sh, p_data p)) (net_state n0) w"

text \<open>The loss on a batch of the network \<open>n0\<close> when its parameters are \<open>w\<close>.\<close>

definition bins_loss_at :: "(real \<Rightarrow> real) \<Rightarrow> network \<Rightarrow> nat \<Rightarrow> params \<Rightarrow> batch \<Rightarrow> real res" where
  "bins_loss_at erf n0 num_bins w b = res_bind (load_net (saved_state n0 w) n0) (\<lambda>n. bins_batch_loss erf n num_bins b)"

lemma params_names: "map fst (params_of n) = map fst (net_state n)"
  by (simp add: params_of_def comp_def split_def)

lemma saved_names: "length w = length (net_state n0) \<Longrightarrow> map fst (saved_state n0 w) = map fst (net_state n0)"
  unfolding saved_state_def by (rule nth_equalityI) (auto simp: split_def)

text \<open>A dictionary that has all names of the network leaves nothing of the tensors it had before.\<close>

definition names_in :: "state \<Rightarrow> state \<Rightarrow> bool" where
  "names_in sub sd \<longleftrightarrow> fst ` set sub \<subseteq> fst ` set sd"

lemma load_mat_like: "name \<in> fst ` set sd \<Longrightarrow> like_mat m' m \<Longrightarrow> load_mat sd name m' = load_mat sd name m"
  by (cases "map_of sd name") (auto simp: load_mat_def like_mat_def map_of_eq_None_iff)

lemma load_vec_like: "name \<in> fst ` set sd \<Longrightarrow> length v' = length v \<Longrightarrow> load_vec sd name v' = load_vec sd name v"
  by (cases "map_of sd name") (auto simp: load_vec_def map_of_eq_None_iff)

lemma load_linear_like:
  assumes "names_in (linear_state pre l) sd" and "like_linear l' l"
  shows "load_linear sd pre l' = load_linear sd pre l"
proof -
  have "load_mat sd (pre @ ''.weight'') (lin_w l') = load_mat sd (pre @ ''.weight'') (lin_w l)"
    "load_vec sd (pre @ ''.bias'') (lin_b l') = load_vec sd (pre @ ''.bias'') (lin_b l)"
    using assms by (auto simp: linear_state_def names_in_def like_linear_def intro: load_mat_like load_vec_like)
  then show ?thesis by (simp only: load_linear_def)
qed

lemma load_layers_like:
  "names_in (layers_state k ls) sd \<Longrightarrow> list_all2 like_layer ls' ls \<Longrightarrow> load_layers sd k ls' = load_layers sd k ls"
proof (induction ls arbitrary: k ls')
  case (Cons l ls)
  then obtain l' ls'' where l: "ls' = l' # ls''" "like_layer l' l" "list_all2 like_layer ls'' ls"
    by (auto simp: list_all2_Cons2)
  have sub: "names_in (linear_state (net_name k) (fc l)) sd" "names_in (layers_state (k + 4) ls) sd"
    "net_name (k + 1) @ ''.weight'' \<in> fst ` set sd" "net_name (k + 1) @ ''.bias'' \<in> fst ` set sd"
    using Cons.prems(1) by (auto simp: names_in_def)
  have "load_linear sd (net_name k) (fc l') = load_linear sd (net_name k) (fc l)"
    using l(2) by (intro load_linear_like [OF sub(1)]) (simp add: like_layer_def)
  moreover have "load_vec sd (net_name (k + 1) @ ''.weight'') (ln_gamma l') = load_vec sd (net_name (k + 1) @ ''.weight'') (ln_gamma l)"
    using l(2) by (intro load_vec_like [OF sub(3)]) (simp add: like_layer_def)
  moreover have "load_vec sd (net_name (k + 1) @ ''.bias'') (ln_beta l') = load_vec sd (net_name (k + 1) @ ''.bias'') (ln_beta l)"
    using l(2) by (intro load_vec_like [OF sub(4)]) (simp add: like_layer_def)
  moreover note Cons.IH [OF sub(2) l(3)]
  ultimately show ?case by (simp only: l(1) load_layers.simps)
qed simp

lemma load_embs_like:
  assumes "\<And>j. j < length ts \<Longrightarrow> emb_name (i + j) \<in> fst ` set sd" and "list_all2 like_mat ts' ts"
  shows "res_map (\<lambda>(i, t). load_mat sd (emb_name i) t) (enumerate i ts') = res_map (\<lambda>(i, t). load_mat sd (emb_name i) t) (enumerate i ts)"
  using assms
proof (induction ts arbitrary: i ts')
  case (Cons t ts)
  then obtain t' ts'' where t: "ts' = t' # ts''" "like_mat t' t" "list_all2 like_mat ts'' ts"
    by (auto simp: list_all2_Cons2)
  have "emb_name (Suc i + j) \<in> fst ` set sd" if "j < length ts" for j
    using Cons.prems(1) [of "Suc j"] that by simp
  then show ?case
    using Cons.IH [OF _ t(3), of "Suc i"] t(1) load_mat_like [OF _ t(2), of "emb_name i" sd] Cons.prems(1) [of 0]
    by (cases "load_mat sd (emb_name i) t") simp_all
qed simp

lemma load_net_like:
  assumes "names_in (net_state n) sd" and "like_net n' n"
  shows "load_net sd n' = load_net sd n"
proof -
  have sub: "names_in (emb_state (net_emb n)) sd" "names_in (layers_state 0 (bb_layers (net_backbone n))) sd"
    "names_in (linear_state ''head'' (net_head n)) sd"
    using assms(1) by (auto simp: names_in_def net_state_def)
  have "set (map fst (emb_state (net_emb n))) \<subseteq> fst ` set sd" using sub(1) by (simp add: names_in_def)
  then have names: "emb_name j \<in> fst ` set sd" "''emb.tag_emb.weight'' \<in> fst ` set sd" if "j < length (embs (net_emb n))" for j
    using that unfolding emb_names by auto
  have tag: "''emb.tag_emb.weight'' \<in> fst ` set sd"
    using \<open>set (map fst (emb_state (net_emb n))) \<subseteq> fst ` set sd\<close> unfolding emb_names by auto
  have e: "res_map (\<lambda>(i, t). load_mat sd (emb_name i) t) (enumerate 0 (embs (net_emb n'))) =
      res_map (\<lambda>(i, t). load_mat sd (emb_name i) t) (enumerate 0 (embs (net_emb n)))"
    using names(1) assms(2) by (intro load_embs_like) (simp_all add: like_net_def)
  have "load_emb sd (net_emb n') = load_emb sd (net_emb n)"
  proof -
    have "load_mat sd ''emb.tag_emb.weight'' (tag_emb (net_emb n')) = load_mat sd ''emb.tag_emb.weight'' (tag_emb (net_emb n))"
      using assms(2) tag by (intro load_mat_like) (simp_all add: like_net_def)
    moreover have "(net_emb n')\<lparr>embs := ts, tag_emb := t\<rparr> = (net_emb n)\<lparr>embs := ts, tag_emb := t\<rparr>" for ts t
      using assms(2) by (intro cat_embeddings.equality) (simp_all add: like_net_def)
    ultimately show ?thesis by (simp only: load_emb_def e)
  qed
  moreover have "load_layers sd 0 (bb_layers (net_backbone n')) = load_layers sd 0 (bb_layers (net_backbone n))"
    using load_layers_like [OF sub(2)] assms(2) by (simp add: like_net_def)
  moreover have "load_linear sd ''head'' (net_head n') = load_linear sd ''head'' (net_head n)"
    using load_linear_like [OF sub(3)] assms(2) by (simp add: like_net_def)
  moreover have "n'\<lparr>net_emb := x, net_backbone := (net_backbone n')\<lparr>bb_layers := y\<rparr>, net_head := z\<rparr> =
      n\<lparr>net_emb := x, net_backbone := (net_backbone n)\<lparr>bb_layers := y\<rparr>, net_head := z\<rparr>" for x y z
    using assms(2) by (intro network.equality mlp_backbone.equality) (simp_all add: like_net_def)
  ultimately show ?thesis by (simp only: load_net_def)
qed

text \<open>The checkpoint of a run carries its configuration and the parameters by their names.\<close>

lemma copy_to_names: "copy_to sh m = Inr m' \<Longrightarrow> map fst m' = map fst m"
  unfolding copy_to_def res_map_Inr_iff
  by (induction m m' rule: list_all2_induct) (auto split: if_splits option.splits)

lemma finish_epoch_ckpt:
  assumes "finish_epoch val rc st = Inr (st', stop)"
  shows "ts_ckpt st' = ts_ckpt st \<or>
    (\<exists>ck. ts_ckpt st' = Some ck \<and> ck_config ck = rc_config rc \<and> map fst (ck_full ck) = map fst (ts_w st))"
  using assms
  by (auto simp: finish_epoch_def res_bind_Inr_iff Let_def dest!: copy_to_names split: if_splits)

definition ckpt_of :: "net_config \<Rightarrow> string list \<Rightarrow> 's train_state \<Rightarrow> bool" where
  "ckpt_of cfg names st \<longleftrightarrow> (\<forall>ck. ts_ckpt st = Some ck \<longrightarrow> ck_config ck = cfg \<and> map fst (ck_full ck) = names)"

lemma train_epoch_ckpt:
  assumes "keeps_shape train_step" and "distinct (map fst m0)" and "st_shape m0 st" and "ckpt_of (rc_config rc) (map fst m0) st"
    and "train_epoch train_step val rc bs st = Inr (st', stop)"
  shows "ckpt_of (rc_config rc) (map fst m0) st'"
proof -
  obtain st1 r k where b: "train_batches train_step rc bs st 0 0 = Inr (st1, r, k)" "finish_epoch val rc st1 = Inr (st', stop)"
    using assms(5) by (auto simp: train_epoch_def res_bind_Inr_iff split: if_splits)
  have s: "st_shape m0 st1" "ts_ckpt st1 = ts_ckpt st"
    using train_batches_keeps [OF assms(1-3) b(1)] by auto
  then have "map fst (ts_w st1) = map fst m0" using same_shape_names by (auto simp: st_shape_def)
  then show ?thesis using finish_epoch_ckpt [OF b(2)] s(2) assms(4) by (auto simp: ckpt_of_def)
qed

lemma train_epochs_ckpt:
  assumes "keeps_shape train_step" and "distinct (map fst m0)"
  shows "st_shape m0 st \<Longrightarrow> ckpt_ok val st \<Longrightarrow> ckpt_of (rc_config rc) (map fst m0) st \<Longrightarrow>
    train_epochs train_step val rc bss st = Inr st' \<Longrightarrow> ckpt_ok val st' \<and> ckpt_of (rc_config rc) (map fst m0) st'"
proof (induction bss arbitrary: st)
  case (Cons bs bss)
  obtain st1 stop where e: "train_epoch train_step val rc bs st = Inr (st1, stop)"
    "(if stop then Inr st1 else train_epochs train_step val rc bss st1) = Inr st'"
    using Cons.prems(4) by (auto simp: res_bind_Inr_iff)
  have "st_shape m0 st1" "ckpt_ok val st1" using train_epoch_refines [OF assms Cons.prems(1,2) e(1)] by blast+
  moreover have "ckpt_of (rc_config rc) (map fst m0) st1" by (rule train_epoch_ckpt [OF assms Cons.prems(1,3) e(1)])
  ultimately show ?case using Cons.IH e(2) by (cases stop) auto
qed simp

lemma main_train_ckpt:
  assumes "keeps_shape train_step" and "distinct (map fst model)"
    and "main_train train_step loss_of perms args cfg train_ds val_ds model opt0 = Inr st" and "ts_ckpt st = Some ck"
  shows "0 < arg_or (ta_batch_size args) (tc_batch_size cfg) \<and>
    the (evaluate_loss (loss_of (ck_full ck)) val_ds (arg_or (ta_batch_size args) (tc_batch_size cfg) * 2)) = Inr (ck_val_loss ck) \<and>
    map fst (ck_full ck) = map fst model \<and> (\<exists>hidden. parse_hidden args cfg = Inr hidden \<and> ck_config ck = ckpt_config args cfg hidden)"
proof -
  let ?bs = "arg_or (ta_batch_size args) (tc_batch_size cfg)"
  obtain hidden k where h: "parse_hidden args cfg = Inr hidden" "num_batches train_ds ?bs True = Inr k"
    using assms(3) by (auto simp: main_train_def res_bind_Inr_iff Let_def)
  note run = assms(3) [unfolded main_train_def h res_bind.simps Let_def]
  note inv = train_epochs_ckpt [OF assms(1,2) _ _ _ run]
  have "ckpt_ok (\<lambda>w. the (evaluate_loss (loss_of w) val_ds (?bs * 2))) st \<and> ckpt_of (ckpt_config args cfg hidden) (map fst model) st"
    using inv by (simp add: st_shape_def same_shape_def ckpt_ok_def ckpt_of_def)
  moreover have "0 < ?bs" using h(2) by (cases "?bs = 0") (simp_all add: num_batches_def)
  ultimately show ?thesis
    using assms(4) h(1) by (auto simp: ckpt_ok_def ckpt_of_def split: ext.splits)
qed

lemma evaluate_loaded:
  assumes "0 < k" and "the (evaluate_loss (\<lambda>b. res_bind r (\<lambda>n. f n b)) ds k) = Inr v"
  shows "\<exists>n. r = Inr n \<and> the (evaluate_loss (f n) ds k) = Inr v"
proof -
  obtain bs where bs: "iter_batches ds k None False = Some bs"
    using batch_loop_eq [OF assms(1), of "[0..<ds_n ds]" "ds_n ds" 0 False "[]"] by (simp add: iter_batches_def)
  show ?thesis
  proof (cases r)
    case (Inl e)
    then have False using assms(2) bs by (cases bs) (simp_all add: evaluate_loss_def)
    then show ?thesis ..
  next
    case (Inr n)
    then show ?thesis using assms(2) by simp
  qed
qed

subsection \<open>A run that trains nothing\<close>

text \<open>Concrete runs for the properties below: the step leaves the weights alone, so that every validation sees the fresh network.\<close>

definition still_step :: "unit train_step" where
  "still_step lr b w s = Inr (w, s, 1)"

lemma still_keeps: "keeps_shape still_step"
  by (simp add: keeps_shape_def still_step_def same_shape_def)

lemma blend_same: "blend d s s = s"
  by (induction s) (auto simp: blend_def algebra_simps)

lemma with_data_cong: "(\<And>n. map_of sh n = map_of sh' n) \<Longrightarrow> with_data sh m = with_data sh' m"
  by (auto simp: with_data_def)

lemma with_own_data: "distinct (map fst m) \<Longrightarrow> with_data (snapshot m) m = m"
  using restore [of m "snapshot m"] by (simp add: with_data_twice)

lemma still_epoch:
  assumes "distinct (map fst m)" and "val m = Inr v" and "b_cat b \<noteq> []"
  shows "\<exists>st ck. train_epochs still_step val rc [[b]] \<lparr>ts_w = m, ts_opt = (), ts_ema = snapshot m, ts_best = Infty, ts_bad = 0,
      ts_step = 0, ts_ckpt = None, ts_log = []\<rparr> = Inr st \<and> ts_ckpt st = Some ck"
proof -
  obtain sh where sh: "ema_update (rc_ema_decay rc) m (snapshot m) = Inr sh" "fst ` set sh = fst ` set (snapshot m)"
    "\<forall>n. map_of sh n = (case map_of m n of
        Some p \<Rightarrow> if requires_grad p then map_option (\<lambda>s. blend (rc_ema_decay rc) s (p_data p)) (map_of (snapshot m) n) else map_of (snapshot m) n
      | None \<Rightarrow> map_of (snapshot m) n)"
    using ema_update_get [of m "snapshot m" "rc_ema_decay rc"] covers_snapshot [OF assms(1)] assms(1) unfolding covers_def by blast
  have "map_of sh n = map_of (snapshot m) n" for n
    using sh(3) by (auto simp: snapshot_get [OF assms(1)] blend_same split: option.splits)
  then have w: "with_data sh m = m" using with_data_cong with_own_data [OF assms(1)] by metis
  have "covers sh m" using covers_snapshot [OF assms(1)] sh(2) by (simp add: covers_def)
  then have c: "copy_to sh m = Inr m" "copy_to (snapshot m) m = Inr m"
    using copy_to_eq w with_own_data [OF assms(1)] covers_snapshot [OF assms(1)] by simp_all
  show ?thesis
    using assms(2,3) by (simp add: train_epoch_def still_step_def sh(1) finish_epoch_def c Let_def)
qed

lemma saved_fresh: "saved_state n (params_of n) = net_state n"
  unfolding saved_state_def params_of_def by (rule nth_equalityI) (auto simp: split_def)

lemma demo_fits: "row_fits [(City, 3)] 5 (demo_out 1 [] 5)" "row_fits [(City, 3)] 5 (demo_out 2 [] 7)"
  by (simp_all add: demo_out_fits)

definition demo_bins_args :: train_args where
  "demo_bins_args = demo_args\<lparr>ta_is_mdn := False, ta_epochs := Some 1\<rparr>"

definition demo_mdn_args :: train_args where
  "demo_mdn_args = demo_args\<lparr>ta_epochs := Some 1\<rparr>"

lemma still_main:
  assumes "evaluate_loss (loss_of m) (BidDataset [demo_out 2 [] 7]) 2 = Some (Inr v)" and "distinct (map fst m)"
    and "ta_epochs args = Some 1" and "ta_batch_size args = Some 1" and "parse_hidden args cfg = Inr hidden"
  shows "\<exists>st ck. main_train still_step loss_of (\<lambda>_. [0]) args cfg (BidDataset [demo_out 1 [] 5]) (BidDataset [demo_out 2 [] 7]) m () = Inr st \<and>
    ts_ckpt st = Some ck"
proof -
  have n: "ds_n (BidDataset df) = length df" for df by (simp add: BidDataset_def)
  have it: "iter_batches (BidDataset [demo_out 1 [] 5]) 1 (Some [0]) True = Some [make_batch (BidDataset [demo_out 1 [] 5]) [0]]"
    using iter_batches_eq [of 1 "[0]" "[demo_out 1 [] 5]" True] by (simp add: batch_slices_def batch_count_def)
  have b: "b_cat (make_batch (BidDataset [demo_out 1 [] 5]) [0]) \<noteq> []" by (simp add: make_batch_def gather_def)
  let ?rc = "\<lparr>rc_bs = 1, rc_epochs = 1, rc_base_lr = arg_or (ta_lr args) (tc_learning_rate cfg),
      rc_ema_decay = arg_or (ta_ema_decay args) (tc_ema_decay cfg), rc_warmup = tc_warmup_steps cfg, rc_patience = tc_patience cfg,
      rc_total_steps = 1, rc_config = ckpt_config args cfg hidden\<rparr>"
  let ?val = "\<lambda>w. the (evaluate_loss (loss_of w) (BidDataset [demo_out 2 [] 7]) 2)"
  let ?st = "\<lparr>ts_w = m, ts_opt = (), ts_ema = snapshot m, ts_best = Infty, ts_bad = 0, ts_step = 0, ts_ckpt = None, ts_log = []\<rparr>"
  have "main_train still_step loss_of (\<lambda>_. [0]) args cfg (BidDataset [demo_out 1 [] 5]) (BidDataset [demo_out 2 [] 7]) m () =
      train_epochs still_step ?val ?rc [[make_batch (BidDataset [demo_out 1 [] 5]) [0]]] ?st"
    using assms(3-5) it by (simp only: main_train_def) (simp add: arg_or_def num_batches_def n del: train_epochs.simps)
  moreover have "?val m = Inr v" using assms(1) by simp
  ultimately show ?thesis using still_epoch [OF assms(2) _ b, of ?val v ?rc] by simp
qed

lemma demo_bins_facts:
  "parse_hidden demo_bins_args demo_cfg = Inr [512]" "\<not> ta_is_mdn demo_bins_args"
  "200 = arg_or (ta_num_bins demo_bins_args) (tc_num_bins demo_cfg)" "arg_or (ta_batch_size demo_bins_args) (tc_batch_size demo_cfg) = 1"
  by (simp_all add: demo_bins_args_def parse_hidden_def demo_args_def demo_cfg_def arg_or_def)

lemma demo_bins_run:
  "\<exists>n0 st ck. new_bins demo_init demo_arch (ckpt_config demo_bins_args demo_cfg [512]) = Inr n0 \<and>
    main_train still_step (bins_loss_at (\<lambda>_. 0) n0 200) (\<lambda>_. [0]) demo_bins_args demo_cfg
      (BidDataset [demo_out 1 [] 5]) (BidDataset [demo_out 2 [] 7]) (params_of n0) () = Inr st \<and> ts_ckpt st = Some ck"
proof -
  let ?cfg = "ckpt_config demo_bins_args demo_cfg [512]"
  have c: "c_num_bins ?cfg = Some 200" "c_hidden ?cfg = [512]" "ta_epochs demo_bins_args = Some 1" "ta_batch_size demo_bins_args = Some 1"
    by (simp_all add: demo_bins_args_def ckpt_config_def demo_args_def demo_cfg_def arg_or_def)
  obtain n0 where n0: "new_bins demo_init demo_arch ?cfg = Inr n0" "shaped demo_arch [512] 200 n0"
    using new_bins_shaped [OF demo_buildable c(1)] c(2) by auto
  have load: "load_net (saved_state n0 (params_of n0)) n0 = Inr n0"
    unfolding saved_fresh by (rule load_state_shaped [OF n0(2) n0(2) refl])
  have "net_shape [(City, 3)] (\<lambda>_. Some 2) 5 2 9 200 n0" using n0(2) by (simp add: shaped_def demo_arch_def)
  note loss = evaluate_loss_mean [OF _ _ bins_batch_loss_mean [OF this], of 2 "[demo_out 2 [] 7]" "\<lambda>_. 0"]
  have "bins_loss_at (\<lambda>_. 0) n0 200 (params_of n0) = bins_batch_loss (\<lambda>_. 0) n0 200"
    by (rule ext) (simp add: bins_loss_at_def load)
  then obtain v where "evaluate_loss (bins_loss_at (\<lambda>_. 0) n0 200 (params_of n0)) (BidDataset [demo_out 2 [] 7]) 2 = Some (Inr v)"
    using loss demo_fits by simp
  from still_main [where loss_of = "bins_loss_at (\<lambda>_. 0) n0 200", OF this _ c(3,4) demo_bins_facts(1)]
  show ?thesis using n0(1) net_state_distinct [of n0] by (simp add: params_names)
qed

lemma trained_bins_loaded:
  assumes "buildable init a" and "buildable init' a" and "keeps_shape train_step" and "\<not> ta_is_mdn args"
    and "parse_hidden args cfg = Inr hidden" and "new_bins init a (ckpt_config args cfg hidden) = Inr n0"
    and "main_train train_step (bins_loss_at erf n0 nb) perms args cfg train_ds val_ds (params_of n0) opt0 = Inr st"
    and "ts_ckpt st = Some ck"
  shows "\<exists>n. load_net (saved_state n0 (ck_full ck)) n0 = Inr n \<and> load_model init' a (ck_config ck) (saved_state n0 (ck_full ck)) = Inr (Inr n) \<and>
    load_warm_start init' a (ck_config ck) (saved_state n0 (ck_full ck)) = Inr (n, arg_or (ta_num_bins args) (tc_num_bins cfg)) \<and>
    the (evaluate_loss (bins_batch_loss erf n nb) val_ds (arg_or (ta_batch_size args) (tc_batch_size cfg) * 2)) = Inr (ck_val_loss ck)"
proof -
  let ?cfg = "ckpt_config args cfg hidden" and ?nb = "arg_or (ta_num_bins args) (tc_num_bins cfg)"
  let ?sd = "saved_state n0 (ck_full ck)"
  have c: "c_num_bins ?cfg = Some ?nb" "\<not> c_is_mdn ?cfg" using assms(4) by (simp_all add: ckpt_config_def)
  have d: "distinct (map fst (params_of n0))" unfolding params_names by (rule net_state_distinct)
  note ck = main_train_ckpt [OF assms(3) d assms(7,8)]
  then have cfg: "ck_config ck = ?cfg" using assms(5) by auto
  obtain n where n: "load_net ?sd n0 = Inr n"
    "the (evaluate_loss (bins_batch_loss erf n nb) val_ds (arg_or (ta_batch_size args) (tc_batch_size cfg) * 2)) = Inr (ck_val_loss ck)"
    using ck evaluate_loaded [of "arg_or (ta_batch_size args) (tc_batch_size cfg) * 2" "load_net ?sd n0" "\<lambda>n. bins_batch_loss erf n nb"]
    unfolding bins_loss_at_def by auto
  obtain n1 where n1: "new_bins init' a ?cfg = Inr n1" "shaped a (c_hidden ?cfg) ?nb n1"
    using new_bins_shaped [OF assms(2) c(1)] by blast
  have "shaped a (c_hidden ?cfg) ?nb n0" using new_bins_shaped [OF assms(1) c(1)] assms(6) by auto
  then have like: "like_net n1 n0" using shaped_like n1(2) by fastforce
  have "length (ck_full ck) = length (net_state n0)"
    using ck params_names [of n0] by (metis length_map)
  then have "map fst ?sd = map fst (net_state n0)" by (rule saved_names)
  from arg_cong [OF this, of set] have "names_in (net_state n0) ?sd" by (simp add: names_in_def)
  then have "load_net ?sd n1 = Inr n" using load_net_like [OF _ like] n(1) by simp
  then show ?thesis using n1(1) n c by (simp add: cfg load_model_def load_warm_start_def)
qed

text \<open>
  C8: What \<open>train.py\<close> reports is what the later scripts load. After a run on a bins network (weights \<open>w\<close>
  read as the network with these weights), \<open>evaluate.py\<close> and the retrainer rebuild from the checkpoint,
  whatever their own fresh tensors, one and the same network, and its validation loss is the loss stored
  in the checkpoint.
\<close>

theorem trained_network_is_loaded:
  assumes "buildable init a" and "buildable init' a" and "keeps_shape train_step" and "\<not> ta_is_mdn args"
    and "parse_hidden args cfg = Inr hidden" and "new_bins init a (ckpt_config args cfg hidden) = Inr n0"
    and "main_train train_step (bins_loss_at erf n0 nb) perms args cfg train_ds val_ds (params_of n0) opt0 = Inr st"
    and "ts_ckpt st = Some ck"
  shows "\<exists>n. load_model init' a (ck_config ck) (saved_state n0 (ck_full ck)) = Inr (Inr n) \<and>
    load_warm_start init' a (ck_config ck) (saved_state n0 (ck_full ck)) = Inr (n, arg_or (ta_num_bins args) (tc_num_bins cfg)) \<and>
    the (evaluate_loss (bins_batch_loss erf n nb) val_ds (arg_or (ta_batch_size args) (tc_batch_size cfg) * 2)) = Inr (ck_val_loss ck)"
  using trained_bins_loaded [OF assms] by blast

theorem trained_network_is_loaded_witness:
  "\<exists>n0 st ck n. main_train still_step (bins_loss_at (\<lambda>_. 0) n0 200) (\<lambda>_. [0]) demo_bins_args demo_cfg
      (BidDataset [demo_out 1 [] 5]) (BidDataset [demo_out 2 [] 7]) (params_of n0) () = Inr st \<and> ts_ckpt st = Some ck \<and>
    load_model demo_init demo_arch (ck_config ck) (saved_state n0 (ck_full ck)) = Inr (Inr n) \<and>
    the (evaluate_loss (bins_batch_loss (\<lambda>_. 0) n 200) (BidDataset [demo_out 2 [] 7]) 2) = Inr (ck_val_loss ck)"
proof -
  obtain n0 st ck where "new_bins demo_init demo_arch (ckpt_config demo_bins_args demo_cfg [512]) = Inr n0"
    "main_train still_step (bins_loss_at (\<lambda>_. 0) n0 200) (\<lambda>_. [0]) demo_bins_args demo_cfg
      (BidDataset [demo_out 1 [] 5]) (BidDataset [demo_out 2 [] 7]) (params_of n0) () = Inr st" "ts_ckpt st = Some ck"
    using demo_bins_run by blast
  from trained_network_is_loaded [OF demo_buildable demo_buildable still_keeps demo_bins_facts(2,1) this] this(2,3)
  show ?thesis unfolding demo_bins_facts(4) by fastforce
qed

definition mdn_loss_at :: "(real \<Rightarrow> real) \<Rightarrow> mdn_net \<Rightarrow> params \<Rightarrow> batch \<Rightarrow> real res" where
  "mdn_loss_at erf n0 w b = res_bind (load_net (saved_state n0 w) n0) (\<lambda>n. mdn_batch_loss erf n b)"

lemma load_net_floor:
  "load_net sd (n\<lparr>net_sigma_floor := s\<rparr>) = res_bind (load_net sd n) (\<lambda>m. Inr (m\<lparr>net_sigma_floor := s\<rparr>))"
  by (cases n) (simp add: load_net_def res_bind_assoc)

lemma load_net_K: "load_net sd n = Inr m \<Longrightarrow> net_sigma_floor m = net_sigma_floor n"
  by (auto simp: load_net_def res_bind_Inr_iff)

lemma demo_mdn_run:
  assumes "ta_epochs args = Some 1" and "ta_batch_size args = Some 1" and "parse_hidden args demo_cfg = Inr [512]"
  shows "\<exists>(n0 :: mdn_net) st ck. shaped demo_arch [512] (3 * net_K n0) n0 \<and> net_K n0 = 6 \<and> net_sigma_floor n0 = s \<and>
    main_train still_step (mdn_loss_at (\<lambda>_. 0) n0) (\<lambda>_. [0]) args demo_cfg
      (BidDataset [demo_out 1 [] 5]) (BidDataset [demo_out 2 [] 7]) (params_of n0) () = Inr st \<and> ts_ckpt st = Some ck"
proof -
  obtain n0 :: mdn_net where n0: "shaped demo_arch [512] (3 * net_K n0) n0" "net_K n0 = 6" "net_sigma_floor n0 = s"
    using new_mdn_shaped [OF demo_buildable, of "\<lparr>c_is_mdn = True, c_K = Some 6, c_num_bins = None, c_hidden = [512], c_sigma_floor = Some s\<rparr>" 6 s]
    by auto
  have load: "load_net (saved_state n0 (params_of n0)) n0 = Inr n0"
    unfolding saved_fresh by (rule load_state_shaped [OF n0(1) n0(1) refl])
  have "net_shape [(City, 3)] (\<lambda>_. Some 2) 5 2 9 (3 * net_K n0) n0" using n0(1) by (simp add: shaped_def demo_arch_def)
  note loss = evaluate_loss_mean [OF _ _ mdn_batch_loss_mean [OF this], of 2 "[demo_out 2 [] 7]" "\<lambda>_. 0"]
  have "mdn_loss_at (\<lambda>_. 0) n0 (params_of n0) = mdn_batch_loss (\<lambda>_. 0) n0"
    by (rule ext) (simp add: mdn_loss_at_def load)
  then obtain v where "evaluate_loss (mdn_loss_at (\<lambda>_. 0) n0 (params_of n0)) (BidDataset [demo_out 2 [] 7]) 2 = Some (Inr v)"
    using loss demo_fits by simp
  moreover have "distinct (map fst (params_of n0))" unfolding params_names by (rule net_state_distinct)
  ultimately show ?thesis
    using still_main [where loss_of = "mdn_loss_at (\<lambda>_. 0) n0", OF _ _ assms] n0 by blast
qed

lemma trained_mixture_loaded:
  assumes "buildable init' a" and "keeps_shape train_step" and "ta_is_mdn args"
    and "parse_hidden args cfg = Inr hidden" and "shaped a hidden (3 * net_K n0) n0"
    and "net_K n0 = arg_or (ta_K args) (tc_n_components cfg)" and "net_sigma_floor n0 = used_sigma_floor args cfg"
    and "main_train train_step (mdn_loss_at erf n0) perms args cfg train_ds val_ds (params_of n0) opt0 = Inr st"
    and "ts_ckpt st = Some ck"
  shows "load_warm_start init' a (ck_config ck) sd = Inl TypeError \<and>
    export_network erf' init' a (ck_config ck) sd n_test = Inl TypeError \<and>
    (\<exists>n. load_net (saved_state n0 (ck_full ck)) n0 = Inr n \<and> the (evaluate_loss (mdn_batch_loss erf n) val_ds (arg_or (ta_batch_size args) (tc_batch_size cfg) * 2)) = Inr (ck_val_loss ck) \<and>
      load_model init' a (ck_config ck) (saved_state n0 (ck_full ck)) = Inr (Inl (n\<lparr>net_sigma_floor := tc_sigma_floor cfg\<rparr>)) \<and>
      (n\<lparr>net_sigma_floor := tc_sigma_floor cfg\<rparr> = n \<longleftrightarrow> ta_sigma_floor args = None \<or> ta_sigma_floor args = Some (tc_sigma_floor cfg)))"
proof -
  let ?cfg = "ckpt_config args cfg hidden" and ?s = "tc_sigma_floor cfg" and ?sd = "saved_state n0 (ck_full ck)"
  have c: "c_num_bins ?cfg = None" "c_is_mdn ?cfg" "c_K ?cfg = Some (net_K n0)" "c_sigma_floor ?cfg = Some ?s" "c_hidden ?cfg = hidden"
    using assms(3,6) by (simp_all add: ckpt_config_def)
  have d: "distinct (map fst (params_of n0))" unfolding params_names by (rule net_state_distinct)
  note ck = main_train_ckpt [OF assms(2) d assms(8,9)]
  then have cfg: "ck_config ck = ?cfg" using assms(4) by auto
  obtain n where n: "load_net ?sd n0 = Inr n"
    "the (evaluate_loss (mdn_batch_loss erf n) val_ds (arg_or (ta_batch_size args) (tc_batch_size cfg) * 2)) = Inr (ck_val_loss ck)"
    using ck evaluate_loaded [of "arg_or (ta_batch_size args) (tc_batch_size cfg) * 2" "load_net ?sd n0" "mdn_batch_loss erf"]
    unfolding mdn_loss_at_def by auto
  obtain n1 where n1: "new_mdn init' a ?cfg = Inr n1" "shaped a hidden (3 * net_K n0) n1" "net_K n1 = net_K n0" "net_sigma_floor n1 = ?s"
    using new_mdn_shaped [OF assms(1) c(3,4)] c(5) by auto
  let ?n0 = "n0\<lparr>net_sigma_floor := ?s\<rparr>"
  have "shaped a hidden (3 * net_K n0) ?n0" using assms(5) by (simp add: shaped_def net_shape_def)
  moreover have "network.more n1 = network.more ?n0" using n1(3,4) by (cases n0; cases n1) simp
  ultimately have like: "like_net n1 ?n0" using shaped_like n1(2) by blast
  have "length (ck_full ck) = length (net_state n0)"
    using ck params_names [of n0] by (metis length_map)
  then have "map fst ?sd = map fst (net_state n0)" by (rule saved_names)
  from arg_cong [OF this, of set] have "names_in (net_state n0) ?sd" by (simp add: names_in_def)
  moreover have "net_state ?n0 = net_state n0" by (simp add: net_state_def)
  ultimately have "names_in (net_state ?n0) ?sd" by simp
  then have "load_net ?sd n1 = Inr (n\<lparr>net_sigma_floor := ?s\<rparr>)"
    using load_net_like [OF _ like] by (simp add: load_net_floor n(1))
  then have "load_model init' a ?cfg ?sd = Inr (Inl (n\<lparr>net_sigma_floor := ?s\<rparr>))"
    using n1(1) c(2) by (simp add: load_model_def)
  moreover have "n\<lparr>net_sigma_floor := ?s\<rparr> = n \<longleftrightarrow> ta_sigma_floor args = None \<or> ta_sigma_floor args = Some ?s"
    using load_net_K [OF n(1)] assms(7) by (cases n) (auto simp: used_sigma_floor_def arg_or_def split: option.splits)
  moreover have "load_warm_start init' a ?cfg sd = Inl TypeError" "export_network erf' init' a ?cfg sd n_test = Inl TypeError"
    using c(1) by (simp_all add: load_warm_start_def export_network_def new_bins_def headless_shaped [OF assms(1)])
  ultimately show ?thesis using n unfolding cfg by blast
qed

text \<open>
  C38: Checkpoints of mixtures: the retrainer and the export, which always build a bins network, end in a
  \<open>TypeError\<close>. \<open>evaluate.py\<close> loads the weights that were trained and validated, but with the floor of the
  configuration file: the loaded network is the validated one only if \<open>--sigma_floor\<close> was not set to
  another value.
\<close>

theorem mixture_is_loaded_with_other_floor:
  assumes "buildable init' a" and "keeps_shape train_step" and "ta_is_mdn args"
    and "parse_hidden args cfg = Inr hidden" and "shaped a hidden (3 * net_K n0) n0"
    and "net_K n0 = arg_or (ta_K args) (tc_n_components cfg)" and "net_sigma_floor n0 = used_sigma_floor args cfg"
    and "main_train train_step (mdn_loss_at erf n0) perms args cfg train_ds val_ds (params_of n0) opt0 = Inr st"
    and "ts_ckpt st = Some ck"
  shows "load_warm_start init' a (ck_config ck) sd = Inl TypeError \<and>
    export_network erf' init' a (ck_config ck) sd n_test = Inl TypeError \<and>
    (\<exists>n. the (evaluate_loss (mdn_batch_loss erf n) val_ds (arg_or (ta_batch_size args) (tc_batch_size cfg) * 2)) = Inr (ck_val_loss ck) \<and>
      load_model init' a (ck_config ck) (saved_state n0 (ck_full ck)) = Inr (Inl (n\<lparr>net_sigma_floor := tc_sigma_floor cfg\<rparr>)) \<and>
      (n\<lparr>net_sigma_floor := tc_sigma_floor cfg\<rparr> = n \<longleftrightarrow> ta_sigma_floor args = None \<or> ta_sigma_floor args = Some (tc_sigma_floor cfg)))"
  using trained_mixture_loaded [OF assms] by blast

theorem mixture_is_loaded_with_other_floor_witness:
  "\<exists>n0 st ck n. main_train still_step (mdn_loss_at (\<lambda>_. 0) n0) (\<lambda>_. [0]) demo_mdn_args demo_cfg
      (BidDataset [demo_out 1 [] 5]) (BidDataset [demo_out 2 [] 7]) (params_of n0) () = Inr st \<and> ts_ckpt st = Some ck \<and>
    load_warm_start demo_init demo_arch (ck_config ck) (saved_state n0 (ck_full ck)) = Inl TypeError \<and>
    load_model demo_init demo_arch (ck_config ck) (saved_state n0 (ck_full ck)) = Inr (Inl (n\<lparr>net_sigma_floor := 1/20\<rparr>)) \<and>
    n\<lparr>net_sigma_floor := 1/20\<rparr> \<noteq> n \<and>
    the (evaluate_loss (mdn_batch_loss (\<lambda>_. 0) n) (BidDataset [demo_out 2 [] 7]) 2) = Inr (ck_val_loss ck)"
proof -
  have c: "parse_hidden demo_mdn_args demo_cfg = Inr [512]" "ta_is_mdn demo_mdn_args" "ta_epochs demo_mdn_args = Some 1"
    "ta_batch_size demo_mdn_args = Some 1" "6 = arg_or (ta_K demo_mdn_args) (tc_n_components demo_cfg)" "ta_sigma_floor demo_mdn_args = Some (1/10)"
    "1/10 = used_sigma_floor demo_mdn_args demo_cfg" "tc_sigma_floor demo_cfg = 1/20"
    "arg_or (ta_batch_size demo_mdn_args) (tc_batch_size demo_cfg) * 2 = 2"
    by (simp_all add: demo_mdn_args_def parse_hidden_def demo_args_def demo_cfg_def arg_or_def used_sigma_floor_def)
  obtain n0 :: mdn_net and st ck where run: "shaped demo_arch [512] (3 * net_K n0) n0" "net_K n0 = 6" "net_sigma_floor n0 = 1/10"
    "main_train still_step (mdn_loss_at (\<lambda>_. 0) n0) (\<lambda>_. [0]) demo_mdn_args demo_cfg
      (BidDataset [demo_out 1 [] 5]) (BidDataset [demo_out 2 [] 7]) (params_of n0) () = Inr st" "ts_ckpt st = Some ck"
    using demo_mdn_run [OF c(3,4,1), of "1/10"] by blast
  obtain n where "load_warm_start demo_init demo_arch (ck_config ck) (saved_state n0 (ck_full ck)) = Inl TypeError"
    "load_model demo_init demo_arch (ck_config ck) (saved_state n0 (ck_full ck)) = Inr (Inl (n\<lparr>net_sigma_floor := 1/20\<rparr>))"
    "n\<lparr>net_sigma_floor := 1/20\<rparr> \<noteq> n" "the (evaluate_loss (mdn_batch_loss (\<lambda>_. 0) n) (BidDataset [demo_out 2 [] 7]) 2) = Inr (ck_val_loss ck)"
    using mixture_is_loaded_with_other_floor [OF demo_buildable still_keeps c(2,1) run(1) run(2) [unfolded c(5)] run(3) [unfolded c(7)] run(4,5),
        of "saved_state n0 (ck_full ck)" "\<lambda>_. 0" 0] c(6,8,9)
    by auto
  with run(4,5) show ?thesis by (intro exI [of _ n0] exI [of _ st] exI [of _ ck] exI [of _ n] conjI)
qed

section \<open>Loading that skips what it does not find\<close>

lemma load_unknown:
  "name \<notin> fst ` set sd \<Longrightarrow> load_mat sd name m = Inr m" "name \<notin> fst ` set sd \<Longrightarrow> load_vec sd name v = Inr v"
  by (simp_all add: load_mat_def load_vec_def map_of_eq_None_iff [THEN iffD2] flip: map_of_eq_None_iff)

lemma load_linear_unknown: "fst ` set (linear_state pre l) \<inter> fst ` set sd = {} \<Longrightarrow> load_linear sd pre l = Inr l"
  by (cases l) (simp add: linear_state_def load_linear_def load_unknown)

lemma load_layers_unknown: "fst ` set (layers_state k ls) \<inter> fst ` set sd = {} \<Longrightarrow> load_layers sd k ls = Inr ls"
proof (induction ls arbitrary: k)
  case (Cons l ls)
  have "fst ` set (linear_state (net_name k) (fc l)) \<inter> fst ` set sd = {}" "fst ` set (layers_state (k + 4) ls) \<inter> fst ` set sd = {}"
    "net_name (k + 1) @ ''.weight'' \<notin> fst ` set sd" "net_name (k + 1) @ ''.bias'' \<notin> fst ` set sd"
    using Cons.prems by auto
  then show ?case using Cons.IH [of "k + 4"] load_linear_unknown [of "net_name k" "fc l" sd]
    by (cases l) (simp add: load_unknown)
qed simp

text \<open>
  None of the loaders notices a checkpoint of other names: tensors whose names the network does not
  have are skipped, and with none of its names in the dictionary the network stays as it was freshly
  initialised.
\<close>

theorem foreign_checkpoint_is_ignored:
  assumes "fst ` set (net_state n) \<inter> fst ` set sd = {}"
  shows "load_net sd n = Inr n"
proof -
  have sub: "fst ` set (emb_state (net_emb n)) \<inter> fst ` set sd = {}" "fst ` set (layers_state 0 (bb_layers (net_backbone n))) \<inter> fst ` set sd = {}"
    "fst ` set (linear_state ''head'' (net_head n)) \<inter> fst ` set sd = {}"
    using assms by (auto simp: net_state_def)
  have "set (map fst (emb_state (net_emb n))) \<inter> fst ` set sd = {}" using sub(1) by simp
  then have names: "''emb.tag_emb.weight'' \<notin> fst ` set sd" "\<forall>j < length (embs (net_emb n)). emb_name j \<notin> fst ` set sd"
    unfolding emb_names by (simp_all add: disjoint_iff)
  have "res_map (\<lambda>(i, t). load_mat sd (emb_name i) t) (enumerate 0 (embs (net_emb n))) = Inr (map snd (enumerate 0 (embs (net_emb n))))"
    using names(2) by (intro res_map_total) (auto simp: in_set_enumerate_eq load_unknown)
  then have "load_emb sd (net_emb n) = Inr (net_emb n)"
    using names(1) by (simp add: load_emb_def load_unknown)
  then show ?thesis
    using load_layers_unknown [OF sub(2)] load_linear_unknown [OF sub(3)] by (simp add: load_net_def)
qed

theorem foreign_checkpoint_is_ignored_witness:
  "\<exists>n. new_bins demo_init demo_arch (ckpt_config demo_bins_args demo_cfg [512]) = Inr n \<and>
    load_net (map (\<lambda>(name, t). (''module.'' @ name, t)) (net_state n)) n = Inr n"
proof -
  have "c_num_bins (ckpt_config demo_bins_args demo_cfg [512]) = Some 200"
    by (simp add: demo_bins_args_def ckpt_config_def demo_args_def demo_cfg_def arg_or_def)
  then obtain n where n: "new_bins demo_init demo_arch (ckpt_config demo_bins_args demo_cfg [512]) = Inr n"
    using new_bins_shaped [OF demo_buildable] by blast
  have "hd x \<noteq> CHR ''m''" if "x \<in> fst ` set (net_state n)" for x
    using net_names_hd [OF that] by auto
  then have "fst ` set (net_state n) \<inter> fst ` set (map (\<lambda>(name, t). (''module.'' @ name, t)) (net_state n)) = {}"
    by fastforce
  from foreign_checkpoint_is_ignored [OF this] n show ?thesis by blast
qed

end
