(* ===== verification/Pipeline.thy ===== *)
theory Pipeline
  imports Checkpoint Evaluate
begin

text \<open>
  \<open>evaluate.py\<close> as a whole on a checkpoint, and what it reports of a network that \<open>train.py\<close> has written:
  loading keeps the shapes of a network, training keeps the shapes of its parameters, and on the
  validation frame the two scripts measure the same likelihood.
\<close>

section \<open>Loading keeps the shapes\<close>

text \<open>A tensor has as many entries as its shape says.\<close>

definition state_ok :: "state \<Rightarrow> bool" where
  "state_ok sd \<longleftrightarrow> (\<forall>(name, sh, xs) \<in> set sd. length xs = prod_list sh)"

lemma state_ok_get: "state_ok sd \<Longrightarrow> map_of sd name = Some (sh, xs) \<Longrightarrow> length xs = prod_list sh"
  by (auto simp: state_ok_def dest!: map_of_SomeD)

lemma unflat_matrix: "length xs = r * c \<Longrightarrow> matrix r c (unflat r c xs)"
proof -
  assume len: "length xs = r * c"
  have "min (r * c - i * c) c = c" if "i < r" for i
  proof -
    have "i * c + c \<le> r * c" using that mult_le_mono1 [of "Suc i" r c] by simp
    then show ?thesis by simp
  qed
  then show ?thesis by (auto simp: matrix_def unflat_def list_all_iff len)
qed

lemma load_mat_shape: "state_ok sd \<Longrightarrow> matrix r c m \<Longrightarrow> load_mat sd name m = Inr m' \<Longrightarrow> matrix r c m'"
  using state_ok_get [of sd name] unflat_matrix [of _ r c] matrix_cols [of r c m]
  by (cases "r = 0") (auto simp: load_mat_def matrix_def unflat_def split: option.splits if_splits)

lemma load_vec_shape: "state_ok sd \<Longrightarrow> load_vec sd name v = Inr v' \<Longrightarrow> length v' = length v"
  using state_ok_get [of sd name] by (auto simp: load_vec_def split: option.splits if_splits)

lemma load_linear_shape: "state_ok sd \<Longrightarrow> linear_shape a b l \<Longrightarrow> load_linear sd pre l = Inr l' \<Longrightarrow> linear_shape a b l'"
  using load_mat_shape load_vec_shape by (fastforce simp: load_linear_def linear_shape_def res_bind_Inr_iff)

lemma load_layers_shape:
  "state_ok sd \<Longrightarrow> layers_shape p ls out \<Longrightarrow> load_layers sd k ls = Inr ls' \<Longrightarrow>
    layers_shape p ls' out \<and> map layer_width ls' = map layer_width ls"
proof (induction ls arbitrary: p k ls')
  case (Cons l ls)
  obtain f g b ls2 where l: "load_linear sd (net_name k) (fc l) = Inr f"
    "load_vec sd (net_name (k + 1) @ ''.weight'') (ln_gamma l) = Inr g" "load_vec sd (net_name (k + 1) @ ''.bias'') (ln_beta l) = Inr b"
    "load_layers sd (k + 4) ls = Inr ls2" "ls' = \<lparr>fc = f, ln_gamma = g, ln_beta = b\<rparr> # ls2"
    using Cons.prems(3) by (auto simp: res_bind_Inr_iff)
  let ?h = "length (lin_b (fc l))"
  have s: "linear_shape p ?h (fc l)" "length (ln_gamma l) = ?h" "length (ln_beta l) = ?h" "layers_shape ?h ls out"
    using Cons.prems(2) by (simp_all add: Let_def)
  have f: "linear_shape p ?h f" by (rule load_linear_shape [OF Cons.prems(1) s(1) l(1)])
  then have "length (lin_b f) = ?h" by (simp add: linear_shape_def)
  then show ?case
    using f s(2,3) load_vec_shape [OF Cons.prems(1) l(2)] load_vec_shape [OF Cons.prems(1) l(3)] Cons.IH [OF Cons.prems(1) s(4) l(4)]
    by (simp add: l(5) layer_width_def Let_def)
qed simp

lemma load_embs_shape:
  assumes "state_ok sd"
  shows "list_all2 (\<lambda>(name, sz) t. matrix sz (the (dims name)) t) vs ts \<Longrightarrow>
    res_map (\<lambda>(i, t). load_mat sd (emb_name i) t) (enumerate i ts) = Inr ts' \<Longrightarrow>
    list_all2 (\<lambda>(name, sz) t. matrix sz (the (dims name)) t) vs ts'"
proof (induction vs ts arbitrary: i ts' rule: list_all2_induct)
  case (Cons v vs t ts)
  obtain name sz where v: "v = (name, sz)" by (cases v)
  obtain t' ts2 where t: "load_mat sd (emb_name i) t = Inr t'" "ts' = t' # ts2"
    "res_map (\<lambda>(i, t). load_mat sd (emb_name i) t) (enumerate (Suc i) ts) = Inr ts2"
    using Cons.prems by (auto split: sum.splits)
  then show ?case using Cons.IH [OF t(3)] Cons.hyps load_mat_shape [OF assms _ t(1), of sz "the (dims name)"] by (simp add: v)
qed simp

lemma load_net_shaped:
  assumes "state_ok sd" and "shaped a hidden n_out n" and "load_net sd n = Inr m"
  shows "shaped a hidden n_out m \<and> network.more m = network.more n"
proof -
  obtain e ls h where p: "load_emb sd (net_emb n) = Inr e" "load_layers sd 0 (bb_layers (net_backbone n)) = Inr ls"
    "load_linear sd ''head'' (net_head n) = Inr h"
    "m = n\<lparr>net_emb := e, net_backbone := (net_backbone n)\<lparr>bb_layers := ls\<rparr>, net_head := h\<rparr>"
    using assms(3) by (auto simp: load_net_def res_bind_Inr_iff)
  obtain ts tag where e: "res_map (\<lambda>(i, t). load_mat sd (emb_name i) t) (enumerate 0 (embs (net_emb n))) = Inr ts"
    "load_mat sd ''emb.tag_emb.weight'' (tag_emb (net_emb n)) = Inr tag" "e = (net_emb n)\<lparr>embs := ts, tag_emb := tag\<rparr>"
    using p(1) by (auto simp: load_emb_def res_bind_Inr_iff)
  have s: "emb_shape (a_vocab_sizes a) (a_emb_dims a) (a_tag_vocab_size a) (a_tag_emb_dim a) (net_emb n)"
    "layers_shape (emb_out_dim (net_emb n) + a_num_continuous a) (bb_layers (net_backbone n)) (bb_out_dim (net_backbone n))"
    "linear_shape (bb_out_dim (net_backbone n)) n_out (net_head n)" "map layer_width (bb_layers (net_backbone n)) = hidden"
    using assms(2) by (simp_all add: shaped_def net_shape_def)
  have "emb_shape (a_vocab_sizes a) (a_emb_dims a) (a_tag_vocab_size a) (a_tag_emb_dim a) e"
    using s(1) load_embs_shape [OF assms(1) _ e(1), of "a_emb_dims a" "a_vocab_sizes a"] load_mat_shape [OF assms(1) _ e(2)]
    by (auto simp: e(3) emb_shape_def)
  moreover have "emb_out_dim e = emb_out_dim (net_emb n)" by (simp add: e(3))
  ultimately show ?thesis
    using load_layers_shape [OF assms(1) s(2) p(2)] load_linear_shape [OF assms(1) s(3) p(3)] s(4)
    by (simp add: p(4) shaped_def net_shape_def)
qed

section \<open>Training keeps the shapes\<close>

lemma train_batches_fits:
  assumes "keeps_shape train_step" and "distinct (map fst m0)"
  shows "same_shape (ts_w st) m0 \<Longrightarrow> shadow_fits (ts_ema st) m0 \<Longrightarrow> train_batches train_step rc bs st r n = Inr (st', r', n') \<Longrightarrow>
    shadow_fits (ts_ema st') m0"
proof (induction bs arbitrary: st r n)
  case (Cons b bs)
  obtain w opt loss where step: "train_step (cosine_lr (ts_step st) (rc_warmup rc) (rc_total_steps rc) (rc_base_lr rc) (5/100)) b
      (ts_w st) (ts_opt st) = Inr (w, opt, loss)"
    using Cons.prems(3) by (auto simp: Let_def res_bind_Inr_iff)
  have "same_shape w (ts_w st)" using assms(1) step unfolding keeps_shape_def by blast
  then have w: "same_shape w m0" using Cons.prems(1) by (rule same_shape_trans)
  have d: "distinct (map fst w)" using same_shape_names [OF w] assms(2) by simp
  obtain sh where sh: "ema_update (rc_ema_decay rc) w (ts_ema st) = Inr sh" "shadow_fits sh w"
    using ema_update_fits [OF shadow_fits_same [OF Cons.prems(2) w] d] by blast
  have "shadow_fits sh m0" by (rule shadow_fits_same [OF sh(2) same_shape_sym [OF w]])
  then show ?case
    using Cons.IH [of "st\<lparr>ts_w := w, ts_opt := opt, ts_ema := sh, ts_step := ts_step st + 1\<rparr>"] Cons.prems(3) step sh(1) w
    by (fastforce simp: Let_def)
qed simp

definition ckpt_shape :: "params \<Rightarrow> 's train_state \<Rightarrow> bool" where
  "ckpt_shape m0 st \<longleftrightarrow> (\<forall>ck. ts_ckpt st = Some ck \<longrightarrow> same_shape (ck_full ck) m0)"

lemma train_epoch_shape:
  assumes "keeps_shape train_step" and "distinct (map fst m0)" and "st_shape m0 st" and "shadow_fits (ts_ema st) m0" and "ckpt_shape m0 st"
    and "train_epoch train_step val rc bs st = Inr (st', stop)"
  shows "st_shape m0 st' \<and> shadow_fits (ts_ema st') m0 \<and> ckpt_shape m0 st'"
proof -
  obtain st1 r k where b: "train_batches train_step rc bs st 0 0 = Inr (st1, r, k)" "finish_epoch val rc st1 = Inr (st', stop)"
    using assms(6) by (auto simp: train_epoch_def res_bind_Inr_iff split: if_splits)
  have s: "st_shape m0 st1" "ts_ckpt st1 = ts_ckpt st"
    using train_batches_keeps [OF assms(1-3) b(1)] by auto
  have w: "same_shape (ts_w st1) m0" "same_shape (ts_w st) m0" using s(1) assms(3) by (simp_all add: st_shape_def)
  have e: "shadow_fits (ts_ema st1) m0" by (rule train_batches_fits [OF assms(1,2) w(2) assms(4) b(1)])
  have c: "covers (ts_ema st1) (ts_w st1)" by (rule st_shape_covers [OF assms(2) s(1)])
  have "distinct (map fst (ts_w st1))" using c by (simp add: covers_def)
  from same_shape_trans [OF with_data_shape [OF shadow_fits_same [OF e w(1)] this] w(1)]
  have "same_shape (with_data (ts_ema st1) (ts_w st1)) m0" .
  then have "ckpt_shape m0 st'"
    using finish_epoch_facts [OF c b(2)] assms(5) w(1) s(2) by (auto simp: ckpt_shape_def split: if_splits)
  then show ?thesis
    using finish_epoch_facts [OF c b(2)] s(1) e by (simp add: st_shape_def)
qed

lemma train_epochs_shape:
  assumes "keeps_shape train_step" and "distinct (map fst m0)"
  shows "st_shape m0 st \<Longrightarrow> shadow_fits (ts_ema st) m0 \<Longrightarrow> ckpt_shape m0 st \<Longrightarrow>
    train_epochs train_step val rc bss st = Inr st' \<Longrightarrow> ckpt_shape m0 st'"
proof (induction bss arbitrary: st)
  case (Cons bs bss)
  obtain st1 stop where e: "train_epoch train_step val rc bs st = Inr (st1, stop)"
    "(if stop then Inr st1 else train_epochs train_step val rc bss st1) = Inr st'"
    using Cons.prems(4) by (auto simp: res_bind_Inr_iff)
  show ?case
    using train_epoch_shape [OF assms Cons.prems(1-3) e(1)] Cons.IH e(2) by (cases stop) auto
qed simp

lemma main_train_shape:
  assumes "keeps_shape train_step" and "distinct (map fst model)"
    and "main_train train_step loss_of perms args cfg train_ds val_ds model opt0 = Inr st" and "ts_ckpt st = Some ck"
  shows "same_shape (ck_full ck) model"
proof -
  obtain hidden k where h: "parse_hidden args cfg = Inr hidden" "num_batches train_ds (arg_or (ta_batch_size args) (tc_batch_size cfg)) True = Inr k"
    using assms(3) by (auto simp: main_train_def res_bind_Inr_iff Let_def)
  note run = assms(3) [unfolded main_train_def h res_bind.simps Let_def]
  note inv = train_epochs_shape [OF assms(1,2) _ _ _ run]
  show ?thesis
    using inv assms(4) shadow_fits_snapshot [OF assms(2)] by (simp add: st_shape_def same_shape_def ckpt_shape_def)
qed

text \<open>The saved dictionary of a run is one of whole tensors.\<close>

lemma state_ok_append [simp]: "state_ok (a @ b) \<longleftrightarrow> state_ok a \<and> state_ok b"
  by (simp add: state_ok_def ball_Un)

lemma state_ok_Cons [simp]: "state_ok ((name, sh, xs) # b) \<longleftrightarrow> length xs = prod_list sh \<and> state_ok b"
  by (simp add: state_ok_def)

lemma length_concat_rect: "rect m \<Longrightarrow> length (concat m) = length m * cols m"
proof -
  have "list_all (\<lambda>r. length r = c) m \<Longrightarrow> length (concat m) = length m * c" for c
    by (induction m) auto
  then show "rect m \<Longrightarrow> ?thesis" by (simp add: rect_def)
qed

lemma linear_state_ok: "rect (lin_w l) \<Longrightarrow> state_ok (linear_state pre l)"
  by (simp add: linear_state_def mat_tensor_def vec_tensor_def length_concat_rect) (simp add: state_ok_def)

lemma layers_state_ok: "list_all (\<lambda>l. rect (lin_w (fc l))) ls \<Longrightarrow> state_ok (layers_state k ls)"
  by (induction ls arbitrary: k) (simp_all add: linear_state_ok vec_tensor_def, simp add: state_ok_def)

lemma net_state_ok: "rect_net n \<Longrightarrow> state_ok (net_state n)"
proof -
  assume r: "rect_net n"
  then have "state_ok (map (\<lambda>(i, t). (emb_name i, mat_tensor t)) (enumerate 0 (embs (net_emb n))))"
    by (auto simp: state_ok_def mat_tensor_def rect_net_def list_all_iff in_set_enumerate_eq length_concat_rect)
  then have "state_ok (emb_state (net_emb n))"
    using r by (simp add: emb_state_def mat_tensor_def rect_net_def length_concat_rect) (simp add: state_ok_def)
  then show ?thesis
    using r layers_state_ok linear_state_ok by (simp add: net_state_def rect_net_def)
qed

lemma saved_state_ok:
  assumes "rect_net n0" and "same_shape w (params_of n0)"
  shows "state_ok (saved_state n0 w)"
proof -
  have len: "length w = length (net_state n0)"
    using assms(2) params_names [of n0] same_shape_names [OF assms(2)] by (metis length_map)
  have "length (p_data (snd (w ! i))) = length (snd (snd (net_state n0 ! i)))" if "i < length w" for i
    using assms(2) [unfolded same_shape_def, THEN arg_cong, of "\<lambda>xs. snd (snd (xs ! i))"] that len
    by (simp add: params_of_def split_def)
  moreover have "length (snd (snd (net_state n0 ! i))) = prod_list (fst (snd (net_state n0 ! i)))" if "i < length (net_state n0)" for i
    using net_state_ok [OF assms(1)] nth_mem [OF that] by (auto simp: state_ok_def split_def)
  ultimately show ?thesis
    using len by (simp add: state_ok_def saved_state_def set_zip split_def) (metis fst_conv snd_conv)
qed

section \<open>The evaluation script\<close>

text \<open>
  \<open>main\<close> of \<open>evaluate.py\<close> on one split: the metrics, and the predictions saved with \<open>--save_preds\<close>. The test
  frame brings clicks and conversions along.
\<close>

datatype heads = MdnHeads "mdn_row list" | BinsHeads "real list list"

record light =
  li_log_pp :: "real list"
  li_pp :: "real list"
  li_bid :: "real list"
  li_log_prob :: "real list"
  li_pit :: "real list"
  li_adv :: "string list"
  li_heads :: heads
  li_extras :: "(int \<times> int) option list option"

definition light_of :: "bool \<Rightarrow> bid_dataset \<Rightarrow> 'h preds \<Rightarrow> real list \<Rightarrow> heads \<Rightarrow> light" where
  "light_of is_test ds preds pit heads =
     \<lparr>li_log_pp = pr_log_pp preds, li_pp = pr_pp preds, li_bid = pr_bid preds, li_log_prob = pr_log_prob preds, li_pit = pit,
      li_adv = ds_adv ds, li_heads = heads, li_extras = (if is_test then Some (ds_extras ds) else None)\<rparr>"

definition evaluate_main :: "(real \<Rightarrow> real) \<Rightarrow> init \<Rightarrow> 'f arch \<Rightarrow> net_config \<Rightarrow> state \<Rightarrow> bid_dataset \<Rightarrow> bool \<Rightarrow> bool \<Rightarrow> real list
    \<Rightarrow> (eval_result \<times> light option) res option" where
  "evaluate_main erf init a cfg sd ds is_test save_preds pcts =
     (case load_model init a cfg sd of
        Inl e \<Rightarrow> Some (Inl e)
      | Inr (Inl n) \<Rightarrow>
          map_option (\<lambda>r. res_bind r (\<lambda>preds. res_bind (eval_mdn erf preds (ds_adv ds) pcts) (\<lambda>ev.
            Inr (ev, if save_preds then Some (light_of is_test ds preds (compute_pit_mdn erf preds) (MdnHeads (pr_head preds))) else None))))
          (collect_predictions (mdn_batch_out erf n) ds 8192)
      | Inr (Inr n) \<Rightarrow>
          map_option (\<lambda>r. res_bind r (\<lambda>preds. res_bind (eval_bins (the (c_num_bins cfg)) preds (ds_adv ds) pcts) (\<lambda>ev.
            Inr (ev, if save_preds then Some (light_of is_test ds preds (compute_pit_bins preds) (BinsHeads (pr_head preds))) else None))))
          (collect_predictions (bins_batch_out erf n (the (c_num_bins cfg))) ds 8192))"

lemma mean_mono: "(\<And>x. x \<in> set xs \<Longrightarrow> f x \<le> g x) \<Longrightarrow> mean (map f xs) \<le> mean (map g xs)"
  by (simp add: mean_def divide_right_mono sum_list_mono)

lemma nth_rows: "map (\<lambda>i. f (df ! i)) [0..<length df] = map f df"
  by (rule nth_equalityI) simp_all

lemma mean_of_uminus: "mean (map (\<lambda>x. - f x) xs) = - mean (map f xs)" for f :: "'a \<Rightarrow> real"
  by (rule mean_uminus [symmetric])

text \<open>The predictions of a network over a frame that fits it.\<close>

lemma collect_bins:
  assumes "df \<noteq> []" and "\<forall>r \<in> set df. row_fits vs tv r" and "net_shape vs dims tv td 9 nb n"
  shows "collect_predictions (bins_batch_out erf n nb) (BidDataset df) 8192 =
    Some (Inr \<lparr>pr_head = map (\<lambda>r. softmax (logits_of erf n r)) df,
      pr_log_prob = map (\<lambda>r. true_bin_log_prob (softmax (logits_of erf n r)) (price_bin nb (o_payprice r))) df,
      pr_log_pp = map o_log_payprice df, pr_pp = map o_payprice df, pr_bid = map o_bidding_price df\<rparr>)"
  using collect_rows [OF _ assms(1) bins_batch_out_rows [OF assms(3,2)], of 8192 erf]
    nth_rows [of "\<lambda>r. softmax (logits_of erf n r)" df]
    nth_rows [of "\<lambda>r. true_bin_log_prob (softmax (logits_of erf n r)) (price_bin nb (o_payprice r))" df]
  by simp

lemma collect_mdn:
  assumes "df \<noteq> []" and "\<forall>r \<in> set df. row_fits vs tv r" and "net_shape vs dims tv td 9 (3 * net_K n) n"
  shows "collect_predictions (mdn_batch_out erf n) (BidDataset df) 8192 =
    Some (Inr \<lparr>pr_head = map (mdn_row_of erf n) df,
      pr_log_prob = map (\<lambda>r. mdn_log_prob_row (mdn_row_of erf n r) (o_log_payprice r)) df,
      pr_log_pp = map o_log_payprice df, pr_pp = map o_payprice df, pr_bid = map o_bidding_price df\<rparr>)"
proof -
  have "mdn_batch_out erf n (make_batch (BidDataset df) idx) = Inr (map (\<lambda>i. mdn_row_of erf n (df ! i)) idx,
      map (\<lambda>i. mdn_log_prob_row (mdn_row_of erf n (df ! i)) (o_log_payprice (df ! i))) idx)" if "set idx \<subseteq> {..<length df}" for idx
    by (simp add: mdn_batch_out_def mdn_rows_eq [OF assms(3,2) that] batch_cols [OF that] mdn_log_prob_def map2_map_map)
  from collect_rows [OF _ assms(1) this, of 8192] show ?thesis
    using nth_rows [of "mdn_row_of erf n" df] nth_rows [of "\<lambda>r. mdn_log_prob_row (mdn_row_of erf n r) (o_log_payprice r)" df]
    by simp
qed

lemma logits_length:
  assumes "net_shape vs dims tv td 9 nb n" and "\<forall>r \<in> set df. row_fits vs tv r" and "r \<in> set df"
  shows "length (logits_of erf n r) = nb"
proof -
  obtain i where "i < length df" "df ! i = r" using assms(3) by (auto simp: in_set_conv_nth)
  then show ?thesis using bins_rows_eq(2) [OF assms(1,2), of "[i]" i erf] by simp
qed

text \<open>The evaluation cannot fail on a nonempty frame.\<close>

lemma ks_total: "pit \<noteq> [] \<Longrightarrow> \<exists>ks. ks_statistic pit = Inr ks"
  by (simp add: ks_statistic_def Let_def)

lemma eval_bins_total:
  assumes "preds_ok preds" and "0 < nb"
  shows "\<exists>ev. eval_bins nb preds adv pcts = Inr ev \<and> ev_nll ev = - mean (pr_log_prob preds)"
proof -
  have "compute_pit_bins preds \<noteq> []" using assms(1) by (auto simp: compute_pit_bins_def preds_ok_def zip_eq_Nil_iff)
  then obtain ks where ks: "ks_statistic (compute_pit_bins preds) = Inr ks" using ks_total by blast
  obtain g h m k where "regret_metrics_bins_grid nb preds (VNumber 150) 8192 = Inr g" "regret_metrics_bins_grid nb preds VBidding 8192 = Inr h"
    "regret_bins_newton nb preds (VNumber 150) 8192 = Inr m" "regret_bins_newton nb preds VBidding 8192 = Inr k"
    using bins_regrets_ok [OF assms] by metis
  then show ?thesis by (simp add: eval_bins_def ks Let_def split_def)
qed

lemma mdn_regrets_ok:
  assumes "preds_ok preds"
  shows "\<exists>x. regret_metrics_mdn_grid erf preds v 500 300 8192 = Inr x"
    and "\<exists>x. regret_metrics_mdn_newton erf preds v 8192 300 = Inr x"
proof -
  note ne = preds_zip_nonempty [OF assms, of v]
  have b: "(0 :: nat) < 8192" and c: "(0 :: nat) < 500" by simp_all
  show "\<exists>x. regret_metrics_mdn_grid erf preds v 500 300 8192 = Inr x"
    by (simp add: regret_metrics_mdn_grid_def regret_of_def Let_def unchunked_mdn(1) [OF c b ne] grid_chunk_mdn_eq)
  show "\<exists>x. regret_metrics_mdn_newton erf preds v 8192 300 = Inr x"
    by (simp add: regret_metrics_mdn_newton_def regret_of_def Let_def unchunked_mdn(2) [OF c b ne] newton_chunk_mdn_eq)
qed

lemma eval_mdn_total:
  assumes "preds_ok preds" and "pr_log_pp preds \<noteq> []"
  shows "\<exists>ev. eval_mdn erf preds adv pcts = Inr ev \<and> ev_nll ev = - mean (pr_log_prob preds) \<and>
    ev_anlp ev = - mean (map2 (-) (pr_log_prob preds) (pr_log_pp preds))"
proof -
  have "compute_pit_mdn erf preds \<noteq> []" using assms by (auto simp: compute_pit_mdn_def preds_ok_def zip_eq_Nil_iff)
  then obtain ks where ks: "ks_statistic (compute_pit_mdn erf preds) = Inr ks" using ks_total by blast
  obtain g h m k where "regret_metrics_mdn_grid erf preds (VNumber 150) 500 300 8192 = Inr g"
    "regret_metrics_mdn_grid erf preds VBidding 500 300 8192 = Inr h"
    "regret_metrics_mdn_newton erf preds (VNumber 150) 8192 300 = Inr m" "regret_metrics_mdn_newton erf preds VBidding 8192 300 = Inr k"
    using mdn_regrets_ok [OF assms(1)] by metis
  then show ?thesis by (simp add: eval_mdn_def ks Let_def split_def)
qed

lemma log_softmax_bin:
  assumes "k < length xs"
  shows "ln (softmax xs ! k) = log_softmax xs ! k"
  using assms nth_map [of k "log_softmax xs" exp] by (simp flip: exp_log_softmax)

lemma true_bin_log_prob_ge:
  assumes "k < length xs"
  shows "- true_bin_log_prob (softmax xs) k \<le> - (log_softmax xs ! k)"
    and "1 / 10 ^ 30 \<le> softmax xs ! k \<Longrightarrow> true_bin_log_prob (softmax xs) k = log_softmax xs ! k"
proof -
  have "0 < softmax xs ! k" using assms sum_exp_pos [of xs] by (cases "xs = []") (simp_all add: nth_softmax)
  then have "ln (softmax xs ! k) \<le> true_bin_log_prob (softmax xs) k" by (simp add: true_bin_log_prob_def)
  then show "- true_bin_log_prob (softmax xs) k \<le> - (log_softmax xs ! k)" by (simp add: log_softmax_bin [OF assms])
  show "1 / 10 ^ 30 \<le> softmax xs ! k \<Longrightarrow> true_bin_log_prob (softmax xs) k = log_softmax xs ! k"
    by (simp add: true_bin_log_prob_def max_absorb1 log_softmax_bin [OF assms])
qed

text \<open>The parameters that a run has saved, loaded into the network it was started with, form a network of its shape.\<close>

lemma trained_shape:
  assumes "keeps_shape train_step" and "shaped a hidden n_out n0"
    and "main_train train_step loss_of perms args cfg train_ds val_ds (params_of n0) opt0 = Inr st" and "ts_ckpt st = Some ck"
    and "load_net (saved_state n0 (ck_full ck)) n0 = Inr n"
  shows "shaped a hidden n_out n \<and> network.more n = network.more n0"
proof -
  have d: "distinct (map fst (params_of n0))" unfolding params_names by (rule net_state_distinct)
  have "rect_net n0" using shaped_like [OF assms(2,2)] by simp
  then have "state_ok (saved_state n0 (ck_full ck))"
    using saved_state_ok main_train_shape [OF assms(1) d assms(3,4)] by blast
  then show ?thesis by (rule load_net_shaped [OF _ assms(2,5)])
qed

text \<open>
  C6: Training and evaluation measure the same thing on the validation frame. After any run on a bins
  network, \<open>evaluate.py --split val\<close>, which rebuilds the network from the checkpoint, succeeds; the likelihood
  it reports is never above the loss stored in the checkpoint, and equal to it unless some bin that
  occurred got a probability below 1e-30. The saved predictions are the distributions of that network.
\<close>

theorem evaluation_reports_training_loss:
  assumes "buildable init a" and "buildable init' a" and "keeps_shape train_step" and "\<not> ta_is_mdn args"
    and "parse_hidden args cfg = Inr hidden" and "new_bins init a (ckpt_config args cfg hidden) = Inr n0"
    and "nb = arg_or (ta_num_bins args) (tc_num_bins cfg)" and "0 < nb"
    and "a_num_continuous a = 9" and "df \<noteq> []" and "\<forall>r \<in> set df. row_fits (a_vocab_sizes a) (a_tag_vocab_size a) r"
    and "main_train train_step (bins_loss_at erf n0 nb) perms args cfg train_ds (BidDataset df) (params_of n0) opt0 = Inr st"
    and "ts_ckpt st = Some ck"
  shows "\<exists>ev l n. evaluate_main erf init' a (ck_config ck) (saved_state n0 (ck_full ck)) (BidDataset df) is_test True pcts = Some (Inr (ev, Some l)) \<and>
    load_model init' a (ck_config ck) (saved_state n0 (ck_full ck)) = Inr (Inr n) \<and>
    li_heads l = BinsHeads (map (\<lambda>r. softmax (logits_of erf n r)) df) \<and> li_adv l = map o_advertiser_id df \<and>
    ev_nll ev \<le> ck_val_loss ck \<and>
    ((\<forall>r \<in> set df. 1 / 10 ^ 30 \<le> softmax (logits_of erf n r) ! price_bin nb (o_payprice r)) \<longrightarrow> ev_nll ev = ck_val_loss ck)"
proof -
  let ?cfg = "ckpt_config args cfg hidden" and ?bs = "arg_or (ta_batch_size args) (tc_batch_size cfg)"
  let ?lp = "\<lambda>n r. true_bin_log_prob (softmax (logits_of erf n r)) (price_bin nb (o_payprice r))"
    and ?ls = "\<lambda>n r. log_softmax (logits_of erf n r) ! price_bin nb (o_payprice r)"
  have d: "distinct (map fst (params_of n0))" unfolding params_names by (rule net_state_distinct)
  have k: "0 < ?bs * 2" "ck_config ck = ?cfg"
    using main_train_ckpt [OF assms(3) d assms(12,13)] assms(5) by auto
  have c: "c_num_bins ?cfg = Some nb" "c_hidden ?cfg = hidden" using assms(4,7) by (simp_all add: ckpt_config_def)
  obtain n where n: "load_net (saved_state n0 (ck_full ck)) n0 = Inr n"
    "load_model init' a (ck_config ck) (saved_state n0 (ck_full ck)) = Inr (Inr n)"
    "the (evaluate_loss (bins_batch_loss erf n nb) (BidDataset df) (?bs * 2)) = Inr (ck_val_loss ck)"
    using trained_bins_loaded [OF assms(1-6,12,13)] by blast
  have "shaped a hidden nb n0" using new_bins_shaped [OF assms(1) c(1)] assms(6) c(2) by auto
  from trained_shape [OF assms(3) this assms(12,13) n(1)]
  have s: "net_shape (a_vocab_sizes a) (a_emb_dims a) (a_tag_vocab_size a) (a_tag_emb_dim a) 9 nb n"
    using assms(9) by (simp add: shaped_def)
  have loss: "ck_val_loss ck = mean (map (\<lambda>r. - ?ls n r) df)"
    using n(3) evaluate_loss_mean [OF k(1) assms(10) bins_batch_loss_mean [OF s assms(11,8)], of erf] nth_rows [of "\<lambda>r. - ?ls n r" df]
    by simp
  note col = collect_bins [OF assms(10,11) s, of erf]
  let ?p = "\<lparr>pr_head = map (\<lambda>r. softmax (logits_of erf n r)) df, pr_log_prob = map (?lp n) df, pr_log_pp = map o_log_payprice df,
      pr_pp = map o_payprice df, pr_bid = map o_bidding_price df\<rparr>"
  obtain ev where ev: "eval_bins nb ?p (ds_adv (BidDataset df)) pcts = Inr ev" "ev_nll ev = - mean (map (?lp n) df)"
    using eval_bins_total [of ?p nb "ds_adv (BidDataset df)" pcts] assms(8,10) by (auto simp: preds_ok_def)
  have bin: "price_bin nb (o_payprice r) < length (logits_of erf n r)" if "r \<in> set df" for r
    using logits_length [OF s assms(11) that] price_bin_less [OF assms(8)] by simp
  have "mean (map (\<lambda>r. - ?lp n r) df) \<le> mean (map (\<lambda>r. - ?ls n r) df)"
    by (intro mean_mono true_bin_log_prob_ge(1) bin)
  then have "ev_nll ev \<le> ck_val_loss ck" by (simp add: ev(2) loss mean_of_uminus)
  moreover have "ev_nll ev = ck_val_loss ck"
    if "\<forall>r \<in> set df. 1 / 10 ^ 30 \<le> softmax (logits_of erf n r) ! price_bin nb (o_payprice r)"
  proof -
    have eq: "map (?lp n) df = map (?ls n) df" using that bin true_bin_log_prob_ge(2) by simp
    show ?thesis by (simp only: ev(2) loss mean_of_uminus eq)
  qed
  ultimately show ?thesis
    using col ev(1) n(2) c(1) by (simp add: evaluate_main_def k(2) light_of_def BidDataset_def)
qed

theorem evaluation_reports_training_loss_witness:
  "\<exists>n0 st ck ev l. main_train still_step (bins_loss_at (\<lambda>_. 0) n0 200) (\<lambda>_. [0]) demo_bins_args demo_cfg
      (BidDataset [demo_out 1 [] 5]) (BidDataset [demo_out 2 [] 7]) (params_of n0) () = Inr st \<and> ts_ckpt st = Some ck \<and>
    evaluate_main (\<lambda>_. 0) demo_init demo_arch (ck_config ck) (saved_state n0 (ck_full ck)) (BidDataset [demo_out 2 [] 7]) True True [5, 50] =
      Some (Inr (ev, Some l)) \<and> ev_nll ev \<le> ck_val_loss ck"
proof -
  obtain n0 st ck where run: "new_bins demo_init demo_arch (ckpt_config demo_bins_args demo_cfg [512]) = Inr n0"
    "main_train still_step (bins_loss_at (\<lambda>_. 0) n0 200) (\<lambda>_. [0]) demo_bins_args demo_cfg
      (BidDataset [demo_out 1 [] 5]) (BidDataset [demo_out 2 [] 7]) (params_of n0) () = Inr st" "ts_ckpt st = Some ck"
    using demo_bins_run by blast
  have a: "a_vocab_sizes demo_arch = [(City, 3)]" "a_tag_vocab_size demo_arch = 5" "a_num_continuous demo_arch = 9"
    by (simp_all add: demo_arch_def)
  have rows: "\<forall>r \<in> set [demo_out 2 [] 7]. row_fits (a_vocab_sizes demo_arch) (a_tag_vocab_size demo_arch) r"
    using demo_fits by (simp add: a)
  have "(0 :: nat) < 200" "[demo_out 2 [] 7] \<noteq> []" by simp_all
  from evaluation_reports_training_loss [OF demo_buildable demo_buildable still_keeps demo_bins_facts(2,1) run(1) demo_bins_facts(3) this(1)
      a(3) this(2) rows run(2,3), of True "[5, 50]"] run(2,3)
  show ?thesis by blast
qed

text \<open>
  C37: Likewise for a mixture network whose floor of the deviations was not overridden: \<open>evaluate.py\<close> reports
  exactly the loss stored in the checkpoint, and as negative log likelihood of the price itself (\<open>anlp\<close>) this
  loss plus the mean log price.
\<close>

theorem mixture_evaluation_reports_training_loss:
  assumes "buildable init' a" and "keeps_shape train_step" and "ta_is_mdn args"
    and "parse_hidden args cfg = Inr hidden" and "shaped a hidden (3 * net_K n0) n0"
    and "net_K n0 = arg_or (ta_K args) (tc_n_components cfg)" and "net_sigma_floor n0 = used_sigma_floor args cfg"
    and "ta_sigma_floor args = None \<or> ta_sigma_floor args = Some (tc_sigma_floor cfg)"
    and "a_num_continuous a = 9" and "df \<noteq> []" and "\<forall>r \<in> set df. row_fits (a_vocab_sizes a) (a_tag_vocab_size a) r"
    and "main_train train_step (mdn_loss_at erf n0) perms args cfg train_ds (BidDataset df) (params_of n0) opt0 = Inr st"
    and "ts_ckpt st = Some ck"
  shows "\<exists>ev l. evaluate_main erf init' a (ck_config ck) (saved_state n0 (ck_full ck)) (BidDataset df) is_test save pcts = Some (Inr (ev, l)) \<and>
    ev_nll ev = ck_val_loss ck \<and> ev_anlp ev = ck_val_loss ck + mean (map o_log_payprice df)"
proof -
  let ?bs = "arg_or (ta_batch_size args) (tc_batch_size cfg)" and ?lp = "\<lambda>n r. mdn_log_prob_row (mdn_row_of erf n r) (o_log_payprice r)"
  have d: "distinct (map fst (params_of n0))" unfolding params_names by (rule net_state_distinct)
  have k: "0 < ?bs * 2" using main_train_ckpt [OF assms(2) d assms(12,13)] by simp
  obtain n where n: "load_net (saved_state n0 (ck_full ck)) n0 = Inr n"
    "load_model init' a (ck_config ck) (saved_state n0 (ck_full ck)) = Inr (Inl n)"
    "the (evaluate_loss (mdn_batch_loss erf n) (BidDataset df) (?bs * 2)) = Inr (ck_val_loss ck)"
    using trained_mixture_loaded [OF assms(1-7,12,13)] assms(8) by metis
  note t = trained_shape [OF assms(2,5,12,13) n(1)]
  then have "net_K n = net_K n0" by (cases n; cases n0) simp
  then have s: "net_shape (a_vocab_sizes a) (a_emb_dims a) (a_tag_vocab_size a) (a_tag_emb_dim a) 9 (3 * net_K n) n"
    using t assms(9) by (simp add: shaped_def)
  have loss: "ck_val_loss ck = - mean (map (?lp n) df)"
    using n(3) evaluate_loss_mean [OF k assms(10) mdn_batch_loss_mean [OF s assms(11)], of erf] nth_rows [of "\<lambda>r. - ?lp n r" df]
    by (simp add: mean_of_uminus)
  note col = collect_mdn [OF assms(10,11) s, of erf]
  let ?p = "\<lparr>pr_head = map (mdn_row_of erf n) df, pr_log_prob = map (?lp n) df, pr_log_pp = map o_log_payprice df,
      pr_pp = map o_payprice df, pr_bid = map o_bidding_price df\<rparr>"
  obtain ev where ev: "eval_mdn erf ?p (ds_adv (BidDataset df)) pcts = Inr ev" "ev_nll ev = - mean (map (?lp n) df)"
    "ev_anlp ev = - mean (map2 (-) (map (?lp n) df) (map o_log_payprice df))"
    using eval_mdn_total [of ?p erf "ds_adv (BidDataset df)" pcts] assms(10) by (auto simp: preds_ok_def)
  have "ev_anlp ev = ck_val_loss ck + mean (map o_log_payprice df)"
    unfolding ev(3) loss map2_map_map by (simp add: mean_def sum_list_subtractf diff_divide_distrib)
  then show ?thesis
    using col ev(1,2) n(2) loss by (simp add: evaluate_main_def)
qed

theorem mixture_evaluation_reports_training_loss_witness:
  "\<exists>n0 st ck ev l. main_train still_step (mdn_loss_at (\<lambda>_. 0) n0) (\<lambda>_. [0]) (demo_mdn_args\<lparr>ta_sigma_floor := None\<rparr>) demo_cfg
      (BidDataset [demo_out 1 [] 5]) (BidDataset [demo_out 2 [] 7]) (params_of n0) () = Inr st \<and> ts_ckpt st = Some ck \<and>
    evaluate_main (\<lambda>_. 0) demo_init demo_arch (ck_config ck) (saved_state n0 (ck_full ck)) (BidDataset [demo_out 2 [] 7]) True False [5, 50] =
      Some (Inr (ev, l)) \<and> ev_nll ev = ck_val_loss ck"
proof -
  let ?args = "demo_mdn_args\<lparr>ta_sigma_floor := None\<rparr>"
  have c: "parse_hidden ?args demo_cfg = Inr [512]" "ta_is_mdn ?args" "ta_epochs ?args = Some 1" "ta_batch_size ?args = Some 1"
    "6 = arg_or (ta_K ?args) (tc_n_components demo_cfg)" "1/20 = used_sigma_floor ?args demo_cfg"
    by (simp_all add: demo_mdn_args_def parse_hidden_def demo_args_def demo_cfg_def arg_or_def used_sigma_floor_def)
  obtain n0 :: mdn_net and st ck where run: "shaped demo_arch [512] (3 * net_K n0) n0" "net_K n0 = 6" "net_sigma_floor n0 = 1/20"
    "main_train still_step (mdn_loss_at (\<lambda>_. 0) n0) (\<lambda>_. [0]) ?args demo_cfg
      (BidDataset [demo_out 1 [] 5]) (BidDataset [demo_out 2 [] 7]) (params_of n0) () = Inr st" "ts_ckpt st = Some ck"
    using demo_mdn_run [OF c(3,4,1), of "1/20"] by blast
  have a: "a_vocab_sizes demo_arch = [(City, 3)]" "a_tag_vocab_size demo_arch = 5" "a_num_continuous demo_arch = 9"
    by (simp_all add: demo_arch_def)
  have rows: "\<forall>r \<in> set [demo_out 2 [] 7]. row_fits (a_vocab_sizes demo_arch) (a_tag_vocab_size demo_arch) r"
    using demo_fits by (simp add: a)
  show ?thesis
    using mixture_evaluation_reports_training_loss [OF demo_buildable still_keeps c(2,1) run(1) run(2) [unfolded c(5)] run(3) [unfolded c(6)]
      _ a(3) _ rows run(4,5), of True False "[5, 50]"] run(4,5) by fastforce
qed

end
