(* ===== verification/Scoring.thy ===== *)
theory Scoring
  imports Pipeline Reports
begin

text \<open>
  \<open>eval_ckpts_batch.py\<close> from the checkpoint files on: its own loader, and its agreement with \<open>evaluate.py\<close> on
  every checkpoint, whether it can be loaded or not.
\<close>

section \<open>Loading and scoring\<close>

text \<open>\<open>load_model\<close> of the batch, with the width that \<open>main\<close> takes from the stored configuration.\<close>

definition load_scored :: "init \<Rightarrow> 'f arch \<Rightarrow> net_config \<Rightarrow> state \<Rightarrow> scored_net res" where
  "load_scored init a cfg sd =
     (if c_is_mdn cfg
      then res_bind (new_mdn init a cfg) (\<lambda>m. res_bind (load_net sd m) (\<lambda>n. Inr (MdnNet n)))
      else res_bind (new_bins init a cfg) (\<lambda>m. res_bind (load_net sd m) (\<lambda>n. Inr (BinsNet n (the (c_num_bins cfg))))))"

definition score_file :: "(real \<Rightarrow> real) \<Rightarrow> init \<Rightarrow> bid_dataset \<Rightarrow> string \<Rightarrow> 'f arch \<Rightarrow> net_config \<Rightarrow> state
    \<Rightarrow> (batch_metrics \<times> saved_preds) res option" where
  "score_file erf init ds ck_path a cfg sd =
     (case load_scored init a cfg sd of Inl e \<Rightarrow> Some (Inl e) | Inr m \<Rightarrow> score_ckpt erf ds ck_path m)"

section \<open>Agreement with the evaluation\<close>

definition same_scores :: "batch_metrics \<Rightarrow> eval_result \<Rightarrow> bool" where
  "same_scores m ev \<longleftrightarrow> bm_anlp m = ev_anlp ev \<and> bm_ks m = ev_ks ev \<and> bm_r150 m = ev_regret_v150 ev \<and> bm_rvb m = ev_regret_vbid ev"

lemma bins_same_scores:
  assumes "preds_ok d" and "0 < nb" and "pr_pp d = ds_pp ds" "pr_bid d = ds_bid ds" "pr_log_pp d = ds_log_pp ds"
  shows "\<exists>m ev. metrics_bins nb name (pr_head d, pr_log_prob d) ds = Inr (m, SavedBins d (ds_adv ds)) \<and>
    eval_bins nb d (ds_adv ds) pcts = Inr ev \<and> same_scores m ev"
proof -
  have d: "\<lparr>pr_head = pr_head d, pr_log_prob = pr_log_prob d, pr_log_pp = ds_log_pp ds, pr_pp = ds_pp ds, pr_bid = ds_bid ds\<rparr> = d"
    using assms(3-5) by simp
  have len: "length (ds_pp ds) = length (pr_head d)" "length (ds_bid ds) = length (pr_head d)" and ne: "pr_head d \<noteq> []"
    using assms by (simp_all add: preds_ok_def)
  have "compute_pit_bins d \<noteq> []" using assms(1) by (auto simp: compute_pit_bins_def preds_ok_def zip_eq_Nil_iff)
  then obtain ks where ks: "ks_statistic (compute_pit_bins d) = Inr ks" using ks_total by blast
  have b: "(0 :: nat) < 8192" by simp
  note z = preds_zip_nonempty [OF assms(1)]
  note g = unchunked_bins(1) [OF assms(2) b z]
  obtain x y where n: "regret_bins_newton nb d (VNumber 150) 8192 = Inr x" "regret_bins_newton nb d VBidding 8192 = Inr y"
    using bins_regrets_ok [OF assms(1,2)] by metis
  note m = metrics_of_eq [OF grid_bins_rows.rowwise_axioms grid_chunk_bins_eq [OF assms(2)] ne len]
  show ?thesis
    unfolding metrics_bins_def prod.case Let_def d m ks eval_bins_def regret_metrics_bins_grid_def regret_of_def n
    using g [of "VNumber 150"] g [of VBidding] by (simp add: grid_chunk_bins_eq [OF assms(2)] spec_values_def assms(3,4) same_scores_def mean_regret_of_def)
qed

lemma mdn_same_scores:
  assumes "preds_ok d" and "pr_log_pp d \<noteq> []" and "pr_pp d = ds_pp ds" "pr_bid d = ds_bid ds" "pr_log_pp d = ds_log_pp ds"
  shows "\<exists>m ev. metrics_mdn erf name (pr_head d, pr_log_prob d) ds = Inr (m, SavedMdn d (ds_adv ds)) \<and>
    eval_mdn erf d (ds_adv ds) pcts = Inr ev \<and> same_scores m ev"
proof -
  have d: "\<lparr>pr_head = pr_head d, pr_log_prob = pr_log_prob d, pr_log_pp = ds_log_pp ds, pr_pp = ds_pp ds, pr_bid = ds_bid ds\<rparr> = d"
    using assms(3-5) by simp
  have len: "length (ds_pp ds) = length (pr_head d)" "length (ds_bid ds) = length (pr_head d)" and ne: "pr_head d \<noteq> []"
    using assms by (simp_all add: preds_ok_def)
  have "compute_pit_mdn erf d \<noteq> []" using assms(1,2) by (auto simp: compute_pit_mdn_def preds_ok_def zip_eq_Nil_iff)
  then obtain ks where ks: "ks_statistic (compute_pit_mdn erf d) = Inr ks" using ks_total by blast
  have b: "(0 :: nat) < 8192" and c: "(0 :: nat) < 500" by simp_all
  note z = preds_zip_nonempty [OF assms(1)]
  note g = unchunked_mdn(1) [OF c b z]
  obtain x y where n: "regret_metrics_mdn_newton erf d (VNumber 150) 8192 300 = Inr x" "regret_metrics_mdn_newton erf d VBidding 8192 300 = Inr y"
    using mdn_regrets_ok(2) [OF assms(1)] by metis
  note m = metrics_of_eq [OF grid_mdn_rows.rowwise_axioms grid_chunk_mdn_eq [OF c] ne len]
  show ?thesis
    unfolding metrics_mdn_def prod.case Let_def d m ks eval_mdn_def regret_metrics_mdn_grid_def regret_of_def n
    using g [of erf 300 "VNumber 150"] g [of erf 300 VBidding] by (simp add: grid_chunk_mdn_eq [OF c] spec_values_def assms(3-5) same_scores_def mean_regret_of_def split_def)
qed

text \<open>The file that the batch saves and the one that \<open>evaluate.py\<close> saves, column by column.\<close>

definition same_columns :: "'h preds \<Rightarrow> string list \<Rightarrow> light \<Rightarrow> bool" where
  "same_columns d adv l \<longleftrightarrow> li_log_prob l = pr_log_prob d \<and> li_log_pp l = pr_log_pp d \<and> li_pp l = pr_pp d \<and>
     li_bid l = pr_bid d \<and> li_adv l = adv"

definition same_file :: "saved_preds \<Rightarrow> light \<Rightarrow> bool" where
  "same_file f l = (case f of
     SavedMdn d adv \<Rightarrow> li_heads l = MdnHeads (pr_head d) \<and> same_columns d adv l
   | SavedBins d adv \<Rightarrow> li_heads l = BinsHeads (pr_head d) \<and> same_columns d adv l)"

lemma load_scored_eq:
  "load_scored init a cfg sd =
    res_bind (load_model init a cfg sd) (\<lambda>m. Inr (case m of Inl n \<Rightarrow> MdnNet n | Inr n \<Rightarrow> BinsNet n (the (c_num_bins cfg))))"
  by (simp add: load_scored_def load_model_def res_bind_assoc)

lemma load_model_bins:
  assumes "buildable init a" and "state_ok sd" and "load_model init a cfg sd = Inr (Inr n)"
  shows "\<exists>nb. c_num_bins cfg = Some nb \<and> shaped a (c_hidden cfg) nb n"
proof -
  obtain n1 where n1: "new_bins init a cfg = Inr n1" "load_net sd n1 = Inr n"
    using assms(3) by (auto simp: load_model_def res_bind_Inr_iff split: if_splits)
  then obtain nb where nb: "c_num_bins cfg = Some nb" by (auto simp: new_bins_def split: option.splits)
  then have "shaped a (c_hidden cfg) nb n1" using new_bins_shaped [OF assms(1) nb] n1(1) by auto
  then show ?thesis using load_net_shaped [OF assms(2) _ n1(2)] nb by blast
qed

lemma load_model_mdn:
  assumes "buildable init a" and "state_ok sd" and "load_model init a cfg sd = Inr (Inl n)"
  shows "shaped a (c_hidden cfg) (3 * net_K n) n"
proof -
  obtain n1 where n1: "new_mdn init a cfg = Inr n1" "load_net sd n1 = Inr n"
    using assms(3) by (auto simp: load_model_def res_bind_Inr_iff split: if_splits)
  then obtain K sf where k: "c_K cfg = Some K" "c_sigma_floor cfg = Some sf"
    by (auto simp: new_mdn_def split: option.splits)
  have s: "shaped a (c_hidden cfg) (3 * K) n1 \<and> net_K n1 = K" using new_mdn_shaped [OF assms(1) k] n1(1) by auto
  then have "shaped a (c_hidden cfg) (3 * K) n \<and> network.more n = network.more n1"
    using load_net_shaped [OF assms(2) _ n1(2)] by blast
  moreover from this s have "net_K n = K" by (cases n; cases n1) simp
  ultimately show ?thesis by simp
qed

text \<open>
  C25: The batch and \<open>evaluate.py\<close> agree on every checkpoint file of whole tensors: either both end in the
  same exception, or the printed scores are those of the report and both save the same predictions.
\<close>

theorem batch_agrees_with_evaluation:
  assumes "buildable init a" and "state_ok sd" and "a_num_continuous a = 9" and "c_num_bins cfg \<noteq> Some 0"
    and "df \<noteq> []" and "\<forall>r \<in> set df. row_fits (a_vocab_sizes a) (a_tag_vocab_size a) r"
  shows "(\<exists>e. score_file erf init (BidDataset df) p a cfg sd = Some (Inl e) \<and>
      evaluate_main erf init a cfg sd (BidDataset df) True True pcts = Some (Inl e) \<and> load_model init a cfg sd = Inl e) \<or>
    (\<exists>m f ev l. score_file erf init (BidDataset df) p a cfg sd = Some (Inr (m, f)) \<and>
      evaluate_main erf init a cfg sd (BidDataset df) True True pcts = Some (Inr (ev, Some l)) \<and> same_scores m ev \<and> same_file f l)"
proof (cases "load_model init a cfg sd")
  case (Inl e)
  then show ?thesis by (simp add: score_file_def load_scored_eq evaluate_main_def)
next
  case (Inr loaded)
  let ?ds = "BidDataset df" and ?name = "path_basename (path_dirname p)"
  have cols: "pr_pp d = ds_pp ?ds" "pr_bid d = ds_bid ?ds" "pr_log_pp d = ds_log_pp ?ds" "preds_ok d" "pr_log_pp d \<noteq> []"
    if "d = \<lparr>pr_head = map h df, pr_log_prob = lp, pr_log_pp = map o_log_payprice df, pr_pp = map o_payprice df, pr_bid = map o_bidding_price df\<rparr>"
    for d :: "'h preds" and h lp
    using assms(5) by (simp_all add: that BidDataset_def preds_ok_def)
  show ?thesis
  proof (cases loaded)
    case (Inl n)
    have "net_shape (a_vocab_sizes a) (a_emb_dims a) (a_tag_vocab_size a) (a_tag_emb_dim a) 9 (3 * net_K n) n"
      using load_model_mdn [OF assms(1,2)] Inr Inl assms(3) by (simp add: shaped_def)
    from collect_mdn [OF assms(5,6) this, of erf] obtain d where d: "collect_predictions (mdn_batch_out erf n) ?ds 8192 = Some (Inr d)"
      and c: "pr_pp d = ds_pp ?ds" "pr_bid d = ds_bid ?ds" "pr_log_pp d = ds_log_pp ?ds" "preds_ok d" "pr_log_pp d \<noteq> []"
      using cols [OF refl] by blast
    obtain m ev where "metrics_mdn erf ?name (pr_head d, pr_log_prob d) ?ds = Inr (m, SavedMdn d (ds_adv ?ds))"
      "eval_mdn erf d (ds_adv ?ds) pcts = Inr ev" "same_scores m ev"
      using mdn_same_scores [OF c(4,5,1,2,3)] by blast
    then show ?thesis
      using d collect_heads_eq [OF d] \<open>load_model init a cfg sd = Inr loaded\<close> Inl
      by (simp add: score_file_def load_scored_eq evaluate_main_def score_ckpt_def same_file_def same_columns_def light_of_def)
  next
    case (Inr n)
    obtain nb where nb: "c_num_bins cfg = Some nb" "shaped a (c_hidden cfg) nb n"
      using load_model_bins [OF assms(1,2)] \<open>load_model init a cfg sd = Inr loaded\<close> Inr by blast
    then have pos: "0 < nb" using assms(4) by simp
    have "net_shape (a_vocab_sizes a) (a_emb_dims a) (a_tag_vocab_size a) (a_tag_emb_dim a) 9 nb n"
      using nb(2) assms(3) by (simp add: shaped_def)
    from collect_bins [OF assms(5,6) this, of erf] obtain d where d: "collect_predictions (bins_batch_out erf n nb) ?ds 8192 = Some (Inr d)"
      and c: "pr_pp d = ds_pp ?ds" "pr_bid d = ds_bid ?ds" "pr_log_pp d = ds_log_pp ?ds" "preds_ok d"
      using cols [OF refl] by blast
    obtain m ev where "metrics_bins nb ?name (pr_head d, pr_log_prob d) ?ds = Inr (m, SavedBins d (ds_adv ?ds))"
      "eval_bins nb d (ds_adv ?ds) pcts = Inr ev" "same_scores m ev"
      using bins_same_scores [OF c(4) pos c(1,2,3)] by blast
    then show ?thesis
      using d collect_heads_eq [OF d] \<open>load_model init a cfg sd = Inr loaded\<close> Inr nb(1)
      by (simp add: score_file_def load_scored_eq evaluate_main_def score_ckpt_def same_file_def same_columns_def light_of_def)
  qed
qed

theorem batch_agrees_with_evaluation_witness:
  "\<exists>sd m f ev l. score_file (\<lambda>_. 0) demo_init (BidDataset [demo_out 1 [] 5]) ''a/best.pt'' demo_arch (ckpt_config demo_bins_args demo_cfg [512]) sd =
      Some (Inr (m, f)) \<and>
    evaluate_main (\<lambda>_. 0) demo_init demo_arch (ckpt_config demo_bins_args demo_cfg [512]) sd (BidDataset [demo_out 1 [] 5]) True True [5, 50] =
      Some (Inr (ev, Some l)) \<and> same_scores m ev \<and> same_file f l"
proof -
  let ?cfg = "ckpt_config demo_bins_args demo_cfg [512]"
  have c: "c_num_bins ?cfg = Some 200" "\<not> c_is_mdn ?cfg"
    by (simp_all add: demo_bins_args_def ckpt_config_def demo_args_def demo_cfg_def arg_or_def)
  obtain n where n: "new_bins demo_init demo_arch ?cfg = Inr n" "shaped demo_arch (c_hidden ?cfg) 200 n"
    using new_bins_shaped [OF demo_buildable c(1)] by blast
  have load: "load_model demo_init demo_arch ?cfg (net_state n) = Inr (Inr n)"
    using load_state_shaped [OF n(2) n(2) refl] n(1) c(2) by (simp add: load_model_def)
  have sd: "state_ok (net_state n)" using shaped_like [OF n(2) n(2)] by (simp add: net_state_ok)
  have a: "a_vocab_sizes demo_arch = [(City, 3)]" "a_tag_vocab_size demo_arch = 5" "a_num_continuous demo_arch = 9"
    by (simp_all add: demo_arch_def)
  have rows: "\<forall>r \<in> set [demo_out 1 [] 5]. row_fits (a_vocab_sizes demo_arch) (a_tag_vocab_size demo_arch) r"
    using demo_fits by (simp add: a)
  have "c_num_bins ?cfg \<noteq> Some 0" "[demo_out 1 [] 5] \<noteq> []" by (simp_all add: c(1))
  from batch_agrees_with_evaluation [OF demo_buildable sd a(3) this rows, of "\<lambda>_. 0" "''a/best.pt''" "[5, 50]"] load
  show ?thesis by (intro exI [of _ "net_state n"]) auto
qed

end
