(* ===== verification/Spec2Isabelle.thy ===== *)
theory Spec2Isabelle
  imports Retrainer Backtest Search Boosting Calibrate Sweep Scoring
begin

text \<open>
  Verification of the Python side of the Ads-Bidding-Optimizer, a real-time-bidding system for display
  advertising: \<open>src/rtb-bid-model/src\<close> (feature extraction, datasets, price networks, training, bid
  optimization, evaluation, export, backtest), its \<open>experiments\<close> and \<open>src/retrainer/retrain.py\<close>.

  How the program works. \<open>features.py\<close> parses logs of won auctions, extracts features and splits them into
  training, validation and test frames, fitting value encoders and scaling statistics on the training
  rows. \<open>dataset.py\<close> packs a frame into tensors and iterates over batches. \<open>model.py\<close> maps a batch to
  a distribution of the clearing price: a Gaussian mixture of its logarithm, or probabilities of integer
  price bins. \<open>train.py\<close> minimises \<open>loss.py\<close> with averaged weights and early stopping. \<open>bid_optimizer.py\<close>
  turns a distribution \<open>F\<close> and a value \<open>V\<close> into the bid maximising \<open>(V - b) * F(b)\<close> and measures regret
  against the oracle bid. \<open>evaluate.py\<close> reports likelihood, calibration and regret; \<open>backtest.py\<close> replays
  bidding strategies. \<open>export_onnx.py\<close> writes the feature configuration with which the serving engine
  logs outcome records and the retrainer encodes them back, fine-tunes the network on a sliding window
  and replaces the exported model. The experiments convert predictions to common bins, average them,
  search for the weights of the average, play auctions under a budget, train lists of further networks and
  quantile models of gradient boosting, and evaluate and calibrate what was saved.

  Theories, and what they model.

    \<^item> \<open>Prelude\<close>: errors and results (\<open>py_error\<close>, \<open>'a res\<close>), \<open>ext\<close> for values that start at \<open>inf\<close>, chunked
      loops (\<open>chunk_spans_from\<close>, \<open>slice\<close>) and the locale \<open>rowwise\<close> of operations for which chunking does not
      matter. \<open>Arrays\<close>: cumulative sums, argmax (locale \<open>first_max\<close>), softmax, and the locale \<open>price_dist\<close> of
      the contract between networks and optimizers. \<open>PyStrings\<close>, \<open>Calendar\<close>: \<open>split\<close>, \<open>strip\<close>, \<open>int\<close>, \<open>str\<close>
      and weekdays.
    \<^item> \<open>Loss\<close> (\<open>loss.py\<close>), \<open>BidOptimizer\<close> (\<open>bid_optimizer.py\<close>): every function, for one row and for batches.
    \<^item> \<open>Encoder\<close> (encoders of \<open>features.py\<close>, \<open>build_vocab_sizes\<close>), \<open>Features\<close> (parsing, feature extraction and
      the three passes of \<open>main\<close> over a store of intermediate frames).
    \<^item> \<open>Dataset\<close> (\<open>dataset.py\<close>, \<open>experiments/dataset_aug.py\<close>): tensors, batch iterator.
    \<^item> \<open>Model\<close> (\<open>model.py\<close>, \<open>experiments/model_multi.py\<close>, \<open>BinsForExport\<close>): constructors and evaluation-mode
      forward passes, the layers written out.
    \<^item> \<open>Train\<close> (\<open>train.py\<close>): averaged weights, schedule, validation loss, the epoch loop as a state machine.
    \<^item> \<open>Evaluate\<close> (\<open>evaluate.py\<close>), \<open>Backtest\<close> (\<open>backtest.py\<close>): predictions, PIT, KS statistic, coverage, regret
      drivers, reports; strategies and accumulators.
    \<^item> \<open>Checkpoint\<close> (\<open>load_model\<close> of \<open>evaluate.py\<close> and \<open>retrain.py\<close>, \<open>export_onnx.py\<close>): the named tensors of a
      network, loading with \<open>strict=False\<close>, the three loaders. \<open>Pipeline\<close> (\<open>main\<close> of \<open>evaluate.py\<close>): from the
      checkpoint to the report and the saved predictions.
    \<^item> \<open>Outcome\<close> (\<open>export_onnx.py\<close>, \<open>retrain.py\<close>): feature configuration, encoding of outcome records, window,
      labels. \<open>Retrainer\<close> (\<open>retrain.py\<close>): a file system with faults, atomic export and status files,
      rounds (also with a log that cannot be read) and the endless loop, cut after any number of rounds.
    \<^item> \<open>Binning\<close> (\<open>budget_eval.py\<close>, \<open>bins_v2.py\<close>, \<open>eval_bins_v2.py\<close>, \<open>ens_search.py\<close>): rows over integer bins.
      \<open>Budget\<close> (\<open>budget_eval.py\<close>, \<open>budget_naive.py\<close>), \<open>Ensemble\<close> (\<open>ensemble.py\<close>, \<open>budget_ensemble.py\<close>), \<open>Search\<close>
      (\<open>ens_search.py\<close>, \<open>ens_search2.py\<close>, \<open>ens_search3.py\<close>).
    \<^item> \<open>Reports\<close> (\<open>eval_preds.py\<close>, \<open>eval_ckpts_batch.py\<close>): scores of saved predictions and of lists of checkpoints;
      \<open>Scoring\<close>: the batch from its checkpoint files on.
      \<open>Quantiles\<close> (\<open>eval_bins_v2.py\<close>, \<open>evaluate_lgbm.py\<close>, tables of \<open>lgbm_eval.py\<close>): reports over tables of
      distribution functions, the two inversions of quantile curves. \<open>Boosting\<close> (\<open>lgbm_baseline.py\<close>,
      \<open>lgbm_eval.py\<close>, \<open>lgbm_reg.py\<close>): one model per quantile level in a directory, resumed runs.
      \<open>Calibrate\<close> (\<open>calibrate.py\<close>, \<open>calibrate_temp.py\<close>). \<open>Sweep\<close> (\<open>mdn_sweep.py\<close>, \<open>bins_v2.py\<close>): lists of training
      runs; in \<open>mdn_sweep.py\<close> over shared generators, log and files, with a fault at any write.

  What the lemmas show.

    \<^item> Optimizers: grid bids are optimal, Newton bids at least as good as every start and less than one fen
      better than the grid; where the mixture grid overbids.
    \<^item> Data: round trips of the encoders, the split and the statistics fitted on training rows only, codes
      in range, each row in exactly one batch, termination of the batch iterator.
    \<^item> Networks: every encoded row passes the network without a failing lookup and gives a proper
      distribution; padding and batch sizes do not matter.
    \<^item> Training: the logged losses of a run are a run of an abstract early-stopping machine, which ends when it
      stops; checkpoints hold the better weights.
    \<^item> Checkpoints: loading what was saved gives the network back, in every script; the trained network is the
      evaluated one, and \<open>evaluate.py\<close> reports on the validation frame the loss that \<open>train.py\<close> stored; what
      happens to mixtures with another floor and to checkpoints of other names; \<open>eval_ckpts_batch.py\<close> agrees
      with \<open>evaluate.py\<close> on every checkpoint.
    \<^item> Reports: ranges and calibration bounds, chunk sizes do not matter, profit and regret account for the
      oracle profit; budgets are kept.
    \<^item> Saved predictions: the scripts that score them agree with \<open>evaluate.py\<close> and with each other; the
      looped and the vectorised inversion of quantile curves agree and invert the curves; a stopped
      baseline resumes, and its files are found again; calibration follows the fitted map, and temperatures
      are the best of their grid for the validation rows.
    \<^item> Sweeps: exported weights attain the stored loss; in one script seeding isolates the runs from the
      generators they share and a failing run leaves at most its log line and a torn file of its own, in the
      other the first failure ends the sweep; the batch that \<open>bins_v2.py\<close> skips.
    \<^item> Searches: the refinement is a chain of improving sweeps that ends after the last one or in a local
      optimum; agreement of the three scripts, and the
      cache collision.
    \<^item> Retrainer: a logged auction is encoded as its log row was; readers only ever see complete files, under
      any interleaving of steps and stops; counters and provenance; recovery after faults; the status that a
      failed round leaves stale.

  Interfaces as locales, each interpreted on the definitions of the model: \<open>rowwise\<close> (all chunked drivers),
  \<open>first_max\<close> (argmax), \<open>price_dist\<close> (softmax, exported network, binned mixtures and quantiles), and
  the file contract \<open>atomic_write\<close> (model and status file).

  Modelling choices. Floats are reals: formulas are kept, rounding, NaN and infinities are not modelled;
  half-precision arithmetic and devices disappear. Raised exceptions are values of \<open>'a res\<close>, one constructor
  for each class the code can raise; iterators that may not stop are \<open>partial_function (option)\<close>. Random
  permutations, draws and initial weights, the error function, the optimizer step (autograd, AdamW, mixed
  precision), pandas' number and date parsing, LightGBM, isotonic regression, the inference session and file
  contents are parameters; what the properties need of them (for example \<open>erf_like\<close>: monotone with values in [-1, 1]) is a named hypothesis
  with a witness. Loops with a fixed number of rounds (Newton steps, sweeps of the search) recurse on that
  number, all other recursion is on the data or on the rows left, so no fuel is needed.

  Not modelled: values beyond the 32-bit integers that \<open>features.py\<close> casts to, whose cast is not specified, and
  the broadcasting of one-element value tensors in \<open>bid_optimizer.py\<close>; console output, argument parsing, YAML and the bytes of pickle files (a checkpoint is its
  configuration and its list of tensors), figures and tables; gradient computation and the training of LightGBM; \<open>quick_test_regret\<close> of
  \<open>mdn_sweep.py\<close>, which nothing calls; the other languages of the repository (Go engine, C++ bidder,
  dashboard), deployment and tests.
\<close>

end
